(* ===== verification/Prelude.thy ===== *)
theory Prelude
  imports Complex_Main "HOL-Library.Word"
begin

text \<open>
  Shared vocabulary of the development: run-time panics as values, bounded channels, cyclic lists,
  and the collections of simplification rules the component theories add to.
\<close>

named_theorems go_simps \<open>unfolding of Go results: panics, channels, state updates\<close>
named_theorems inv_intros \<open>preservation of component invariants\<close>

section \<open>Panics and Go results\<close>

text \<open>
  A Go operation that can panic at run time returns a sum: the panic on the left, the ordinary
  result on the right. A Go \<open>error\<close> return is not a panic: it is part of the ordinary result.
\<close>

datatype go_panic =
    IndexOutOfRange
  | SliceBounds
  | MakeSliceLen
  | NilDereference
  | NilMapWrite
  | CloseOfClosedChannel
  | SendOnClosedChannel
  | TypeAssertion
  | NegativeWaitGroup

type_synonym 'a go = "go_panic + 'a"

definition go_bind :: "'a go \<Rightarrow> ('a \<Rightarrow> 'b go) \<Rightarrow> 'b go" where
  "go_bind m f = (case m of Inl p \<Rightarrow> Inl p | Inr x \<Rightarrow> f x)"

lemma go_bind_simps [simp, go_simps]:
  "go_bind (Inl p) f = Inl p"
  "go_bind (Inr x) f = f x"
  by (simp_all add: go_bind_def)

lemma go_bind_Inr_iff: "go_bind m f = Inr y \<longleftrightarrow> (\<exists>x. m = Inr x \<and> f x = Inr y)"
  by (cases m) auto

lemma go_bind_Inl_iff:
  "go_bind m f = Inl p \<longleftrightarrow> m = Inl p \<or> (\<exists>x. m = Inr x \<and> f x = Inl p)"
  by (cases m) auto

lemma go_bind_InrE: "go_bind m f = Inr y \<Longrightarrow> (\<And>x. m = Inr x \<Longrightarrow> f x = Inr y \<Longrightarrow> P) \<Longrightarrow> P"
  by (auto simp: go_bind_Inr_iff)

lemma go_bind_InlE: "go_bind m f = Inl p \<Longrightarrow> (m = Inl p \<Longrightarrow> P) \<Longrightarrow>
    (\<And>x. m = Inr x \<Longrightarrow> f x = Inl p \<Longrightarrow> P) \<Longrightarrow> P"
  by (auto simp: go_bind_Inl_iff)

text \<open>Reading a slice at an index: a panic when the index is out of range.\<close>

definition go_index :: "'a list \<Rightarrow> int \<Rightarrow> 'a go" where
  "go_index xs i =
     (if 0 \<le> i \<and> i < int (length xs) then Inr (xs ! nat i) else Inl IndexOutOfRange)"

lemma go_index_nat [simp, go_simps]:
  "i < length xs \<Longrightarrow> go_index xs (int i) = Inr (xs ! i)"
  by (simp add: go_index_def)

text \<open>Slicing a string or slice, and Go's \<open>strings.Index\<close> for one byte (\<open>-1\<close> when absent).\<close>

definition go_slice_to :: "'a list \<Rightarrow> int \<Rightarrow> 'a list go" where
  "go_slice_to xs i =
     (if 0 \<le> i \<and> i \<le> int (length xs) then Inr (take (nat i) xs) else Inl SliceBounds)"

definition go_slice_from :: "'a list \<Rightarrow> int \<Rightarrow> 'a list go" where
  "go_slice_from xs i =
     (if 0 \<le> i \<and> i \<le> int (length xs) then Inr (drop (nat i) xs) else Inl SliceBounds)"

text \<open>Go's \<open>copy\<close>: the overlap of the two lengths is copied.\<close>

definition go_copy :: "'a list \<Rightarrow> 'a list \<Rightarrow> 'a list" where
  "go_copy dst src = take (length dst) src @ drop (length src) dst"

lemma length_go_copy [simp]: "length (go_copy dst src) = length dst"
  by (simp add: go_copy_def)

lemma go_copy_long: "length dst \<le> length src \<Longrightarrow> go_copy dst src = take (length dst) src"
  by (simp add: go_copy_def)

lemma go_copy_short: "length src \<le> length dst \<Longrightarrow> go_copy dst src = src @ drop (length src) dst"
  by (simp add: go_copy_def)

fun index_of :: "'a \<Rightarrow> 'a list \<Rightarrow> int" where
  "index_of c [] = -1"
| "index_of c (x # xs) =
     (if x = c then 0 else let i = index_of c xs in if i < 0 then -1 else i + 1)"

lemma index_of_absent: "c \<notin> set xs \<Longrightarrow> index_of c xs = -1"
  by (induction xs) auto

lemma index_of_split: "c \<notin> set xs \<Longrightarrow> index_of c (xs @ c # ys) = int (length xs)"
  by (induction xs) (auto simp: Let_def)

text \<open>
  Code whose return is itself in question: \<open>None\<close> is "does not return" (an endless loop, or a
  channel operation that blocks), \<open>Some\<close> is a return, with a panic or a value.
\<close>

type_synonym 'a prog = "'a go option"

definition prog_bind :: "'a prog \<Rightarrow> ('a \<Rightarrow> 'b prog) \<Rightarrow> 'b prog" where
  "prog_bind m f = Option.bind m (\<lambda>r. case r of Inl p \<Rightarrow> Some (Inl p) | Inr x \<Rightarrow> f x)"

lemma prog_bind_simps [simp, go_simps]:
  "prog_bind None f = None"
  "prog_bind (Some (Inl p)) f = Some (Inl p)"
  "prog_bind (Some (Inr x)) f = f x"
  by (simp_all add: prog_bind_def)

lemma prog_bind_InrE:
  "prog_bind m f = Some (Inr y) \<Longrightarrow> (\<And>x. m = Some (Inr x) \<Longrightarrow> f x = Some (Inr y) \<Longrightarrow> P) \<Longrightarrow> P"
  by (cases m; cases "the m") auto

lemma prog_bind_InlE: "prog_bind m f = Some (Inl p) \<Longrightarrow> (m = Some (Inl p) \<Longrightarrow> P) \<Longrightarrow>
    (\<And>x. m = Some (Inr x) \<Longrightarrow> f x = Some (Inl p) \<Longrightarrow> P) \<Longrightarrow> P"
  by (cases m; cases "the m") auto

lemma prog_bind_mono [partial_function_mono]:
  assumes "mono_option B" and "\<And>y. mono_option (\<lambda>f. C y f)"
  shows "mono_option (\<lambda>f. prog_bind (B f) (\<lambda>y. C y f))"
  unfolding prog_bind_def
proof (rule bind_mono[OF assms(1)])
  fix r
  show "mono_option (\<lambda>f. case r of Inl p \<Rightarrow> Some (Inl p) | Inr x \<Rightarrow> C x f)"
    by (cases r) (simp_all add: option.const_mono assms(2))
qed

section \<open>Buffered channels\<close>

text \<open>
  A buffered channel of capacity \<open>c\<close> is the list of the values in it, oldest first. A send on a
  full channel blocks, which is the value \<open>None\<close>.
\<close>

definition chan_send :: "nat \<Rightarrow> 'a \<Rightarrow> 'a list \<Rightarrow> 'a list option" where
  "chan_send c x q = (if length q < c then Some (q @ [x]) else None)"

lemma chan_send_Some_iff:
  "chan_send c x q = Some q' \<longleftrightarrow> length q < c \<and> q' = q @ [x]"
  by (auto simp: chan_send_def)

lemma chan_send_bounded: "chan_send c x q = Some q' \<Longrightarrow> length q' \<le> c"
  by (auto simp: chan_send_def split: if_splits)

section \<open>Cyclic lists\<close>

text \<open>
  The list read cyclically from a position: the abstract value of every ring and round-robin index
  of the program.
\<close>

definition cycle_from :: "nat \<Rightarrow> nat \<Rightarrow> 'a list \<Rightarrow> 'a list" where
  "cycle_from p n xs = map (\<lambda>i. xs ! ((p + i) mod length xs)) [0..<n]"

lemma cycle_from_0 [simp]: "cycle_from p 0 xs = []"
  by (simp add: cycle_from_def)

lemma length_cycle_from [simp]: "length (cycle_from p n xs) = n"
  by (simp add: cycle_from_def)

lemma cycle_from_mod: "cycle_from (p mod length xs) n xs = cycle_from p n xs"
  by (simp add: cycle_from_def mod_add_left_eq)

lemma cycle_from_Suc:
  "cycle_from p (Suc n) xs = xs ! (p mod length xs) # cycle_from (Suc p) n xs"
  by (simp add: cycle_from_def upt_conv_Cons map_Suc_upt[symmetric] del: upt_Suc)

lemma cycle_from_full: "cycle_from p (length xs) xs = rotate p xs"
proof (cases "xs = []")
  case False
  then show ?thesis
    by (intro nth_equalityI) (simp_all add: cycle_from_def nth_rotate add.commute)
qed simp

lemma set_cycle_from_full: "set (cycle_from p (length xs) xs) = set xs"
  by (simp add: cycle_from_full)

lemma cycle_from_nth:
  "i < n \<Longrightarrow> cycle_from p n xs ! i = xs ! ((p + i) mod length xs)"
  by (simp add: cycle_from_def)

lemma rotate1_snoc_eq: "xs \<noteq> [] \<Longrightarrow> rotate1 xs = tl xs @ [hd xs]"
  by (cases xs) simp_all

lemma rotate_nth_0: "p < length xs \<Longrightarrow> hd (rotate p xs) = xs ! p"
  by (subst hd_rotate_conv_nth) auto

lemma rotate_split:
  "p \<le> length xs \<Longrightarrow> rotate p xs = drop p xs @ take p xs"
  by (cases "p = length xs") (auto simp: rotate_drop_take)

text \<open>Overwriting the oldest slot of a full ring drops the oldest entry and appends the new one.\<close>

lemma rotate_overwrite:
  assumes "s < length xs"
  shows "rotate (Suc s) (xs[s := x]) = tl (rotate s xs) @ [x]"
proof -
  have d: "drop s xs = xs ! s # drop (Suc s) xs"
    using assms by (rule Cons_nth_drop_Suc[symmetric])
  have "rotate (Suc s) (xs[s := x]) = drop (Suc s) xs @ take (Suc s) (xs[s := x])"
    using assms by (subst rotate_split) simp_all
  also have "take (Suc s) (xs[s := x]) = take s xs @ [x]"
    using assms by (simp add: take_Suc_conv_app_nth)
  finally show ?thesis
    using assms by (simp add: rotate_split d)
qed

lemma rotate_Suc_wrap:
  "length xs = n \<Longrightarrow> s < n \<Longrightarrow> rotate (if Suc s = n then 0 else Suc s) xs = rotate (Suc s) xs"
  by (cases "Suc s = n") (auto simp: rotate_conv_mod[of "Suc s"])

definition lastn :: "nat \<Rightarrow> 'a list \<Rightarrow> 'a list" where
  "lastn n xs = drop (length xs - n) xs"

lemma lastn_snoc_short: "length xs < n \<Longrightarrow> lastn n (xs @ [x]) = xs @ [x]"
  by (simp add: lastn_def)

lemma lastn_all [simp]: "length xs \<le> n \<Longrightarrow> lastn n xs = xs"
  by (simp add: lastn_def)

lemma length_lastn [simp]: "length (lastn n xs) = min n (length xs)"
  by (simp add: lastn_def)

lemma set_lastn: "set (lastn n xs) \<subseteq> set xs"
  by (simp add: lastn_def set_drop_subset)

lemma map_lastn: "map f (lastn n xs) = lastn n (map f xs)"
  by (simp add: lastn_def drop_map)

lemma distinct_lastn [intro]: "distinct xs \<Longrightarrow> distinct (lastn n xs)"
  by (simp add: lastn_def)

lemma lastn_absorb: "lastn n (lastn n xs @ ys) = lastn n (xs @ ys)"
proof (cases "length xs \<le> n")
  case False
  then have "lastn n xs @ ys = drop (length xs - n) (xs @ ys)" by (simp add: lastn_def)
  then have "lastn n (lastn n xs @ ys) = drop (length ys) (drop (length xs - n) (xs @ ys))"
    using False by (simp add: lastn_def)
  also have "\<dots> = drop (length ys + (length xs - n)) (xs @ ys)" by simp
  also have "\<dots> = lastn n (xs @ ys)"
    using False by (simp add: lastn_def add.commute)
  finally show ?thesis .
qed simp

text \<open>Decimal notation.\<close>

fun dec :: "nat \<Rightarrow> string" where
  "dec n = (if n < 10 then [char_of (48 + n)] else dec (n div 10) @ [char_of (48 + n mod 10)])"

declare dec.simps [simp del]

section \<open>Lists and maps\<close>

lemma map_filter_neq_id: "x \<notin> set xs \<Longrightarrow> filter (\<lambda>y. y \<noteq> x) xs = xs"
  by (induction xs) auto

lemma set_update_distinct_subset: "set (xs[i := x]) \<subseteq> insert x (set xs)"
  by (rule set_update_subset_insert)

lemma nth_upd: "xs[a := e] ! b = (if b = a \<and> a < length xs then e else xs ! b)"
  by (cases "a < length xs") (auto simp: nth_list_update list_update_beyond)

lemma find_Some_in_set: "find P xs = Some x \<Longrightarrow> x \<in> set xs \<and> P x"
  by (auto simp: find_Some_iff)

section \<open>Step systems\<close>

text \<open>
  The contract of a step relation with an invariant, and of one whose runs moreover end because every
  step makes a weight smaller. The components' step relations interpret them.
\<close>

locale step_system =
  fixes step :: "'s \<Rightarrow> 's \<Rightarrow> bool"
    and inv :: "'s \<Rightarrow> bool"
  assumes inv_step: "step s t \<Longrightarrow> inv s \<Longrightarrow> inv t"
begin

lemma inv_reach: "step\<^sup>*\<^sup>* s t \<Longrightarrow> inv s \<Longrightarrow> inv t"
  by (induction rule: rtranclp_induct) (auto intro: inv_step)

lemma always: "inv s \<Longrightarrow> (\<And>t. inv t \<Longrightarrow> P t) \<Longrightarrow> step\<^sup>*\<^sup>* s t \<Longrightarrow> P t"
  using inv_reach by blast

lemma final_satisfies:
  "inv s \<Longrightarrow> (\<And>t. inv t \<Longrightarrow> (\<forall>u. \<not> step t u) \<Longrightarrow> P t) \<Longrightarrow> step\<^sup>*\<^sup>* s t \<Longrightarrow> \<forall>u. \<not> step t u \<Longrightarrow> P t"
  using inv_reach by blast

end

locale ending_system = step_system +
  fixes weight :: "'s \<Rightarrow> nat"
  assumes weight_step: "step s t \<Longrightarrow> inv s \<Longrightarrow> weight t < weight s"
begin

lemma weight_reach: "step\<^sup>*\<^sup>* s t \<Longrightarrow> inv s \<Longrightarrow> weight t \<le> weight s"
proof (induction rule: rtranclp_induct)
  case (step t u)
  then have "inv t" using inv_reach by blast
  with step weight_step[of t u] show ?case by simp
qed simp

lemma run_length: "(step ^^ n) s t \<Longrightarrow> inv s \<Longrightarrow> n + weight t \<le> weight s"
proof (induction n arbitrary: t)
  case (Suc n)
  then obtain u where u: "(step ^^ n) s u" "step u t" by auto
  then have "inv u" using inv_reach[OF relpowp_imp_rtranclp] Suc.prems(2) by blast
  with u Suc.IH[of u] Suc.prems(2) weight_step[of u t] show ?case by simp
qed simp

lemma runs_end: "wf {(t, s). step s t \<and> inv s}"
  by (rule wf_subset[of "measure weight"]) (auto intro: weight_step)

lemma run_to_end: "inv s \<Longrightarrow> \<exists>t. step\<^sup>*\<^sup>* s t \<and> inv t \<and> (\<forall>u. \<not> step t u)"
proof (induction "weight s" arbitrary: s rule: less_induct)
  case less
  show ?case
  proof (cases "\<exists>u. step s u")
    case True
    then obtain u where u: "step s u" by blast
    with less.prems have "weight u < weight s" "inv u" using weight_step inv_step by blast+
    from less.hyps[OF this] u show ?thesis by (meson converse_rtranclp_into_rtranclp)
  qed (use less.prems in blast)
qed

end

text \<open>Where no number bounds the steps that are left, an order without infinite descent.\<close>

locale descending_system = step_system +
  fixes descent :: "'s rel"
  assumes descent_wf: "wf descent" and descent_step: "step s t \<Longrightarrow> inv s \<Longrightarrow> (t, s) \<in> descent"
begin

lemma no_infinite_run: "inv (g 0) \<Longrightarrow> \<not> (\<forall>i. step (g i) (g (Suc i)))"
proof
  assume i: "inv (g 0)" and run: "\<forall>i. step (g i) (g (Suc i))"
  have "inv (g k)" for k by (induction k) (use i run inv_step in blast)+
  then have "\<forall>k. (g (Suc k), g k) \<in> descent" using run descent_step by blast
  with descent_wf show False unfolding wf_iff_no_infinite_down_chain by blast
qed

lemma descends_to_end: "inv s \<Longrightarrow> \<exists>t. step\<^sup>*\<^sup>* s t \<and> inv t \<and> (\<forall>u. \<not> step t u)"
proof (induction s rule: wf_induct_rule[OF descent_wf])
  case (1 s)
  show ?case
  proof (cases "\<exists>u. step s u")
    case True
    then obtain u where u: "step s u" by blast
    with 1 have "\<exists>t. step\<^sup>*\<^sup>* u t \<and> inv t \<and> (\<forall>v. \<not> step t v)" using descent_step inv_step by blast
    with u show ?thesis by (meson converse_rtranclp_into_rtranclp)
  qed (use 1 in blast)
qed

end

sublocale ending_system \<subseteq> bounded: descending_system step inv "measure weight"
  by unfold_locales (auto intro: weight_step)

end
