(* ===== verification/Message.thy ===== *)
theory Message
  imports Prelude
begin

text \<open>
  The built-in message type of \<open>foundation/bus/bus/message.go\<close>. Byte slices are strings (lists of
  8-bit characters); the random identifier and the clock reading a constructor takes from its
  environment are arguments. What the JSON library makes of a
  message is an argument.
\<close>

type_synonym bytes = string

record message =
  msg_UUID :: string
  msg_ParentID :: string
  msg_ReplyTo :: string
  msg_Type :: string
  msg_Timestamp :: int
  msg_Data :: bytes

definition MsgTypeDefault :: string where
  "MsgTypeDefault = ''grav.default''"

definition msgTypePodFeedback :: string where
  "msgTypePodFeedback = ''grav.feedback''"

definition newMessage :: "string \<Rightarrow> int \<Rightarrow> string \<Rightarrow> string \<Rightarrow> bytes \<Rightarrow> message" where
  "newMessage uuid now msgType parentID data =
     \<lparr>msg_UUID = uuid, msg_ParentID = parentID, msg_ReplyTo = '''', msg_Type = msgType,
      msg_Timestamp = now, msg_Data = data\<rparr>"

definition NewMsg :: "string \<Rightarrow> int \<Rightarrow> string \<Rightarrow> bytes \<Rightarrow> message" where
  "NewMsg uuid now msgType data = newMessage uuid now msgType '''' data"

definition NewMsgWithParentID :: "string \<Rightarrow> int \<Rightarrow> string \<Rightarrow> string \<Rightarrow> bytes \<Rightarrow> message" where
  "NewMsgWithParentID uuid now msgType parentID data = newMessage uuid now msgType parentID data"

definition SetReplyTo :: "message \<Rightarrow> string \<Rightarrow> message" where
  "SetReplyTo m uuid = m\<lparr>msg_ReplyTo := uuid\<rparr>"

definition NewMsgReplyTo :: "string \<Rightarrow> int \<Rightarrow> string \<Rightarrow> string \<Rightarrow> bytes \<Rightarrow> message" where
  "NewMsgReplyTo uuid now ticketUUID msgType data =
     SetReplyTo (newMessage uuid now msgType '''' data) ticketUUID"

lemmas message_defs = newMessage_def NewMsg_def NewMsgWithParentID_def SetReplyTo_def
  NewMsgReplyTo_def

lemma SetReplyTo_frame [simp]:
  "msg_UUID (SetReplyTo m u) = msg_UUID m"
  "msg_Type (SetReplyTo m u) = msg_Type m"
  "msg_ParentID (SetReplyTo m u) = msg_ParentID m"
  "msg_Data (SetReplyTo m u) = msg_Data m"
  "msg_ReplyTo (SetReplyTo m u) = u"
  by (simp_all add: SetReplyTo_def)

section \<open>Encoding\<close>

text \<open>
  The metadata, marshalled alone for a bridge, and the JSON library: \<open>marshal\<close> encodes and
  \<open>unmarshal\<close> decodes into a given value, leaving what the bytes do not mention.
\<close>

record msg_meta =
  meta_UUID :: string
  meta_ParentID :: string
  meta_ReplyTo :: string
  meta_MsgType :: string
  meta_Timestamp :: int

definition zero_meta :: msg_meta where
  "zero_meta = \<lparr>meta_UUID = '''', meta_ParentID = '''', meta_ReplyTo = '''', meta_MsgType = '''', meta_Timestamp = 0\<rparr>"

definition msg_Meta :: "message \<Rightarrow> msg_meta" where
  "msg_Meta m = \<lparr>meta_UUID = msg_UUID m, meta_ParentID = msg_ParentID m, meta_ReplyTo = msg_ReplyTo m,
     meta_MsgType = msg_Type m, meta_Timestamp = msg_Timestamp m\<rparr>"

definition message_of :: "msg_meta \<Rightarrow> bytes \<Rightarrow> message" where
  "message_of k data = \<lparr>msg_UUID = meta_UUID k, msg_ParentID = meta_ParentID k, msg_ReplyTo = meta_ReplyTo k,
     msg_Type = meta_MsgType k, msg_Timestamp = meta_Timestamp k, msg_Data = data\<rparr>"

lemma message_of_Meta [simp]: "message_of (msg_Meta m) (msg_Data m) = m"
  by (simp add: message_of_def msg_Meta_def)

lemma message_of_simps [simp]: "msg_Meta (message_of k data) = k" "msg_Data (message_of k data) = data"
  by (simp_all add: message_of_def msg_Meta_def)

definition MarshalMetadata :: "(msg_meta \<Rightarrow> bytes option) \<Rightarrow> message \<Rightarrow> bytes option" where
  "MarshalMetadata marshal m = marshal (msg_Meta m)"

definition UnmarshalMetadata :: "(bytes \<Rightarrow> msg_meta \<Rightarrow> msg_meta option) \<Rightarrow> bytes \<Rightarrow> message \<Rightarrow> message option" where
  "UnmarshalMetadata unmarshal b m = map_option (\<lambda>k. message_of k (msg_Data m)) (unmarshal b (msg_Meta m))"

definition Message_Marshal :: "(message \<Rightarrow> bytes option) \<Rightarrow> message \<Rightarrow> bytes option" where
  "Message_Marshal marshal m = marshal m"

definition Message_Unmarshal :: "(bytes \<Rightarrow> message \<Rightarrow> message option) \<Rightarrow> bytes \<Rightarrow> message \<Rightarrow> message option" where
  "Message_Unmarshal unmarshal b m = unmarshal b m"

definition MsgFromBytes :: "(bytes \<Rightarrow> message \<Rightarrow> message option) \<Rightarrow> bytes \<Rightarrow> message option" where
  "MsgFromBytes unmarshal b = Message_Unmarshal unmarshal b (message_of zero_meta '''')"

definition MsgFromDataAndMeta :: "(bytes \<Rightarrow> msg_meta \<Rightarrow> msg_meta option) \<Rightarrow> bytes \<Rightarrow> bytes \<Rightarrow> message option" where
  "MsgFromDataAndMeta unmarshal data metadata = UnmarshalMetadata unmarshal metadata (message_of zero_meta data)"

text \<open>The body of a request may fail to be read.\<close>

definition MsgFromRequest :: "(bytes \<Rightarrow> message \<Rightarrow> message option) \<Rightarrow> bytes option \<Rightarrow> message option" where
  "MsgFromRequest unmarshal body = Option.bind body (MsgFromBytes unmarshal)"

lemma meta_roundtrip:
  assumes "\<And>k k'. \<exists>j. marshal k = Some j \<and> unmarshal j k' = Some k"
  shows "\<exists>j. MarshalMetadata marshal m = Some j \<and> MsgFromDataAndMeta unmarshal (msg_Data m) j = Some m"
proof -
  from assms[of "msg_Meta m" zero_meta] obtain j where "marshal (msg_Meta m) = Some j" "unmarshal j zero_meta = Some (msg_Meta m)"
    by blast
  then show ?thesis by (simp add: MarshalMetadata_def MsgFromDataAndMeta_def UnmarshalMetadata_def)
qed

end
