(* ===== verification/MessageFilter.thy ===== *)
theory MessageFilter
  imports Message
begin

text \<open>
  The per-pod message filter of \<open>foundation/bus/bus/filter.go\<close>: two maps from a message's type and
  identifier to allow/deny, each with a default for keys it does not list.
\<close>

record message_filter =
  mf_UUIDMap :: "string \<rightharpoonup> bool"
  mf_UUIDInclusive :: bool
  mf_TypeMap :: "string \<rightharpoonup> bool"
  mf_TypeInclusive :: bool

definition newMessageFilter :: message_filter where
  "newMessageFilter =
     \<lparr>mf_UUIDMap = Map.empty, mf_UUIDInclusive = True,
      mf_TypeMap = Map.empty, mf_TypeInclusive = True\<rparr>"

definition filter_allow :: "message_filter \<Rightarrow> message \<Rightarrow> bool" where
  "filter_allow mf msg =
     (let (allowType, typeExists) =
            (case mf_TypeMap mf (msg_Type msg) of Some b \<Rightarrow> (b, True) | None \<Rightarrow> (False, False))
      in if typeExists \<and> \<not> allowType then False
         else if \<not> typeExists \<and> \<not> mf_TypeInclusive mf then False
         else
           (let (allowUUID, uuidExists) =
                  (case mf_UUIDMap mf (msg_UUID msg) of
                     Some b \<Rightarrow> (b, True) | None \<Rightarrow> (False, False))
            in if uuidExists \<and> \<not> allowUUID then False
               else if \<not> uuidExists \<and> \<not> mf_UUIDInclusive mf then False
               else True))"

definition FilterUUID :: "message_filter \<Rightarrow> string \<Rightarrow> bool \<Rightarrow> message_filter" where
  "FilterUUID mf uuid allow = mf\<lparr>mf_UUIDMap := (mf_UUIDMap mf)(uuid \<mapsto> allow)\<rparr>"

definition FilterType :: "message_filter \<Rightarrow> string \<Rightarrow> bool \<Rightarrow> message_filter" where
  "FilterType mf msgType allow = mf\<lparr>mf_TypeMap := (mf_TypeMap mf)(msgType \<mapsto> allow)\<rparr>"

section \<open>The rule the filter implements\<close>

text \<open>One map's verdict on a key: the listed value, or the map's default.\<close>

definition listed_or :: "bool \<Rightarrow> ('k \<rightharpoonup> bool) \<Rightarrow> 'k \<Rightarrow> bool" where
  "listed_or inclusive m k = (case m k of Some b \<Rightarrow> b | None \<Rightarrow> inclusive)"

lemma filter_allow_iff:
  "filter_allow mf msg \<longleftrightarrow>
     listed_or (mf_TypeInclusive mf) (mf_TypeMap mf) (msg_Type msg)
     \<and> listed_or (mf_UUIDInclusive mf) (mf_UUIDMap mf) (msg_UUID msg)"
  by (auto simp: filter_allow_def listed_or_def split: option.splits)

lemma listed_or_upd [simp]:
  "listed_or d (m(k \<mapsto> b)) k' = (if k' = k then b else listed_or d m k')"
  by (simp add: listed_or_def)

lemma listed_or_empty [simp]: "listed_or d Map.empty k = d"
  by (simp add: listed_or_def)

lemma filter_allow_new [simp]: "filter_allow newMessageFilter msg"
  by (simp add: filter_allow_iff newMessageFilter_def)

lemma filter_allow_FilterUUID:
  "filter_allow (FilterUUID mf uuid b) msg \<longleftrightarrow>
     (if msg_UUID msg = uuid
      then b \<and> listed_or (mf_TypeInclusive mf) (mf_TypeMap mf) (msg_Type msg)
      else filter_allow mf msg)"
  by (auto simp: filter_allow_iff FilterUUID_def)

end
