(* ===== verification/Pod.thy ===== *)
theory Pod
  imports MessageFilter
begin

text \<open>
  The pod of \<open>foundation/bus/bus/pod.go\<close>: the bus connection of one owner. Its two channels to the
  bus are lists; the messages on the feedback channel are recognised by the bus by pointer identity,
  so they are a datatype of their own. A callback is its verdict on a message: \<open>None\<close> for Go's nil
  error. The read and write locks make the modelled steps atomic; a send on a full channel blocks,
  which is \<open>None\<close> of the program type.
\<close>

section \<open>State\<close>

datatype feedback =
    podFeedbackMsgReplay
  | podFeedbackMsgSuccess
  | podFeedbackMsgDisconnect
  | FeedbackFailed message

definition defaultPodChanSize :: nat where
  "defaultPodChanSize = 128"

type_synonym MsgFunc = "message \<Rightarrow> string option"

record pod =
  pod_onFunc :: "MsgFunc option"
  pod_messageChan :: "message option list"
  pod_chanClosed :: bool
  pod_feedbackChan :: "feedback list"
  pod_filter :: message_filter
  pod_WantsReplay :: bool
  pod_replayDone :: bool
  pod_dead :: bool

definition newPod :: "bool \<Rightarrow> pod" where
  "newPod wantsReplay =
     \<lparr>pod_onFunc = None, pod_messageChan = [], pod_chanClosed = False, pod_feedbackChan = [],
      pod_filter = newMessageFilter, pod_WantsReplay = wantsReplay, pod_replayDone = False,
      pod_dead = False\<rparr>"

section \<open>Operations of the owner\<close>

definition pod_feedback :: "feedback \<Rightarrow> pod \<Rightarrow> pod prog" where
  "pod_feedback fb p =
     (case chan_send defaultPodChanSize fb (pod_feedbackChan p) of
        None \<Rightarrow> None
      | Some q \<Rightarrow> Some (Inr (p\<lparr>pod_feedbackChan := q\<rparr>)))"

text \<open>
  \<open>setOnFunc\<close> installs the callback, resets the filter and, once in the pod's life, asks the bus for
  a replay.
\<close>

definition pod_setOnFunc :: "MsgFunc option \<Rightarrow> pod \<Rightarrow> pod prog" where
  "pod_setOnFunc on p =
     (let p1 = p\<lparr>pod_filter := newMessageFilter, pod_onFunc := on\<rparr>
      in if on \<noteq> None \<and> \<not> pod_replayDone p1 then
           (let p2 = p1\<lparr>pod_replayDone := True\<rparr>
            in if pod_WantsReplay p2 then pod_feedback podFeedbackMsgReplay p2 else Some (Inr p2))
         else Some (Inr p1))"

definition Pod_On :: "MsgFunc option \<Rightarrow> pod \<Rightarrow> pod prog" where
  "Pod_On onFunc p = pod_setOnFunc onFunc p"

definition Pod_OnType :: "string \<Rightarrow> MsgFunc option \<Rightarrow> pod \<Rightarrow> pod prog" where
  "Pod_OnType msgType onFunc p =
     prog_bind (pod_setOnFunc onFunc p) (\<lambda>p1.
       let mf = FilterType (pod_filter p1) msgType True
       in Some (Inr (p1\<lparr>pod_filter := mf\<lparr>mf_TypeInclusive := False\<rparr>\<rparr>)))"

text \<open>
  \<open>Send\<close> answers a receipt (the message's identifier) and the message it put on the bus channel;
  nil from a dead pod. The bus channel is read by the bus loop and is the caller's concern.
\<close>

definition Pod_Send :: "message \<Rightarrow> pod \<Rightarrow> (string \<times> message) option \<times> pod" where
  "Pod_Send msg p =
     (if pod_dead p then (None, p)
      else (Some (msg_UUID msg, msg),
            p\<lparr>pod_filter := FilterUUID (pod_filter p) (msg_UUID msg) False\<rparr>))"

definition Pod_ReplyTo ::
    "message \<Rightarrow> message \<Rightarrow> pod \<Rightarrow> (string \<times> message) option \<times> pod" where
  "Pod_ReplyTo inReplyTo msg p = Pod_Send (SetReplyTo msg (msg_UUID inReplyTo)) p"

definition Pod_Disconnect :: "pod \<Rightarrow> pod prog" where
  "Pod_Disconnect p = pod_feedback podFeedbackMsgDisconnect (p\<lparr>pod_dead := True\<rparr>)"

section \<open>The pod's receiving side\<close>

text \<open>
  The goroutine started for one received message. A nil message (which a replay can produce) makes
  the filter call a method on nil, a panic, unless no callback is set.
\<close>

definition pod_handle :: "message option \<Rightarrow> pod \<Rightarrow> pod prog" where
  "pod_handle m p =
     (case pod_onFunc p of
        None \<Rightarrow> Some (Inr p)
      | Some f \<Rightarrow>
          (case m of
             None \<Rightarrow> Some (Inl NilDereference)
           | Some msg \<Rightarrow>
               if filter_allow (pod_filter p) msg then
                 (case f msg of
                    Some err \<Rightarrow> pod_feedback (FeedbackFailed msg) p
                  | None \<Rightarrow> pod_feedback podFeedbackMsgSuccess p)
               else Some (Inr p)))"

text \<open>
  One iteration of the receive loop: \<open>Some (m, p)\<close> hands \<open>m\<close> to a fresh goroutine; on a closed and
  drained channel the loop ends and the pod is dead.
\<close>

definition pod_receive :: "pod \<Rightarrow> (message option option \<times> pod) option" where
  "pod_receive p =
     (case pod_messageChan p of
        m # ms \<Rightarrow> Some (Some m, p\<lparr>pod_messageChan := ms\<rparr>)
      | [] \<Rightarrow> if pod_chanClosed p then Some (None, p\<lparr>pod_dead := True\<rparr>) else None)"

lemmas pod_op_defs = pod_feedback_def pod_setOnFunc_def Pod_On_def Pod_OnType_def Pod_Send_def
  Pod_ReplyTo_def Pod_Disconnect_def pod_handle_def pod_receive_def

section \<open>Lemmas\<close>

lemma pod_feedback_Some_iff:
  "pod_feedback fb p = Some r \<longleftrightarrow>
     length (pod_feedbackChan p) < defaultPodChanSize
     \<and> r = Inr (p\<lparr>pod_feedbackChan := pod_feedbackChan p @ [fb]\<rparr>)"
  by (auto simp: pod_feedback_def chan_send_def)

text \<open>A dead pod stays dead whatever its owner or its goroutines do.\<close>

lemma pod_feedback_dead:
  "pod_feedback fb p = Some (Inr p') \<Longrightarrow> pod_dead p' = pod_dead p"
  by (auto simp: pod_feedback_Some_iff)

lemma pod_setOnFunc_dead:
  "pod_setOnFunc f p = Some (Inr p') \<Longrightarrow> pod_dead p' = pod_dead p"
  by (auto simp: pod_setOnFunc_def Let_def pod_feedback_Some_iff split: if_splits)

lemma pod_handle_dead: "pod_handle m p = Some (Inr p') \<Longrightarrow> pod_dead p' = pod_dead p"
  by (auto simp: pod_handle_def pod_feedback_Some_iff split: option.splits if_splits)

lemma pod_setOnFunc_replayDone:
  "pod_setOnFunc (Some f) p = Some (Inr p') \<Longrightarrow> pod_replayDone p'"
  by (auto simp: pod_setOnFunc_def Let_def pod_feedback_Some_iff split: if_splits)

lemma pod_setOnFunc_result:
  assumes "pod_setOnFunc on p = Some (Inr p')"
  shows "pod_filter p' = newMessageFilter" "pod_onFunc p' = on"
  using assms
  by (auto simp: pod_setOnFunc_def Let_def pod_feedback_Some_iff split: if_splits)

section \<open>Properties\<close>

text \<open>
  After \<open>OnType\<close> the callback sees exactly the messages of that type: a received message of
  another type changes nothing, a message of the type is passed to the callback, and what the
  callback answers decides the feedback the bus gets.
\<close>

theorem pod_onType_selects:
  assumes "Pod_OnType t (Some f) p = Some (Inr p')"
    and "length (pod_feedbackChan p') < defaultPodChanSize"
  shows "pod_handle (Some msg) p' =
    (if msg_Type msg = t
     then Some (Inr (p'\<lparr>pod_feedbackChan := pod_feedbackChan p' @
            [case f msg of None \<Rightarrow> podFeedbackMsgSuccess | Some _ \<Rightarrow> FeedbackFailed msg]\<rparr>))
     else Some (Inr p'))"
proof -
  from assms(1) obtain p1 where p1: "pod_setOnFunc (Some f) p = Some (Inr p1)"
    and p': "p' = p1\<lparr>pod_filter := (FilterType (pod_filter p1) t True)\<lparr>mf_TypeInclusive := False\<rparr>\<rparr>"
    by (cases "pod_setOnFunc (Some f) p") (auto simp: Pod_OnType_def Let_def prog_bind_def split: sum.splits)
  have "filter_allow (pod_filter p') msg \<longleftrightarrow> msg_Type msg = t"
    using pod_setOnFunc_result[OF p1]
    by (simp add: p' filter_allow_iff FilterType_def newMessageFilter_def)
  moreover have "pod_onFunc p' = Some f" using pod_setOnFunc_result[OF p1] by (simp add: p')
  ultimately show ?thesis
    using assms(2)
    by (auto simp: pod_handle_def pod_feedback_def chan_send_def split: option.splits)
qed

theorem pod_onType_selects_witness:
  "\<exists>p'. Pod_OnType ''job'' (Some (\<lambda>_. None)) (newPod True) = Some (Inr p') \<and>
     pod_handle (Some (NewMsg ''u'' 0 ''other'' [])) p' = Some (Inr p')"
proof -
  obtain p' where p': "Pod_OnType ''job'' (Some (\<lambda>_. None)) (newPod True) = Some (Inr p')"
    "length (pod_feedbackChan p') < defaultPodChanSize"
    by (simp add: pod_op_defs newPod_def chan_send_def defaultPodChanSize_def)
  from pod_onType_selects[OF p', of "NewMsg ''u'' 0 ''other'' []"] p'(1) show ?thesis
    by (simp add: message_defs)
qed

text \<open>
  A sent message does not bounce back as long as the callback is left alone (the pod's own
  goroutine ignores it), but setting a callback afterwards resets the filter, and then the sender's
  own message reaches the sender's callback.
\<close>

theorem pod_own_message:
  assumes "Pod_Send msg p = (Some r, p1)" and "Pod_On (Some f) p1 = Some (Inr p2)"
  shows "pod_handle (Some msg) p1 = Some (Inr p1) \<and> filter_allow (pod_filter p2) msg"
proof -
  from assms(1) have "\<not> filter_allow (pod_filter p1) msg"
    by (auto simp: Pod_Send_def filter_allow_FilterUUID split: if_splits)
  then have "pod_handle (Some msg) p1 = Some (Inr p1)"
    by (simp add: pod_handle_def split: option.splits)
  with assms(2) show ?thesis by (simp add: Pod_On_def pod_setOnFunc_result)
qed

theorem pod_own_message_witness:
  "\<exists>r p1 p2. Pod_Send (NewMsg ''u'' 0 ''t'' []) (newPod False) = (Some r, p1)
     \<and> pod_handle (Some (NewMsg ''u'' 0 ''t'' [])) p1 = Some (Inr p1)
     \<and> Pod_On (Some (\<lambda>_. None)) p1 = Some (Inr p2)
     \<and> filter_allow (pod_filter p2) (NewMsg ''u'' 0 ''t'' [])"
proof -
  obtain r p1 where 1: "Pod_Send (NewMsg ''u'' 0 ''t'' []) (newPod False) = (Some r, p1)"
    by (simp add: pod_op_defs newPod_def)
  obtain p2 where 2: "Pod_On (Some (\<lambda>_. None)) p1 = Some (Inr p2)"
    using 1 by (auto simp: pod_op_defs newPod_def)
  from 1 2 pod_own_message[OF 1 2] show ?thesis by blast
qed

end
