(* ===== verification/Balancer.thy ===== *)
theory Balancer
  imports Prelude
begin

text \<open>
  The tunnel balancer of \<open>foundation/bus/bus/tunnel/balancer.go\<close>: a list of peer identifiers and a
  round-robin index. The locale \<open>round_robin\<close> is the contract the hub's tunnel loop relies on.
\<close>

section \<open>State and operations\<close>

record balancer =
  bal_uuids :: "string list"
  bal_index :: int

definition NewBalancer :: balancer where
  "NewBalancer = \<lparr>bal_uuids = [], bal_index = 0\<rparr>"

definition Balancer_Add :: "balancer \<Rightarrow> string \<Rightarrow> balancer" where
  "Balancer_Add b uuid = b\<lparr>bal_uuids := bal_uuids b @ [uuid]\<rparr>"

definition Balancer_Remove :: "balancer \<Rightarrow> string \<Rightarrow> balancer" where
  "Balancer_Remove b uuid =
     (let newUUIDs = filter (\<lambda>u. u \<noteq> uuid) (bal_uuids b);
          n = int (length newUUIDs)
      in b\<lparr>bal_uuids := newUUIDs,
           bal_index := (if bal_index b \<ge> n - 1 then n div 2 else bal_index b)\<rparr>)"

definition Balancer_Next :: "balancer \<Rightarrow> (string \<times> balancer) go" where
  "Balancer_Next b =
     (if bal_uuids b = [] then Inr ('''', b)
      else go_bind (go_index (bal_uuids b) (bal_index b)) (\<lambda>uuid.
        Inr (uuid,
             b\<lparr>bal_index := (if bal_index b \<ge> int (length (bal_uuids b)) - 1 then 0
                            else bal_index b + 1)\<rparr>)))"

section \<open>Invariant\<close>

definition balancer_inv :: "balancer \<Rightarrow> bool" where
  "balancer_inv b \<longleftrightarrow>
     0 \<le> bal_index b \<and> (bal_uuids b = [] \<longrightarrow> bal_index b = 0)
     \<and> (bal_uuids b \<noteq> [] \<longrightarrow> bal_index b < int (length (bal_uuids b)))"

lemma balancer_inv_New [inv_intros]: "balancer_inv NewBalancer"
  by (simp add: balancer_inv_def NewBalancer_def)

lemma balancer_inv_Add [inv_intros]: "balancer_inv b \<Longrightarrow> balancer_inv (Balancer_Add b u)"
  by (auto simp: balancer_inv_def Balancer_Add_def)

lemma balancer_inv_Remove [inv_intros]:
  assumes "balancer_inv b"
  shows "balancer_inv (Balancer_Remove b u)"
proof -
  let ?us = "filter (\<lambda>v. v \<noteq> u) (bal_uuids b)"
  have half: "?us \<noteq> [] \<Longrightarrow> int (length ?us) div 2 < int (length ?us)"
    by (cases ?us) auto
  show ?thesis
  proof (cases "?us = []")
    case True
    then show ?thesis
      using assms by (simp add: balancer_inv_def Balancer_Remove_def Let_def)
  next
    case False
    then show ?thesis
      using assms half[OF False]
      by (auto simp: balancer_inv_def Balancer_Remove_def Let_def simp del: filter_empty_conv)
  qed
qed

lemma balancer_inv_Next [inv_intros]:
  "balancer_inv b \<Longrightarrow> Balancer_Next b = Inr (u, b') \<Longrightarrow> balancer_inv b'"
  by (auto simp: balancer_inv_def Balancer_Next_def go_index_def split: if_splits)

lemma Balancer_Next_members:
  "Balancer_Next b = Inr (u, b') \<Longrightarrow> bal_uuids b' = bal_uuids b"
  by (auto simp: Balancer_Next_def go_index_def split: if_splits)

lemma Balancer_Remove_members:
  "set (bal_uuids (Balancer_Remove b u)) = set (bal_uuids b) - {u}"
  by (auto simp: Balancer_Remove_def Let_def)

lemma Balancer_Add_members:
  "set (bal_uuids (Balancer_Add b u)) = insert u (set (bal_uuids b))"
  by (auto simp: Balancer_Add_def)

section \<open>The round-robin contract\<close>

text \<open>\<open>iterate_next f n b\<close> is \<open>n\<close> consecutive calls of a \<open>Next\<close> operation, with the answers.\<close>

fun iterate_next :: "('b \<Rightarrow> ('a \<times> 'b) go) \<Rightarrow> nat \<Rightarrow> 'b \<Rightarrow> ('a list \<times> 'b) go" where
  "iterate_next f 0 b = Inr ([], b)"
| "iterate_next f (Suc n) b =
     go_bind (f b) (\<lambda>(x, b'). go_bind (iterate_next f n b') (\<lambda>(xs, b''). Inr (x # xs, b'')))"

locale round_robin =
  fixes next_of :: "'b \<Rightarrow> ('a \<times> 'b) go"
    and members :: "'b \<Rightarrow> 'a list"
    and pos :: "'b \<Rightarrow> nat"
    and inv :: "'b \<Rightarrow> bool"
  assumes next_law:
      "inv b \<Longrightarrow> members b \<noteq> [] \<Longrightarrow>
        \<exists>b'. next_of b = Inr (members b ! pos b, b') \<and> inv b' \<and> members b' = members b
           \<and> pos b' = Suc (pos b) mod length (members b)"
    and pos_law: "inv b \<Longrightarrow> members b \<noteq> [] \<Longrightarrow> pos b < length (members b)"
begin

lemma iterate_cycle:
  assumes "inv b" "members b \<noteq> []"
  shows "\<exists>b'. iterate_next next_of n b = Inr (cycle_from (pos b) n (members b), b')
           \<and> inv b' \<and> members b' = members b
           \<and> pos b' = (pos b + n) mod length (members b)"
  using assms
proof (induction n arbitrary: b)
  case 0
  then show ?case using pos_law by simp
next
  case (Suc n)
  from next_law[OF Suc.prems] obtain b1 where b1:
    "next_of b = Inr (members b ! pos b, b1)" "inv b1" "members b1 = members b"
    "pos b1 = Suc (pos b) mod length (members b)" by blast
  with Suc.prems have "members b1 \<noteq> []" by simp
  from Suc.IH[OF b1(2) this] obtain b2 where
    "iterate_next next_of n b1 = Inr (cycle_from (pos b1) n (members b1), b2)"
    "inv b2" "members b2 = members b1" "pos b2 = (pos b1 + n) mod length (members b1)"
    by blast
  moreover have "pos b mod length (members b) = pos b"
    using pos_law[OF Suc.prems] by simp
  ultimately show ?case
    using b1 by (simp add: cycle_from_Suc cycle_from_mod mod_add_left_eq)
qed

text \<open>One full round answers a rotation of the members and restores the position.\<close>

lemma full_round:
  assumes "inv b" "members b \<noteq> []"
  shows "\<exists>b'. iterate_next next_of (length (members b)) b = Inr (rotate (pos b) (members b), b')
           \<and> inv b' \<and> members b' = members b \<and> pos b' = pos b"
  using iterate_cycle[OF assms, of "length (members b)"] pos_law[OF assms]
  by (auto simp: cycle_from_full)

text \<open>Every member is answered within one round.\<close>

lemma member_within_round:
  assumes "inv b" "x \<in> set (members b)" "length (members b) \<le> n"
  shows "\<exists>xs b'. iterate_next next_of n b = Inr (xs, b') \<and> x \<in> set xs"
proof -
  let ?m = "members b"
  from assms have ne: "?m \<noteq> []" by auto
  have "x \<in> set (cycle_from (pos b) (length ?m) ?m)"
    using assms(2) by (simp add: set_cycle_from_full)
  also have "\<dots> \<subseteq> set (cycle_from (pos b) n ?m)"
    using assms(3) by (auto simp: cycle_from_def)
  finally show ?thesis using iterate_cycle[OF assms(1) ne, of n] by blast
qed

end

definition balancer_pos :: "balancer \<Rightarrow> nat" where
  "balancer_pos b = nat (bal_index b)"

interpretation bal: round_robin Balancer_Next bal_uuids balancer_pos balancer_inv
proof unfold_locales
  fix b assume inv: "balancer_inv b" and ne: "bal_uuids b \<noteq> []"
  then show "balancer_pos b < length (bal_uuids b)"
    by (auto simp: balancer_inv_def balancer_pos_def)
  have i: "0 \<le> bal_index b" "bal_index b < int (length (bal_uuids b))"
    using inv ne by (auto simp: balancer_inv_def)
  let ?b' = "b\<lparr>bal_index := (if bal_index b \<ge> int (length (bal_uuids b)) - 1 then 0
                            else bal_index b + 1)\<rparr>"
  have "Balancer_Next b = Inr (bal_uuids b ! balancer_pos b, ?b')"
    using ne i by (simp add: Balancer_Next_def go_index_def balancer_pos_def)
  moreover have "balancer_pos ?b' = Suc (balancer_pos b) mod length (bal_uuids b)"
  proof (cases "bal_index b \<ge> int (length (bal_uuids b)) - 1")
    case True
    with i have "Suc (nat (bal_index b)) = length (bal_uuids b)" by simp
    with True show ?thesis by (simp add: balancer_pos_def)
  next
    case False
    with i show ?thesis by (simp add: balancer_pos_def nat_add_distrib)
  qed
  ultimately show "\<exists>b'. Balancer_Next b = Inr (bal_uuids b ! balancer_pos b, b')
      \<and> balancer_inv b' \<and> bal_uuids b' = bal_uuids b
      \<and> balancer_pos b' = Suc (balancer_pos b) mod length (bal_uuids b)"
    using inv balancer_inv_Next[OF inv] by (intro exI[of _ ?b']) auto
qed

section \<open>Properties\<close>

text \<open>
  Reachable balancers: whatever sequence of \<open>Add\<close> and \<open>Remove\<close> calls built it, the invariant
  holds, so \<open>Next\<close> never reads out of range.
\<close>

datatype balancer_op = OpAdd string | OpRemove string | OpNext

fun balancer_run :: "balancer \<Rightarrow> balancer_op list \<Rightarrow> balancer go" where
  "balancer_run b [] = Inr b"
| "balancer_run b (OpAdd u # ops) = balancer_run (Balancer_Add b u) ops"
| "balancer_run b (OpRemove u # ops) = balancer_run (Balancer_Remove b u) ops"
| "balancer_run b (OpNext # ops) =
     go_bind (Balancer_Next b) (\<lambda>(_, b'). balancer_run b' ops)"

lemma Balancer_Next_no_panic:
  assumes "balancer_inv b"
  shows "\<exists>u b'. Balancer_Next b = Inr (u, b') \<and> balancer_inv b'"
proof (cases "bal_uuids b = []")
  case True
  with assms show ?thesis by (simp add: Balancer_Next_def)
next
  case False
  with bal.next_law[OF assms] show ?thesis by blast
qed

lemma balancer_run_inv: "balancer_inv b \<Longrightarrow> \<exists>b'. balancer_run b ops = Inr b' \<and> balancer_inv b'"
proof (induction b ops rule: balancer_run.induct)
  case (4 b ops)
  from Balancer_Next_no_panic[OF "4.prems"] obtain u b'
    where "Balancer_Next b = Inr (u, b')" "balancer_inv b'" by blast
  with "4.IH" show ?case by simp
qed (auto intro: inv_intros)

text \<open>
  C17: Whatever sequence of Add, Remove and Next calls a balancer has been through, none of them
  panicked, and the following calls of Next, one per listed peer, answer every listed peer once, in
  list order from the current index, and leave the balancer where it was.
\<close>

theorem balancer_round_robin:
  "\<exists>b. balancer_run NewBalancer ops = Inr b \<and>
     iterate_next Balancer_Next (length (bal_uuids b)) b =
       Inr (rotate (nat (bal_index b)) (bal_uuids b), b)"
proof -
  obtain b where b: "balancer_run NewBalancer ops = Inr b" "balancer_inv b"
    using balancer_run_inv[OF balancer_inv_New] by blast
  show ?thesis
  proof (cases "bal_uuids b = []")
    case True
    with b show ?thesis by simp
  next
    case False
    from bal.full_round[OF b(2) False] obtain b' where
      "iterate_next Balancer_Next (length (bal_uuids b)) b =
         Inr (rotate (balancer_pos b) (bal_uuids b), b')"
      "balancer_inv b'" "bal_uuids b' = bal_uuids b" "balancer_pos b' = balancer_pos b" by blast
    moreover from this b have "bal_index b' = bal_index b"
      by (auto simp: balancer_inv_def balancer_pos_def)
    ultimately have "b' = b" by simp
    with b \<open>iterate_next _ _ b = _\<close> show ?thesis by (auto simp: balancer_pos_def)
  qed
qed

end
