(* ===== verification/MsgBuffer.thy ===== *)
theory MsgBuffer
  imports Message Balancer
begin

text \<open>
  The bounded message history of \<open>foundation/bus/bus/msgbuffer.go\<close>: a map from identifiers to
  messages and a slice of identifiers used as a ring once it is full. The lock makes each operation
  atomic, so an operation is one function on the state. A map lookup that misses is Go's nil message,
  the value \<open>None\<close>.
\<close>

section \<open>State and operations\<close>

definition defaultBufferSize :: int where
  "defaultBufferSize = 128"

record msg_buffer =
  buf_msgs :: "string \<rightharpoonup> message"
  buf_order :: "string list"
  buf_limit :: int
  buf_start :: nat
  buf_next :: nat

definition NewMsgBuffer :: "int \<Rightarrow> msg_buffer" where
  "NewMsgBuffer limit =
     \<lparr>buf_msgs = Map.empty, buf_order = [], buf_limit = limit, buf_start = 0, buf_next = 0\<rparr>"

definition MsgBuffer_Push :: "msg_buffer \<Rightarrow> message \<Rightarrow> msg_buffer go" where
  "MsgBuffer_Push m msg =
     (let m1 = m\<lparr>buf_msgs := (buf_msgs m)(msg_UUID msg \<mapsto> msg)\<rparr>;
          lastIndex = int (length (buf_order m1)) - 1
      in if int (length (buf_order m1)) = buf_limit m1 then
           go_bind (go_index (buf_order m1) (int (buf_start m1))) (\<lambda>first.
             Inr (m1\<lparr>buf_msgs := (buf_msgs m1)(first := None),
                     buf_order := (buf_order m1)[buf_start m1 := msg_UUID msg],
                     buf_start := (if int (buf_start m1) = lastIndex then 0
                                   else Suc (buf_start m1))\<rparr>))
         else Inr (m1\<lparr>buf_order := buf_order m1 @ [msg_UUID msg]\<rparr>))"

definition MsgBuffer_Next :: "msg_buffer \<Rightarrow> (message option \<times> msg_buffer) go" where
  "MsgBuffer_Next m =
     (if buf_order m = [] then Inr (None, m)
      else go_bind (go_index (buf_order m) (int (buf_next m))) (\<lambda>uuid.
        Inr (buf_msgs m uuid,
             m\<lparr>buf_next := (if int (buf_next m) = int (length (buf_order m)) - 1 then 0
                           else Suc (buf_next m))\<rparr>)))"

text \<open>
  \<open>Iter\<close> loops until its index is back at the start index; the callback threads a state \<open>s\<close>.
  \<open>None\<close> is "does not return": the loop is entered in the middle of the slice, so its end is proved
  and not assumed.
\<close>

partial_function (option) iter_loop ::
    "(message option \<Rightarrow> 's \<Rightarrow> 's) \<Rightarrow> msg_buffer \<Rightarrow> nat \<Rightarrow> 's \<Rightarrow> 's go option" where
  "iter_loop f m index s =
     (case go_index (buf_order m) (int index) of
        Inl p \<Rightarrow> Some (Inl p)
      | Inr uuid \<Rightarrow>
          (let s' = f (buf_msgs m uuid) s;
               index' = (if int index = int (length (buf_order m)) - 1 then 0 else Suc index)
           in if index' = buf_start m then Some (Inr s') else iter_loop f m index' s'))"

definition MsgBuffer_Iter ::
    "(message option \<Rightarrow> 's \<Rightarrow> 's) \<Rightarrow> msg_buffer \<Rightarrow> 's \<Rightarrow> 's go option" where
  "MsgBuffer_Iter f m s =
     (if buf_order m = [] then Some (Inr s) else iter_loop f m (buf_start m) s)"

section \<open>Invariants and the abstract history\<close>

text \<open>\<open>buffer_ok\<close> is what keeps every index in range; any sequence of pushes keeps it.\<close>

definition buffer_ok :: "msg_buffer \<Rightarrow> bool" where
  "buffer_ok m \<longleftrightarrow>
     0 < buf_limit m \<and> int (length (buf_order m)) \<le> buf_limit m
     \<and> (int (length (buf_order m)) < buf_limit m \<longrightarrow> buf_start m = 0)
     \<and> (buf_order m \<noteq> [] \<longrightarrow> buf_start m < length (buf_order m) \<and> buf_next m < length (buf_order m))
     \<and> (buf_order m = [] \<longrightarrow> buf_next m = 0)"

text \<open>The retained identifiers, oldest first, and the retained messages.\<close>

definition buffer_uuids :: "msg_buffer \<Rightarrow> string list" where
  "buffer_uuids m = rotate (buf_start m) (buf_order m)"

definition buffer_view :: "msg_buffer \<Rightarrow> message option list" where
  "buffer_view m = map (buf_msgs m) (buffer_uuids m)"

text \<open>\<open>buffer_holds m ms\<close>: the buffer holds exactly the messages \<open>ms\<close>, oldest first.\<close>

definition buffer_holds :: "msg_buffer \<Rightarrow> message list \<Rightarrow> bool" where
  "buffer_holds m ms \<longleftrightarrow>
     buffer_ok m \<and> buffer_uuids m = map msg_UUID ms \<and> distinct (map msg_UUID ms)
     \<and> (\<forall>x \<in> set ms. buf_msgs m (msg_UUID x) = Some x)"

lemma buffer_holds_view: "buffer_holds m ms \<Longrightarrow> buffer_view m = map Some ms"
  by (simp add: buffer_holds_def buffer_view_def)

lemma buffer_holds_set: "buffer_holds m ms \<Longrightarrow> set (buf_order m) = msg_UUID ` set ms"
  by (metis buffer_holds_def buffer_uuids_def set_rotate set_map)

lemma buffer_holds_length: "buffer_holds m ms \<Longrightarrow> length (buf_order m) = length ms"
  by (metis buffer_holds_def buffer_uuids_def length_rotate length_map)

lemma buffer_ok_New [inv_intros]: "0 < limit \<Longrightarrow> buffer_ok (NewMsgBuffer limit)"
  by (simp add: buffer_ok_def NewMsgBuffer_def)

lemma buffer_holds_New: "0 < limit \<Longrightarrow> buffer_holds (NewMsgBuffer limit) []"
  by (simp add: buffer_holds_def buffer_ok_New buffer_uuids_def) (simp add: NewMsgBuffer_def)

text \<open>The two branches of \<open>Push\<close>.\<close>

lemma Push_grow:
  assumes "int (length (buf_order m)) \<noteq> buf_limit m"
  shows "MsgBuffer_Push m msg =
    Inr (m\<lparr>buf_msgs := (buf_msgs m)(msg_UUID msg \<mapsto> msg), buf_order := buf_order m @ [msg_UUID msg]\<rparr>)"
  using assms by (simp add: MsgBuffer_Push_def Let_def)

lemma Push_full:
  assumes "int (length (buf_order m)) = buf_limit m" "buf_start m < length (buf_order m)"
  shows "MsgBuffer_Push m msg =
    Inr (m\<lparr>buf_msgs := (buf_msgs m)(msg_UUID msg \<mapsto> msg, buf_order m ! buf_start m := None),
          buf_order := (buf_order m)[buf_start m := msg_UUID msg],
          buf_start := (if Suc (buf_start m) = length (buf_order m) then 0 else Suc (buf_start m))\<rparr>)"
  using assms by (auto simp: MsgBuffer_Push_def Let_def)

lemma Push_full_uuids:
  assumes "int (length (buf_order m)) = buf_limit m" "buf_start m < length (buf_order m)"
    "MsgBuffer_Push m msg = Inr m'"
  shows "buffer_uuids m' = tl (buffer_uuids m) @ [msg_UUID msg]"
  using assms(3) rotate_overwrite[OF assms(2), of "msg_UUID msg"]
    rotate_Suc_wrap[OF refl, of "buf_start m" "(buf_order m)[buf_start m := msg_UUID msg]"] assms(2)
  by (auto simp: Push_full[OF assms(1,2)] buffer_uuids_def)

lemma Push_ok [inv_intros]:
  assumes "buffer_ok m"
  shows "\<exists>m'. MsgBuffer_Push m msg = Inr m' \<and> buffer_ok m' \<and> buf_limit m' = buf_limit m"
proof (cases "int (length (buf_order m)) = buf_limit m")
  case True
  with assms have "buf_start m < length (buf_order m)" by (auto simp: buffer_ok_def)
  with True assms show ?thesis by (auto simp: Push_full buffer_ok_def)
next
  case False
  with assms show ?thesis by (auto simp: Push_grow buffer_ok_def)
qed

text \<open>A push of a fresh message is a push on the abstract history.\<close>

lemma Push_holds:
  assumes holds: "buffer_holds m ms" and fresh: "msg_UUID msg \<notin> msg_UUID ` set ms"
  shows "\<exists>m'. MsgBuffer_Push m msg = Inr m' \<and> buf_limit m' = buf_limit m
           \<and> buffer_holds m' (lastn (nat (buf_limit m)) (ms @ [msg]))"
proof -
  from holds have ok: "buffer_ok m" and uuids: "buffer_uuids m = map msg_UUID ms"
    and dist: "distinct (map msg_UUID ms)"
    and look: "\<And>x. x \<in> set ms \<Longrightarrow> buf_msgs m (msg_UUID x) = Some x"
    by (auto simp: buffer_holds_def)
  have len: "length ms = length (buf_order m)" using buffer_holds_length[OF holds] by simp
  from Push_ok[OF ok] obtain m' where m': "MsgBuffer_Push m msg = Inr m'" "buffer_ok m'"
    "buf_limit m' = buf_limit m" by blast
  have frs: "msg_UUID x \<noteq> msg_UUID msg" if "x \<in> set ms" for x
    using fresh that by (metis imageI)
  show ?thesis
  proof (cases "int (length (buf_order m)) = buf_limit m")
    case False
    with ok have st: "buf_start m = 0" and lim: "length ms < nat (buf_limit m)"
      by (auto simp: buffer_ok_def len)
    have "buffer_holds m' (ms @ [msg])"
      using m'(1,2) uuids dist look fresh frs st
      by (auto simp: buffer_holds_def Push_grow[OF False] buffer_uuids_def)
    with m' lim show ?thesis by (auto simp: lastn_snoc_short)
  next
    case True
    with ok have st: "buf_start m < length (buf_order m)" by (auto simp: buffer_ok_def)
    obtain y ys where ys: "ms = y # ys" using st len by (cases ms) auto
    have oldest: "buf_order m ! buf_start m = msg_UUID y"
      using uuids ys rotate_nth_0[OF st] by (simp add: buffer_uuids_def)
    have "buffer_uuids m' = map msg_UUID (ys @ [msg])"
      using Push_full_uuids[OF True st m'(1)] uuids ys by simp
    moreover have "buf_msgs m' (msg_UUID x) = Some x" if "x \<in> set (ys @ [msg])" for x
    proof -
      have "msg_UUID msg \<noteq> msg_UUID y" using frs[of y] ys by simp
      moreover have "x \<in> set ys \<Longrightarrow> msg_UUID x \<noteq> msg_UUID y" for x
        using dist ys by (auto simp: image_iff)
      ultimately show ?thesis
        using that m'(1) look[of x] frs[of x] ys oldest by (auto simp: Push_full[OF True st])
    qed
    ultimately have "buffer_holds m' (ys @ [msg])"
      using m'(2) dist ys fresh by (auto simp: buffer_holds_def)
    moreover have "lastn (nat (buf_limit m)) (ms @ [msg]) = ys @ [msg]"
    proof -
      have "nat (buf_limit m) = Suc (length ys)" using True len ys by simp
      then show ?thesis using ys by (simp add: lastn_def)
    qed
    ultimately show ?thesis using m' by auto
  qed
qed

section \<open>Iteration\<close>

lemma wrap_mod: "i < n \<Longrightarrow> (if int i = int n - 1 then 0 else Suc i) = Suc i mod n"
  by (cases "Suc i = n") auto

lemma mod_shift_neq: "st < n \<Longrightarrow> 0 < k \<Longrightarrow> k < n \<Longrightarrow> (st + k) mod n \<noteq> (st :: nat)"
  by (cases "st + k < n") (auto simp: le_mod_geq)

lemma iter_loop_run:
  assumes st: "buf_start m < length (buf_order m)" and k: "k < length (buf_order m)"
  shows "iter_loop f m ((buf_start m + k) mod length (buf_order m)) s =
           Some (Inr (fold f (drop k (buffer_view m)) s))"
  using k
proof (induction "length (buf_order m) - k" arbitrary: k s)
  case 0
  then show ?case by simp
next
  case (Suc d)
  let ?n = "length (buf_order m)"
  let ?i = "(buf_start m + k) mod ?n"
  have i: "?i < ?n" by (rule mod_less_divisor) (use st in auto)
  have elem: "buf_msgs m (buf_order m ! ?i) = buffer_view m ! k"
    using Suc.prems by (simp add: buffer_view_def buffer_uuids_def nth_rotate add.commute)
  have dk: "drop k (buffer_view m) = buffer_view m ! k # drop (Suc k) (buffer_view m)"
    using Suc.prems by (intro Cons_nth_drop_Suc[symmetric])
      (simp add: buffer_view_def buffer_uuids_def)
  have nxt: "Suc ?i mod ?n = (buf_start m + Suc k) mod ?n" by (simp add: mod_Suc_eq)
  show ?case
  proof (cases "Suc k = ?n")
    case True
    then have "Suc ?i mod ?n = buf_start m" using st nxt by simp
    moreover have "drop (Suc k) (buffer_view m) = []"
      using True by (simp add: buffer_view_def buffer_uuids_def)
    ultimately show ?thesis
      using i by (subst iter_loop.simps) (simp add: Let_def wrap_mod[OF i] elem dk)
  next
    case False
    with Suc.prems have k': "Suc k < ?n" by simp
    have "Suc ?i mod ?n \<noteq> buf_start m"
      unfolding nxt using st k' by (intro mod_shift_neq) simp_all
    moreover have "iter_loop f m (Suc ?i mod ?n) (f (buffer_view m ! k) s) =
        Some (Inr (fold f (drop (Suc k) (buffer_view m)) (f (buffer_view m ! k) s)))"
      unfolding nxt using Suc.hyps(1)[of "Suc k"] Suc.hyps(2) k' by simp
    ultimately show ?thesis
      using i by (subst iter_loop.simps) (simp add: Let_def wrap_mod[OF i] elem dk)
  qed
qed

text \<open>\<open>Iter\<close> returns, and calls the callback on every retained message, oldest first.\<close>

lemma MsgBuffer_Iter_eq:
  assumes "buffer_ok m"
  shows "MsgBuffer_Iter f m s = Some (Inr (fold f (buffer_view m) s))"
proof (cases "buf_order m = []")
  case True
  then show ?thesis by (simp add: MsgBuffer_Iter_def buffer_view_def buffer_uuids_def)
next
  case False
  with assms have "buf_start m < length (buf_order m)" by (simp add: buffer_ok_def)
  from iter_loop_run[OF this, of 0] this False show ?thesis by (simp add: MsgBuffer_Iter_def)
qed

text \<open>\<open>Next\<close> is a round-robin over the slots of the slice.\<close>

interpretation buf: round_robin MsgBuffer_Next "\<lambda>m. map (buf_msgs m) (buf_order m)" buf_next buffer_ok
proof unfold_locales
  fix m assume ok: "buffer_ok m" and ne: "map (buf_msgs m) (buf_order m) \<noteq> []"
  then show i: "buf_next m < length (map (buf_msgs m) (buf_order m))"
    by (auto simp: buffer_ok_def)
  let ?m' = "m\<lparr>buf_next := Suc (buf_next m) mod length (buf_order m)\<rparr>"
  have "MsgBuffer_Next m = Inr (map (buf_msgs m) (buf_order m) ! buf_next m, ?m')"
    using i ne by (auto simp: MsgBuffer_Next_def wrap_mod)
  moreover have "buffer_ok ?m'" using ok ne by (simp add: buffer_ok_def)
  ultimately show "\<exists>m'. MsgBuffer_Next m = Inr (map (buf_msgs m) (buf_order m) ! buf_next m, m')
      \<and> buffer_ok m' \<and> map (buf_msgs m') (buf_order m') = map (buf_msgs m) (buf_order m)
      \<and> buf_next m' = Suc (buf_next m) mod length (map (buf_msgs m) (buf_order m))"
    by (intro exI[of _ ?m']) simp
qed

section \<open>Properties\<close>

fun push_all :: "msg_buffer \<Rightarrow> message list \<Rightarrow> msg_buffer go" where
  "push_all m [] = Inr m"
| "push_all m (x # xs) = go_bind (MsgBuffer_Push m x) (\<lambda>m'. push_all m' xs)"

lemma push_all_holds:
  assumes "buffer_holds m old" "distinct (map msg_UUID (old @ ms))"
  shows "\<exists>m'. push_all m ms = Inr m' \<and> buf_limit m' = buf_limit m
           \<and> buffer_holds m' (lastn (nat (buf_limit m)) (old @ ms))"
  using assms
proof (induction ms arbitrary: m old)
  case Nil
  then have "length old \<le> nat (buf_limit m)"
    using buffer_holds_length[OF Nil(1)] by (auto simp: buffer_holds_def buffer_ok_def)
  with Nil show ?case by simp
next
  case (Cons x ms)
  let ?n = "nat (buf_limit m)"
  have n: "0 < ?n" using Cons.prems(1) by (auto simp: buffer_holds_def buffer_ok_def)
  from Cons.prems(2) have "msg_UUID x \<notin> msg_UUID ` set old" by auto
  from Push_holds[OF Cons.prems(1) this] obtain m1 where m1:
    "MsgBuffer_Push m x = Inr m1" "buf_limit m1 = buf_limit m"
    "buffer_holds m1 (lastn ?n (old @ [x]))" by blast
  let ?u = "map msg_UUID (old @ [x])"
  have "distinct (?u @ map msg_UUID ms)" using Cons.prems(2) by simp
  then have "distinct ?u" "set ?u \<inter> set (map msg_UUID ms) = {}" "distinct (map msg_UUID ms)"
    unfolding distinct_append by blast+
  then have "distinct (lastn ?n ?u @ map msg_UUID ms)"
    unfolding distinct_append using set_lastn[of ?n ?u] by (intro conjI distinct_lastn) blast+
  then have "distinct (map msg_UUID (lastn ?n (old @ [x]) @ ms))" by (simp add: map_lastn)
  from Cons.IH[OF m1(3) this] obtain m2 where
    "push_all m1 ms = Inr m2" "buf_limit m2 = buf_limit m1"
    "buffer_holds m2 (lastn ?n (lastn ?n (old @ [x]) @ ms))" using m1(2) by auto
  moreover have "lastn ?n (lastn ?n (old @ [x]) @ ms) = lastn ?n (old @ x # ms)"
    by (simp add: lastn_absorb)
  ultimately show ?case using m1 by auto
qed

text \<open>
  C14: A buffer of positive size into which messages with distinct identifiers are pushed never
  panics, and iterating over it returns and hands out exactly the last \<open>limit\<close> messages pushed,
  oldest first.
\<close>

theorem buffer_keeps_last:
  assumes "0 < limit" and "distinct (map msg_UUID ms)"
  shows "\<exists>m. push_all (NewMsgBuffer limit) ms = Inr m \<and>
    MsgBuffer_Iter (\<lambda>x acc. acc @ [x]) m [] = Some (Inr (map Some (lastn (nat limit) ms)))"
proof -
  have lim: "buf_limit (NewMsgBuffer limit) = limit" by (simp add: NewMsgBuffer_def)
  from push_all_holds[OF buffer_holds_New[OF assms(1)], of ms] assms(2) lim
  obtain m where m: "push_all (NewMsgBuffer limit) ms = Inr m"
    "buffer_holds m (lastn (nat limit) ms)" by auto
  have "buffer_ok m" using m(2) by (simp add: buffer_holds_def)
  moreover have "fold (\<lambda>x acc. acc @ [x]) xs acc = acc @ xs" for xs acc :: "message option list"
    by (induction xs arbitrary: acc) auto
  ultimately show ?thesis using m by (simp add: MsgBuffer_Iter_eq buffer_holds_view)
qed

theorem buffer_keeps_last_witness:
  "\<exists>m. push_all (NewMsgBuffer 2)
         [NewMsg ''a'' 0 ''t'' [], NewMsg ''b'' 1 ''t'' [], NewMsg ''c'' 2 ''t'' []] = Inr m \<and>
    MsgBuffer_Iter (\<lambda>x acc. acc @ [x]) m [] =
      Some (Inr [Some (NewMsg ''b'' 1 ''t'' []), Some (NewMsg ''c'' 2 ''t'' [])])"
  using buffer_keeps_last[of 2
      "[NewMsg ''a'' 0 ''t'' [], NewMsg ''b'' 1 ''t'' [], NewMsg ''c'' 2 ''t'' []]"]
  by (simp add: message_defs lastn_def)

text \<open>
  Pushing a message again when it is the oldest one of a full buffer loses it: the identifier
  stays in the order, its message is deleted from the map, and \<open>Iter\<close> hands the callback a nil
  message in the newest position.
\<close>

theorem buffer_repush_oldest_loses:
  assumes "buffer_ok m" and "int (length (buf_order m)) = buf_limit m"
    and "buf_order m ! buf_start m = msg_UUID msg"
  shows "\<exists>m'. MsgBuffer_Push m msg = Inr m' \<and> buf_msgs m' (msg_UUID msg) = None
           \<and> last (buffer_uuids m') = msg_UUID msg
           \<and> MsgBuffer_Iter (\<lambda>x _. x) m' (Some msg) = Some (Inr None)"
proof -
  have st: "buf_start m < length (buf_order m)" using assms by (auto simp: buffer_ok_def)
  from Push_ok[OF assms(1)] obtain m' where m': "MsgBuffer_Push m msg = Inr m'" "buffer_ok m'"
    by blast
  have uuids: "buffer_uuids m' = tl (buffer_uuids m) @ [msg_UUID msg]"
    by (rule Push_full_uuids[OF assms(2) st m'(1)])
  have gone: "buf_msgs m' (msg_UUID msg) = None"
    using m'(1) assms(3) by (auto simp: Push_full[OF assms(2) st])
  have "fold (\<lambda>x _. x) (buffer_view m') (Some msg) = None"
    using gone by (simp add: buffer_view_def uuids)
  with m' uuids gone show ?thesis by (simp add: MsgBuffer_Iter_eq)
qed

theorem buffer_repush_oldest_loses_witness:
  "\<exists>m'. go_bind (push_all (NewMsgBuffer 2) [NewMsg ''a'' 0 ''t'' [], NewMsg ''b'' 1 ''t'' []])
          (\<lambda>m. MsgBuffer_Push m (NewMsg ''a'' 2 ''t'' [])) = Inr m'
        \<and> buf_msgs m' ''a'' = None"
  using buffer_repush_oldest_loses[of
      "\<lparr>buf_msgs = [''a'' \<mapsto> NewMsg ''a'' 0 ''t'' [], ''b'' \<mapsto> NewMsg ''b'' 1 ''t'' []],
        buf_order = [''a'', ''b''], buf_limit = 2, buf_start = 0, buf_next = 0\<rparr>"
      "NewMsg ''a'' 2 ''t'' []"]
  by (simp add: message_defs buffer_ok_def NewMsgBuffer_def MsgBuffer_Push_def Let_def
      go_index_def)

end
