(* ===== verification/PodRing.thy ===== *)
theory PodRing
  imports Pod MsgBuffer
begin

text \<open>
  The ring of pod connections: \<open>foundation/bus/bus/podconnection.go\<close> and \<open>pool.go\<close>. The circular
  linked list is kept as the code has it: connections live at addresses of a store, each with a
  \<open>next\<close> pointer, and the pool points at the current one. Every connection belongs to one pod and
  shares its channels, so the pod is a field. A \<open>send\<close> starts a goroutine; the started and not yet
  finished sends are \<open>pool_pending\<close>, oldest first.
\<close>

section \<open>State\<close>

definition highWaterMark :: nat where
  "highWaterMark = 64"

record podConnection =
  pc_ID :: int
  pc_next :: "nat option"
  pc_pod :: pod
  pc_failed :: "message list"
  pc_connected :: bool

record connectionPool =
  pool_conns :: "nat \<rightharpoonup> podConnection"
  pool_current :: "nat option"
  pool_maxID :: int
  pool_pending :: "(nat \<times> message option) list"

datatype conn_error = errFailedMessage | errFailedMessageMax

record connStatus =
  cs_HadSuccess :: bool
  cs_WantsReplay :: bool
  cs_WantsDisconnect :: bool
  cs_Error :: "conn_error option"

datatype prep_error = ErrRemovingNext | ErrNextDisconnected

definition newConnectionPool :: connectionPool where
  "newConnectionPool =
     \<lparr>pool_conns = Map.empty, pool_current = None, pool_maxID = 0, pool_pending = []\<rparr>"

definition newPodConnection :: "int \<Rightarrow> pod \<Rightarrow> podConnection" where
  "newPodConnection cid p =
     \<lparr>pc_ID = cid, pc_next = None, pc_pod = p, pc_failed = [], pc_connected = True\<rparr>"

section \<open>Operations of a connection\<close>

text \<open>Dereferencing a pointer to a connection.\<close>

definition conn_deref :: "connectionPool \<Rightarrow> nat option \<Rightarrow> (nat \<times> podConnection) go" where
  "conn_deref s ptr =
     (case ptr of
        None \<Rightarrow> Inl NilDereference
      | Some a \<Rightarrow> (case pool_conns s a of None \<Rightarrow> Inl NilDereference | Some c \<Rightarrow> Inr (a, c)))"

definition conn_store :: "nat \<Rightarrow> podConnection \<Rightarrow> connectionPool \<Rightarrow> connectionPool" where
  "conn_store a c s = s\<lparr>pool_conns := (pool_conns s)(a \<mapsto> c)\<rparr>"

definition conn_send :: "nat \<Rightarrow> message option \<Rightarrow> connectionPool \<Rightarrow> connectionPool" where
  "conn_send a m s = s\<lparr>pool_pending := pool_pending s @ [(a, m)]\<rparr>"

text \<open>The goroutine of the \<open>i\<close>-th pending send: it waits while the pod's channel is full.\<close>

definition conn_send_run :: "nat \<Rightarrow> connectionPool \<Rightarrow> connectionPool option" where
  "conn_send_run i s =
     (if i < length (pool_pending s) then
        (let (a, m) = pool_pending s ! i;
             s1 = s\<lparr>pool_pending := take i (pool_pending s) @ drop (Suc i) (pool_pending s)\<rparr>
         in case pool_conns s a of
              None \<Rightarrow> None
            | Some c \<Rightarrow>
                if \<not> pc_connected c then Some s1
                else (case chan_send defaultPodChanSize m (pod_messageChan (pc_pod c)) of
                        None \<Rightarrow> None
                      | Some q \<Rightarrow>
                          Some (conn_store a (c\<lparr>pc_pod := (pc_pod c)\<lparr>pod_messageChan := q\<rparr>\<rparr>) s1)))
      else None)"

fun drain_feedback ::
    "feedback list \<Rightarrow> connStatus \<Rightarrow> message list \<Rightarrow> connStatus \<times> message list" where
  "drain_feedback [] st failed = (st, failed)"
| "drain_feedback (podFeedbackMsgSuccess # q) st failed =
     drain_feedback q (st\<lparr>cs_HadSuccess := True\<rparr>) failed"
| "drain_feedback (podFeedbackMsgReplay # q) st failed =
     drain_feedback q (st\<lparr>cs_WantsReplay := True\<rparr>) failed"
| "drain_feedback (podFeedbackMsgDisconnect # q) st failed =
     drain_feedback q (st\<lparr>cs_WantsDisconnect := True\<rparr>) failed"
| "drain_feedback (FeedbackFailed m # q) st failed =
     drain_feedback q (st\<lparr>cs_Error := Some errFailedMessage\<rparr>) (failed @ [m])"

definition conn_checkStatus :: "podConnection \<Rightarrow> connStatus \<times> podConnection" where
  "conn_checkStatus c =
     (let st0 = \<lparr>cs_HadSuccess = False, cs_WantsReplay = False, cs_WantsDisconnect = False,
                 cs_Error = None\<rparr>;
          (st1, failed) = drain_feedback (pod_feedbackChan (pc_pod c)) st0 (pc_failed c);
          c1 = c\<lparr>pc_pod := (pc_pod c)\<lparr>pod_feedbackChan := []\<rparr>, pc_failed := failed\<rparr>;
          st2 = (if length failed \<ge> highWaterMark
                 then st1\<lparr>cs_Error := Some errFailedMessageMax\<rparr> else st1)
      in (st2, c1))"

definition conn_disconnect :: "podConnection \<Rightarrow> podConnection go" where
  "conn_disconnect c =
     (if pod_chanClosed (pc_pod c) then Inl CloseOfClosedChannel
      else Inr (c\<lparr>pc_connected := False, pc_pod := (pc_pod c)\<lparr>pod_chanClosed := True\<rparr>\<rparr>))"

definition conn_flushFailed :: "nat \<Rightarrow> podConnection \<Rightarrow> connectionPool \<Rightarrow> connectionPool" where
  "conn_flushFailed a c s =
     conn_store a (c\<lparr>pc_failed := []\<rparr>) (fold (\<lambda>m. conn_send a (Some m)) (pc_failed c) s)"

definition conn_insertAfter :: "nat \<Rightarrow> podConnection \<Rightarrow> nat \<Rightarrow> podConnection \<Rightarrow>
    connectionPool \<Rightarrow> connectionPool" where
  "conn_insertAfter p cp a conn s =
     (let nxt = (case pc_next cp of None \<Rightarrow> p | Some n \<Rightarrow> n)
      in conn_store a (conn\<lparr>pc_next := Some nxt\<rparr>)
           (conn_store p (cp\<lparr>pc_next := Some a\<rparr>) s))"

section \<open>Operations of the pool\<close>

text \<open>A new connection is stored at the address given by its (unique, increasing) ID.\<close>

definition pool_insert :: "pod \<Rightarrow> connectionPool \<Rightarrow> connectionPool go" where
  "pool_insert p s =
     (let s1 = s\<lparr>pool_maxID := pool_maxID s + 1\<rparr>;
          cid = pool_maxID s1;
          conn = newPodConnection cid p;
          a = nat cid
      in case pool_current s1 of
           None \<Rightarrow> Inr ((conn_store a (conn\<lparr>pc_next := Some a\<rparr>) s1)\<lparr>pool_current := Some a\<rparr>)
         | Some cur \<Rightarrow>
             go_bind (conn_deref s1 (Some cur)) (\<lambda>(p, cp).
               Inr (conn_insertAfter p cp a conn s1)))"

definition pool_peek :: "connectionPool \<Rightarrow> nat option go" where
  "pool_peek s = go_bind (conn_deref s (pool_current s)) (\<lambda>(_, c). Inr (pc_next c))"

definition pool_next :: "connectionPool \<Rightarrow> (nat option \<times> connectionPool) go" where
  "pool_next s =
     go_bind (conn_deref s (pool_current s)) (\<lambda>(_, c).
       Inr (pc_next c, s\<lparr>pool_current := pc_next c\<rparr>))"

definition pool_deleteNext :: "connectionPool \<Rightarrow> connectionPool go" where
  "pool_deleteNext s =
     go_bind (conn_deref s (pool_current s)) (\<lambda>(cur, c).
     go_bind (conn_deref s (pc_next c)) (\<lambda>(nxt, cn).
     go_bind (conn_disconnect cn) (\<lambda>cn'.
       let s1 = conn_store nxt cn' s
       in if nxt = cur then Inr (s1\<lparr>pool_current := None\<rparr>)
          else Inr (conn_store cur (c\<lparr>pc_next := pc_next cn'\<rparr>) s1))))"

definition pool_replayNext :: "msg_buffer \<Rightarrow> connectionPool \<Rightarrow> connectionPool prog" where
  "pool_replayNext buffer s =
     (case go_bind (pool_peek s) (conn_deref s) of
        Inl p \<Rightarrow> Some (Inl p)
      | Inr (nxt, _) \<Rightarrow> MsgBuffer_Iter (conn_send nxt) buffer s)"

definition pool_prepareNext ::
    "msg_buffer \<Rightarrow> connectionPool \<Rightarrow> (prep_error option \<times> connectionPool) prog" where
  "pool_prepareNext buffer s =
     prog_bind (Some (go_bind (pool_peek s) (conn_deref s))) (\<lambda>(nxt, c).
       let (status, c1) = conn_checkStatus c;
           s1 = conn_store nxt c1 s;
           finish = (\<lambda>s2. case pool_conns s2 nxt of
                       Some c2 \<Rightarrow> Some (Inr (None, if cs_HadSuccess status
                                                 then conn_flushFailed nxt c2 s2 else s2))
                     | None \<Rightarrow> Some (Inl NilDereference))
       in case cs_Error status of
            Some e \<Rightarrow>
              if e = errFailedMessageMax then
                prog_bind (Some (pool_deleteNext s1)) (\<lambda>s2. Some (Inr (Some ErrRemovingNext, s2)))
              else finish s1
          | None \<Rightarrow>
              if cs_WantsDisconnect status then
                prog_bind (Some (pool_deleteNext s1))
                  (\<lambda>s2. Some (Inr (Some ErrNextDisconnected, s2)))
              else if cs_WantsReplay status then prog_bind (pool_replayNext buffer s1) finish
              else finish s1)"

section \<open>The ring\<close>

text \<open>\<open>path h a xs b\<close>: following \<open>next\<close> from \<open>a\<close> visits \<open>xs\<close> in order and then \<open>b\<close>.\<close>

definition nxt :: "(nat \<rightharpoonup> podConnection) \<Rightarrow> nat \<Rightarrow> nat option" where
  "nxt h a = Option.bind (h a) pc_next"

fun path :: "(nat \<rightharpoonup> podConnection) \<Rightarrow> nat \<Rightarrow> nat list \<Rightarrow> nat \<Rightarrow> bool" where
  "path h a [] b \<longleftrightarrow> nxt h a = Some b"
| "path h a (x # xs) b \<longleftrightarrow> nxt h a = Some x \<and> path h x xs b"

lemma path_snoc [simp]: "path h a (xs @ [b]) c \<longleftrightarrow> path h a xs b \<and> nxt h b = Some c"
  by (induction xs arbitrary: a) auto

lemma path_cong:
  "(\<And>x. x \<in> insert a (set xs) \<Longrightarrow> nxt h' x = nxt h x) \<Longrightarrow> path h' a xs b = path h a xs b"
  by (induction xs arbitrary: a) auto

lemma path_hd: "path h a xs b \<Longrightarrow> nxt h a = Some (hd (xs @ [b]))"
  by (cases xs) auto

definition conn_ok :: "podConnection \<Rightarrow> bool" where
  "conn_ok c \<longleftrightarrow> pc_connected c \<and> \<not> pod_chanClosed (pc_pod c)"

definition conns_ring :: "(nat \<rightharpoonup> podConnection) \<Rightarrow> nat list \<Rightarrow> bool" where
  "conns_ring h xs \<longleftrightarrow>
     distinct xs \<and> (\<forall>a \<in> set xs. \<exists>c. h a = Some c \<and> conn_ok c)
     \<and> (case xs of [] \<Rightarrow> True | x # ys \<Rightarrow> path h x ys x)"

text \<open>\<open>pool_ring s xs\<close>: the pool's ring is \<open>xs\<close>, read from the current connection.\<close>

definition pool_ring :: "connectionPool \<Rightarrow> nat list \<Rightarrow> bool" where
  "pool_ring s xs \<longleftrightarrow>
     conns_ring (pool_conns s) xs
     \<and> pool_current s = (case xs of [] \<Rightarrow> None | x # _ \<Rightarrow> Some x)"

definition pool_ids :: "connectionPool \<Rightarrow> bool" where
  "pool_ids s \<longleftrightarrow> 0 \<le> pool_maxID s
     \<and> (\<forall>a c. pool_conns s a = Some c \<longrightarrow> pc_ID c = int a \<and> int a \<le> pool_maxID s)"

lemma conns_ring_conn: "conns_ring h xs \<Longrightarrow> a \<in> set xs \<Longrightarrow> \<exists>c. h a = Some c \<and> conn_ok c"
  by (simp add: conns_ring_def)

lemma conns_ring_rotate: "conns_ring h (x # ys) \<Longrightarrow> conns_ring h (ys @ [x])"
  by (cases ys) (auto simp: conns_ring_def)

lemma conns_ring_cong:
  assumes "conns_ring h xs"
    and "\<And>a c. a \<in> set xs \<Longrightarrow> h a = Some c \<Longrightarrow> conn_ok c \<Longrightarrow>
           \<exists>c'. h' a = Some c' \<and> conn_ok c' \<and> pc_next c' = pc_next c"
  shows "conns_ring h' xs"
proof -
  have "nxt h' a = nxt h a" if "a \<in> set xs" for a
    using assms(2)[OF that] conns_ring_conn[OF assms(1) that] by (auto simp: nxt_def)
  then have cong: "path h' a ys b = path h a ys b" if "insert a (set ys) \<subseteq> set xs" for a ys b
    using that by (intro path_cong) auto
  have paths: "path h' x ys x = path h x ys x" if "xs = x # ys" for x ys
    using cong[of x ys x] that by auto
  have conns: "\<exists>c. h' a = Some c \<and> conn_ok c" if "a \<in> set xs" for a
    using assms(2)[OF that] conns_ring_conn[OF assms(1) that] by blast
  show ?thesis
    using assms(1) conns paths by (cases xs) (simp_all add: conns_ring_def)
qed

lemma ring_current: "pool_ring s (x # ys) \<Longrightarrow> pool_current s = Some x"
  by (simp add: pool_ring_def)

lemma ring_conn:
  "pool_ring s xs \<Longrightarrow> a \<in> set xs \<Longrightarrow> \<exists>c. pool_conns s a = Some c \<and> conn_ok c"
  by (auto simp: pool_ring_def dest: conns_ring_conn)

lemma ring_next_ptr:
  assumes "pool_ring s (x # ys)" "pool_conns s x = Some c"
  shows "pc_next c = Some (hd (ys @ [x]))"
  using assms by (auto simp: pool_ring_def conns_ring_def nxt_def dest!: path_hd)

lemma ring_conn_send [simp]: "pool_ring (conn_send a m s) xs = pool_ring s xs"
  by (simp add: pool_ring_def conn_send_def)

lemma conn_send_frame [simp]:
  "pool_conns (conn_send a m s) = pool_conns s"
  "pool_current (conn_send a m s) = pool_current s"
  "pool_maxID (conn_send a m s) = pool_maxID s"
  "pool_pending (conn_send a m s) = pool_pending s @ [(a, m)]"
  by (simp_all add: conn_send_def)

lemma conn_store_frame [simp]:
  "pool_conns (conn_store a c s) = (pool_conns s)(a \<mapsto> c)"
  "pool_current (conn_store a c s) = pool_current s"
  "pool_maxID (conn_store a c s) = pool_maxID s"
  "pool_pending (conn_store a c s) = pool_pending s"
  by (simp_all add: conn_store_def)

lemma fold_conn_send [simp]:
  "pool_conns (fold (conn_send a) ms s) = pool_conns s"
  "pool_current (fold (conn_send a) ms s) = pool_current s"
  "pool_maxID (fold (conn_send a) ms s) = pool_maxID s"
  "pool_pending (fold (conn_send a) ms s) = pool_pending s @ map (Pair a) ms"
  by (induction ms arbitrary: s) auto

lemma fold_conn_send_Some:
  "fold (\<lambda>m. conn_send a (Some m)) ms s = fold (conn_send a) (map Some ms) s"
  by (induction ms arbitrary: s) auto

lemma conn_deref_Some [simp]:
  "pool_conns s a = Some c \<Longrightarrow> conn_deref s (Some a) = Inr (a, c)"
  by (simp add: conn_deref_def)

lemma conn_deref_None [simp]: "conn_deref s None = Inl NilDereference"
  by (simp add: conn_deref_def)

text \<open>Storing a connection that keeps its pointer and stays usable keeps the ring.\<close>

lemma ring_conn_store:
  assumes "pool_ring s xs" "pool_conns s a = Some c" "pc_next c' = pc_next c"
    "conn_ok c \<Longrightarrow> conn_ok c'"
  shows "pool_ring (conn_store a c' s) xs"
  using assms unfolding pool_ring_def
  by (auto intro!: conns_ring_cong[of "pool_conns s" xs])

lemma ids_conn_store:
  assumes "pool_ids s" "pool_conns s a = Some c" "pc_ID c' = pc_ID c"
  shows "pool_ids (conn_store a c' s)"
  using assms by (auto simp: pool_ids_def)

lemma ids_conn_send [simp]: "pool_ids (conn_send a m s) = pool_ids s"
  by (simp add: pool_ids_def)

lemma ring_same:
  "pool_conns s' = pool_conns s \<Longrightarrow> pool_current s' = pool_current s \<Longrightarrow> pool_ring s' xs = pool_ring s xs"
  by (simp add: pool_ring_def)

lemma ids_same:
  "pool_conns s' = pool_conns s \<Longrightarrow> pool_maxID s' = pool_maxID s \<Longrightarrow> pool_ids s' = pool_ids s"
  by (simp add: pool_ids_def)

lemma ids_current [simp]: "pool_ids (s\<lparr>pool_current := cur\<rparr>) = pool_ids s"
  by (simp add: pool_ids_def)

section \<open>Each operation on the abstract ring\<close>

lemma pool_peek_ring:
  assumes "pool_ring s (x # ys)"
  shows "pool_peek s = Inr (Some (hd (ys @ [x])))"
  using ring_conn[OF assms, of x] ring_next_ptr[OF assms] ring_current[OF assms]
  by (auto simp: pool_peek_def)

lemma pool_next_ring:
  assumes "pool_ring s (x # ys)"
  shows "pool_next s = Inr (Some (hd (ys @ [x])), s\<lparr>pool_current := Some (hd (ys @ [x]))\<rparr>)"
    and "pool_ring (s\<lparr>pool_current := Some (hd (ys @ [x]))\<rparr>) (ys @ [x])"
proof -
  show "pool_next s = Inr (Some (hd (ys @ [x])), s\<lparr>pool_current := Some (hd (ys @ [x]))\<rparr>)"
    using ring_conn[OF assms, of x] ring_next_ptr[OF assms] ring_current[OF assms]
    by (auto simp: pool_next_def)
  show "pool_ring (s\<lparr>pool_current := Some (hd (ys @ [x]))\<rparr>) (ys @ [x])"
    using assms conns_ring_rotate[of "pool_conns s" x ys]
    by (cases ys) (auto simp: pool_ring_def)
qed

lemma pool_peek_empty: "pool_ring s [] \<Longrightarrow> pool_peek s = Inl NilDereference"
  by (simp add: pool_ring_def pool_peek_def)

lemma pool_next_empty: "pool_ring s [] \<Longrightarrow> pool_next s = Inl NilDereference"
  by (simp add: pool_ring_def pool_next_def)

lemma pool_ring_new: "pool_ring newConnectionPool []" and pool_ids_new: "pool_ids newConnectionPool"
  by (simp_all add: pool_ring_def conns_ring_def newConnectionPool_def pool_ids_def)

lemma pool_ids_extend:
  assumes "pool_ids s" "pool_maxID s' = pool_maxID s + 1"
    and "\<And>b c. pool_conns s' b = Some c \<Longrightarrow>
      (\<exists>c0. pool_conns s b = Some c0 \<and> pc_ID c0 = pc_ID c)
      \<or> (pc_ID c = int b \<and> int b = pool_maxID s + 1)"
  shows "pool_ids s'"
  unfolding pool_ids_def
proof (intro conjI allI impI)
  show "0 \<le> pool_maxID s'" using assms(1,2) by (simp add: pool_ids_def)
next
  fix b c assume "pool_conns s' b = Some c"
  from assms(3)[OF this] assms(1) show "pc_ID c = int b"
    by (auto simp: pool_ids_def)
next
  fix b c assume "pool_conns s' b = Some c"
  from assms(3)[OF this] assms(1,2) show "int b \<le> pool_maxID s'"
    by (force simp: pool_ids_def)
qed

text \<open>A new connection goes right behind the current one, so it is the next one served.\<close>

lemma pool_insert_ring:
  assumes ring: "pool_ring s xs" and ids: "pool_ids s" and opn: "\<not> pod_chanClosed p"
  defines "a \<equiv> nat (pool_maxID s + 1)"
  shows "\<exists>s'. pool_insert p s = Inr s' \<and> pool_ids s'
           \<and> pool_ring s' (case xs of [] \<Rightarrow> [a] | x # ys \<Rightarrow> x # a # ys)
           \<and> pool_pending s' = pool_pending s"
proof -
  have aID: "int a = pool_maxID s + 1" using ids by (simp add: a_def pool_ids_def)
  have fresh: "pool_conns s a = None"
  proof (rule ccontr)
    assume "pool_conns s a \<noteq> None"
    then have "int a \<le> pool_maxID s" using ids by (auto simp: pool_ids_def)
    with aID show False by simp
  qed
  show ?thesis
  proof (cases xs)
    case Nil
    let ?new = "(newPodConnection (pool_maxID s + 1) p)\<lparr>pc_next := Some a\<rparr>"
    let ?s' = "(conn_store a ?new (s\<lparr>pool_maxID := pool_maxID s + 1\<rparr>))\<lparr>pool_current := Some a\<rparr>"
    have "pool_insert p s = Inr ?s'"
      using Nil ring by (simp add: pool_insert_def Let_def a_def[symmetric] pool_ring_def)
    moreover have "pool_ids ?s'"
      by (rule pool_ids_extend[OF ids]) (auto simp: newPodConnection_def aID split: if_splits)
    moreover have "pool_ring ?s' [a]"
      using opn by (simp add: pool_ring_def conns_ring_def newPodConnection_def nxt_def conn_ok_def)
    ultimately show ?thesis using Nil by auto
  next
    case (Cons x ys)
    obtain c where c: "pool_conns s x = Some c" "conn_ok c"
      using ring_conn[OF ring, of x] Cons by auto
    have nx: "pc_next c = Some (hd (ys @ [x]))" using ring_next_ptr[of s x ys] ring c Cons by simp
    let ?new = "(newPodConnection (pool_maxID s + 1) p)\<lparr>pc_next := Some (hd (ys @ [x]))\<rparr>"
    let ?s1 = "s\<lparr>pool_maxID := pool_maxID s + 1\<rparr>"
    let ?s' = "conn_store a ?new (conn_store x (c\<lparr>pc_next := Some a\<rparr>) ?s1)"
    have ins: "pool_insert p s = Inr ?s'"
      using ring_current[of s x ys] ring c nx Cons
      by (simp add: pool_insert_def Let_def a_def[symmetric] conn_insertAfter_def)
    have notin: "a \<notin> set xs" using fresh ring_conn[OF ring] by force
    have h: "pool_conns ?s' = (pool_conns s)(x \<mapsto> c\<lparr>pc_next := Some a\<rparr>, a \<mapsto> ?new)" by simp
    have p0: "path (pool_conns s) x ys x" "distinct (x # ys)"
      using ring Cons by (auto simp: pool_ring_def conns_ring_def)
    have "path (pool_conns ?s') x (a # ys) x"
    proof (cases ys)
      case Nil
      then show ?thesis using notin Cons by (simp add: h nxt_def)
    next
      case (Cons y zs)
      have "path (pool_conns ?s') y zs x = path (pool_conns s) y zs x"
        using p0 Cons notin \<open>xs = x # ys\<close> by (intro path_cong) (auto simp: h nxt_def)
      with p0 Cons notin \<open>xs = x # ys\<close> show ?thesis by (simp add: h nxt_def)
    qed
    moreover have "\<exists>d. pool_conns ?s' b = Some d \<and> conn_ok d" if "b \<in> set (x # a # ys)" for b
      using that ring_conn[OF ring, of b] c opn Cons
      by (auto simp: h conn_ok_def newPodConnection_def)
    ultimately have "pool_ring ?s' (x # a # ys)"
      using p0 notin Cons ring by (auto simp: pool_ring_def conns_ring_def)
    moreover have "pool_ids ?s'"
      using c by (intro pool_ids_extend[OF ids]) (auto simp: newPodConnection_def aID split: if_splits)
    ultimately show ?thesis using ins Cons by auto
  qed
qed

section \<open>Health checks\<close>

text \<open>A connection is removed by its check when it failed too often, or asked to go without a failure.\<close>

definition conn_removed :: "podConnection \<Rightarrow> bool" where
  "conn_removed c \<longleftrightarrow>
     (case cs_Error (fst (conn_checkStatus c)) of
        Some e \<Rightarrow> e = errFailedMessageMax
      | None \<Rightarrow> cs_WantsDisconnect (fst (conn_checkStatus c)))"

text \<open>What a check that keeps the connection sends to it: the replay, then the flushed failures.\<close>

definition prep_sends :: "msg_buffer \<Rightarrow> nat \<Rightarrow> podConnection \<Rightarrow> (nat \<times> message option) list" where
  "prep_sends buffer a c =
     (let (status, c1) = conn_checkStatus c
      in (if cs_Error status = None \<and> cs_WantsReplay status then map (Pair a) (buffer_view buffer) else [])
         @ (if cs_HadSuccess status then map (\<lambda>m. (a, Some m)) (pc_failed c1) else []))"

definition conn_kept :: "podConnection \<Rightarrow> podConnection" where
  "conn_kept c =
     (let (status, c1) = conn_checkStatus c
      in if cs_HadSuccess status then c1\<lparr>pc_failed := []\<rparr> else c1)"

definition strip :: "podConnection \<Rightarrow> podConnection" where
  "strip c = c\<lparr>pc_next := None\<rparr>"

text \<open>\<open>conns_except y s s'\<close>: apart from \<open>y\<close>, only \<open>next\<close> pointers differ.\<close>

definition conns_except :: "nat \<Rightarrow> connectionPool \<Rightarrow> connectionPool \<Rightarrow> bool" where
  "conns_except y s s' \<longleftrightarrow>
     (\<forall>a. a \<noteq> y \<longrightarrow> map_option strip (pool_conns s' a) = map_option strip (pool_conns s a))"

lemma checkStatus_frame:
  "conn_checkStatus c = (st, c1) \<Longrightarrow>
     pc_next c1 = pc_next c \<and> pc_ID c1 = pc_ID c \<and> pc_connected c1 = pc_connected c
     \<and> pod_chanClosed (pc_pod c1) = pod_chanClosed (pc_pod c)"
  by (auto simp: conn_checkStatus_def Let_def split: prod.splits)

lemma checkStatus_ok: "conn_checkStatus c = (st, c1) \<Longrightarrow> conn_ok c1 = conn_ok c"
  by (auto simp: conn_ok_def dest: checkStatus_frame)

lemma conn_kept_frame [simp]:
  "pc_next (conn_kept c) = pc_next c" "pc_ID (conn_kept c) = pc_ID c"
  "conn_ok (conn_kept c) = conn_ok c"
  by (auto simp: conn_kept_def conn_ok_def dest: checkStatus_frame split: prod.splits)

lemma pool_deleteNext_ring:
  assumes ring: "pool_ring s (x # ys)" and ids: "pool_ids s"
    and y: "y = hd (ys @ [x])" "pool_conns s y = Some c"
  shows "\<exists>s' c'. pool_deleteNext s = Inr s'
           \<and> pool_ring s' (if ys = [] then [] else x # tl ys) \<and> pool_ids s'
           \<and> pool_pending s' = pool_pending s \<and> conns_except y s s'
           \<and> pool_conns s' y = Some c' \<and> pc_ID c' = pc_ID c \<and> pc_next c' = pc_next c
           \<and> \<not> pc_connected c'"
proof -
  obtain cx where cx: "pool_conns s x = Some cx" "conn_ok cx" using ring_conn[OF ring, of x] by auto
  have nx: "pc_next cx = Some y" using ring_next_ptr[OF ring cx(1)] y by simp
  have cok: "conn_ok c" using ring_conn[OF ring, of y] y by (cases ys) auto
  let ?c' = "c\<lparr>pc_connected := False, pc_pod := (pc_pod c)\<lparr>pod_chanClosed := True\<rparr>\<rparr>"
  have dis: "conn_disconnect c = Inr ?c'" using cok by (simp add: conn_disconnect_def conn_ok_def)
  show ?thesis
  proof (cases ys)
    case Nil
    then have "y = x" "c = cx" using y cx by auto
    let ?s' = "(conn_store x ?c' s)\<lparr>pool_current := None\<rparr>"
    have "pool_deleteNext s = Inr ?s'"
      using ring_current[OF ring] cx nx dis \<open>y = x\<close> \<open>c = cx\<close>
      by (simp add: pool_deleteNext_def Let_def)
    moreover have "pool_ids ?s'" using ids_conn_store[OF ids y(2), of ?c'] \<open>y = x\<close> by simp
    moreover have "conns_except y s ?s'" using \<open>y = x\<close> by (simp add: conns_except_def)
    ultimately show ?thesis
      using Nil \<open>y = x\<close>
      by (intro exI[of _ ?s'] exI[of _ ?c']) (simp add: pool_ring_def conns_ring_def)
  next
    case (Cons z zs)
    then have yz: "y = z" using y by simp
    have dist: "distinct (x # y # zs)" and pth: "path (pool_conns s) x (y # zs) x"
      using ring Cons yz by (auto simp: pool_ring_def conns_ring_def)
    let ?s' = "conn_store x (cx\<lparr>pc_next := pc_next c\<rparr>) (conn_store y ?c' s)"
    have "pool_deleteNext s = Inr ?s'"
      using ring_current[OF ring] cx nx y dis dist by (simp add: pool_deleteNext_def Let_def)
    moreover have "pool_ring ?s' (x # zs)"
    proof -
      have "path (pool_conns ?s') x zs x"
      proof (cases zs)
        case Nil
        then show ?thesis using pth y by (simp add: nxt_def)
      next
        case (Cons w ws)
        have "path (pool_conns ?s') w ws x = path (pool_conns s) w ws x"
          using dist Cons by (intro path_cong) (auto simp: nxt_def)
        then show ?thesis using pth y Cons by (simp add: nxt_def)
      qed
      moreover have "\<exists>d. pool_conns ?s' b = Some d \<and> conn_ok d" if "b \<in> set (x # zs)" for b
        using that ring_conn[OF ring, of b] cx dist Cons yz by (auto simp: conn_ok_def)
      ultimately show ?thesis using dist ring by (auto simp: pool_ring_def conns_ring_def)
    qed
    moreover have "pool_ids ?s'" using ids y cx dist by (auto simp: pool_ids_def)
    moreover have "conns_except y s ?s'" using cx by (auto simp: conns_except_def strip_def)
    ultimately show ?thesis using Cons dist by (intro exI[of _ ?s'] exI[of _ ?c']) simp
  qed
qed

lemma prepareNext_removed:
  assumes ring: "pool_ring s (x # ys)" and ids: "pool_ids s"
    and y: "y = hd (ys @ [x])" "pool_conns s y = Some c" and rem: "conn_removed c"
  shows "\<exists>e s' c'. pool_prepareNext buffer s = Some (Inr (Some e, s'))
           \<and> pool_ring s' (if ys = [] then [] else x # tl ys) \<and> pool_ids s'
           \<and> pool_pending s' = pool_pending s \<and> conns_except y s s'
           \<and> pool_conns s' y = Some c' \<and> pc_ID c' = pc_ID c \<and> pc_next c' = pc_next c
           \<and> \<not> pc_connected c'"
proof -
  obtain st c1 where st: "conn_checkStatus c = (st, c1)" by (cases "conn_checkStatus c")
  note fr = checkStatus_frame[OF st] checkStatus_ok[OF st]
  let ?s1 = "conn_store y c1 s"
  have ring1: "pool_ring ?s1 (x # ys)" using ring y fr by (intro ring_conn_store) auto
  have ids1: "pool_ids ?s1" using ids y fr by (intro ids_conn_store) auto
  from pool_deleteNext_ring[OF ring1 ids1 y(1), of c1] obtain s' c' where
    del: "pool_deleteNext ?s1 = Inr s'" and res:
    "pool_ring s' (if ys = [] then [] else x # tl ys)" "pool_ids s'"
    "pool_pending s' = pool_pending s" "conns_except y ?s1 s'"
    "pool_conns s' y = Some c'" "pc_ID c' = pc_ID c" "pc_next c' = pc_next c"
    "\<not> pc_connected c'" using fr by auto
  have exc: "conns_except y s s'" using res(4) by (simp add: conns_except_def)
  have peek: "go_bind (pool_peek s) (conn_deref s) = Inr (y, c)"
    using pool_peek_ring[OF ring] y by simp
  have "\<exists>e. pool_prepareNext buffer s = Some (Inr (Some e, s'))"
    using rem st del
    by (auto simp: pool_prepareNext_def peek Let_def conn_removed_def split: option.splits)
  with res exc show ?thesis by blast
qed

lemma prepareNext_kept:
  assumes ring: "pool_ring s (x # ys)" and ids: "pool_ids s" and buf: "buffer_ok buffer"
    and y: "y = hd (ys @ [x])" "pool_conns s y = Some c" and kept: "\<not> conn_removed c"
  shows "\<exists>s'. pool_prepareNext buffer s = Some (Inr (None, s'))
           \<and> pool_ring s' (x # ys) \<and> pool_ids s'
           \<and> pool_pending s' = pool_pending s @ prep_sends buffer y c
           \<and> pool_conns s' = (pool_conns s)(y \<mapsto> conn_kept c)"
proof -
  obtain st c1 where st: "conn_checkStatus c = (st, c1)" by (cases "conn_checkStatus c")
  note fr = checkStatus_frame[OF st] checkStatus_ok[OF st]
  let ?s1 = "conn_store y c1 s"
  have ring1: "pool_ring ?s1 (x # ys)" using ring y fr by (intro ring_conn_store) auto
  have ids1: "pool_ids ?s1" using ids y fr by (intro ids_conn_store) auto
  have peek: "go_bind (pool_peek s) (conn_deref s) = Inr (y, c)"
    using pool_peek_ring[OF ring] y by simp
  have peek1: "go_bind (pool_peek ?s1) (conn_deref ?s1) = Inr (y, c1)"
    using pool_peek_ring[OF ring1] y by simp
  define rs where "rs = (if cs_Error st = None \<and> cs_WantsReplay st then buffer_view buffer else [])"
  let ?s2 = "fold (conn_send y) rs ?s1"
  let ?s3 = "if cs_HadSuccess st then conn_flushFailed y c1 ?s2 else ?s2"
  have prep: "pool_prepareNext buffer s = Some (Inr (None, ?s3))"
    using kept st
    by (auto simp: pool_prepareNext_def peek Let_def conn_removed_def pool_replayNext_def peek1
        MsgBuffer_Iter_eq[OF buf] rs_def split: option.splits)
  have conns: "pool_conns ?s3 = (pool_conns s)(y \<mapsto> conn_kept c)"
    using st by (auto simp: conn_kept_def conn_flushFailed_def fold_conn_send_Some)
  have pend: "pool_pending ?s3 = pool_pending s @ prep_sends buffer y c"
    using st by (simp add: prep_sends_def rs_def conn_flushFailed_def fold_conn_send_Some)
  have cur: "pool_current ?s3 = pool_current s" "pool_maxID ?s3 = pool_maxID s"
    by (simp_all add: conn_flushFailed_def fold_conn_send_Some)
  moreover have "pool_ring (conn_store y (conn_kept c) s) (x # ys)"
    using ring y by (intro ring_conn_store) auto
  moreover have "pool_ids (conn_store y (conn_kept c) s)"
    using ids y by (intro ids_conn_store) auto
  ultimately have "pool_ring ?s3 (x # ys)" "pool_ids ?s3"
    using cur ring_same[of ?s3 "conn_store y (conn_kept c) s"]
      ids_same[of ?s3 "conn_store y (conn_kept c) s"] conns
    by (simp_all only: conn_store_frame)
  with prep conns pend show ?thesis by blast
qed

text \<open>A second check in a row finds nothing to remove.\<close>

definition conn_settled :: "podConnection \<Rightarrow> bool" where
  "conn_settled c \<longleftrightarrow> pod_feedbackChan (pc_pod c) = [] \<and> length (pc_failed c) < highWaterMark"

lemma conn_settled_not_removed: "conn_settled c \<Longrightarrow> \<not> conn_removed c"
  by (simp add: conn_settled_def conn_removed_def conn_checkStatus_def)

lemma highWaterMark_pos: "0 < highWaterMark"
  by (simp add: highWaterMark_def)

lemma conn_kept_settled:
  assumes "\<not> conn_removed c"
  shows "conn_settled (conn_kept c)"
proof -
  obtain st f where d: "drain_feedback (pod_feedbackChan (pc_pod c))
      \<lparr>cs_HadSuccess = False, cs_WantsReplay = False, cs_WantsDisconnect = False, cs_Error = None\<rparr>
      (pc_failed c) = (st, f)" by fastforce
  have "length f < highWaterMark"
    using assms d by (auto simp: conn_removed_def conn_checkStatus_def split: if_splits)
  then show ?thesis
    using d highWaterMark_pos by (simp add: conn_settled_def conn_kept_def conn_checkStatus_def)
qed

text \<open>A pool with one connection, as inserting into the empty pool gives it.\<close>

definition lone_pool :: "pod \<Rightarrow> connectionPool" where
  "lone_pool p =
     (conn_store 1 ((newPodConnection 1 p)\<lparr>pc_next := Some 1\<rparr>)
       (newConnectionPool\<lparr>pool_maxID := 1\<rparr>))\<lparr>pool_current := Some 1\<rparr>"

lemma lone_pool_insert: "pool_insert p newConnectionPool = Inr (lone_pool p)"
  by (simp add: pool_insert_def lone_pool_def Let_def) (simp add: newConnectionPool_def)

lemma lone_pool_ok:
  assumes "\<not> pod_chanClosed p"
  shows "pool_ring (lone_pool p) [1]" "pool_ids (lone_pool p)"
  using pool_insert_ring[OF pool_ring_new pool_ids_new assms]
  by (simp_all add: lone_pool_insert) (simp_all add: newConnectionPool_def)

lemma lone_pool_conn:
  "pool_conns (lone_pool p) = [1 \<mapsto> (newPodConnection 1 p)\<lparr>pc_next := Some 1\<rparr>]"
  by (simp add: lone_pool_def) (simp add: newConnectionPool_def)

section \<open>Properties\<close>

text \<open>
  A pod's request to be disconnected is lost when it reaches the bus together with a failed
  message: the check drains both from the feedback channel, acts on neither, and keeps the
  connection, with an empty feedback channel, in the ring.
\<close>

theorem disconnect_lost_behind_failure:
  assumes "pool_ring s (x # ys)" and "pool_ids s" and "buffer_ok buffer"
    and "pool_conns s (hd (ys @ [x])) = Some c" and "pc_failed c = []"
    and "pod_feedbackChan (pc_pod c) = [FeedbackFailed m, podFeedbackMsgDisconnect]"
  shows "\<exists>s' c'. pool_prepareNext buffer s = Some (Inr (None, s')) \<and> pool_ring s' (x # ys)
           \<and> pool_conns s' (hd (ys @ [x])) = Some c' \<and> pc_connected c'
           \<and> pod_feedbackChan (pc_pod c') = []"
proof -
  have "\<not> conn_removed c" using assms(5,6)
    by (simp add: conn_removed_def conn_checkStatus_def highWaterMark_def)
  from prepareNext_kept[OF assms(1,2,3) refl assms(4) this] obtain s' where s':
    "pool_prepareNext buffer s = Some (Inr (None, s'))" "pool_ring s' (x # ys)"
    "pool_conns s' = (pool_conns s)(hd (ys @ [x]) \<mapsto> conn_kept c)" by blast
  have "conn_ok c" using ring_conn[OF assms(1), of "hd (ys @ [x])"] assms(4) by (cases ys) auto
  then have "pc_connected (conn_kept c)" using conn_kept_frame(3)[of c] by (simp add: conn_ok_def)
  moreover have "pod_feedbackChan (pc_pod (conn_kept c)) = []"
    by (auto simp: conn_kept_def conn_checkStatus_def Let_def split: prod.splits)
  ultimately show ?thesis using s' by auto
qed

theorem disconnect_lost_behind_failure_witness:
  "\<exists>s' c'. pool_prepareNext (NewMsgBuffer 3) (lone_pool ((newPod False)\<lparr>pod_feedbackChan :=
        [FeedbackFailed (NewMsg ''u'' 0 ''t'' []), podFeedbackMsgDisconnect]\<rparr>)) = Some (Inr (None, s'))
     \<and> pool_ring s' [1] \<and> pool_conns s' 1 = Some c' \<and> pc_connected c'
     \<and> pod_feedbackChan (pc_pod c') = []"
proof -
  let ?m = "NewMsg ''u'' 0 ''t'' []"
  let ?p = "(newPod False)\<lparr>pod_feedbackChan := [FeedbackFailed ?m, podFeedbackMsgDisconnect]\<rparr>"
  have "\<not> pod_chanClosed ?p" by (simp add: newPod_def)
  note ok = lone_pool_ok[OF this]
  have conn: "pool_conns (lone_pool ?p) (hd ([] @ [1])) = Some ((newPodConnection 1 ?p)\<lparr>pc_next := Some 1\<rparr>)"
    by (simp add: lone_pool_conn)
  show ?thesis
    using disconnect_lost_behind_failure[OF ok buffer_ok_New[of 3] conn, of ?m]
    by (simp add: newPodConnection_def)
qed

end
