(* ===== verification/MessageBus.thy ===== *)
theory MessageBus
  imports PodRing
begin

text \<open>
  The message bus, \<open>foundation/bus/bus/messagebus.go\<close>: one goroutine takes the messages off the bus
  channel, readies the next connection of the ring, walks once around the ring sending the message
  to each connection, and then records the message in the replay buffer. The handling of one message
  is \<open>bus_handle\<close>; feedback that pods post is what lies in their channels when it starts.
\<close>

section \<open>State and operations\<close>

definition defaultBusChanSize :: nat where
  "defaultBusChanSize = 256"

record messageBus =
  bus_busChan :: "message list"
  bus_pool :: connectionPool
  bus_buffer :: msg_buffer

definition newMessageBus :: messageBus where
  "newMessageBus =
     \<lparr>bus_busChan = [], bus_pool = newConnectionPool, bus_buffer = NewMsgBuffer defaultBufferSize\<rparr>"

definition bus_addPod :: "pod \<Rightarrow> messageBus \<Rightarrow> messageBus go" where
  "bus_addPod p b = go_bind (pool_insert p (bus_pool b)) (\<lambda>s. Inr (b\<lparr>bus_pool := s\<rparr>))"

partial_function (option) prepare_loop ::
    "msg_buffer \<Rightarrow> connectionPool \<Rightarrow> (go_panic + connectionPool) option" where
  "prepare_loop buffer s =
     prog_bind (pool_prepareNext buffer s) (\<lambda>(e, s1).
       case e of None \<Rightarrow> Some (Inr s1) | Some _ \<Rightarrow> prepare_loop buffer s1)"

text \<open>The start of the walk moves on when the connection it names is the one just removed.\<close>

definition moved_start ::
    "prep_error option \<Rightarrow> int \<Rightarrow> nat option \<Rightarrow> connectionPool \<Rightarrow> int go" where
  "moved_start e startID nextp s =
     (case e of
        None \<Rightarrow> Inr startID
      | Some _ \<Rightarrow>
          go_bind (conn_deref s nextp) (\<lambda>(_, n).
            if startID = pc_ID n
            then go_bind (conn_deref s (pc_next n)) (\<lambda>(_, nn). Inr (pc_ID nn))
            else Inr startID))"

partial_function (option) traverse_loop ::
    "message \<Rightarrow> msg_buffer \<Rightarrow> int \<Rightarrow> nat \<Rightarrow> connectionPool \<Rightarrow> (go_panic + connectionPool) option" where
  "traverse_loop m buffer startID conn s =
     prog_bind (Some (pool_peek (conn_send conn (Some m) s))) (\<lambda>nextp.
     prog_bind (pool_prepareNext buffer (conn_send conn (Some m) s)) (\<lambda>(e, s2).
     prog_bind (Some (moved_start e startID nextp s2)) (\<lambda>startID'.
     prog_bind (Some (pool_next s2)) (\<lambda>(cur, s3).
     prog_bind (Some (conn_deref s3 cur)) (\<lambda>(a, c).
       if startID' = pc_ID c then Some (Inr s3)
       else traverse_loop m buffer startID' a s3)))))"

definition bus_traverse ::
    "message \<Rightarrow> msg_buffer \<Rightarrow> nat option \<Rightarrow> connectionPool \<Rightarrow> connectionPool prog" where
  "bus_traverse m buffer start s =
     prog_bind (Some (conn_deref s start)) (\<lambda>(a, c). traverse_loop m buffer (pc_ID c) a s)"

definition bus_handle :: "message \<Rightarrow> messageBus \<Rightarrow> messageBus prog" where
  "bus_handle m b =
     prog_bind (prepare_loop (bus_buffer b) (bus_pool b)) (\<lambda>s1.
     prog_bind (Some (pool_next s1)) (\<lambda>(start, s2).
     prog_bind (bus_traverse m (bus_buffer b) start s2) (\<lambda>s3.
     prog_bind (Some (MsgBuffer_Push (bus_buffer b) m)) (\<lambda>buf.
       Some (Inr (b\<lparr>bus_pool := s3, bus_buffer := buf\<rparr>))))))"

definition bus_step :: "messageBus \<Rightarrow> messageBus prog" where
  "bus_step b =
     (case bus_busChan b of
        [] \<Rightarrow> None
      | m # q \<Rightarrow> bus_handle m (b\<lparr>bus_busChan := q\<rparr>))"

section \<open>The walk around the ring\<close>

text \<open>The connection at an address, its ring pointer forgotten: what no relinking changes.\<close>

definition conn_at :: "connectionPool \<Rightarrow> nat \<Rightarrow> podConnection" where
  "conn_at s a = strip (the (pool_conns s a))"

lemma checkStatus_strip:
  "conn_checkStatus (strip c) = (fst (conn_checkStatus c), strip (snd (conn_checkStatus c)))"
  by (simp add: conn_checkStatus_def strip_def split: prod.splits)

lemma conn_removed_strip [simp]: "conn_removed (strip c) = conn_removed c"
  by (simp add: conn_removed_def checkStatus_strip split: option.split)

lemma prep_sends_strip [simp]: "prep_sends buffer a (strip c) = prep_sends buffer a c"
  by (simp add: prep_sends_def checkStatus_strip split: prod.splits) (simp add: strip_def)

lemma conn_settled_strip [simp]: "conn_settled (strip c) = conn_settled c"
  by (simp add: conn_settled_def strip_def)

lemma prep_sends_settled: "conn_settled c \<Longrightarrow> prep_sends buffer a c = []"
  by (simp add: prep_sends_def conn_settled_def conn_checkStatus_def)

lemma conns_except_at: "conns_except y s s' \<Longrightarrow> a \<noteq> y \<Longrightarrow> pool_conns s a \<noteq> None \<Longrightarrow>
    conn_at s' a = conn_at s a"
  by (cases "pool_conns s' a") (force simp: conns_except_def conn_at_def)+

text \<open>
  The connections served after the first, given the order of the ring and which connections their
  check removes. The successor of a removed connection is served without a check of its own.
\<close>

fun walk :: "(nat \<Rightarrow> bool) \<Rightarrow> nat list \<Rightarrow> nat list" where
  "walk R [] = []"
| "walk R (y # ys) =
     (if R y then (case ys of [] \<Rightarrow> [] | z # zs \<Rightarrow> z # walk R zs) else y # walk R ys)"

text \<open>Every send of one walk in order: the message, and what the checks replay and flush.\<close>

fun walk_log ::
    "msg_buffer \<Rightarrow> message \<Rightarrow> (nat \<Rightarrow> podConnection) \<Rightarrow> nat \<Rightarrow> nat list \<Rightarrow> (nat \<times> message option) list"
  where
  "walk_log buffer m f x [] = [(x, Some m)]"
| "walk_log buffer m f x (y # ys) =
     (x, Some m) #
     (if conn_removed (f y) then (case ys of [] \<Rightarrow> [] | z # zs \<Rightarrow> walk_log buffer m f z zs)
      else prep_sends buffer y (f y) @ walk_log buffer m f y ys)"

lemma walk_subset: "set (walk R ys) \<subseteq> set ys"
  by (induction R ys rule: walk.induct) (auto split: list.splits)

lemma walk_distinct: "distinct ys \<Longrightarrow> distinct (walk R ys)"
proof (induction R ys rule: walk.induct)
  case (2 R y ys)
  then show ?case using walk_subset[of R ys] walk_subset[of R "tl ys"] by (auto split: list.splits)
qed simp

lemma walk_keeps: "a \<in> set ys \<Longrightarrow> \<not> R a \<Longrightarrow> a \<in> set (walk R ys)"
proof (induction R ys rule: walk.induct)
  case (2 R y ys)
  then show ?case by (cases ys) auto
qed simp

lemma walk_none: "\<forall>a \<in> set ys. \<not> R a \<Longrightarrow> walk R ys = ys"
  by (induction ys) auto

lemma walk_cong: "(\<And>a. a \<in> set ys \<Longrightarrow> R a = R' a) \<Longrightarrow> walk R ys = walk R' ys"
  by (induction R ys rule: walk.induct) (auto split: list.splits)

lemma walk_log_cong:
  "(\<And>a. a \<in> set ys \<Longrightarrow> f a = g a) \<Longrightarrow> walk_log buffer m f x ys = walk_log buffer m g x ys"
  by (induction buffer m f x ys rule: walk_log.induct) (auto split: list.splits)

text \<open>The addresses to which a log delivers one message.\<close>

definition delivered :: "message \<Rightarrow> (nat \<times> message option) list \<Rightarrow> nat list" where
  "delivered m l = map fst (filter (\<lambda>(a, x). x = Some m) l)"

lemma delivered_simps [simp]:
  "delivered m [] = []"
  "delivered m (p # l) = (if snd p = Some m then fst p # delivered m l else delivered m l)"
  "delivered m (l1 @ l2) = delivered m l1 @ delivered m l2"
  by (auto simp: delivered_def split: prod.splits)

lemma walk_log_delivered:
  assumes "\<And>a. a \<in> set ys \<Longrightarrow> delivered m (prep_sends buffer a (f a)) = []"
  shows "delivered m (walk_log buffer m f x ys) = x # walk (\<lambda>a. conn_removed (f a)) ys"
  using assms
proof (induction buffer m f x ys rule: walk_log.induct)
  case (2 buffer m f x y ys)
  then show ?case by (cases ys) auto
qed simp

lemma conn_kept_strip: "strip (conn_kept c) = conn_kept (strip c)"
  by (auto simp: conn_kept_def checkStatus_strip split: prod.splits) (simp_all add: strip_def)

lemma conn_at_conns: "pool_conns s' = pool_conns s \<Longrightarrow> conn_at s' = conn_at s"
  by (simp add: conn_at_def fun_eq_iff)

lemma conn_at_frame [simp]:
  "conn_at (conn_send a m s) = conn_at s" "conn_at (s\<lparr>pool_current := cur\<rparr>) = conn_at s"
  by (simp_all add: conn_at_def fun_eq_iff)

lemma ring_nonNone: "pool_ring s xs \<Longrightarrow> a \<in> set xs \<Longrightarrow> pool_conns s a \<noteq> None"
  using ring_conn by fastforce

lemma ring_ID: "pool_ring s xs \<Longrightarrow> pool_ids s \<Longrightarrow> a \<in> set xs \<Longrightarrow>
    \<exists>c. pool_conns s a = Some c \<and> pc_ID c = int a \<and> conn_ok c"
  using ring_conn by (fastforce simp: pool_ids_def)

lemma ring_distinct: "pool_ring s xs \<Longrightarrow> distinct xs"
  by (simp add: pool_ring_def conns_ring_def)

text \<open>The two outcomes of a check, seen through \<open>conn_at\<close>.\<close>

lemma prepare_removed_at:
  assumes ring: "pool_ring s (x # ys)" and ids: "pool_ids s"
    and y: "y = hd (ys @ [x])" and rem: "conn_removed (conn_at s y)"
  shows "\<exists>e s' c'. pool_prepareNext buffer s = Some (Inr (Some e, s'))
           \<and> pool_ring s' (if ys = [] then [] else x # tl ys) \<and> pool_ids s'
           \<and> pool_pending s' = pool_pending s
           \<and> (\<forall>a. a \<noteq> y \<longrightarrow> a \<in> set (x # ys) \<longrightarrow> conn_at s' a = conn_at s a)
           \<and> pool_conns s' y = Some c' \<and> pc_ID c' = int y \<and> pc_next c' = nxt (pool_conns s) y"
proof -
  have "y \<in> set (x # ys)" using y by (cases ys) auto
  from ring_ID[OF ring ids this] obtain c where c: "pool_conns s y = Some c" "pc_ID c = int y"
    by blast
  have "conn_removed c" using rem c by (simp add: conn_at_def)
  from prepareNext_removed[OF ring ids y c(1) this, of buffer] obtain e s' c' where s':
    "pool_prepareNext buffer s = Some (Inr (Some e, s'))"
    "pool_ring s' (if ys = [] then [] else x # tl ys)" "pool_ids s'"
    "pool_pending s' = pool_pending s" "conns_except y s s'"
    "pool_conns s' y = Some c'" "pc_ID c' = pc_ID c" "pc_next c' = pc_next c" by blast
  have "conn_at s' a = conn_at s a" if "a \<noteq> y" "a \<in> set (x # ys)" for a
    using conns_except_at[OF s'(5) that(1)] ring_nonNone[OF ring that(2)] by blast
  with s' c show ?thesis by (intro exI[of _ e] exI[of _ s'] exI[of _ c']) (simp add: nxt_def)
qed

lemma prepare_kept_at:
  assumes ring: "pool_ring s (x # ys)" and ids: "pool_ids s" and buf: "buffer_ok buffer"
    and y: "y = hd (ys @ [x])" and kept: "\<not> conn_removed (conn_at s y)"
  shows "\<exists>s'. pool_prepareNext buffer s = Some (Inr (None, s'))
           \<and> pool_ring s' (x # ys) \<and> pool_ids s'
           \<and> pool_pending s' = pool_pending s @ prep_sends buffer y (conn_at s y)
           \<and> conn_at s' y = conn_kept (conn_at s y)
           \<and> (\<forall>a. a \<noteq> y \<longrightarrow> conn_at s' a = conn_at s a)"
proof -
  have "y \<in> set (x # ys)" using y by (cases ys) auto
  from ring_ID[OF ring ids this] obtain c where c: "pool_conns s y = Some c" by blast
  have at: "conn_at s y = strip c" and "\<not> conn_removed c" using kept c by (simp_all add: conn_at_def)
  from prepareNext_kept[OF ring ids buf y c this(2)] show ?thesis
    by (auto simp: at conn_kept_strip) (simp_all add: conn_at_def conn_kept_strip)
qed

lemma traverse_ring:
  assumes "pool_ring s (c # todo @ done)" "pool_ids s" "buffer_ok buffer"
    and "start = hd (done @ [c])" "conn_settled (conn_at s start)"
  shows "\<exists>s'. traverse_loop m buffer (int start) c s = Some (Inr s')
           \<and> pool_ring s' (done @ c # walk (\<lambda>a. conn_removed (conn_at s a)) todo) \<and> pool_ids s'
           \<and> pool_pending s' = pool_pending s @ walk_log buffer m (conn_at s) c todo"
  using assms
proof (induction "length todo" arbitrary: s c todo "done" rule: less_induct)
  case less
  note ring = less.prems(1) and ids = less.prems(2) and buf = less.prems(3)
    and start = less.prems(4) and settled = less.prems(5)
  let ?s1 = "conn_send c (Some m) s"
  have ring1: "pool_ring ?s1 (c # todo @ done)" and ids1: "pool_ids ?s1" using ring ids by simp_all
  have dist: "distinct (c # todo @ done)" using ring by (rule ring_distinct)
  define y where "y = hd ((todo @ done) @ [c])"
  have peek: "pool_peek ?s1 = Inr (Some y)" using pool_peek_ring[OF ring1] by (simp add: y_def)
  have step: "\<exists>s3. traverse_loop m buffer (int start) c s =
        (if start = h then Some (Inr s3) else traverse_loop m buffer (int start) h s3)
      \<and> pool_ring s3 (ys @ [c]) \<and> pool_ids s3 \<and> pool_pending s3 = pool_pending s2
      \<and> conn_at s3 = conn_at s2"
    if prep: "pool_prepareNext buffer ?s1 = Some (Inr (e, s2))"
      and mv: "moved_start e (int start) (Some y) s2 = Inr (int start)"
      and r2: "pool_ring s2 (c # ys)" and i2: "pool_ids s2" and h: "h = hd (ys @ [c])" for e s2 ys h
  proof -
    let ?s3 = "s2\<lparr>pool_current := Some h\<rparr>"
    note n = pool_next_ring[OF r2, folded h]
    have i3: "pool_ids ?s3" using i2 by simp
    have "h \<in> set (ys @ [c])" using h by (cases ys) auto
    from ring_ID[OF n(2) i3 this] obtain d where "pool_conns s2 h = Some d" "pc_ID d = int h" by auto
    then have "traverse_loop m buffer (int start) c s =
        (if start = h then Some (Inr ?s3) else traverse_loop m buffer (int start) h ?s3)"
      by (subst traverse_loop.simps) (simp add: peek prep mv n(1) conn_deref_def)
    with n(2) i3 show ?thesis by (intro exI[of _ ?s3]) simp
  qed
  show ?case
  proof (cases "conn_removed (conn_at s y)")
    case True
    have "y \<noteq> start" using True settled conn_settled_not_removed by auto
    then obtain ys where todo: "todo = y # ys" using start by (cases todo) (auto simp: y_def)
    from prepare_removed_at[OF ring1 ids1 y_def, of buffer] True obtain e s2 c' where s2:
      "pool_prepareNext buffer ?s1 = Some (Inr (Some e, s2))"
      "pool_ring s2 (c # ys @ done)" "pool_ids s2" "pool_pending s2 = pool_pending ?s1"
      "\<And>a. a \<noteq> y \<Longrightarrow> a \<in> set (c # todo @ done) \<Longrightarrow> conn_at s2 a = conn_at s a"
      "pool_conns s2 y = Some c'" "pc_ID c' = int y"
      using todo by (simp del: prep_sends_strip) blast
    have mv: "moved_start (Some e) (int start) (Some y) s2 = Inr (int start)"
      using s2(6,7) \<open>y \<noteq> start\<close> by (simp add: moved_start_def)
    from step[OF s2(1) mv s2(2,3) refl] obtain s3 where s3:
      "traverse_loop m buffer (int start) c s =
        (if start = hd ((ys @ done) @ [c]) then Some (Inr s3)
         else traverse_loop m buffer (int start) (hd ((ys @ done) @ [c])) s3)"
      "pool_ring s3 ((ys @ done) @ [c])" "pool_ids s3" "pool_pending s3 = pool_pending s2"
      "conn_at s3 = conn_at s2" by blast
    show ?thesis
    proof (cases ys)
      case Nil
      with s3 s2(4) todo start True show ?thesis by (intro exI[of _ s3]) simp
    next
      case (Cons z zs)
      have "start \<noteq> z" using dist start todo Cons by (cases "done") auto
      have at: "conn_at s3 a = conn_at s a" if "a \<in> set zs \<or> a = start" for a
        using that s3(5) s2(5)[of a] dist todo Cons \<open>y \<noteq> start\<close> start by (cases "done") auto
      have "\<exists>s'. traverse_loop m buffer (int start) z s3 = Some (Inr s')
           \<and> pool_ring s' ((done @ [c]) @ z # walk (\<lambda>a. conn_removed (conn_at s3 a)) zs)
           \<and> pool_ids s' \<and> pool_pending s' = pool_pending s3 @ walk_log buffer m (conn_at s3) z zs"
        using s3(2,3) buf start settled at todo Cons
        by (intro less.hyps) (auto simp: hd_append)
      moreover have "walk (\<lambda>a. conn_removed (conn_at s3 a)) zs = walk (\<lambda>a. conn_removed (conn_at s a)) zs"
        "walk_log buffer m (conn_at s3) z zs = walk_log buffer m (conn_at s) z zs"
        using at by (auto intro!: walk_cong walk_log_cong)
      ultimately show ?thesis
        using s3(1,4) s2(4) \<open>start \<noteq> z\<close> todo Cons True by simp
    qed
  next
    case False
    from prepare_kept_at[OF ring1 ids1 buf y_def] False obtain s2 where s2:
      "pool_prepareNext buffer ?s1 = Some (Inr (None, s2))"
      "pool_ring s2 (c # todo @ done)" "pool_ids s2"
      "pool_pending s2 = pool_pending ?s1 @ prep_sends buffer y (conn_at s y)"
      "\<And>a. a \<noteq> y \<Longrightarrow> conn_at s2 a = conn_at s a" by auto
    have mv: "moved_start None (int start) (Some y) s2 = Inr (int start)"
      by (simp add: moved_start_def)
    from step[OF s2(1) mv s2(2,3) y_def] obtain s3 where s3:
      "traverse_loop m buffer (int start) c s =
        (if start = y then Some (Inr s3) else traverse_loop m buffer (int start) y s3)"
      "pool_ring s3 ((todo @ done) @ [c])" "pool_ids s3" "pool_pending s3 = pool_pending s2"
      "conn_at s3 = conn_at s2" by blast
    show ?thesis
    proof (cases todo)
      case Nil
      then have "start = y" using start by (simp add: y_def)
      with s3 s2(4) settled Nil show ?thesis
        by (intro exI[of _ s3]) (simp add: prep_sends_settled)
    next
      case (Cons y' zs)
      then have [simp]: "y' = y" by (simp add: y_def)
      have "start \<noteq> y" using dist start Cons by (cases "done") auto
      have at: "conn_at s3 a = conn_at s a" if "a \<in> set zs \<or> a = start" for a
        using that s3(5) s2(5)[of a] dist Cons \<open>start \<noteq> y\<close> by auto
      have "\<exists>s'. traverse_loop m buffer (int start) y s3 = Some (Inr s')
           \<and> pool_ring s' ((done @ [c]) @ y # walk (\<lambda>a. conn_removed (conn_at s3 a)) zs)
           \<and> pool_ids s' \<and> pool_pending s' = pool_pending s3 @ walk_log buffer m (conn_at s3) y zs"
        using s3(2,3) buf start settled at Cons
        by (intro less.hyps) (auto simp: hd_append)
      moreover have "walk (\<lambda>a. conn_removed (conn_at s3 a)) zs = walk (\<lambda>a. conn_removed (conn_at s a)) zs"
        "walk_log buffer m (conn_at s3) y zs = walk_log buffer m (conn_at s) y zs"
        using at by (auto intro!: walk_cong walk_log_cong)
      ultimately show ?thesis
        using s3(1,4) s2(4) \<open>start \<noteq> y\<close> Cons False by simp
    qed
  qed
qed

text \<open>
  Readying the next connection drops the connections their checks remove, up to the first that
  stays; it panics exactly when there is none, because the ring is empty by then.
\<close>

lemma prepare_loop_ring:
  assumes "pool_ring s (x # ys)" "pool_ids s" "buffer_ok buffer"
    and "zs = dropWhile (\<lambda>a. conn_removed (conn_at s a)) (ys @ [x])"
  shows "if zs = [] then prepare_loop buffer s = Some (Inl NilDereference)
    else \<exists>s'. prepare_loop buffer s = Some (Inr s') \<and> pool_ring s' (x # butlast zs) \<and> pool_ids s'
        \<and> pool_pending s' = pool_pending s @ prep_sends buffer (hd zs) (conn_at s (hd zs))
        \<and> conn_settled (conn_at s' (hd zs))
        \<and> (\<forall>a \<in> set (tl zs). conn_at s' a = conn_at s a)"
  using assms
proof (induction "length ys" arbitrary: s ys rule: less_induct)
  case less
  note ring = less.prems(1) and ids = less.prems(2) and buf = less.prems(3) and zs = less.prems(4)
  define y where "y = hd (ys @ [x])"
  have dist: "distinct (x # ys)" using ring by (rule ring_distinct)
  show ?case
  proof (cases "conn_removed (conn_at s y)")
    case False
    then have z: "zs = ys @ [x]" using zs y_def by (cases ys) auto
    have "y \<notin> set (tl zs)" using dist z y_def by (cases ys) auto
    from prepare_kept_at[OF ring ids buf y_def False] obtain s' where s':
      "pool_prepareNext buffer s = Some (Inr (None, s'))" "pool_ring s' (x # ys)" "pool_ids s'"
      "pool_pending s' = pool_pending s @ prep_sends buffer y (conn_at s y)"
      "conn_at s' y = conn_kept (conn_at s y)" "\<And>a. a \<noteq> y \<Longrightarrow> conn_at s' a = conn_at s a" by blast
    have "prepare_loop buffer s = Some (Inr s')" by (subst prepare_loop.simps) (simp add: s'(1))
    moreover have "conn_at s' a = conn_at s a" if "a \<in> set (tl zs)" for a
      using s'(6)[of a] that \<open>y \<notin> set (tl zs)\<close> by blast
    moreover have "hd zs = y" "zs \<noteq> []" "butlast zs = ys" using z by (simp_all add: y_def)
    ultimately show ?thesis
      using s' conn_kept_settled[OF False] by simp
  next
    case True
    from prepare_removed_at[OF ring ids y_def True, of buffer] obtain e s' where s':
      "pool_prepareNext buffer s = Some (Inr (Some e, s'))"
      "pool_ring s' (if ys = [] then [] else x # tl ys)" "pool_ids s'"
      "pool_pending s' = pool_pending s"
      "\<And>a. a \<noteq> y \<Longrightarrow> a \<in> set (x # ys) \<Longrightarrow> conn_at s' a = conn_at s a" by blast
    have loop: "prepare_loop buffer s = prepare_loop buffer s'"
      by (subst prepare_loop.simps) (simp add: s'(1))
    show ?thesis
    proof (cases ys)
      case Nil
      then have "pool_prepareNext buffer s' = Some (Inl NilDereference)"
        using s'(2) by (simp add: pool_prepareNext_def pool_peek_empty)
      then have "prepare_loop buffer s' = Some (Inl NilDereference)"
        by (subst prepare_loop.simps) simp
      with loop Nil zs True show ?thesis by (simp add: y_def)
    next
      case (Cons y' us)
      then have [simp]: "y' = y" by (simp add: y_def)
      have at: "conn_at s' a = conn_at s a" if "a \<in> set (us @ [x])" for a
        using s'(5)[of a] that dist Cons by auto
      have zs': "zs = dropWhile (\<lambda>a. conn_removed (conn_at s' a)) (us @ [x])"
        unfolding zs Cons using True
        by (simp del: dropWhile_append) (rule dropWhile_cong[OF refl], simp only: at)
      have "set zs \<subseteq> set (us @ [x])" unfolding zs' by (rule set_dropWhileD[THEN subsetI])
      then have "conn_at s' a = conn_at s a" if "a \<in> set zs" for a using at that by blast
      then have hd_tl: "zs \<noteq> [] \<Longrightarrow> conn_at s' (hd zs) = conn_at s (hd zs)"
        "\<And>a. a \<in> set (tl zs) \<Longrightarrow> conn_at s' a = conn_at s a"
        by (auto dest: list.set_sel(2)[rotated] intro: hd_in_set) (metis list.set_sel(2) tl_Nil)
      have "if zs = [] then prepare_loop buffer s' = Some (Inl NilDereference)
        else \<exists>s''. prepare_loop buffer s' = Some (Inr s'') \<and> pool_ring s'' (x # butlast zs) \<and> pool_ids s''
            \<and> pool_pending s'' = pool_pending s' @ prep_sends buffer (hd zs) (conn_at s' (hd zs))
            \<and> conn_settled (conn_at s'' (hd zs))
            \<and> (\<forall>a \<in> set (tl zs). conn_at s'' a = conn_at s' a)"
        using Cons s'(2,3) buf zs' by (intro less.hyps) auto
      then show ?thesis using hd_tl s'(4) loop by (auto split: if_splits)
    qed
  qed
qed

text \<open>The ring one message starts from: the successors of the current connection that are ready.\<close>

definition ready_ring :: "messageBus \<Rightarrow> nat list \<Rightarrow> nat list" where
  "ready_ring b xs = dropWhile (\<lambda>a. conn_removed (conn_at (bus_pool b) a)) (rotate1 xs)"

definition bus_ok :: "messageBus \<Rightarrow> nat list \<Rightarrow> bool" where
  "bus_ok b xs \<longleftrightarrow> pool_ring (bus_pool b) xs \<and> pool_ids (bus_pool b) \<and> buffer_ok (bus_buffer b)"

lemma bus_handle_ready:
  assumes ok: "bus_ok b (x # ys)" and ready: "ready_ring b (x # ys) = z # zs"
  defines "f \<equiv> conn_at (bus_pool b)"
  shows "\<exists>b'. bus_handle m b = Some (Inr b')
    \<and> bus_ok b' (z # walk (\<lambda>a. conn_removed (f a)) zs) \<and> bus_busChan b' = bus_busChan b
    \<and> MsgBuffer_Push (bus_buffer b) m = Inr (bus_buffer b')
    \<and> pool_pending (bus_pool b') = pool_pending (bus_pool b)
        @ prep_sends (bus_buffer b) z (f z) @ walk_log (bus_buffer b) m f z zs"
proof -
  let ?s = "bus_pool b" and ?buf = "bus_buffer b"
  have ring: "pool_ring ?s (x # ys)" and ids: "pool_ids ?s" and buf: "buffer_ok ?buf"
    using ok by (simp_all add: bus_ok_def)
  have zs: "z # zs = dropWhile (\<lambda>a. conn_removed (conn_at ?s a)) (ys @ [x])"
    using ready by (simp add: ready_ring_def)
  from prepare_loop_ring[OF ring ids buf zs] obtain s1 where s1:
    "prepare_loop ?buf ?s = Some (Inr s1)" "pool_ring s1 (x # butlast (z # zs))" "pool_ids s1"
    "pool_pending s1 = pool_pending ?s @ prep_sends ?buf z (f z)"
    "conn_settled (conn_at s1 z)" "\<And>a. a \<in> set zs \<Longrightarrow> conn_at s1 a = f a"
    by (auto simp: f_def)
  have "last (z # zs) = x"
    using takeWhile_dropWhile_id[of "\<lambda>a. conn_removed (conn_at ?s a)" "ys @ [x]", folded zs]
    by (metis last_appendR last_snoc list.distinct(1))
  then have rot: "butlast (z # zs) @ [x] = z # zs" by (metis append_butlast_last_id list.distinct(1))
  let ?s2 = "s1\<lparr>pool_current := Some z\<rparr>"
  have next_conn: "pool_next s1 = Inr (Some z, ?s2)" "pool_ring ?s2 (z # zs @ [])"
    using pool_next_ring[OF s1(2)] rot by simp_all
  have i2: "pool_ids ?s2" using s1(3) by simp
  from ring_ID[OF next_conn(2) i2, of z] obtain c where c: "pool_conns s1 z = Some c" "pc_ID c = int z"
    by auto
  from traverse_ring[OF next_conn(2) i2 buf, of z m] s1(5) obtain s3 where s3:
    "traverse_loop m ?buf (int z) z ?s2 = Some (Inr s3)"
    "pool_ring s3 (z # walk (\<lambda>a. conn_removed (conn_at s1 a)) zs)" "pool_ids s3"
    "pool_pending s3 = pool_pending s1 @ walk_log ?buf m (conn_at s1) z zs" by auto
  have same: "walk (\<lambda>a. conn_removed (conn_at s1 a)) zs = walk (\<lambda>a. conn_removed (f a)) zs"
    "walk_log ?buf m (conn_at s1) z zs = walk_log ?buf m f z zs"
    using s1(6) by (auto intro!: walk_cong walk_log_cong)
  have trav: "bus_traverse m ?buf (Some z) ?s2 = Some (Inr s3)"
    using c s3(1) by (simp add: bus_traverse_def conn_deref_def)
  from Push_ok[OF buf, of m] obtain buf' where buf': "MsgBuffer_Push ?buf m = Inr buf'" "buffer_ok buf'"
    by blast
  have "bus_handle m b = Some (Inr (b\<lparr>bus_pool := s3, bus_buffer := buf'\<rparr>))"
    by (simp add: bus_handle_def s1(1) next_conn(1) trav buf'(1))
  then show ?thesis
    using s3 s1(4) same buf' by (auto simp: bus_ok_def)
qed

lemma bus_handle_none_ready:
  assumes ok: "bus_ok b (x # ys)" and "ready_ring b (x # ys) = []"
  shows "bus_handle m b = Some (Inl NilDereference)"
  using prepare_loop_ring[of "bus_pool b" x ys "bus_buffer b" "[]"] assms
  by (simp add: bus_handle_def bus_ok_def ready_ring_def)

text \<open>
  A message is fresh for a bus when neither the replay buffer nor a connection's queue of failed
  messages holds an equal one, so that its deliveries can be told from replays and retries.
\<close>

definition fresh_msg :: "message \<Rightarrow> messageBus \<Rightarrow> nat list \<Rightarrow> bool" where
  "fresh_msg m b xs \<longleftrightarrow> Some m \<notin> set (buffer_view (bus_buffer b))
     \<and> (\<forall>a \<in> set xs. m \<notin> set (pc_failed (snd (conn_checkStatus (conn_at (bus_pool b) a)))))"

lemma delivered_Nil_iff: "delivered m l = [] \<longleftrightarrow> Some m \<notin> snd ` set l"
  by (force simp: delivered_def filter_empty_conv)

lemma fresh_prep_sends:
  "fresh_msg m b xs \<Longrightarrow> a \<in> set xs \<Longrightarrow>
     delivered m (prep_sends (bus_buffer b) a (conn_at (bus_pool b) a)) = []"
  by (auto simp: fresh_msg_def prep_sends_def delivered_Nil_iff split: prod.splits)
    (metis snd_conv)

lemma ready_ring_subset: "set (ready_ring b xs) \<subseteq> set xs"
  using set_dropWhileD unfolding ready_ring_def by fastforce

lemma ready_ring_keeps:
  "a \<in> set xs \<Longrightarrow> \<not> conn_removed (conn_at (bus_pool b) a) \<Longrightarrow> a \<in> set (ready_ring b xs)"
  using takeWhile_dropWhile_id[of "\<lambda>a. conn_removed (conn_at (bus_pool b) a)" "rotate1 xs"]
  unfolding ready_ring_def by (metis Un_iff set_append set_rotate1 set_takeWhileD)

lemma ready_ring_distinct: "distinct xs \<Longrightarrow> distinct (ready_ring b xs)"
  by (simp add: ready_ring_def distinct_dropWhile)

lemma ready_ring_hd: "ready_ring b xs = z # zs \<Longrightarrow> \<not> conn_removed (conn_at (bus_pool b) z)"
  using hd_dropWhile[of "\<lambda>a. conn_removed (conn_at (bus_pool b) a)" "rotate1 xs"]
  by (simp add: ready_ring_def)

lemma ready_ring_Nil_iff:
  "ready_ring b xs = [] \<longleftrightarrow> (\<forall>a \<in> set xs. conn_removed (conn_at (bus_pool b) a))"
  by (simp add: ready_ring_def dropWhile_eq_Nil_conv)

lemma bus_handle_served:
  assumes ok: "bus_ok b xs" and ready: "ready_ring b xs = z # zs" and fresh: "fresh_msg m b xs"
  shows "\<exists>b' log. bus_handle m b = Some (Inr b')
    \<and> pool_pending (bus_pool b') = pool_pending (bus_pool b) @ log
    \<and> delivered m log = z # walk (\<lambda>a. conn_removed (conn_at (bus_pool b) a)) zs
    \<and> bus_ok b' (delivered m log) \<and> MsgBuffer_Push (bus_buffer b) m = Inr (bus_buffer b')"
proof -
  let ?f = "conn_at (bus_pool b)"
  obtain x ys where xs: "xs = x # ys" using ready by (cases xs) (auto simp: ready_ring_def)
  from bus_handle_ready[OF ok[unfolded xs] ready[unfolded xs], of m] obtain b' where b':
    "bus_handle m b = Some (Inr b')" "bus_ok b' (z # walk (\<lambda>a. conn_removed (?f a)) zs)"
    "MsgBuffer_Push (bus_buffer b) m = Inr (bus_buffer b')"
    "pool_pending (bus_pool b') = pool_pending (bus_pool b)
        @ prep_sends (bus_buffer b) z (?f z) @ walk_log (bus_buffer b) m ?f z zs" by blast
  have sub: "set (z # zs) \<subseteq> set xs" using ready_ring_subset[of b xs] ready by simp
  have "delivered m (walk_log (bus_buffer b) m ?f z zs) = z # walk (\<lambda>a. conn_removed (?f a)) zs"
    using sub fresh_prep_sends[OF fresh] by (intro walk_log_delivered) auto
  then have "delivered m (prep_sends (bus_buffer b) z (?f z) @ walk_log (bus_buffer b) m ?f z zs)
      = z # walk (\<lambda>a. conn_removed (?f a)) zs"
    using sub fresh_prep_sends[OF fresh, of z] by simp
  with b' show ?thesis by auto
qed

text \<open>A fresh bus with one pod connected.\<close>

definition lone_bus :: "pod \<Rightarrow> messageBus" where
  "lone_bus p = newMessageBus\<lparr>bus_pool := lone_pool p\<rparr>"

lemma lone_bus_ok: "\<not> pod_chanClosed p \<Longrightarrow> bus_ok (lone_bus p) [1]"
  by (simp add: bus_ok_def lone_bus_def lone_pool_ok newMessageBus_def buffer_ok_New
      defaultBufferSize_def del: One_nat_def)

lemma lone_bus_conn: "conn_at (bus_pool (lone_bus p)) 1 = newPodConnection 1 p"
  by (simp add: lone_bus_def conn_at_def lone_pool_conn strip_def newPodConnection_def)

lemma new_conn_settled: "pod_feedbackChan p = [] \<Longrightarrow> conn_settled (newPodConnection i p)"
  by (simp add: conn_settled_def newPodConnection_def highWaterMark_def)

lemma new_conn_status:
  "pod_feedbackChan p = [] \<Longrightarrow> pc_failed (snd (conn_checkStatus (newPodConnection i p))) = []"
  by (simp add: newPodConnection_def conn_checkStatus_def Let_def)

lemma lone_bus_fresh: "pod_feedbackChan p = [] \<Longrightarrow> fresh_msg m (lone_bus p) [1]"
  by (simp add: fresh_msg_def lone_bus_conn new_conn_status del: One_nat_def)
    (simp add: lone_bus_def newMessageBus_def NewMsgBuffer_def buffer_view_def buffer_uuids_def)

lemma lone_bus_kept:
  "pod_feedbackChan p = [] \<Longrightarrow> \<not> conn_removed (conn_at (bus_pool (lone_bus p)) 1)"
  by (simp add: lone_bus_conn conn_settled_not_removed new_conn_settled del: One_nat_def)

lemma newPod_chans [simp]: "pod_feedbackChan (newPod w) = []" "\<not> pod_chanClosed (newPod w)"
  by (simp_all add: newPod_def)

section \<open>Properties\<close>

text \<open>
  C4: Handling a message always ends, and hands it exactly once to every connection whose check
  does not remove it. What the walk served is, in order, exactly the ring that remains, and the
  message is recorded in the replay buffer.
\<close>

theorem bus_delivers_once:
  assumes "bus_ok b xs" and "\<exists>a \<in> set xs. \<not> conn_removed (conn_at (bus_pool b) a)"
    and "fresh_msg m b xs"
  shows "\<exists>b' log. bus_handle m b = Some (Inr b')
    \<and> pool_pending (bus_pool b') = pool_pending (bus_pool b) @ log
    \<and> distinct (delivered m log) \<and> set (delivered m log) \<subseteq> set xs
    \<and> (\<forall>a. a \<in> set xs \<and> \<not> conn_removed (conn_at (bus_pool b) a) \<longrightarrow> a \<in> set (delivered m log))
    \<and> bus_ok b' (delivered m log) \<and> MsgBuffer_Push (bus_buffer b) m = Inr (bus_buffer b')"
proof -
  let ?R = "\<lambda>a. conn_removed (conn_at (bus_pool b) a)"
  obtain z zs where r: "ready_ring b xs = z # zs"
    using assms(2) ready_ring_Nil_iff[of b xs] by (cases "ready_ring b xs") auto
  have d: "distinct (z # zs)" using assms(1) r ready_ring_distinct[of xs b]
    by (auto simp: bus_ok_def dest: ring_distinct)
  have k: "a \<in> set (z # walk ?R zs)" if "a \<in> set xs" "\<not> ?R a" for a
    using ready_ring_keeps[OF that] r walk_keeps[of a zs ?R] that(2) by auto
  from bus_handle_served[OF assms(1) r assms(3)] obtain b' log where b':
    "bus_handle m b = Some (Inr b')"
    "pool_pending (bus_pool b') = pool_pending (bus_pool b) @ log"
    "delivered m log = z # walk ?R zs" "bus_ok b' (delivered m log)"
    "MsgBuffer_Push (bus_buffer b) m = Inr (bus_buffer b')" by blast
  have "distinct (z # walk ?R zs)" "set (z # walk ?R zs) \<subseteq> set xs"
    using d walk_distinct[of zs ?R] walk_subset[of ?R zs] ready_ring_subset[of b xs] r by auto
  with b' k show ?thesis by (intro exI[of _ b'] exI[of _ log]) simp
qed

theorem bus_delivers_once_witness:
  "\<exists>b' log. bus_handle (NewMsg ''u'' 0 ''t'' []) (lone_bus (newPod False)) = Some (Inr b')
    \<and> pool_pending (bus_pool b') = log \<and> 1 \<in> set (delivered (NewMsg ''u'' 0 ''t'' []) log)"
proof -
  have "pool_pending (bus_pool (lone_bus (newPod False))) = []"
    by (simp add: lone_bus_def lone_pool_def) (simp add: newConnectionPool_def)
  with bus_delivers_once[of "lone_bus (newPod False)" "[1]" "NewMsg ''u'' 0 ''t'' []"]
  show ?thesis by (fastforce simp: lone_bus_ok lone_bus_fresh lone_bus_kept simp del: One_nat_def)
qed

text \<open>
  On a ring of healthy connections a message goes once around, from the connection after the
  current one back to the current one, and the ring stays in place for the next message.
\<close>

theorem bus_healthy_round:
  assumes "bus_ok b xs" and "xs \<noteq> []" and "fresh_msg m b xs"
    and "\<forall>a \<in> set xs. \<not> conn_removed (conn_at (bus_pool b) a)"
  shows "\<exists>b' log. bus_handle m b = Some (Inr b')
    \<and> pool_pending (bus_pool b') = pool_pending (bus_pool b) @ log
    \<and> delivered m log = rotate1 xs \<and> bus_ok b' (rotate1 xs)"
proof -
  obtain z zs where z: "rotate1 xs = z # zs" using assms(2) by (cases "rotate1 xs") auto
  have all: "\<forall>a \<in> set (z # zs). \<not> conn_removed (conn_at (bus_pool b) a)"
    using assms(4) z by (metis set_rotate1)
  then have r: "ready_ring b xs = z # zs" by (simp add: ready_ring_def z)
  from bus_handle_served[OF assms(1) r assms(3)] all show ?thesis
    by (fastforce simp: walk_none z)
qed

theorem bus_healthy_round_witness:
  "\<exists>b' log. bus_handle (NewMsg ''u'' 0 ''t'' []) (lone_bus (newPod False)) = Some (Inr b')
    \<and> delivered (NewMsg ''u'' 0 ''t'' []) log = [1] \<and> bus_ok b' [1]"
proof -
  show ?thesis
    using bus_healthy_round[of "lone_bus (newPod False)" "[1]" "NewMsg ''u'' 0 ''t'' []"]
    by (fastforce simp: lone_bus_ok lone_bus_fresh lone_bus_kept simp del: One_nat_def)
qed

text \<open>
  C24: The bus goroutine panics on a message exactly when every connection of the ring is removed by
  its check: the ring is empty then, and the next look at it dereferences nil.
\<close>

theorem bus_panics_iff_all_removed:
  assumes "bus_ok b xs" and "xs \<noteq> []"
  shows "bus_handle m b = Some (Inl NilDereference) \<longleftrightarrow>
    (\<forall>a \<in> set xs. conn_removed (conn_at (bus_pool b) a))"
proof -
  obtain x ys where xs: "xs = x # ys" using assms(2) by (cases xs) auto
  show ?thesis
  proof (cases "ready_ring b xs")
    case Nil
    then show ?thesis
      using bus_handle_none_ready[OF assms(1)[unfolded xs], of m] ready_ring_Nil_iff[of b xs] xs by simp
  next
    case (Cons z zs)
    then show ?thesis
      using bus_handle_ready[OF assms(1)[unfolded xs] Cons[unfolded xs], of m]
        ready_ring_Nil_iff[of b xs] by auto
  qed
qed

theorem bus_panics_iff_all_removed_witness:
  "bus_handle (NewMsg ''u'' 0 ''t'' [])
     (lone_bus ((newPod False)\<lparr>pod_feedbackChan := [podFeedbackMsgDisconnect]\<rparr>))
   = Some (Inl NilDereference)"
proof -
  let ?p = "(newPod False)\<lparr>pod_feedbackChan := [podFeedbackMsgDisconnect]\<rparr>"
  have "conn_removed (conn_at (bus_pool (lone_bus ?p)) 1)"
    by (simp only: lone_bus_conn)
      (simp add: newPodConnection_def conn_removed_def conn_checkStatus_def highWaterMark_def)
  moreover have "bus_ok (lone_bus ?p) [1]" by (rule lone_bus_ok) (simp add: newPod_def)
  ultimately show ?thesis
    using bus_panics_iff_all_removed[of "lone_bus ?p" "[1]" "NewMsg ''u'' 0 ''t'' []"] by simp
qed

end
