(* ===== verification/Connection.thy ===== *)
theory Connection
  imports Message
begin

text \<open>
  One meshed connection: the withdraw signaler of \<open>foundation/bus/bus/withdraw/signaler.go\<close> and the
  handler of \<open>foundation/bus/bus/connectionhandler.go\<close>. The connection itself is a transport plugin
  and is known by a number; whether a send on it succeeds is an argument. The error channel is
  unbuffered: a goroutine that reports an error waits on it, so the channel is the list of the
  waiting goroutines, and a message sender carries the peers it has still to serve.
\<close>

section \<open>The withdraw signaler\<close>

record signaler =
  sg_withdrawChan :: "unit list"
  sg_doneChan :: "unit list"
  sg_selfWithdrawn :: bool
  sg_peerWithdrawn :: bool

definition NewSignaler :: signaler where
  "NewSignaler =
     \<lparr>sg_withdrawChan = [], sg_doneChan = [], sg_selfWithdrawn = False, sg_peerWithdrawn = False\<rparr>"

definition Signaler_Signal :: "signaler \<Rightarrow> signaler option" where
  "Signaler_Signal s =
     (case chan_send 1 () (sg_withdrawChan s) of
        None \<Rightarrow> None
      | Some q \<Rightarrow> Some (s\<lparr>sg_selfWithdrawn := True, sg_withdrawChan := q\<rparr>))"

definition Signaler_Listen :: "signaler \<Rightarrow> signaler option" where
  "Signaler_Listen s =
     (case sg_withdrawChan s of [] \<Rightarrow> None | _ # q \<Rightarrow> Some (s\<lparr>sg_withdrawChan := q\<rparr>))"

definition Signaler_Done :: "signaler \<Rightarrow> signaler option" where
  "Signaler_Done s =
     (case chan_send 1 () (sg_doneChan s) of
        None \<Rightarrow> None | Some q \<Rightarrow> Some (s\<lparr>sg_doneChan := q\<rparr>))"

definition SelfWithdrawn :: "signaler \<Rightarrow> bool" where
  "SelfWithdrawn s = sg_selfWithdrawn s"

definition SetPeerWithdrawn :: "signaler \<Rightarrow> signaler" where
  "SetPeerWithdrawn s = s\<lparr>sg_peerWithdrawn := True\<rparr>"

definition PeerWithdrawn :: "signaler \<Rightarrow> bool" where
  "PeerWithdrawn s = sg_peerWithdrawn s"

section \<open>The connection handler\<close>

datatype err_sender =
    FromReader
  | FromWithdraw
  | FromTunnel
  | FromMessage message "string list"

record connectionHandler =
  ch_UUID :: string
  ch_Conn :: "nat option"
  ch_Signaler :: signaler
  ch_ErrChan :: "err_sender list"
  ch_BelongsTo :: string
  ch_Interests :: "string list"

datatype read_event = ReadMessage message | ReadWithdraw | ReadError

text \<open>
  One turn of the reader: the message it puts on the bus, and whether it goes on reading.
\<close>

definition handler_read ::
    "read_event \<Rightarrow> connectionHandler \<Rightarrow> message option \<times> bool \<times> connectionHandler" where
  "handler_read ev c =
     (case ev of
        ReadError \<Rightarrow>
          if SelfWithdrawn (ch_Signaler c) \<or> PeerWithdrawn (ch_Signaler c) then (None, False, c)
          else (None, False, c\<lparr>ch_ErrChan := ch_ErrChan c @ [FromReader]\<rparr>)
      | ReadWithdraw \<Rightarrow> (None, False, c\<lparr>ch_Signaler := SetPeerWithdrawn (ch_Signaler c)\<rparr>)
      | ReadMessage m \<Rightarrow> (Some m, True, c))"

text \<open>The withdraw goroutine, once it is signalled; a failed send is reported before it is done.\<close>

definition handler_withdraw :: "bool \<Rightarrow> connectionHandler \<Rightarrow> connectionHandler option" where
  "handler_withdraw send_ok c =
     (case Signaler_Listen (ch_Signaler c) of
        None \<Rightarrow> None
      | Some sg \<Rightarrow>
          if send_ok
          then map_option (\<lambda>sg'. c\<lparr>ch_Signaler := sg'\<rparr>) (Signaler_Done sg)
          else Some (c\<lparr>ch_Signaler := sg, ch_ErrChan := ch_ErrChan c @ [FromWithdraw]\<rparr>))"

datatype send_result = SendOk | SendNodeWithdrawn | SendWaits

definition handler_Send ::
    "bool \<Rightarrow> err_sender \<Rightarrow> connectionHandler \<Rightarrow> send_result \<times> connectionHandler" where
  "handler_Send send_ok who c =
     (if PeerWithdrawn (ch_Signaler c) then (SendNodeWithdrawn, c)
      else if send_ok then (SendOk, c)
      else (SendWaits, c\<lparr>ch_ErrChan := ch_ErrChan c @ [who]\<rparr>))"

lemma handler_Send_frame:
  "handler_Send ok who c = (r, c') \<Longrightarrow>
     ch_UUID c' = ch_UUID c \<and> ch_Conn c' = ch_Conn c \<and> ch_Interests c' = ch_Interests c
     \<and> ch_Signaler c' = ch_Signaler c"
  by (auto simp: handler_Send_def split: if_splits)

text \<open>The first withdraw of a signaler goes through; the next one waits until the first is taken.\<close>

lemma Signal_once:
  "Signaler_Signal NewSignaler = Some s \<Longrightarrow> Signaler_Signal s = None \<and> SelfWithdrawn s"
  by (auto simp: Signaler_Signal_def NewSignaler_def chan_send_def SelfWithdrawn_def)

end
