(* ===== verification/Hub.thy ===== *)
theory Hub
  imports Connection Balancer
begin

text \<open>
  The hub of \<open>foundation/bus/bus/hub.go\<close>: meshed connections by peer, a balancer per capability, the
  handshakes, tunnels and broadcasts, the scan that removes failed connections, and the withdraw.
  Go visits maps in any order, so the order of a pass over the connections is an argument. Message
  handlers hold the hub's read lock while they wait to report an error: \<open>hub_readers\<close> counts them,
  and an operation that needs the write lock blocks (\<open>None\<close>) while there is one. The closed
  connections and the messages handed to the transport are logged.
\<close>

section \<open>State\<close>

definition tunnelRetryCount :: nat where
  "tunnelRetryCount = 32"

record handshake =
  hs_UUID :: string
  hs_BelongsTo :: string
  hs_Interests :: "string list"

record handshakeAck =
  ack_Accept :: bool
  ack_UUID :: string
  ack_BelongsTo :: string
  ack_Interests :: "string list"

record hub =
  hub_nodeUUID :: string
  hub_belongsTo :: string
  hub_interests :: "string list"
  hub_hasMesh :: bool
  hub_hasBridge :: bool
  hub_meshConnections :: "string \<rightharpoonup> connectionHandler"
  hub_bridgeConnections :: "string \<rightharpoonup> nat"
  hub_balancers :: "string \<rightharpoonup> balancer"
  hub_readers :: nat
  hub_closed :: "nat list"
  hub_sent :: "(nat \<times> message) list"

datatype hub_error = ErrTransportNotConfigured | ErrTunnelNotEstablished | ErrConnect string

definition initHub :: "string \<Rightarrow> string \<Rightarrow> string list \<Rightarrow> bool \<Rightarrow> bool \<Rightarrow> hub" where
  "initHub nodeUUID belongsTo interests mesh bridge =
     \<lparr>hub_nodeUUID = nodeUUID, hub_belongsTo = belongsTo, hub_interests = interests,
      hub_hasMesh = mesh, hub_hasBridge = bridge, hub_meshConnections = Map.empty,
      hub_bridgeConnections = Map.empty, hub_balancers = Map.empty, hub_readers = 0,
      hub_closed = [], hub_sent = []\<rparr>"

section \<open>Connections\<close>

definition hub_close :: "nat \<Rightarrow> hub \<Rightarrow> hub" where
  "hub_close conn h = h\<lparr>hub_closed := hub_closed h @ [conn]\<rparr>"

definition connectionExists :: "string \<Rightarrow> hub \<Rightarrow> bool" where
  "connectionExists uuid h \<longleftrightarrow>
     (case hub_meshConnections h uuid of None \<Rightarrow> False | Some ch \<Rightarrow> ch_Conn ch \<noteq> None)"

text \<open>Listing a peer under one capability, with a new balancer when there is none.\<close>

definition add_interest :: "string \<Rightarrow> string \<Rightarrow> (string \<rightharpoonup> balancer) \<Rightarrow> (string \<rightharpoonup> balancer)" where
  "add_interest uuid cap bs =
     (let b = (case bs cap of None \<Rightarrow> NewBalancer | Some b \<Rightarrow> b)
      in bs(cap \<mapsto> Balancer_Add b uuid))"

definition hub_addConnection :: "nat \<Rightarrow> string \<Rightarrow> string \<Rightarrow> string list \<Rightarrow> hub \<Rightarrow> hub option" where
  "hub_addConnection conn uuid belongsTo interests h =
     (if hub_readers h > 0 then None
      else Some (h\<lparr>hub_meshConnections := (hub_meshConnections h)(uuid \<mapsto>
                     \<lparr>ch_UUID = uuid, ch_Conn = Some conn, ch_Signaler = NewSignaler, ch_ErrChan = [],
                      ch_BelongsTo = belongsTo, ch_Interests = interests\<rparr>),
                   hub_balancers := fold (add_interest uuid) interests (hub_balancers h)\<rparr>))"

definition setupNewConnection :: "nat \<Rightarrow> string \<Rightarrow> string \<Rightarrow> string list \<Rightarrow> hub \<Rightarrow> hub option" where
  "setupNewConnection conn uuid belongsTo interests h =
     (if connectionExists uuid h then Some (hub_close conn h)
      else hub_addConnection conn uuid belongsTo interests h)"

definition setupOutgoingConnection ::
    "(nat \<Rightarrow> handshake \<Rightarrow> string + handshakeAck) \<Rightarrow> nat \<Rightarrow> string \<Rightarrow> hub \<Rightarrow> hub option" where
  "setupOutgoingConnection out conn uuid h =
     (case out conn \<lparr>hs_UUID = hub_nodeUUID h, hs_BelongsTo = hub_belongsTo h,
                     hs_Interests = hub_interests h\<rparr> of
        Inl err \<Rightarrow> Some (hub_close conn h)
      | Inr ack \<Rightarrow>
          if \<not> ack_Accept ack then Some (hub_close conn h)
          else if uuid = '''' then
            (if ack_UUID ack = '''' then Some (hub_close conn h)
             else setupNewConnection conn (ack_UUID ack) (ack_BelongsTo ack) (ack_Interests ack) h)
          else if ack_UUID ack \<noteq> uuid then Some (hub_close conn h)
          else setupNewConnection conn uuid (ack_BelongsTo ack) (ack_Interests ack) h)"

definition handshake_callback :: "hub \<Rightarrow> handshake \<Rightarrow> handshakeAck" where
  "handshake_callback h hs =
     (if hs_BelongsTo hs \<noteq> hub_belongsTo h \<and> hs_BelongsTo hs \<noteq> ''*''
      then \<lparr>ack_Accept = False, ack_UUID = hub_nodeUUID h, ack_BelongsTo = '''', ack_Interests = []\<rparr>
      else \<lparr>ack_Accept = True, ack_UUID = hub_nodeUUID h, ack_BelongsTo = hub_belongsTo h,
            ack_Interests = hub_interests h\<rparr>)"

text \<open>
  The transport reads the peer's handshake, if any, hands it to the callback, and answers an error
  or not: \<open>incoming\<close> is the handshake and whether the exchange failed.
\<close>

definition handleIncomingConnection :: "handshake option \<Rightarrow> bool \<Rightarrow> nat \<Rightarrow> hub \<Rightarrow> hub option" where
  "handleIncomingConnection incoming failed conn h =
     (if failed then Some (hub_close conn h)
      else case incoming of
             None \<Rightarrow> Some (hub_close conn h)
           | Some hs \<Rightarrow>
               if hs_UUID hs = '''' then Some (hub_close conn h)
               else if \<not> ack_Accept (handshake_callback h hs) then Some (hub_close conn h)
               else setupNewConnection conn (hs_UUID hs) (hs_BelongsTo hs) (hs_Interests hs) h)"

definition connectEndpoint :: "(string \<Rightarrow> string + nat) \<Rightarrow> (nat \<Rightarrow> handshake \<Rightarrow> string + handshakeAck) \<Rightarrow>
    string \<Rightarrow> string \<Rightarrow> hub \<Rightarrow> (hub_error option \<times> hub) option" where
  "connectEndpoint connect out endpoint uuid h =
     (if \<not> hub_hasMesh h then Some (Some ErrTransportNotConfigured, h)
      else case connect endpoint of
             Inl err \<Rightarrow> Some (Some (ErrConnect err), h)
           | Inr conn \<Rightarrow> map_option (Pair None) (setupOutgoingConnection out conn uuid h))"

definition discoveryHandler :: "(string \<Rightarrow> string + nat) \<Rightarrow> (nat \<Rightarrow> handshake \<Rightarrow> string + handshakeAck) \<Rightarrow>
    string \<Rightarrow> string \<Rightarrow> hub \<Rightarrow> hub option" where
  "discoveryHandler connect out endpoint uuid h =
     (if uuid = hub_nodeUUID h then Some h
      else if connectionExists uuid h then Some h
      else map_option snd (connectEndpoint connect out endpoint uuid h))"

definition hub_addTopicConnection :: "nat \<Rightarrow> string \<Rightarrow> hub \<Rightarrow> hub option" where
  "hub_addTopicConnection conn topic h =
     (if hub_readers h > 0 then None
      else Some (h\<lparr>hub_bridgeConnections := (hub_bridgeConnections h)(topic \<mapsto> conn)\<rparr>))"

definition connectBridgeTopic ::
    "(string \<Rightarrow> string + nat) \<Rightarrow> string \<Rightarrow> hub \<Rightarrow> (hub_error option \<times> hub) option" where
  "connectBridgeTopic connect topic h =
     (if \<not> hub_hasBridge h then Some (Some ErrTransportNotConfigured, h)
      else case connect topic of
             Inl err \<Rightarrow> Some (Some (ErrConnect err), h)
           | Inr conn \<Rightarrow> map_option (Pair None) (hub_addTopicConnection conn topic h))"

definition removeMeshConnection :: "string \<Rightarrow> hub \<Rightarrow> hub option" where
  "removeMeshConnection uuid h =
     (if hub_readers h > 0 then None
      else Some (h\<lparr>hub_balancers := (\<lambda>cap. map_option (\<lambda>b. Balancer_Remove b uuid) (hub_balancers h cap)),
                   hub_meshConnections := (hub_meshConnections h)(uuid := None)\<rparr>))"

section \<open>Messages\<close>

definition set_handler :: "string \<Rightarrow> connectionHandler \<Rightarrow> hub \<Rightarrow> hub" where
  "set_handler uuid ch h = h\<lparr>hub_meshConnections := (hub_meshConnections h)(uuid \<mapsto> ch)\<rparr>"

definition log_sent :: "connectionHandler \<Rightarrow> message \<Rightarrow> hub \<Rightarrow> hub" where
  "log_sent ch m h =
     (case ch_Conn ch of None \<Rightarrow> h | Some conn \<Rightarrow> h\<lparr>hub_sent := hub_sent h @ [(conn, m)]\<rparr>)"

text \<open>
  The broadcast of one message, under the read lock, over the peers in the given order. A sender
  that has to report an error keeps the lock and waits, with the peers after it still unserved.
\<close>

fun messageHandler :: "(string \<Rightarrow> bool) \<Rightarrow> message \<Rightarrow> string list \<Rightarrow> hub \<Rightarrow> hub" where
  "messageHandler send_ok m [] h = h"
| "messageHandler send_ok m (u # us) h =
     (case hub_meshConnections h u of
        None \<Rightarrow> messageHandler send_ok m us h
      | Some ch \<Rightarrow>
          (case handler_Send (send_ok u) (FromMessage m us) ch of
             (SendOk, ch') \<Rightarrow> messageHandler send_ok m us (log_sent ch m h)
           | (SendNodeWithdrawn, ch') \<Rightarrow> messageHandler send_ok m us h
           | (SendWaits, ch') \<Rightarrow> (set_handler u ch' h)\<lparr>hub_readers := Suc (hub_readers h)\<rparr>))"

text \<open>
  The scan takes one waiting report of a connection. The goroutine it took it from goes on: a
  broadcast with its next peer, a withdraw with its completion.
\<close>

definition scan_take :: "(string \<Rightarrow> bool) \<Rightarrow> string \<Rightarrow> connectionHandler \<Rightarrow> hub \<Rightarrow> hub" where
  "scan_take send_ok u ch h =
     (case ch_ErrChan ch of
        [] \<Rightarrow> h
      | w # q \<Rightarrow>
          (let h1 = set_handler u (ch\<lparr>ch_ErrChan := q\<rparr>) h
           in case w of
                FromMessage m us \<Rightarrow>
                  messageHandler send_ok m us (h1\<lparr>hub_readers := hub_readers h1 - 1\<rparr>)
              | FromWithdraw \<Rightarrow>
                  (case Signaler_Done (ch_Signaler ch) of
                     None \<Rightarrow> h1
                   | Some sg \<Rightarrow> set_handler u (ch\<lparr>ch_ErrChan := q, ch_Signaler := sg\<rparr>) h)
              | _ \<Rightarrow> h1))"

definition close_handler :: "connectionHandler \<Rightarrow> hub \<Rightarrow> hub" where
  "close_handler ch h = (case ch_Conn ch of None \<Rightarrow> h | Some conn \<Rightarrow> hub_close conn h)"

fun scan_collect :: "(string \<Rightarrow> bool) \<Rightarrow> string list \<Rightarrow> hub \<Rightarrow> string list \<times> hub" where
  "scan_collect send_ok [] h = ([], h)"
| "scan_collect send_ok (u # us) h =
     (case hub_meshConnections h u of
        None \<Rightarrow> scan_collect send_ok us h
      | Some ch \<Rightarrow>
          if ch_ErrChan ch \<noteq> [] then
            (let (rs, h') = scan_collect send_ok us (close_handler ch (scan_take send_ok u ch h))
             in (ch_UUID ch # rs, h'))
          else if PeerWithdrawn (ch_Signaler ch) then
            (let (rs, h') = scan_collect send_ok us (close_handler ch h) in (ch_UUID ch # rs, h'))
          else scan_collect send_ok us h)"

fun scan_remove :: "string list \<Rightarrow> hub \<Rightarrow> hub option" where
  "scan_remove [] h = Some h"
| "scan_remove (u # us) h = Option.bind (removeMeshConnection u h) (scan_remove us)"

definition scanFailedMeshConnections :: "(string \<Rightarrow> bool) \<Rightarrow> string list \<Rightarrow> hub \<Rightarrow> hub option" where
  "scanFailedMeshConnections send_ok order h =
     (let (rs, h1) = scan_collect send_ok order h in scan_remove rs h1)"

text \<open>
  A tunnelled message: at most \<open>tunnelRetryCount\<close> peers are tried. A failed attempt waits until the
  scan has taken its report (and closed the connection), and goes on.
\<close>

fun tunnel_loop :: "(string \<Rightarrow> bool) \<Rightarrow> string \<Rightarrow> message \<Rightarrow> nat \<Rightarrow> hub \<Rightarrow> (hub_error option \<times> hub) go" where
  "tunnel_loop send_ok cap m 0 h = Inr (Some ErrTunnelNotEstablished, h)"
| "tunnel_loop send_ok cap m (Suc n) h =
     (case hub_balancers h cap of
        None \<Rightarrow> Inr (Some ErrTunnelNotEstablished, h)
      | Some b \<Rightarrow>
          go_bind (Balancer_Next b) (\<lambda>(uuid, b').
            let h1 = h\<lparr>hub_balancers := (hub_balancers h)(cap \<mapsto> b')\<rparr>
            in if uuid = '''' then tunnel_loop send_ok cap m n h1
               else case hub_meshConnections h1 uuid of
                      None \<Rightarrow> tunnel_loop send_ok cap m n h1
                    | Some ch \<Rightarrow>
                        if ch_Conn ch = None then tunnel_loop send_ok cap m n h1
                        else (case handler_Send (send_ok uuid) FromTunnel ch of
                                (SendOk, ch') \<Rightarrow> Inr (None, log_sent ch m h1)
                              | (SendNodeWithdrawn, ch') \<Rightarrow> tunnel_loop send_ok cap m n h1
                              | (SendWaits, ch') \<Rightarrow>
                                  tunnel_loop send_ok cap m n (close_handler ch h1))))"

definition sendTunneledMessage ::
    "(string \<Rightarrow> bool) \<Rightarrow> string \<Rightarrow> message \<Rightarrow> hub \<Rightarrow> (hub_error option \<times> hub) go" where
  "sendTunneledMessage send_ok cap m h =
     (case hub_balancers h cap of
        None \<Rightarrow> Inr (Some ErrTunnelNotEstablished, h)
      | Some _ \<Rightarrow> tunnel_loop send_ok cap m tunnelRetryCount h)"

section \<open>Withdraw and stop\<close>

fun withdraw_signal :: "string list \<Rightarrow> hub \<Rightarrow> hub option" where
  "withdraw_signal [] h = Some h"
| "withdraw_signal (u # us) h =
     (case hub_meshConnections h u of
        None \<Rightarrow> withdraw_signal us h
      | Some ch \<Rightarrow>
          (case Signaler_Signal (ch_Signaler ch) of
             None \<Rightarrow> None
           | Some sg \<Rightarrow> withdraw_signal us (set_handler u (ch\<lparr>ch_Signaler := sg\<rparr>) h)))"

text \<open>One pass over the completion channels, counting down for each that has fired.\<close>

fun withdraw_pass :: "string list \<Rightarrow> int \<Rightarrow> hub \<Rightarrow> int \<times> hub" where
  "withdraw_pass [] count h = (count, h)"
| "withdraw_pass (u # us) count h =
     (case hub_meshConnections h u of
        None \<Rightarrow> withdraw_pass us count h
      | Some ch \<Rightarrow>
          (case sg_doneChan (ch_Signaler ch) of
             [] \<Rightarrow> withdraw_pass us count h
           | _ # q \<Rightarrow> withdraw_pass us (count - 1)
               (set_handler u (ch\<lparr>ch_Signaler := (ch_Signaler ch)\<lparr>sg_doneChan := q\<rparr>\<rparr>) h)))"

text \<open>
  Each pass is preceded by what the connection handlers do meanwhile; when the given passes are
  used up the three seconds are over.
\<close>

fun withdraw_loop :: "string list \<Rightarrow> (hub \<Rightarrow> hub) list \<Rightarrow> int \<Rightarrow> hub \<Rightarrow> bool \<times> hub" where
  "withdraw_loop order [] count h = (False, h)"
| "withdraw_loop order (env # envs) count h =
     (let (count', h') = withdraw_pass order count (env h)
      in if count' = 0 then (True, h') else withdraw_loop order envs count' h')"

text \<open>\<open>hub_withdraw\<close>: \<open>True\<close> is a complete withdraw, \<open>False\<close> the time-out.\<close>

definition hub_withdraw :: "string list \<Rightarrow> (hub \<Rightarrow> hub) list \<Rightarrow> hub \<Rightarrow> (bool \<times> hub) option" where
  "hub_withdraw order envs h =
     (if hub_readers h > 0 then None
      else map_option (withdraw_loop order envs (int (length order))) (withdraw_signal order h))"

fun hub_stop :: "string list \<Rightarrow> hub \<Rightarrow> hub" where
  "hub_stop [] h = h"
| "hub_stop (u # us) h =
     (case hub_meshConnections h u of
        None \<Rightarrow> hub_stop us h | Some ch \<Rightarrow> hub_stop us (close_handler ch h))"

section \<open>Invariant: the balancers list exactly the connected peers\<close>

definition hub_peers :: "hub \<Rightarrow> string \<Rightarrow> string set" where
  "hub_peers h cap = {u. \<exists>ch. hub_meshConnections h u = Some ch \<and> cap \<in> set (ch_Interests ch)}"

definition balancers_list :: "(string \<rightharpoonup> balancer) \<Rightarrow> (string \<Rightarrow> string set) \<Rightarrow> bool" where
  "balancers_list bs S \<longleftrightarrow>
     (\<forall>cap. case bs cap of None \<Rightarrow> S cap = {} | Some b \<Rightarrow> balancer_inv b \<and> set (bal_uuids b) = S cap)"

definition hub_inv :: "hub \<Rightarrow> bool" where
  "hub_inv h \<longleftrightarrow>
     (\<forall>u ch. hub_meshConnections h u = Some ch \<longrightarrow> ch_UUID ch = u \<and> u \<noteq> '''' \<and> ch_Conn ch \<noteq> None)
     \<and> balancers_list (hub_balancers h) (hub_peers h)"

lemma add_interest_list:
  "balancers_list bs S \<Longrightarrow>
     balancers_list (add_interest u cap bs) (\<lambda>c. if c = cap then insert u (S c) else S c)"
proof -
  assume list: "balancers_list bs S"
  define b where "b = (case bs cap of None \<Rightarrow> NewBalancer | Some b \<Rightarrow> b)"
  have "balancer_inv b" "set (bal_uuids b) = S cap"
    using list[unfolded balancers_list_def, rule_format, of cap] balancer_inv_New
    by (auto simp: b_def NewBalancer_def split: option.splits)
  then have "balancer_inv (Balancer_Add b u)" "set (bal_uuids (Balancer_Add b u)) = insert u (S cap)"
    by (simp_all add: balancer_inv_Add Balancer_Add_members)
  then show ?thesis
    using list by (simp add: balancers_list_def add_interest_def b_def[symmetric])
qed

lemma fold_add_interest:
  "balancers_list bs S \<Longrightarrow>
     balancers_list (fold (add_interest u) caps bs) (\<lambda>c. S c \<union> (if c \<in> set caps then {u} else {}))"
proof (induction caps arbitrary: bs S)
  case (Cons cap caps)
  have "(\<lambda>c. (if c = cap then insert u (S c) else S c) \<union> (if c \<in> set caps then {u} else {})) =
      (\<lambda>c. S c \<union> (if c \<in> set (cap # caps) then {u} else {}))" by (auto simp: fun_eq_iff)
  then show ?case
    using Cons.IH[OF add_interest_list[OF Cons.prems], of u cap] by (simp only: fold_simps)
qed simp

lemma hub_inv_addConnection:
  assumes "hub_inv h" "\<not> connectionExists uuid h" "uuid \<noteq> ''''"
    "hub_addConnection conn uuid bt interests h = Some h'"
  shows "hub_inv h'"
proof -
  have none: "hub_meshConnections h uuid = None"
    using assms(1,2) by (fastforce simp: hub_inv_def connectionExists_def split: option.splits)
  have h': "h' = h\<lparr>hub_meshConnections := (hub_meshConnections h)(uuid \<mapsto>
        \<lparr>ch_UUID = uuid, ch_Conn = Some conn, ch_Signaler = NewSignaler, ch_ErrChan = [],
         ch_BelongsTo = bt, ch_Interests = interests\<rparr>),
      hub_balancers := fold (add_interest uuid) interests (hub_balancers h)\<rparr>"
    using assms(4) by (simp add: hub_addConnection_def split: if_splits)
  have "hub_peers h' = (\<lambda>c. hub_peers h c \<union> (if c \<in> set interests then {uuid} else {}))"
    using none by (auto simp: h' hub_peers_def fun_eq_iff)
  then have "balancers_list (hub_balancers h') (hub_peers h')"
    using fold_add_interest[of "hub_balancers h" "hub_peers h" uuid interests] assms(1)
    by (simp add: h' hub_inv_def)
  with assms(1,3) show ?thesis by (auto simp: hub_inv_def h')
qed

lemma hub_inv_removeMesh [inv_intros]:
  assumes "hub_inv h" "removeMeshConnection u h = Some h'"
  shows "hub_inv h'"
proof -
  have h': "h' = h\<lparr>hub_balancers := (\<lambda>cap. map_option (\<lambda>b. Balancer_Remove b u) (hub_balancers h cap)),
      hub_meshConnections := (hub_meshConnections h)(u := None)\<rparr>"
    using assms(2) by (simp add: removeMeshConnection_def split: if_splits)
  have peers: "hub_peers h' cap = hub_peers h cap - {u}" for cap
    by (auto simp: h' hub_peers_def)
  have "case hub_balancers h' cap of None \<Rightarrow> hub_peers h' cap = {}
      | Some b \<Rightarrow> balancer_inv b \<and> set (bal_uuids b) = hub_peers h' cap" for cap
    using assms(1)[unfolded hub_inv_def balancers_list_def, THEN conjunct2, rule_format, of cap]
    unfolding peers
    by (cases "hub_balancers h cap") (simp_all add: h' Balancer_Remove_members balancer_inv_Remove)
  then have "balancers_list (hub_balancers h') (hub_peers h')" by (simp add: balancers_list_def)
  with assms(1) show ?thesis by (auto simp: hub_inv_def h')
qed

lemma hub_peers_same: "hub_meshConnections h' = hub_meshConnections h \<Longrightarrow> hub_peers h' = hub_peers h"
  by (simp add: hub_peers_def fun_eq_iff)

lemma hub_inv_frame:
  "hub_meshConnections h' = hub_meshConnections h \<Longrightarrow> hub_balancers h' = hub_balancers h \<Longrightarrow>
     hub_inv h' = hub_inv h"
  using hub_peers_same[of h' h] by (simp add: hub_inv_def)

lemma hub_inv_close [simp]: "hub_inv (hub_close c h) = hub_inv h"
  by (rule hub_inv_frame) (simp_all add: hub_close_def)

lemma hub_inv_close_handler [simp]: "hub_inv (close_handler ch h) = hub_inv h"
  by (simp add: close_handler_def split: option.splits)

lemma hub_inv_log_sent [simp]: "hub_inv (log_sent ch m h) = hub_inv h"
  by (rule hub_inv_frame) (simp_all add: log_sent_def split: option.splits)

lemma hub_inv_readers [simp]: "hub_inv (h\<lparr>hub_readers := n\<rparr>) = hub_inv h"
  by (rule hub_inv_frame) simp_all

lemma hub_inv_set_handler:
  assumes "hub_inv h" "hub_meshConnections h u = Some ch"
    "ch_UUID ch' = ch_UUID ch" "ch_Conn ch' = ch_Conn ch" "ch_Interests ch' = ch_Interests ch"
  shows "hub_inv (set_handler u ch' h)"
proof -
  have "hub_peers (set_handler u ch' h) = hub_peers h"
    using assms(2,5) by (auto simp: hub_peers_def set_handler_def fun_eq_iff)
  with assms show ?thesis by (auto simp: hub_inv_def set_handler_def)
qed

lemma hub_inv_messageHandler [inv_intros]: "hub_inv h \<Longrightarrow> hub_inv (messageHandler ok m us h)"
proof (induction ok m us h rule: messageHandler.induct)
  case (2 ok m u us h)
  then show ?case
    by (auto simp: handler_Send_def intro: hub_inv_set_handler split: option.splits prod.splits if_splits)
qed simp

lemma hub_inv_scan_take:
  "hub_inv h \<Longrightarrow> hub_meshConnections h u = Some ch \<Longrightarrow> hub_inv (scan_take ok u ch h)"
proof -
  assume h: "hub_inv h" and u: "hub_meshConnections h u = Some ch"
  have "hub_inv (set_handler u (ch\<lparr>ch_ErrChan := q\<rparr>) h)"
    "hub_inv (set_handler u (ch\<lparr>ch_ErrChan := q, ch_Signaler := sg\<rparr>) h)" for q sg
    by (rule hub_inv_set_handler[OF h u], simp_all)+
  with h show ?thesis
    by (auto simp: scan_take_def Let_def intro!: hub_inv_messageHandler
        split: list.splits err_sender.splits option.splits)
qed

lemma hub_inv_scan_collect:
  "hub_inv h \<Longrightarrow> scan_collect ok us h = (rs, h') \<Longrightarrow> hub_inv h'"
proof (induction ok us h arbitrary: rs h' rule: scan_collect.induct)
  case (2 ok u us h)
  show ?case
  proof (cases "hub_meshConnections h u")
    case (Some ch)
    have "hub_inv (close_handler ch (scan_take ok u ch h))" "hub_inv (close_handler ch h)"
      using hub_inv_scan_take[OF "2.prems"(1) Some] "2.prems"(1) by simp_all
    with "2.IH" "2.prems" Some show ?thesis
      by (auto split: if_splits prod.splits)
  qed (use 2 in simp)
qed simp

lemma hub_inv_scan_remove: "hub_inv h \<Longrightarrow> scan_remove us h = Some h' \<Longrightarrow> hub_inv h'"
  by (induction us arbitrary: h) (auto simp: bind_eq_Some_conv intro: inv_intros)

lemma hub_inv_next:
  assumes "hub_inv h" "hub_balancers h cap = Some b" "Balancer_Next b = Inr (u, b')"
  shows "hub_inv (h\<lparr>hub_balancers := (hub_balancers h)(cap \<mapsto> b')\<rparr>)"
proof -
  have "balancer_inv b'" "bal_uuids b' = bal_uuids b"
    using assms balancer_inv_Next[of b u b'] Balancer_Next_members[of b u b']
    by (auto simp: hub_inv_def balancers_list_def dest: spec[of _ cap])
  moreover have "hub_peers (h\<lparr>hub_balancers := (hub_balancers h)(cap \<mapsto> b')\<rparr>) = hub_peers h"
    by (rule hub_peers_same) simp
  moreover have "set (bal_uuids b) = hub_peers h cap"
    using assms(1,2) by (auto simp: hub_inv_def balancers_list_def dest: spec[of _ cap])
  ultimately show ?thesis
    using assms(1) by (simp add: hub_inv_def balancers_list_def)
qed

section \<open>Reachable hubs\<close>

lemma hub_inv_setupNew:
  "hub_inv h \<Longrightarrow> u \<noteq> '''' \<Longrightarrow> setupNewConnection conn u bt ints h = Some h' \<Longrightarrow> hub_inv h'"
  by (auto simp: setupNewConnection_def intro: hub_inv_addConnection split: if_splits)

lemma hub_inv_incoming:
  "hub_inv h \<Longrightarrow> handleIncomingConnection inc failed conn h = Some h' \<Longrightarrow> hub_inv h'"
  by (auto simp: handleIncomingConnection_def intro: hub_inv_setupNew split: if_splits option.splits)

lemma hub_inv_outgoing:
  "hub_inv h \<Longrightarrow> setupOutgoingConnection out conn u h = Some h' \<Longrightarrow> hub_inv h'"
  by (auto simp: setupOutgoingConnection_def intro: hub_inv_setupNew split: if_splits sum.splits)

lemma hub_inv_discovery:
  "hub_inv h \<Longrightarrow> discoveryHandler connect out ep u h = Some h' \<Longrightarrow> hub_inv h'"
  by (auto simp: discoveryHandler_def connectEndpoint_def intro: hub_inv_outgoing
      split: if_splits sum.splits)

lemma hub_inv_tunnel:
  "hub_inv h \<Longrightarrow> tunnel_loop ok cap m n h = Inr (r, h') \<Longrightarrow> hub_inv h'"
proof (induction n arbitrary: h)
  case (Suc n)
  show ?case
  proof (cases "hub_balancers h cap")
    case (Some b)
    obtain u b' where nx: "Balancer_Next b = Inr (u, b')"
      using Suc.prems(2) Some by (cases "Balancer_Next b") auto
    let ?h1 = "h\<lparr>hub_balancers := (hub_balancers h)(cap \<mapsto> b')\<rparr>"
    have inv: "hub_inv ?h1" "hub_inv (close_handler ch ?h1)" "hub_inv (log_sent ch m ?h1)" for ch
      using hub_inv_next[OF Suc.prems(1) Some nx] by simp_all
    show ?thesis
      using Suc.prems(2) Some nx Suc.IH[OF inv(1)] Suc.IH[OF inv(2)] inv(3)
      by (auto simp: Let_def split: if_splits option.splits prod.splits send_result.splits)
  qed (use Suc in simp)
qed simp

inductive hub_step :: "hub \<Rightarrow> hub \<Rightarrow> bool" where
  hub_incoming: "handleIncomingConnection inc failed conn h = Some h' \<Longrightarrow> hub_step h h'"
| hub_discovered: "discoveryHandler connect out ep u h = Some h' \<Longrightarrow> hub_step h h'"
| hub_dialled: "connectEndpoint connect out ep u h = Some (r, h') \<Longrightarrow> hub_step h h'"
| hub_topic: "connectBridgeTopic connect topic h = Some (r, h') \<Longrightarrow> hub_step h h'"
| hub_message: "hub_step h (messageHandler ok m order h)"
| hub_read: "hub_meshConnections h u = Some ch \<Longrightarrow> handler_read ev ch = (r, again, ch') \<Longrightarrow>
    hub_step h (set_handler u ch' h)"
| hub_scan: "scanFailedMeshConnections ok order h = Some h' \<Longrightarrow> hub_step h h'"
| hub_tunnel: "sendTunneledMessage ok cap m h = Inr (r, h') \<Longrightarrow> hub_step h h'"

inductive_cases hub_stepE: "hub_step h h'"

lemma hub_inv_step: "hub_step h h' \<Longrightarrow> hub_inv h \<Longrightarrow> hub_inv h'"
proof (induction rule: hub_step.induct)
  case (hub_dialled connect out ep u h r h')
  then show ?case
    by (auto simp: connectEndpoint_def intro: hub_inv_outgoing split: if_splits sum.splits)
next
  case (hub_topic connect topic h r h')
  then show ?case
    by (auto simp: connectBridgeTopic_def hub_addTopicConnection_def
        intro: hub_inv_frame[THEN iffD2] split: if_splits sum.splits)
next
  case (hub_read h u ch ev r again ch')
  then show ?case
    by (intro hub_inv_set_handler[OF hub_read(3,1)])
      (auto simp: handler_read_def split: read_event.splits if_splits)
next
  case (hub_scan ok order h h')
  then show ?case
    by (auto simp: scanFailedMeshConnections_def split: prod.splits
        intro: hub_inv_scan_remove dest: hub_inv_scan_collect)
next
  case (hub_tunnel ok cap m h r h')
  then show ?case
    by (auto simp: sendTunneledMessage_def intro: hub_inv_tunnel split: option.splits)
qed (auto intro: hub_inv_incoming hub_inv_discovery hub_inv_messageHandler)

lemma hub_inv_init: "hub_inv (initHub u bt ints mesh bridge)"
  by (simp add: hub_inv_def initHub_def balancers_list_def hub_peers_def)

interpretation hubs: step_system hub_step hub_inv
  by unfold_locales (rule hub_inv_step)

lemma hub_inv_reach: "hub_step\<^sup>*\<^sup>* (initHub u bt ints mesh bridge) h \<Longrightarrow> hub_inv h"
  by (erule hubs.inv_reach) (rule hub_inv_init)

section \<open>Tunnels\<close>

text \<open>A peer a tunnelled message gets through to.\<close>

definition peer_live :: "(string \<Rightarrow> bool) \<Rightarrow> hub \<Rightarrow> string \<Rightarrow> bool" where
  "peer_live ok h u \<longleftrightarrow>
     (case hub_meshConnections h u of
        None \<Rightarrow> False
      | Some ch \<Rightarrow> ch_Conn ch \<noteq> None \<and> \<not> PeerWithdrawn (ch_Signaler ch) \<and> ok u)"

lemma tunnel_loop_first_live:
  assumes "hub_inv h" "hub_balancers h cap = Some b" "iterate_next Balancer_Next n b = Inr (us, b'')"
    and "\<exists>u \<in> set us. peer_live ok h u"
  shows "\<exists>h' u ch conn. tunnel_loop ok cap m n h = Inr (None, h') \<and> u \<in> set us
    \<and> hub_meshConnections h u = Some ch \<and> ch_Conn ch = Some conn
    \<and> hub_sent h' = hub_sent h @ [(conn, m)]"
  using assms
proof (induction n arbitrary: h b us)
  case (Suc n)
  obtain u b' us' where nx: "Balancer_Next b = Inr (u, b')" and us: "us = u # us'"
    and it: "iterate_next Balancer_Next n b' = Inr (us', b'')"
    using Suc.prems(3) by (auto simp: go_bind_Inr_iff)
  let ?h1 = "h\<lparr>hub_balancers := (hub_balancers h)(cap \<mapsto> b')\<rparr>"
  have inv: "hub_inv ?h1" using hub_inv_next[OF Suc.prems(1,2) nx] .
  have skip: ?case if rest: "tunnel_loop ok cap m (Suc n) h = tunnel_loop ok cap m n h2"
    and h2: "hub_meshConnections h2 = hub_meshConnections h" "hub_sent h2 = hub_sent h"
      "hub_balancers h2 = hub_balancers ?h1" "\<not> peer_live ok h u" for h2
  proof -
    have i2: "hub_inv h2" using inv hub_inv_frame[of h2 ?h1] h2 by simp
    have "hub_balancers h2 cap = Some b'" "\<exists>v \<in> set us'. peer_live ok h2 v"
      using h2 Suc.prems(4) us by (auto simp: peer_live_def)
    from Suc.IH[OF i2 this(1) it this(2)] show ?thesis
      unfolding rest us using h2 by auto
  qed
  show ?case
  proof (cases "u = '''' \<or> hub_meshConnections h u = None")
    case True
    have "hub_meshConnections h u = None"
      using True Suc.prems(1) by (cases "hub_meshConnections h u") (auto simp: hub_inv_def)
    then have "\<not> peer_live ok h u" by (simp add: peer_live_def)
    then show ?thesis
      using skip[of ?h1] Suc.prems(2) nx True \<open>hub_meshConnections h u = None\<close>
      by (auto simp: Let_def)
  next
    case False
    then obtain ch where ch: "u \<noteq> ''''" "hub_meshConnections h u = Some ch" by blast
    obtain conn where conn: "ch_Conn ch = Some conn" using Suc.prems(1) ch by (auto simp: hub_inv_def)
    consider (w) "PeerWithdrawn (ch_Signaler ch)" | (f) "\<not> PeerWithdrawn (ch_Signaler ch)" "\<not> ok u"
      | (live) "\<not> PeerWithdrawn (ch_Signaler ch)" "ok u" by blast
    then show ?thesis
    proof cases
      case w
      then have "\<not> peer_live ok h u" using ch by (simp add: peer_live_def)
      then show ?thesis
        using skip[of ?h1] Suc.prems(2) nx ch conn w by (simp add: handler_Send_def Let_def)
    next
      case f
      then have "\<not> peer_live ok h u" using ch by (simp add: peer_live_def)
      then show ?thesis
        using skip[of "close_handler ch ?h1"] Suc.prems(2) nx ch conn f
        by (simp add: handler_Send_def close_handler_def hub_close_def Let_def)
    next
      case live
      then have "tunnel_loop ok cap m (Suc n) h = Inr (None, log_sent ch m ?h1)"
        using Suc.prems(2) nx ch conn by (simp add: handler_Send_def Let_def)
      moreover have "hub_sent (log_sent ch m ?h1) = hub_sent h @ [(conn, m)]"
        using conn by (simp add: log_sent_def)
      ultimately show ?thesis using ch(2) conn us by (metis list.set_intros(1))
    qed
  qed
qed simp

section \<open>Properties\<close>

text \<open>
  C29: In every reachable hub the balancer of a capability lists exactly the connected peers that
  announced it, and every capability a connected peer announced has a balancer.
\<close>

theorem hub_balancers_list_peers:
  assumes "hub_step\<^sup>*\<^sup>* (initHub node bt ints mesh bridge) h"
  shows "case hub_balancers h cap of
      None \<Rightarrow> {u. \<exists>ch. hub_meshConnections h u = Some ch \<and> cap \<in> set (ch_Interests ch)} = {}
    | Some b \<Rightarrow> set (bal_uuids b) =
        {u. \<exists>ch. hub_meshConnections h u = Some ch \<and> cap \<in> set (ch_Interests ch)}"
  using hub_inv_reach[OF assms, unfolded hub_inv_def balancers_list_def, THEN conjunct2,
      THEN spec[of _ cap]]
  by (cases "hub_balancers h cap") (simp_all add: hub_peers_def)

definition hub_one :: hub where
  "hub_one = the (handleIncomingConnection
     (Some \<lparr>hs_UUID = ''peer'', hs_BelongsTo = ''*'', hs_Interests = [''cap'']\<rparr>) False 1
     (initHub ''node'' ''t'' [] True False))"

lemma hub_one_eq:
  "handleIncomingConnection
     (Some \<lparr>hs_UUID = ''peer'', hs_BelongsTo = ''*'', hs_Interests = [''cap'']\<rparr>) False 1
     (initHub ''node'' ''t'' [] True False) = Some hub_one"
  by (simp add: hub_one_def handleIncomingConnection_def handshake_callback_def initHub_def
      setupNewConnection_def connectionExists_def hub_addConnection_def)

lemma hub_one_simps:
  "hub_meshConnections hub_one = [''peer'' \<mapsto>
     \<lparr>ch_UUID = ''peer'', ch_Conn = Some 1, ch_Signaler = NewSignaler, ch_ErrChan = [],
      ch_BelongsTo = ''*'', ch_Interests = [''cap'']\<rparr>]"
  "hub_balancers hub_one = [''cap'' \<mapsto> Balancer_Add NewBalancer ''peer'']"
  "hub_readers hub_one = 0" "hub_sent hub_one = []" "hub_closed hub_one = []"
  by (simp_all add: hub_one_def handleIncomingConnection_def handshake_callback_def initHub_def
      setupNewConnection_def connectionExists_def hub_addConnection_def add_interest_def)

lemma hub_one_reach: "hub_step\<^sup>*\<^sup>* (initHub ''node'' ''t'' [] True False) hub_one"
  using hub_incoming[OF hub_one_eq] by (rule r_into_rtranclp)

theorem hub_balancers_list_peers_witness:
  "set (bal_uuids (Balancer_Add NewBalancer ''peer'')) = {''peer''}"
  using hub_balancers_list_peers[OF hub_one_reach, of "''cap''"]
  by (auto simp: hub_one_simps split: if_splits)

lemma tunnel_live:
  assumes "hub_inv h" "hub_balancers h cap = Some b" "length (bal_uuids b) \<le> tunnelRetryCount"
    and "u \<in> set (bal_uuids b)" "peer_live ok h u"
  shows "\<exists>h' v ch conn. sendTunneledMessage ok cap m h = Inr (None, h')
    \<and> hub_meshConnections h v = Some ch \<and> cap \<in> set (ch_Interests ch) \<and> ch_Conn ch = Some conn
    \<and> hub_sent h' = hub_sent h @ [(conn, m)]"
proof -
  note inv = assms(1)
  have b: "balancer_inv b" "set (bal_uuids b) = hub_peers h cap"
    using inv assms(2) by (auto simp: hub_inv_def balancers_list_def dest: spec[of _ cap])
  have ne: "bal_uuids b \<noteq> []" using assms(4) by auto
  from bal.iterate_cycle[OF b(1) ne, of tunnelRetryCount] obtain b'' where it:
    "iterate_next Balancer_Next tunnelRetryCount b =
       Inr (cycle_from (balancer_pos b) tunnelRetryCount (bal_uuids b), b'')" by blast
  let ?us = "cycle_from (balancer_pos b) tunnelRetryCount (bal_uuids b)"
  have "u \<in> set ?us"
    using bal.member_within_round[OF b(1) assms(4,3)] it by auto
  with assms(5) have "\<exists>v \<in> set ?us. peer_live ok h v" by blast
  from tunnel_loop_first_live[OF inv assms(2) it this, of m] obtain h' v ch conn where r:
    "tunnel_loop ok cap m tunnelRetryCount h = Inr (None, h')" "v \<in> set ?us"
    "hub_meshConnections h v = Some ch" "ch_Conn ch = Some conn"
    "hub_sent h' = hub_sent h @ [(conn, m)]" by blast
  have "set ?us \<subseteq> set (bal_uuids b)" using ne by (auto simp: cycle_from_def)
  with r(2,3) b(2) have "cap \<in> set (ch_Interests ch)" by (auto simp: hub_peers_def)
  moreover have "sendTunneledMessage ok cap m h = Inr (None, h')"
    using assms(2) r(1) by (simp add: sendTunneledMessage_def)
  ultimately show ?thesis using r(3-5) by blast
qed



text \<open>
  Two broadcasts that fail on the same connection stop the hub: the scan takes the report of
  one, and then waits for the write lock that the other, still waiting to report, keeps it from;
  one failed broadcast alone is cleaned up, and the peer is removed.
\<close>

theorem two_failed_broadcasts_block_the_scan:
  assumes "hub_meshConnections h u = Some ch" and "ch_UUID ch = u" and "ch_ErrChan ch = []"
    and "\<not> PeerWithdrawn (ch_Signaler ch)" and "hub_readers h = 0" and "\<not> ok u"
  shows "scanFailedMeshConnections ok [u] (messageHandler ok m2 [u] (messageHandler ok m1 [u] h)) = None
    \<and> (\<exists>h'. scanFailedMeshConnections ok [u] (messageHandler ok m1 [u] h) = Some h'
          \<and> hub_meshConnections h' u = None)"
proof -
  let ?w = "\<lambda>q. ch\<lparr>ch_ErrChan := q\<rparr>"
  have one: "messageHandler ok m1 [u] h = (set_handler u (?w [FromMessage m1 []]) h)\<lparr>hub_readers := 1\<rparr>"
    using assms by (simp add: handler_Send_def)
  have two: "messageHandler ok m2 [u] (messageHandler ok m1 [u] h) =
      (set_handler u (?w [FromMessage m1 [], FromMessage m2 []]) h)\<lparr>hub_readers := 2\<rparr>"
    unfolding one using assms by (simp add: handler_Send_def set_handler_def)
  show ?thesis
    unfolding two unfolding one using assms
    by (cases "ch_Conn ch")
      (simp_all add: scanFailedMeshConnections_def scan_take_def set_handler_def close_handler_def
        hub_close_def removeMeshConnection_def)
qed

theorem two_failed_broadcasts_block_the_scan_witness:
  "scanFailedMeshConnections (\<lambda>_. False) [''peer'']
     (messageHandler (\<lambda>_. False) (NewMsg ''v'' 0 ''t'' []) [''peer'']
       (messageHandler (\<lambda>_. False) (NewMsg ''u'' 0 ''t'' []) [''peer''] hub_one)) = None"
  using two_failed_broadcasts_block_the_scan[of hub_one "''peer''" _ "\<lambda>_. False"]
  by (simp add: hub_one_simps PeerWithdrawn_def NewSignaler_def)

text \<open>
  An incoming connection whose exchange succeeds is never lost: it becomes the connection of the
  peer that announced itself, when that peer belongs to this group or to every group and is not
  connected yet, and is closed in every other case.
\<close>

theorem incoming_added_or_closed:
  assumes "hub_readers h = 0"
  shows "\<exists>h'. handleIncomingConnection (Some hs) False conn h = Some h'
    \<and> (if hs_UUID hs \<noteq> '''' \<and> hs_BelongsTo hs \<in> {hub_belongsTo h, ''*''} \<and> \<not> connectionExists (hs_UUID hs) h
       then hub_closed h' = hub_closed h
         \<and> (\<exists>ch. hub_meshConnections h' (hs_UUID hs) = Some ch \<and> ch_Conn ch = Some conn
              \<and> ch_Interests ch = hs_Interests hs)
       else hub_closed h' = hub_closed h @ [conn] \<and> hub_meshConnections h' = hub_meshConnections h)"
  using assms
  by (auto simp: handleIncomingConnection_def handshake_callback_def setupNewConnection_def
      hub_addConnection_def hub_close_def)

theorem incoming_added_or_closed_witness:
  "\<exists>h'. handleIncomingConnection (Some \<lparr>hs_UUID = ''peer'', hs_BelongsTo = ''t'', hs_Interests = []\<rparr>)
      False 2 hub_one = Some h' \<and> hub_closed h' = [2]"
  using incoming_added_or_closed[of hub_one "\<lparr>hs_UUID = ''peer'', hs_BelongsTo = ''t'', hs_Interests = []\<rparr>" 2]
  by (auto simp: hub_one_simps connectionExists_def)

end
