(* ===== verification/LoadingCache.thy ===== *)
theory LoadingCache
  imports Prelude
begin

text \<open>
  The loading cache of \<open>foundation/common/cache.go\<close>. Entries are reached through pointers (a dropped
  entry lives on in its loader and its waiters), so they are kept in a heap, a list indexed by
  address. Each method holds the lock from start to end and is one function on the state; what
  happens without the lock is kept in the state: loaders that have been started as goroutines, and
  callers parked in \<open>cond.Wait\<close>. What a loading function answers is the environment's choice when it
  finishes, so it is only a label here.
\<close>

section \<open>State\<close>

datatype entry_state = EntryInit | EntryPending | EntryError | EntryCanceled | EntryReady

datatype cache_error =
    ErrCanceled
  | DoesNotExistError string
  | DuplicateEntryError string
  | LoadFailed string

text \<open>\<open>None\<close> is the zero value of the cached type.\<close>

record ('f, 'v) entry =
  en_state :: entry_state
  en_loadingFunc :: 'f
  en_value :: "'v option"
  en_err :: "cache_error option"

record 'v cache_value =
  cv_State :: entry_state
  cv_Value :: "'v option"
  cv_Error :: "cache_error option"

definition entry_value :: "('f, 'v) entry \<Rightarrow> 'v cache_value" where
  "entry_value e = \<lparr>cv_State = en_state e, cv_Value = en_value e, cv_Error = en_err e\<rparr>"

definition new_entry :: "'f \<Rightarrow> ('f, 'v) entry" where
  "new_entry f = \<lparr>en_state = EntryInit, en_loadingFunc = f, en_value = None, en_err = None\<rparr>"

text \<open>A loader goroutine reads the loading function when it first runs, not when it is started.\<close>

datatype 'f loader = Spawned nat | Loading nat 'f

fun loader_addr :: "'f loader \<Rightarrow> nat" where
  "loader_addr (Spawned a) = a"
| "loader_addr (Loading a f) = a"

datatype waiter = Parked nat | Woken nat

text \<open>A cache store is the value of the interface \<open>CacheStore\<close>: its three methods.\<close>

record 's cache_store_ops =
  st_Get :: "'s \<Rightarrow> string \<Rightarrow> nat option"
  st_Put :: "'s \<Rightarrow> string \<Rightarrow> nat \<Rightarrow> 's"
  st_Delete :: "'s \<Rightarrow> string \<Rightarrow> 's"

record ('s, 'f, 'v) cache =
  ca_entries :: 's
  ca_heap :: "('f, 'v) entry list"
  ca_loaders :: "'f loader list"
  ca_waiters :: "(nat \<times> waiter) list"

definition MapStore :: "(string \<rightharpoonup> nat) cache_store_ops" where
  "MapStore = \<lparr>st_Get = (\<lambda>m k. m k), st_Put = (\<lambda>m k a. m(k \<mapsto> a)), st_Delete = (\<lambda>m k. m(k := None))\<rparr>"

text \<open>The radix tree of the tree store is a library; its three operations are arguments.\<close>

definition TreeStore ::
    "('t \<Rightarrow> string \<Rightarrow> nat option) \<Rightarrow> ('t \<Rightarrow> string \<Rightarrow> nat \<Rightarrow> 't) \<Rightarrow> ('t \<Rightarrow> string \<Rightarrow> 't) \<Rightarrow> 't cache_store_ops"
  where
  "TreeStore search ins del =
     \<lparr>st_Get = (\<lambda>t k. case search t k of Some a \<Rightarrow> Some a | None \<Rightarrow> None),
      st_Put = (\<lambda>t k a. ins t k a), st_Delete = (\<lambda>t k. del t k)\<rparr>"

definition NewLoadingCache :: "'s \<Rightarrow> ('s, 'f, 'v) cache" where
  "NewLoadingCache store = \<lparr>ca_entries = store, ca_heap = [], ca_loaders = [], ca_waiters = []\<rparr>"

fun EntryState_String :: "entry_state \<Rightarrow> string" where
  "EntryState_String EntryInit = ''[EntryState=INIT]''"
| "EntryState_String EntryPending = ''[EntryState=PENDING]''"
| "EntryState_String EntryError = ''[EntryState=ERROR]''"
| "EntryState_String EntryCanceled = ''[EntryState=CANCELED]''"
| "EntryState_String EntryReady = ''[EntryState=READY]''"

section \<open>Operations\<close>

definition set_entry :: "nat \<Rightarrow> ('f, 'v) entry \<Rightarrow> ('s, 'f, 'v) cache \<Rightarrow> ('s, 'f, 'v) cache" where
  "set_entry a e s = s\<lparr>ca_heap := (ca_heap s)[a := e]\<rparr>"

definition broadcast :: "nat \<Rightarrow> ('s, 'f, 'v) cache \<Rightarrow> ('s, 'f, 'v) cache" where
  "broadcast a s =
     s\<lparr>ca_waiters := map (\<lambda>(w, p). (w, if p = Parked a then Woken a else p)) (ca_waiters s)\<rparr>"

definition asyncLoad :: "nat \<Rightarrow> ('s, 'f, 'v) cache \<Rightarrow> ('s, 'f, 'v) cache" where
  "asyncLoad a s =
     (set_entry a ((ca_heap s ! a)\<lparr>en_state := EntryPending\<rparr>) s)
       \<lparr>ca_loaders := ca_loaders s @ [Spawned a]\<rparr>"

definition park :: "nat \<Rightarrow> nat \<Rightarrow> ('s, 'f, 'v) cache \<Rightarrow> ('s, 'f, 'v) cache" where
  "park w a s = s\<lparr>ca_waiters := ca_waiters s @ [(w, Parked a)]\<rparr>"

definition alloc :: "'s cache_store_ops \<Rightarrow> string \<Rightarrow> 'f \<Rightarrow> ('s, 'f, 'v) cache \<Rightarrow> ('s, 'f, 'v) cache" where
  "alloc ops key f s =
     s\<lparr>ca_entries := st_Put ops (ca_entries s) key (length (ca_heap s)),
       ca_heap := ca_heap s @ [new_entry f]\<rparr>"

text \<open>\<open>Get\<close> by the caller \<open>w\<close>: an answer, or \<open>None\<close> and the caller is parked.\<close>

definition cache_Get :: "'s cache_store_ops \<Rightarrow> nat \<Rightarrow> string \<Rightarrow> ('s, 'f, 'v) cache \<Rightarrow>
    'v cache_value option \<times> ('s, 'f, 'v) cache" where
  "cache_Get ops w key s =
     (case st_Get ops (ca_entries s) key of
        None \<Rightarrow> (Some \<lparr>cv_State = EntryError, cv_Value = None,
                      cv_Error = Some (DoesNotExistError ''[LoadingCache] Get'')\<rparr>, s)
      | Some a \<Rightarrow>
          (case en_state (ca_heap s ! a) of
             EntryError \<Rightarrow> (Some (entry_value (ca_heap s ! a)), s)
           | EntryInit \<Rightarrow> (None, park w a (asyncLoad a s))
           | EntryPending \<Rightarrow> (None, park w a s)
           | EntryCanceled \<Rightarrow> (Some (entry_value (ca_heap s ! a)), s)
           | EntryReady \<Rightarrow> (Some (entry_value (ca_heap s ! a)), s)))"

text \<open>The \<open>i\<close>-th caller, woken, has the lock again: it parks once more or returns.\<close>

definition cache_resume :: "nat \<Rightarrow> ('s, 'f, 'v) cache \<Rightarrow>
    'v cache_value option \<times> ('s, 'f, 'v) cache" where
  "cache_resume i s =
     (if i < length (ca_waiters s) then
        (case ca_waiters s ! i of
           (w, Parked a) \<Rightarrow> (None, s)
         | (w, Woken a) \<Rightarrow>
             if en_state (ca_heap s ! a) = EntryPending
             then (None, s\<lparr>ca_waiters := (ca_waiters s)[i := (w, Parked a)]\<rparr>)
             else (Some (entry_value (ca_heap s ! a)),
                   s\<lparr>ca_waiters := take i (ca_waiters s) @ drop (Suc i) (ca_waiters s)\<rparr>))
      else (None, s))"

definition cache_Check :: "'s cache_store_ops \<Rightarrow> string \<Rightarrow> ('s, 'f, 'v) cache \<Rightarrow> bool" where
  "cache_Check ops key s \<longleftrightarrow> st_Get ops (ca_entries s) key \<noteq> None"

definition cache_Put :: "'s cache_store_ops \<Rightarrow> string \<Rightarrow> 'f \<Rightarrow> ('s, 'f, 'v) cache \<Rightarrow>
    cache_error option \<times> ('s, 'f, 'v) cache" where
  "cache_Put ops key f s =
     (if st_Get ops (ca_entries s) key \<noteq> None
      then (Some (DuplicateEntryError ''[LoadingCache] Put''), s)
      else (None, alloc ops key f s))"

definition cache_Replace :: "'s cache_store_ops \<Rightarrow> string \<Rightarrow> 'f \<Rightarrow> ('s, 'f, 'v) cache \<Rightarrow>
    ('s, 'f, 'v) cache" where
  "cache_Replace ops key f s =
     (case st_Get ops (ca_entries s) key of
        None \<Rightarrow> alloc ops key f s
      | Some a \<Rightarrow> set_entry a ((ca_heap s ! a)\<lparr>en_loadingFunc := f, en_state := EntryInit\<rparr>) s)"

definition cache_Refresh :: "'s cache_store_ops \<Rightarrow> string \<Rightarrow> ('s, 'f, 'v) cache \<Rightarrow>
    cache_error option \<times> ('s, 'f, 'v) cache" where
  "cache_Refresh ops key s =
     (case st_Get ops (ca_entries s) key of
        None \<Rightarrow> (Some (DoesNotExistError ''[LoadingCache] Pending''), s)
      | Some a \<Rightarrow> (None, asyncLoad a s))"

definition cache_Cancel :: "'s cache_store_ops \<Rightarrow> string \<Rightarrow> ('s, 'f, 'v) cache \<Rightarrow> ('s, 'f, 'v) cache" where
  "cache_Cancel ops key s =
     (case st_Get ops (ca_entries s) key of
        None \<Rightarrow> s
      | Some a \<Rightarrow>
          (let e = ca_heap s ! a;
               s1 = (if en_state e = EntryInit \<or> en_state e = EntryPending
                     then set_entry a (e\<lparr>en_err := Some ErrCanceled, en_state := EntryCanceled\<rparr>) s
                     else s)
           in broadcast a s1))"

definition cache_Drop :: "'s cache_store_ops \<Rightarrow> string \<Rightarrow> ('s, 'f, 'v) cache \<Rightarrow> ('s, 'f, 'v) cache" where
  "cache_Drop ops key s =
     (case st_Get ops (ca_entries s) key of
        None \<Rightarrow> s
      | Some a \<Rightarrow>
          (let s1 = s\<lparr>ca_entries := st_Delete ops (ca_entries s) key\<rparr>;
               e = ca_heap s1 ! a;
               s2 = (if en_state e = EntryPending
                     then set_entry a (e\<lparr>en_state := EntryCanceled\<rparr>) s1 else s1)
           in broadcast a s2))"

text \<open>The goroutine of a loader: it starts, and later finishes with what the function answered.\<close>

definition loader_start :: "nat \<Rightarrow> ('s, 'f, 'v) cache \<Rightarrow> ('s, 'f, 'v) cache" where
  "loader_start i s =
     (if i < length (ca_loaders s) then
        (case ca_loaders s ! i of
           Spawned a \<Rightarrow>
             s\<lparr>ca_loaders := (ca_loaders s)[i := Loading a (en_loadingFunc (ca_heap s ! a))]\<rparr>
         | Loading a f \<Rightarrow> s)
      else s)"

definition loader_finish :: "nat \<Rightarrow> cache_error + 'v \<Rightarrow> ('s, 'f, 'v) cache \<Rightarrow> ('s, 'f, 'v) cache" where
  "loader_finish i r s =
     (if i < length (ca_loaders s) then
        (case ca_loaders s ! i of
           Spawned a \<Rightarrow> s
         | Loading a f \<Rightarrow>
             (let s1 = s\<lparr>ca_loaders := take i (ca_loaders s) @ drop (Suc i) (ca_loaders s)\<rparr>;
                  e = ca_heap s ! a
              in if en_state e = EntryCanceled
                 then set_entry a (e\<lparr>en_err := Some ErrCanceled\<rparr>) s1
                 else broadcast a
                   (case r of
                      Inr v \<Rightarrow> set_entry a (e\<lparr>en_state := EntryReady, en_value := Some v, en_err := None\<rparr>) s1
                    | Inl err \<Rightarrow> set_entry a (e\<lparr>en_state := EntryError, en_err := Some err\<rparr>) s1)))
      else s)"

section \<open>The contract of a cache store\<close>

locale cache_store =
  fixes ops :: "'s cache_store_ops"
  assumes get_put: "st_Get ops (st_Put ops m k a) k' = (if k' = k then Some a else st_Get ops m k')"
    and get_delete: "st_Get ops (st_Delete ops m k) k' = (if k' = k then None else st_Get ops m k')"
begin

lemma get_put_same: "st_Get ops (st_Put ops m k a) k = Some a"
  by (simp add: get_put)

lemma get_delete_same: "st_Get ops (st_Delete ops m k) k = None"
  by (simp add: get_delete)

end

interpretation mapstore: cache_store MapStore
  by unfold_locales (simp_all add: MapStore_def)

section \<open>What a cache never loses\<close>

text \<open>
  \<open>cache_ok\<close>: pointers are allocated, a pending entry has a loader in flight, and an entry with a
  parked caller is still being loaded.
\<close>

definition loaded_by :: "'f loader list \<Rightarrow> nat \<Rightarrow> bool" where
  "loaded_by ls a \<longleftrightarrow> (\<exists>t \<in> set ls. loader_addr t = a)"

fun waiter_addr :: "waiter \<Rightarrow> nat" where
  "waiter_addr (Parked a) = a"
| "waiter_addr (Woken a) = a"

definition cache_ptrs :: "'s cache_store_ops \<Rightarrow> ('s, 'f, 'v) cache \<Rightarrow> bool" where
  "cache_ptrs ops s \<longleftrightarrow>
     (\<forall>k a. st_Get ops (ca_entries s) k = Some a \<longrightarrow> a < length (ca_heap s))
     \<and> (\<forall>t \<in> set (ca_loaders s). loader_addr t < length (ca_heap s))
     \<and> (\<forall>p \<in> set (ca_waiters s). waiter_addr (snd p) < length (ca_heap s))"

definition cache_awake :: "('s, 'f, 'v) cache \<Rightarrow> bool" where
  "cache_awake s \<longleftrightarrow>
     (\<forall>a < length (ca_heap s). en_state (ca_heap s ! a) = EntryPending \<longrightarrow> loaded_by (ca_loaders s) a)
     \<and> (\<forall>w a. (w, Parked a) \<in> set (ca_waiters s) \<longrightarrow>
          en_state (ca_heap s ! a) \<in> {EntryInit, EntryPending} \<and> loaded_by (ca_loaders s) a)"

definition cache_ok :: "'s cache_store_ops \<Rightarrow> ('s, 'f, 'v) cache \<Rightarrow> bool" where
  "cache_ok ops s \<longleftrightarrow> cache_ptrs ops s \<and> cache_awake s"

lemma loaded_by_simps [simp]:
  "\<not> loaded_by [] a"
  "loaded_by (t # ls) a \<longleftrightarrow> loader_addr t = a \<or> loaded_by ls a"
  "loaded_by (ls @ ls') a \<longleftrightarrow> loaded_by ls a \<or> loaded_by ls' a"
  by (auto simp: loaded_by_def)

lemma broadcast_frame [simp]:
  "ca_entries (broadcast a s) = ca_entries s" "ca_heap (broadcast a s) = ca_heap s"
  "ca_loaders (broadcast a s) = ca_loaders s"
  by (simp_all add: broadcast_def)

lemma set_entry_frame [simp]:
  "ca_entries (set_entry a e s) = ca_entries s" "ca_heap (set_entry a e s) = (ca_heap s)[a := e]"
  "ca_loaders (set_entry a e s) = ca_loaders s" "ca_waiters (set_entry a e s) = ca_waiters s"
  by (simp_all add: set_entry_def)

lemma asyncLoad_frame [simp]:
  "ca_entries (asyncLoad a s) = ca_entries s"
  "ca_heap (asyncLoad a s) = (ca_heap s)[a := (ca_heap s ! a)\<lparr>en_state := EntryPending\<rparr>]"
  "ca_loaders (asyncLoad a s) = ca_loaders s @ [Spawned a]"
  "ca_waiters (asyncLoad a s) = ca_waiters s"
  by (simp_all add: asyncLoad_def)

lemma park_frame [simp]:
  "ca_entries (park w a s) = ca_entries s" "ca_heap (park w a s) = ca_heap s"
  "ca_loaders (park w a s) = ca_loaders s" "ca_waiters (park w a s) = ca_waiters s @ [(w, Parked a)]"
  by (simp_all add: park_def)

text \<open>After a broadcast on an entry nobody is parked on it, and everyone who was is woken.\<close>

lemma broadcast_parked:
  "(w, Parked b) \<in> set (ca_waiters (broadcast a s)) \<longleftrightarrow> b \<noteq> a \<and> (w, Parked b) \<in> set (ca_waiters s)"
  by (auto simp: broadcast_def image_iff split: if_splits intro: bexI[of _ "(w, Parked b)"])

lemma broadcast_wakes:
  "(w, Parked a) \<in> set (ca_waiters s) \<Longrightarrow> (w, Woken a) \<in> set (ca_waiters (broadcast a s))"
  by (force simp: broadcast_def image_iff)

lemma waiter_addr_wake [simp]: "waiter_addr (if p = Parked a then Woken a else p) = waiter_addr p"
  by simp

lemma broadcast_addrs:
  "(\<forall>p \<in> set (ca_waiters (broadcast a s)). P (waiter_addr (snd p)))
     \<longleftrightarrow> (\<forall>p \<in> set (ca_waiters s). P (waiter_addr (snd p)))"
  by (simp add: broadcast_def case_prod_beta del: split_paired_All)

lemma cache_ptrs_broadcast [simp]: "cache_ptrs ops (broadcast a s) = cache_ptrs ops s"
  using broadcast_addrs[of a s "\<lambda>x. x < length (ca_heap s)"] by (simp add: cache_ptrs_def)

lemma cache_ptrs_set_entry [simp]: "cache_ptrs ops (set_entry a e s) = cache_ptrs ops s"
  by (simp add: cache_ptrs_def)

lemma cache_ok_addr:
  "cache_ok ops s \<Longrightarrow> st_Get ops (ca_entries s) k = Some a \<Longrightarrow> a < length (ca_heap s)"
  by (simp add: cache_ok_def cache_ptrs_def)

lemma cache_ok_asyncLoad [inv_intros]:
  assumes "cache_ok ops s" "a < length (ca_heap s)"
  shows "cache_ok ops (asyncLoad a s)"
  using assms by (auto simp: cache_ok_def cache_ptrs_def cache_awake_def nth_list_update)

lemma cache_ok_park [inv_intros]:
  assumes "cache_ok ops s" "a < length (ca_heap s)" "en_state (ca_heap s ! a) = EntryPending"
  shows "cache_ok ops (park w a s)"
  using assms by (auto simp: cache_ok_def cache_ptrs_def cache_awake_def)

text \<open>An update that leaves the pending state and wakes everyone on the entry.\<close>

lemma cache_ok_settle:
  assumes "cache_ptrs ops s" "en_state e \<noteq> EntryPending"
    and "\<And>b. b < length (ca_heap s) \<Longrightarrow> b \<noteq> a \<Longrightarrow> en_state (ca_heap s ! b) = EntryPending \<Longrightarrow>
      loaded_by (ca_loaders s) b"
    and "\<And>w b. (w, Parked b) \<in> set (ca_waiters s) \<Longrightarrow> b \<noteq> a \<Longrightarrow>
      en_state (ca_heap s ! b) \<in> {EntryInit, EntryPending} \<and> loaded_by (ca_loaders s) b"
  shows "cache_ok ops (broadcast a (set_entry a e s))"
  using assms by (auto simp: cache_ok_def cache_awake_def broadcast_parked nth_upd split: if_splits)

lemma cache_ok_set_Init:
  assumes "cache_ok ops s" "en_state e = EntryInit"
  shows "cache_ok ops (set_entry a e s)"
  using assms by (auto simp: cache_ok_def cache_awake_def nth_upd split: if_splits)

lemma cache_ok_Get [inv_intros]:
  assumes "cache_ok ops s" "cache_Get ops w k s = (r, s')"
  shows "cache_ok ops s'"
proof (cases "st_Get ops (ca_entries s) k")
  case (Some a)
  note a = cache_ok_addr[OF assms(1) Some]
  have "cache_ok ops (park w a (asyncLoad a s))"
    using a assms(1) by (intro inv_intros) auto
  moreover have "en_state (ca_heap s ! a) = EntryPending \<Longrightarrow> cache_ok ops (park w a s)"
    using a assms(1) by (intro inv_intros)
  ultimately show ?thesis
    using Some assms by (auto simp: cache_Get_def split: entry_state.splits)
qed (use assms in \<open>simp add: cache_Get_def\<close>)

lemma cache_ok_resume [inv_intros]:
  assumes "cache_ok ops s" "cache_resume i s = (r, s')"
  shows "cache_ok ops s'"
proof -
  have drop1: "cache_ok ops (s\<lparr>ca_waiters := take i (ca_waiters s) @ drop (Suc i) (ca_waiters s)\<rparr>)"
    using assms(1) by (auto simp: cache_ok_def cache_ptrs_def cache_awake_def
        dest!: in_set_takeD in_set_dropD)
  have repark: "cache_ok ops (s\<lparr>ca_waiters := (ca_waiters s)[i := (w, Parked a)]\<rparr>)"
    if "i < length (ca_waiters s)" "ca_waiters s ! i = (w, Woken a)"
      "en_state (ca_heap s ! a) = EntryPending" for w a
  proof -
    have mem: "(w, Woken a) \<in> set (ca_waiters s)" using that nth_mem by metis
    then have "a < length (ca_heap s)" using assms(1) by (force simp: cache_ok_def cache_ptrs_def)
    then show ?thesis
      using assms(1) that(3) by (auto simp: cache_ok_def cache_ptrs_def cache_awake_def
          dest!: set_update_subset_insert[THEN subsetD])
  qed
  show ?thesis
    using assms drop1 repark
    by (auto simp: cache_resume_def split: if_splits waiter.splits prod.splits)
qed

lemma cache_ok_broadcast [inv_intros]: "cache_ok ops s \<Longrightarrow> cache_ok ops (broadcast a s)"
  by (auto simp: cache_ok_def cache_awake_def broadcast_parked)

lemma cache_ok_cancel:
  "cache_ok ops s \<Longrightarrow> en_state e = EntryCanceled \<Longrightarrow> cache_ok ops (broadcast a (set_entry a e s))"
  by (rule cache_ok_settle) (auto simp: cache_ok_def cache_awake_def)

lemma loaders_drop1:
  "loaded_by ls b \<Longrightarrow> i < length ls \<Longrightarrow> loader_addr (ls ! i) \<noteq> b \<Longrightarrow>
     loaded_by (take i ls @ drop (Suc i) ls) b"
  by (subst (asm) id_take_nth_drop[of i ls]) auto

lemma loaded_by_update:
  "i < length ls \<Longrightarrow> loader_addr t = loader_addr (ls ! i) \<Longrightarrow> loaded_by (ls[i := t]) b = loaded_by ls b"
  by (subst (2) id_take_nth_drop[of i ls]) (auto simp: upd_conv_take_nth_drop)

context cache_store
begin

lemma cache_ok_alloc:
  assumes "cache_ok ops s"
  shows "cache_ok ops (alloc ops k f s)"
proof -
  have old: "waiter_addr (snd p) < length (ca_heap s)" if "p \<in> set (ca_waiters s)" for p
    using assms that by (simp add: cache_ok_def cache_ptrs_def)
  have parked: "a < length (ca_heap s)" if "(w, Parked a) \<in> set (ca_waiters s)" for w a
    using old[OF that] by simp
  show ?thesis
    using assms old by (auto simp: cache_ok_def cache_ptrs_def cache_awake_def alloc_def get_put
        nth_append new_entry_def less_Suc_eq split: if_splits dest: parked)
qed

lemma cache_ok_Drop:
  assumes "cache_ok ops s"
  shows "cache_ok ops (cache_Drop ops k s)"
proof -
  have del: "cache_ok ops (s\<lparr>ca_entries := st_Delete ops (ca_entries s) k\<rparr>)"
    using assms by (auto simp: cache_ok_def cache_ptrs_def cache_awake_def get_delete)
  then show ?thesis
    using assms cache_ok_cancel[OF del] by (auto simp: cache_Drop_def Let_def intro: inv_intros split: option.splits)
qed

end

lemma cache_ok_Refresh [inv_intros]:
  "cache_ok ops s \<Longrightarrow> cache_Refresh ops k s = (r, s') \<Longrightarrow> cache_ok ops s'"
  by (auto simp: cache_Refresh_def cache_ok_addr intro: inv_intros split: option.splits)

lemma cache_ok_Cancel [inv_intros]: "cache_ok ops s \<Longrightarrow> cache_ok ops (cache_Cancel ops k s)"
  by (auto simp: cache_Cancel_def Let_def intro: inv_intros cache_ok_cancel split: option.splits)

lemma cache_ok_loader_start [inv_intros]:
  assumes "cache_ok ops s"
  shows "cache_ok ops (loader_start i s)"
proof (cases "i < length (ca_loaders s)")
  case True
  show ?thesis
  proof (cases "ca_loaders s ! i")
    case (Spawned a)
    have "Spawned a \<in> set (ca_loaders s)" using True Spawned nth_mem by metis
    then have "a < length (ca_heap s)" using assms by (force simp: cache_ok_def cache_ptrs_def)
    then show ?thesis
      using assms True Spawned
      by (auto simp: cache_ok_def cache_ptrs_def cache_awake_def loader_start_def loaded_by_update
          dest!: set_update_subset_insert[THEN subsetD])
  qed (simp add: loader_start_def True assms)
qed (simp add: loader_start_def assms)

text \<open>
  A finishing loader leaves its entry settled. The entry keeps being loaded, by others, only if it
  was cancelled, and then nobody is parked on it.
\<close>

lemma cache_ok_loader_finish [inv_intros]:
  assumes ok: "cache_ok ops s"
  shows "cache_ok ops (loader_finish i r s)"
proof (cases "i < length (ca_loaders s)")
  case True
  show ?thesis
  proof (cases "ca_loaders s ! i")
    case (Loading a f)
    let ?s1 = "s\<lparr>ca_loaders := take i (ca_loaders s) @ drop (Suc i) (ca_loaders s)\<rparr>"
    have ptrs: "cache_ptrs ops ?s1"
      using ok by (auto simp: cache_ok_def cache_ptrs_def dest: in_set_takeD in_set_dropD)
    have keep: "loaded_by (ca_loaders s) b \<Longrightarrow> b \<noteq> a \<Longrightarrow> loaded_by (ca_loaders ?s1) b" for b
      using loaders_drop1[of "ca_loaders s" b i] True Loading by (simp del: loaded_by_simps)
    have settle: "cache_ok ops (broadcast a (set_entry a e ?s1))"
      if "en_state e \<noteq> EntryPending" for e
      using ptrs that ok keep
      by (intro cache_ok_settle)
         (auto simp: cache_ok_def cache_awake_def simp del: loaded_by_simps)
    have "cache_ok ops (set_entry a ((ca_heap s ! a)\<lparr>en_err := Some ErrCanceled\<rparr>) ?s1)"
      if "en_state (ca_heap s ! a) = EntryCanceled"
    proof -
      have "(w, Parked a) \<notin> set (ca_waiters s)" for w
        using ok that by (fastforce simp: cache_ok_def cache_awake_def)
      moreover have "Loading a f \<in> set (ca_loaders s)" using True Loading nth_mem by metis
      then have "a < length (ca_heap s)" using ok by (force simp: cache_ok_def cache_ptrs_def)
      ultimately show ?thesis
        using ptrs ok keep that
        by (auto simp: cache_ok_def cache_awake_def nth_upd simp del: loaded_by_simps split: if_splits)
    qed
    with settle Loading True show ?thesis
      by (auto simp: loader_finish_def Let_def split: sum.splits)
  qed (simp add: loader_finish_def True ok)
qed (simp add: loader_finish_def ok)

section \<open>Every schedule\<close>

inductive cache_step ::
    "'s cache_store_ops \<Rightarrow> ('s, 'f, 'v) cache \<Rightarrow> ('s, 'f, 'v) cache \<Rightarrow> bool"
  for ops where
  step_Get: "cache_Get ops w k s = (r, s') \<Longrightarrow> cache_step ops s s'"
| step_resume: "cache_resume i s = (r, s') \<Longrightarrow> cache_step ops s s'"
| step_Put: "cache_Put ops k f s = (r, s') \<Longrightarrow> cache_step ops s s'"
| step_Replace: "cache_step ops s (cache_Replace ops k f s)"
| step_Refresh: "cache_Refresh ops k s = (r, s') \<Longrightarrow> cache_step ops s s'"
| step_Cancel: "cache_step ops s (cache_Cancel ops k s)"
| step_Drop: "cache_step ops s (cache_Drop ops k s)"
| step_start: "cache_step ops s (loader_start i s)"
| step_finish: "cache_step ops s (loader_finish i r s)"

inductive_cases cache_stepE: "cache_step ops s s'"

context cache_store
begin

lemma cache_ok_step:
  assumes "cache_step ops s s'" "cache_ok ops s"
  shows "cache_ok ops s'"
  using assms
proof cases
  case (step_Put k f r)
  then show ?thesis using assms(2) cache_ok_alloc by (auto simp: cache_Put_def split: if_splits)
next
  case (step_Replace k f)
  then show ?thesis
    using assms(2) cache_ok_alloc by (auto simp: cache_Replace_def intro: cache_ok_set_Init split: option.splits)
qed (use assms(2) cache_ok_Drop in \<open>auto intro: inv_intros\<close>)

end

sublocale cache_store \<subseteq> runs: step_system "cache_step ops" "cache_ok ops"
  by unfold_locales (rule cache_ok_step)

context cache_store
begin

lemma cache_ok_reach:
  assumes "(cache_step ops)\<^sup>*\<^sup>* (NewLoadingCache store) s" "\<And>k. st_Get ops store k = None"
  shows "cache_ok ops s"
  by (rule runs.inv_reach[OF assms(1)])
    (simp add: assms(2) cache_ok_def cache_ptrs_def cache_awake_def NewLoadingCache_def)

lemma loader_finish_wakes:
  assumes "cache_ok ops s" "(w, Parked a) \<in> set (ca_waiters s)"
    and "i < length (ca_loaders s)" "ca_loaders s ! i = Loading a f"
  shows "(w, Woken a) \<in> set (ca_waiters (loader_finish i r s))"
proof -
  have "en_state (ca_heap s ! a) \<noteq> EntryCanceled"
    using assms(1,2) by (fastforce simp: cache_ok_def cache_awake_def)
  with assms(2,3,4) show ?thesis
    by (auto simp: loader_finish_def Let_def broadcast_wakes split: sum.splits)
qed

end

section \<open>Properties\<close>



text \<open>
  Replacing the loading function of an entry that is being loaded does not take: the caller
  that was waiting and every caller after it are answered the value of the old function, and the new
  one is never called.
\<close>

theorem replace_while_loading_ignored:
  assumes "cache_store ops" and "st_Get ops (ca_entries s) k = Some a" and "a < length (ca_heap s)"
    and "ca_loaders s = [Loading a f_old]" and "en_state (ca_heap s ! a) = EntryPending"
  shows "let s' = loader_finish 0 (Inr v) (cache_Replace ops k f_new s)
    in ca_loaders s' = [] \<and> en_loadingFunc (ca_heap s' ! a) = f_new
      \<and> cache_Get ops w k s' = (Some \<lparr>cv_State = EntryReady, cv_Value = Some v, cv_Error = None\<rparr>, s')"
  using assms(2-5)
  by (simp add: cache_Replace_def loader_finish_def cache_Get_def entry_value_def)

definition loading_example :: "(string \<rightharpoonup> nat, string, nat) cache" where
  "loading_example =
     loader_start 0 (snd (cache_Get MapStore 1 ''k''
       (snd (cache_Put MapStore ''k'' ''old'' (NewLoadingCache Map.empty)))))"

lemma loading_example_eq:
  "loading_example =
     \<lparr>ca_entries = [''k'' \<mapsto> 0],
      ca_heap = [\<lparr>en_state = EntryPending, en_loadingFunc = ''old'', en_value = None, en_err = None\<rparr>],
      ca_loaders = [Loading 0 ''old''], ca_waiters = [(1, Parked 0)]\<rparr>"
  by (simp add: loading_example_def cache_Put_def cache_Get_def alloc_def MapStore_def
      NewLoadingCache_def new_entry_def loader_start_def park_def asyncLoad_def set_entry_def)

theorem replace_while_loading_ignored_witness:
  "let s' = loader_finish 0 (Inr 1) (cache_Replace MapStore ''k'' ''new'' loading_example)
   in cache_Get MapStore 2 ''k'' s' =
        (Some \<lparr>cv_State = EntryReady, cv_Value = Some 1, cv_Error = None\<rparr>, s')"
  using replace_while_loading_ignored[OF mapstore.cache_store_axioms, of loading_example "''k''" 0
      "''old''" 1 "''new''" 2]
  by (simp add: loading_example_eq MapStore_def Let_def)

text \<open>
  Dropping a key whose entry is being loaded answers the waiting callers a cancelled entry with
  no value and no error, while cancelling it answers them the cancellation error.
\<close>

theorem dropped_waiter_sees_no_error:
  assumes "cache_store ops" and "st_Get ops (ca_entries s) k = Some a" and "a < length (ca_heap s)"
    and "ca_heap s ! a = \<lparr>en_state = EntryPending, en_loadingFunc = f, en_value = None, en_err = None\<rparr>"
    and "ca_waiters s = [(w, Parked a)]"
  shows "fst (cache_resume 0 (cache_Drop ops k s)) =
           Some \<lparr>cv_State = EntryCanceled, cv_Value = None, cv_Error = None\<rparr>
    \<and> fst (cache_resume 0 (cache_Cancel ops k s)) =
           Some \<lparr>cv_State = EntryCanceled, cv_Value = None, cv_Error = Some ErrCanceled\<rparr>"
  using assms(2-5)
  by (simp add: cache_Drop_def cache_Cancel_def cache_resume_def entry_value_def broadcast_def
      set_entry_def)

theorem dropped_waiter_sees_no_error_witness:
  "fst (cache_resume 0 (cache_Drop MapStore ''k'' loading_example)) =
     Some \<lparr>cv_State = EntryCanceled, cv_Value = None, cv_Error = None\<rparr>"
  using dropped_waiter_sees_no_error[OF mapstore.cache_store_axioms, of loading_example "''k''" 0
      "''old''" 1]
  by (simp add: loading_example_eq MapStore_def)

end
