(* ===== verification/Paths.thy ===== *)
theory Paths
  imports Prelude "HOL-Library.Sublist"
begin

text \<open>
  The operations on paths and strings of Go's \<open>path/filepath\<close> and \<open>strings\<close> packages that the program
  uses: joining and cleaning, the last element, replacement of all occurrences, and suffixes.
\<close>

section \<open>Joining\<close>

text \<open>\<open>filepath.Join\<close>: the non-empty elements joined by slashes and cleaned.\<close>

fun split_on :: "'a \<Rightarrow> 'a list \<Rightarrow> 'a list list" where
  "split_on c [] = [[]]"
| "split_on c (x # xs) =
     (if x = c then [] # split_on c xs
      else (case split_on c xs of [] \<Rightarrow> [[x]] | w # ws \<Rightarrow> (x # w) # ws))"

fun join_with :: "'a \<Rightarrow> 'a list list \<Rightarrow> 'a list" where
  "join_with c [] = []"
| "join_with c [w] = w"
| "join_with c (w # v # ws) = w @ c # join_with c (v # ws)"

fun clean_comps :: "bool \<Rightarrow> string list \<Rightarrow> string list \<Rightarrow> string list" where
  "clean_comps rooted done [] = rev done"
| "clean_comps rooted done (w # ws) =
     (if w = '''' \<or> w = ''.'' then clean_comps rooted done ws
      else if w = ''..'' then
        (case done of
           [] \<Rightarrow> clean_comps rooted (if rooted then [] else [w]) ws
         | d # ds \<Rightarrow> if d = ''..'' then clean_comps rooted (w # done) ws
                     else clean_comps rooted ds ws)
      else clean_comps rooted (w # done) ws)"

definition filepath_Clean :: "string \<Rightarrow> string" where
  "filepath_Clean p =
     (if p = '''' then ''.''
      else let rooted = (hd p = CHR ''/'');
               q = join_with CHR ''/'' (clean_comps rooted [] (split_on CHR ''/'' p))
           in if rooted then CHR ''/'' # q else if q = '''' then ''.'' else q)"

definition filepath_Join :: "string list \<Rightarrow> string" where
  "filepath_Join ws =
     (let vs = dropWhile (\<lambda>w. w = '''') ws
      in if vs = [] then '''' else filepath_Clean (join_with CHR ''/'' vs))"

section \<open>Last elements and replacements\<close>

text \<open>Go's \<open>filepath.Base\<close>, \<open>strings.Replace\<close> of all occurrences, and the ends of strings.\<close>

definition path_base :: "string \<Rightarrow> string" where
  "path_base p =
     (if p = '''' then ''.''
      else let q = rev (dropWhile (\<lambda>c. c = CHR ''/'') (rev p))
           in if q = '''' then ''/'' else rev (takeWhile (\<lambda>c. c \<noteq> CHR ''/'') (rev q)))"

function replace_all :: "string \<Rightarrow> string \<Rightarrow> string \<Rightarrow> string" where
  "replace_all old new s =
     (if old = [] \<or> s = [] then s
      else if take (length old) s = old then new @ replace_all old new (drop (length old) s)
      else hd s # replace_all old new (tl s))"
  by pat_completeness auto
termination by (relation "measure (\<lambda>(old, new, s). length s)") auto

declare replace_all.simps [simp del]

definition has_suffix :: "string \<Rightarrow> string \<Rightarrow> bool" where
  "has_suffix s suf \<longleftrightarrow> length suf \<le> length s \<and> drop (length s - length suf) s = suf"

definition trim_suffix :: "string \<Rightarrow> string \<Rightarrow> string" where
  "trim_suffix s suf = (if has_suffix s suf then take (length s - length suf) s else s)"

section \<open>Numbers\<close>

text \<open>
  Go's \<open>strconv.Atoi\<close>: the value, and whether there was no error. Bad syntax has the value 0, a number
  out of the range of 64 bits the nearest one in it.
\<close>

definition digits_value :: "string \<Rightarrow> nat" where
  "digits_value ds = fold (\<lambda>c n. n * 10 + (of_char c - 48)) ds 0"

definition Atoi :: "string \<Rightarrow> int \<times> bool" where
  "Atoi s =
     (let (sgn, ds) = (case s of [] \<Rightarrow> (1, []) | c # cs \<Rightarrow>
             if c = CHR ''-'' then (-1, cs) else if c = CHR ''+'' then (1, cs) else (1, s))
      in if ds = [] \<or> \<not> list_all (\<lambda>c. 48 \<le> (of_char c :: nat) \<and> (of_char c :: nat) \<le> 57) ds then (0, False)
         else let v = sgn * int (digits_value ds); w = max (- (2 ^ 63)) (min (2 ^ 63 - 1) v) in (w, w = v))"

section \<open>Lemmas\<close>

lemma replace_all_Nil [simp]: "replace_all old new [] = []"
  by (simp add: replace_all.simps)

lemma replace_all_self: "name \<noteq> [] \<Longrightarrow> replace_all name new name = new"
  by (simp add: replace_all.simps[of name new name])

lemma take_eq_prefix: "take (length xs) ys = xs \<Longrightarrow> prefix xs ys"
  by (metis take_is_prefix)

lemma replace_all_last:
  assumes "name \<noteq> []" "CHR ''/'' \<notin> set name" "\<not> sublist name dir"
  shows "replace_all name new (dir @ CHR ''/'' # name) = dir @ CHR ''/'' # new"
  using assms(3)
proof (induction dir)
  case Nil
  have "take (length name) (CHR ''/'' # name) \<noteq> name"
    using assms(1,2) by (cases name) auto
  with assms(1) show ?case by (simp add: replace_all.simps[of name new "CHR ''/'' # name"] replace_all_self)
next
  case (Cons c dir)
  have "take (length name) ((c # dir) @ CHR ''/'' # name) \<noteq> name"
  proof
    assume t: "take (length name) ((c # dir) @ CHR ''/'' # name) = name"
    show False
    proof (cases "length name \<le> length (c # dir)")
      case True
      with t[unfolded take_append] have "take (length name) (c # dir) = name" by simp
      then have "sublist name (c # dir)" by (metis prefix_imp_sublist take_is_prefix)
      with Cons.prems show ?thesis by simp
    next
      case False
      then obtain n where "length name - length (c # dir) = Suc n" by (cases "length name - length (c # dir)") auto
      then have "CHR ''/'' \<in> set (take (length name) ((c # dir) @ CHR ''/'' # name))"
        unfolding take_append by simp
      with t assms(2) show ?thesis by metis
    qed
  qed
  moreover have "\<not> sublist name dir" using Cons.prems by (meson sublist_Cons_right)
  ultimately show ?case using Cons.IH assms(1) by (subst replace_all.simps) simp
qed

lemma path_base_last:
  assumes "name \<noteq> []" "CHR ''/'' \<notin> set name"
  shows "path_base (dir @ CHR ''/'' # name) = name"
proof -
  obtain c cs where r: "rev name = c # cs" using assms(1) by (cases "rev name") auto
  have "c \<noteq> CHR ''/''" using assms(2) r by (metis list.set_intros(1) set_rev)
  then have d: "dropWhile (\<lambda>c. c = CHR ''/'') (rev (dir @ CHR ''/'' # name)) = rev (dir @ CHR ''/'' # name)"
    using r by simp
  have "takeWhile (\<lambda>c. c \<noteq> CHR ''/'') (rev name @ CHR ''/'' # rev dir) = rev name"
    using assms(2) by (subst takeWhile_append2) auto
  moreover have "path_base (dir @ CHR ''/'' # name)
      = rev (takeWhile (\<lambda>c. c \<noteq> CHR ''/'') (rev (dir @ CHR ''/'' # name)))"
    unfolding path_base_def d Let_def by simp
  ultimately show ?thesis by simp
qed

end
