(* ===== verification/AuthCache.thy ===== *)
theory AuthCache
  imports LoadingCache Paths
begin

text \<open>
  Authorization of a request: \<open>e2core/auth/access.go\<close> (the access token, the authorization client and
  the middleware) and \<open>e2core/auth/cache.go\<close> (the cache of decisions, on the loading cache). A call
  of \<open>Get\<close> is followed through to its answer, its loader included, in a cache that is otherwise
  quiet; the clock is read at the times \<open>t1\<close> (first load), \<open>t2\<close> (expiry check) and \<open>t3\<close> (reload).
\<close>

section \<open>Access tokens\<close>

record tenantInfo =
  ti_AuthorizedParty :: string
  ti_Environment :: string
  ti_ID :: string
  ti_Name :: string

record accessToken =
  at_scheme :: string
  at_value :: string

definition NewAccessToken :: "string \<Rightarrow> accessToken option" where
  "NewAccessToken token =
     (if token \<noteq> '''' then Some \<lparr>at_scheme = ''Bearer'', at_value = token\<rparr> else None)"

definition AccessToken_String :: "accessToken \<Rightarrow> string" where
  "AccessToken_String t = at_scheme t @ '' '' @ at_value t"

text \<open>The argument is the value of the Authorization header, empty when there is none.\<close>

definition ExtractAccessToken :: "string \<Rightarrow> accessToken option go" where
  "ExtractAccessToken authInfo =
     (if authInfo = '''' then Inr None
      else let splitAt = index_of CHR '' '' authInfo
           in if splitAt = 0 then Inr None
              else go_bind (go_slice_to authInfo splitAt) (\<lambda>scheme.
                   go_bind (go_slice_from authInfo (splitAt + 1)) (\<lambda>val.
                     Inr (Some \<lparr>at_scheme = scheme, at_value = val\<rparr>))))"

section \<open>The key of a decision\<close>

definition auth_key :: "string \<Rightarrow> string \<Rightarrow> string \<Rightarrow> accessToken \<Rightarrow> string" where
  "auth_key identifier namespace name token =
     filepath_Join [identifier, namespace, name, at_value token]"

section \<open>The cache of decisions\<close>

record expiringContext =
  ec_exp :: int
  ec_ctx :: "tenantInfo option"

type_synonym ('s, 'f) auth_cache = "('s, 'f, expiringContext) cache"

text \<open>\<open>auth_loadingFunc\<close> wraps a loader's answer with the expiry counted from the time it was called.\<close>

definition auth_loadingFunc ::
    "int \<Rightarrow> ('f \<Rightarrow> int \<Rightarrow> cache_error + tenantInfo option) \<Rightarrow> int \<Rightarrow> 'f \<Rightarrow> cache_error + expiringContext" where
  "auth_loadingFunc ttl inner t f =
     (case inner f t of
        Inl err \<Rightarrow> Inl err
      | Inr ctx \<Rightarrow> Inr \<lparr>ec_exp = t + ttl, ec_ctx = ctx\<rparr>)"

text \<open>A call of the loading cache's \<open>Get\<close> followed to its return, the loader run in between.\<close>

definition await_Get :: "'s cache_store_ops \<Rightarrow> ('f \<Rightarrow> cache_error + 'v) \<Rightarrow> string \<Rightarrow> ('s, 'f, 'v) cache \<Rightarrow>
    ('v cache_value \<times> ('s, 'f, 'v) cache) prog" where
  "await_Get ops load key s =
     (case cache_Get ops 0 key s of
        (Some v, s1) \<Rightarrow> Some (Inr (v, s1))
      | (None, s1) \<Rightarrow>
          (let s2 = loader_start 0 s1
           in case ca_loaders s2 of
                Loading a f # _ \<Rightarrow>
                  (case cache_resume 0 (loader_finish 0 (load f) s2) of
                     (Some v, s3) \<Rightarrow> Some (Inr (v, s3))
                   | (None, _) \<Rightarrow> None)
              | _ \<Rightarrow> None))"

definition AuthorizationCache_Get :: "'s cache_store_ops \<Rightarrow> int \<Rightarrow>
    ('f \<Rightarrow> int \<Rightarrow> cache_error + tenantInfo option) \<Rightarrow> int \<Rightarrow> int \<Rightarrow> int \<Rightarrow> string \<Rightarrow> 'f \<Rightarrow>
    ('s, 'f) auth_cache \<Rightarrow> ((tenantInfo option \<times> cache_error option) \<times> ('s, 'f) auth_cache) prog" where
  "AuthorizationCache_Get ops ttl inner t1 t2 t3 key newFunc s =
     (let s0 = (if cache_Check ops key s then s else snd (cache_Put ops key newFunc s));
          finish = (\<lambda>(entry, s2).
            case cv_Error entry of
              Some err \<Rightarrow> Some (Inr ((None, Some err), cache_Replace ops key newFunc s2))
            | None \<Rightarrow>
                (case cv_Value entry of
                   None \<Rightarrow> Some (Inl NilDereference)
                 | Some v \<Rightarrow> Some (Inr ((ec_ctx v, None), s2))))
      in prog_bind (await_Get ops (auth_loadingFunc ttl inner t1) key s0) (\<lambda>(entry, s1).
           case cv_Value entry of
             Some v \<Rightarrow>
               if ec_exp v > t2 then Some (Inr ((ec_ctx v, cv_Error entry), s1))
               else prog_bind (await_Get ops (auth_loadingFunc ttl inner t3) key
                                 (snd (cache_Refresh ops key s1))) finish
           | None \<Rightarrow> finish (entry, s1)))"

section \<open>The authorization client and the middleware\<close>

text \<open>
  The HTTP client and the JSON decoder are libraries: \<open>http_do\<close> answers an error or a status and a
  body to a URL and an Authorization header, \<open>decode\<close> an error or the decoded pointer.
\<close>

definition AccessToken_Scheme :: "accessToken \<Rightarrow> string" where
  "AccessToken_Scheme t = at_scheme t"

definition AccessToken_Value :: "accessToken \<Rightarrow> string" where
  "AccessToken_Value t = at_value t"

definition loadAuth :: "(string \<Rightarrow> string \<Rightarrow> string + (int \<times> string)) \<Rightarrow>
    (string \<Rightarrow> string + tenantInfo option) \<Rightarrow> string \<Rightarrow> accessToken \<times> string \<Rightarrow>
    cache_error + tenantInfo option" where
  "loadAuth http_do decode location = (\<lambda>(token, identifier).
     case http_do (location @ identifier) (AccessToken_String token) of
       Inl err \<Rightarrow> Inl (LoadFailed (''dispatch remote authz request: '' @ err))
     | Inr (status, body) \<Rightarrow>
         if status \<noteq> 200 then Inl (LoadFailed ''unauthorized'')
         else (case decode body of
                 Inl err \<Rightarrow> Inl (LoadFailed (''deserialized authorization response: '' @ err))
               | Inr claims \<Rightarrow> Inr claims))"

definition NewAuthorizationCache :: "'s \<Rightarrow> ('s, 'f) auth_cache" where
  "NewAuthorizationCache store = NewLoadingCache store"

text \<open>The client of a control plane: where it asks, its cache, and how long a decision is kept.\<close>

record 's authz_client =
  az_location :: string
  az_cache :: "('s, accessToken \<times> string) auth_cache"
  az_ttl :: int

definition NewApiAuthClient :: "'s \<Rightarrow> string \<Rightarrow> int \<Rightarrow> 's authz_client" where
  "NewApiAuthClient store controlPlane authCacheTTL =
     \<lparr>az_location = controlPlane @ ''/environment/v1/tenant/'', az_cache = NewAuthorizationCache store, az_ttl = authCacheTTL\<rparr>"

definition Authorize :: "'s cache_store_ops \<Rightarrow> int \<Rightarrow>
    (accessToken \<times> string \<Rightarrow> int \<Rightarrow> cache_error + tenantInfo option) \<Rightarrow> int \<Rightarrow> int \<Rightarrow> int \<Rightarrow>
    accessToken option \<Rightarrow> string \<Rightarrow> string \<Rightarrow> string \<Rightarrow> ('s, accessToken \<times> string) auth_cache \<Rightarrow>
    ((tenantInfo option \<times> cache_error option) \<times> ('s, accessToken \<times> string) auth_cache) prog" where
  "Authorize ops ttl inner t1 t2 t3 token identifier namespace name s =
     (case token of
        None \<Rightarrow> Some (Inr ((None, Some (LoadFailed ''no credentials provided'')), s))
      | Some tok \<Rightarrow> AuthorizationCache_Get ops ttl inner t1 t2 t3
                     (auth_key identifier namespace name tok) (tok, identifier) s)"

datatype auth_verdict = Unauthorized | NextHandler string

definition AuthorizationMiddleware :: "'s cache_store_ops \<Rightarrow> int \<Rightarrow>
    (accessToken \<times> string \<Rightarrow> int \<Rightarrow> cache_error + tenantInfo option) \<Rightarrow> int \<Rightarrow> int \<Rightarrow> int \<Rightarrow>
    string \<Rightarrow> string \<Rightarrow> string \<Rightarrow> string \<Rightarrow> ('s, accessToken \<times> string) auth_cache \<Rightarrow>
    (auth_verdict \<times> ('s, accessToken \<times> string) auth_cache) prog" where
  "AuthorizationMiddleware ops ttl inner t1 t2 t3 header identifier namespace name s =
     prog_bind (Some (ExtractAccessToken header)) (\<lambda>token.
     prog_bind (Authorize ops ttl inner t1 t2 t3 token identifier namespace name s) (\<lambda>((tnt, err), s').
       case err of
         Some _ \<Rightarrow> Some (Inr (Unauthorized, s'))
       | None \<Rightarrow> (case tnt of
                    None \<Rightarrow> Some (Inl NilDereference)
                  | Some t \<Rightarrow> Some (Inr (NextHandler (ti_ID t), s')))))"

section \<open>Lemmas\<close>

text \<open>
  A cache between two calls at the time \<open>now\<close>: nothing in flight, every entry ready or still to be
  loaded, and what an entry to be loaded still holds has expired.
\<close>

definition auth_entry_ok :: "int \<Rightarrow> ('f, expiringContext) entry \<Rightarrow> bool" where
  "auth_entry_ok now e \<longleftrightarrow>
     (case en_state e of
        EntryInit \<Rightarrow> (case en_value e of None \<Rightarrow> True | Some v \<Rightarrow> ec_exp v \<le> now)
      | EntryReady \<Rightarrow> en_value e \<noteq> None \<and> en_err e = None
      | _ \<Rightarrow> False)"

definition auth_quiet :: "'s cache_store_ops \<Rightarrow> int \<Rightarrow> ('s, 'f) auth_cache \<Rightarrow> bool" where
  "auth_quiet ops now s \<longleftrightarrow> ca_loaders s = [] \<and> ca_waiters s = []
     \<and> (\<forall>k a. st_Get ops (ca_entries s) k = Some a \<longrightarrow>
          a < length (ca_heap s) \<and> auth_entry_ok now (ca_heap s ! a))"

text \<open>The entry a call consults: the known one, or the one it registers.\<close>

definition auth_entry :: "'s cache_store_ops \<Rightarrow> string \<Rightarrow> 'f \<Rightarrow> ('s, 'f) auth_cache \<Rightarrow>
    ('f, expiringContext) entry" where
  "auth_entry ops key newFunc s =
     (case st_Get ops (ca_entries s) key of Some a \<Rightarrow> ca_heap s ! a | None \<Rightarrow> new_entry newFunc)"

definition settle_entry :: "cache_error + 'v \<Rightarrow> ('f, 'v) entry \<Rightarrow> ('f, 'v) entry" where
  "settle_entry r e =
     (case r of
        Inr v \<Rightarrow> e\<lparr>en_state := EntryReady, en_value := Some v, en_err := None\<rparr>
      | Inl err \<Rightarrow> e\<lparr>en_state := EntryError, en_err := Some err\<rparr>)"

text \<open>\<open>auth_at\<close>: the key's entry is at address \<open>a\<close> and nothing is in flight.\<close>

definition auth_at :: "'s cache_store_ops \<Rightarrow> string \<Rightarrow> nat \<Rightarrow> ('f, 'v) entry \<Rightarrow> ('s, 'f, 'v) cache \<Rightarrow> bool" where
  "auth_at ops k a e s \<longleftrightarrow> st_Get ops (ca_entries s) k = Some a \<and> a < length (ca_heap s)
     \<and> ca_heap s ! a = e \<and> ca_loaders s = [] \<and> ca_waiters s = []"

lemma auth_at_set [simp]: "auth_at ops k a e s \<Longrightarrow> auth_at ops k a e' (set_entry a e' s)"
  by (simp add: auth_at_def)

lemma set_entry_twice [simp]: "set_entry a e' (set_entry a e s) = set_entry a e' s"
  by (simp add: set_entry_def)

lemma set_entry_same: "auth_at ops k a e s \<Longrightarrow> set_entry a e s = s"
  by (auto simp: auth_at_def set_entry_def)

lemma settle_entry_fn [simp]: "en_loadingFunc (settle_entry r e) = en_loadingFunc e"
  by (simp add: settle_entry_def split: sum.splits)

lemma settle_entry_state [simp]: "settle_entry r (e\<lparr>en_state := st\<rparr>) = settle_entry r e"
  by (simp add: settle_entry_def split: sum.splits)

lemma await_ready:
  "auth_at ops k a e s \<Longrightarrow> en_state e = EntryReady \<Longrightarrow>
     await_Get ops load k s = Some (Inr (entry_value e, s))"
  by (auto simp: auth_at_def await_Get_def cache_Get_def)

lemma await_load:
  assumes "auth_at ops k a e s" "en_state e = EntryInit" "e' = settle_entry (load (en_loadingFunc e)) e"
  shows "await_Get ops load k s = Some (Inr (entry_value e', set_entry a e' s))"
  using assms
  by (auto simp: auth_at_def await_Get_def cache_Get_def loader_start_def loader_finish_def
      cache_resume_def settle_entry_def broadcast_def set_entry_def park_def asyncLoad_def
      split: sum.splits)

lemma await_refresh:
  assumes "auth_at ops k a e s" "e' = settle_entry (load (en_loadingFunc e)) e"
  shows "await_Get ops load k (snd (cache_Refresh ops k s)) = Some (Inr (entry_value e', set_entry a e' s))"
  using assms
  by (auto simp: auth_at_def await_Get_def cache_Get_def loader_start_def loader_finish_def
      cache_resume_def settle_entry_def broadcast_def set_entry_def park_def asyncLoad_def
      cache_Refresh_def split: sum.splits)

lemma replace_at:
  "auth_at ops k a e s \<Longrightarrow>
     cache_Replace ops k f s = set_entry a (e\<lparr>en_loadingFunc := f, en_state := EntryInit\<rparr>) s"
  by (auto simp: auth_at_def cache_Replace_def)

lemma auth_entry_ok_mono: "auth_entry_ok now e \<Longrightarrow> now \<le> t \<Longrightarrow> auth_entry_ok t e"
  by (auto simp: auth_entry_ok_def split: entry_state.splits option.splits)

lemma auth_quiet_mono: "auth_quiet ops now s \<Longrightarrow> now \<le> t \<Longrightarrow> auth_quiet ops t s"
  by (auto simp: auth_quiet_def intro: auth_entry_ok_mono)

lemma auth_quiet_set:
  assumes "auth_quiet ops now s" "auth_entry_ok now e" "ca_entries s' = ca_entries s"
    and "ca_heap s' = (ca_heap s)[a := e]" "ca_loaders s' = []" "ca_waiters s' = []"
  shows "auth_quiet ops now s'"
  using assms by (auto simp: auth_quiet_def nth_upd)

text \<open>
  One call, seen on the entry it consults: the answer and the entry it leaves.
\<close>

definition auth_outcome :: "int \<Rightarrow> ('f \<Rightarrow> int \<Rightarrow> cache_error + tenantInfo option) \<Rightarrow> int \<Rightarrow> int \<Rightarrow> int \<Rightarrow>
    'f \<Rightarrow> ('f, expiringContext) entry \<Rightarrow>
    (tenantInfo option \<times> cache_error option) \<times> ('f, expiringContext) entry" where
  "auth_outcome ttl inner t1 t2 t3 newFunc e =
     (let e1 = (if en_state e = EntryReady then e
                else settle_entry (auth_loadingFunc ttl inner t1 (en_loadingFunc e)) e);
          e2 = settle_entry (auth_loadingFunc ttl inner t3 (en_loadingFunc e)) e1;
          finish = (\<lambda>e'. case en_err e' of
                      Some err \<Rightarrow> ((None, Some err), e'\<lparr>en_loadingFunc := newFunc, en_state := EntryInit\<rparr>)
                    | None \<Rightarrow> ((Option.bind (en_value e') ec_ctx, None), e'))
      in case en_value e1 of
           Some v \<Rightarrow> if ec_exp v > t2 then ((ec_ctx v, en_err e1), e1) else finish e2
         | None \<Rightarrow> finish e1)"

lemma auth_outcome_ok:
  "auth_entry_ok t2 e \<Longrightarrow> auth_entry_ok t2 (snd (auth_outcome ttl inner t1 t2 t3 newFunc e))"
  by (cases "en_state e"; cases "en_value e"; cases "inner (en_loadingFunc e) t1";
      cases "inner (en_loadingFunc e) t3")
    (simp_all add: auth_outcome_def auth_entry_ok_def settle_entry_def auth_loadingFunc_def Let_def)

context cache_store
begin

lemma auth_register:
  assumes "auth_quiet ops now s"
    and "s0 = (if cache_Check ops key s then s else snd (cache_Put ops key newFunc s))"
  shows "auth_quiet ops now s0 \<and> (\<exists>a. auth_at ops key a (auth_entry ops key newFunc s) s0)"
proof (cases "st_Get ops (ca_entries s) key")
  case None
  have "auth_quiet ops now (alloc ops key newFunc s)"
    using assms(1) by (auto simp: auth_quiet_def alloc_def get_put nth_append auth_entry_ok_def
        new_entry_def less_Suc_eq split: if_splits)
  with None assms(1) show ?thesis
    by (simp add: assms(2) cache_Check_def cache_Put_def auth_entry_def alloc_def get_put
        auth_at_def auth_quiet_def)
qed (use assms(1) in \<open>auto simp: assms(2) cache_Check_def auth_entry_def auth_quiet_def auth_at_def\<close>)

lemma auth_Get_outcome:
  assumes quiet: "auth_quiet ops now s" and now: "now \<le> t2"
    and e: "e = auth_entry ops key newFunc s"
    and out: "out = auth_outcome ttl inner t1 t2 t3 newFunc e"
  shows "\<exists>s'. AuthorizationCache_Get ops ttl inner t1 t2 t3 key newFunc s = Some (Inr (fst out, s'))
    \<and> auth_quiet ops t2 s' \<and> cache_Check ops key s' \<and> auth_entry ops key newFunc2 s' = snd out
    \<and> (en_state e = EntryReady \<and> snd out = e \<longrightarrow> s' = s)"
proof -
  define s0 where "s0 = (if cache_Check ops key s then s else snd (cache_Put ops key newFunc s))"
  from auth_register[OF quiet s0_def] obtain a where a: "auth_at ops key a e s0"
    and q: "auth_quiet ops now s0" using e by blast
  have q0: "auth_quiet ops t2 s0" using auth_quiet_mono[OF q now] .
  have ok: "auth_entry_ok t2 e" using q0 a by (auto simp: auth_quiet_def auth_at_def)
  define e1 where "e1 = (if en_state e = EntryReady then e
      else settle_entry (auth_loadingFunc ttl inner t1 (en_loadingFunc e)) e)"
  define s1 where "s1 = set_entry a e1 s0"
  have a1: "auth_at ops key a e1 s1" using a by (simp add: s1_def)
  have first: "await_Get ops (auth_loadingFunc ttl inner t1) key s0 = Some (Inr (entry_value e1, s1))"
    using await_ready[OF a] await_load[OF a _ refl] ok set_entry_same[OF a]
    by (auto simp: e1_def s1_def auth_entry_ok_def split: entry_state.splits)
  define e2 where "e2 = settle_entry (auth_loadingFunc ttl inner t3 (en_loadingFunc e)) e1"
  define s2 where "s2 = set_entry a e2 s1"
  have a2: "auth_at ops key a e2 s2" using a1 by (simp add: s2_def)
  have "en_loadingFunc e1 = en_loadingFunc e" by (simp add: e1_def)
  then have second: "await_Get ops (auth_loadingFunc ttl inner t3) key (snd (cache_Refresh ops key s1)) =
      Some (Inr (entry_value e2, s2))"
    using await_refresh[OF a1, of e2 "auth_loadingFunc ttl inner t3"] by (simp add: e2_def s2_def)
  have some: "en_err e1 = None \<Longrightarrow> en_value e1 \<noteq> None" "en_err e2 = None \<Longrightarrow> en_value e2 \<noteq> None"
    using ok by (auto simp: e1_def e2_def settle_entry_def auth_entry_ok_def split: sum.splits entry_state.splits)
  let ?s' = "set_entry a (snd out) s0"
  have "AuthorizationCache_Get ops ttl inner t1 t2 t3 key newFunc s = Some (Inr (fst out, ?s'))"
    unfolding AuthorizationCache_Get_def s0_def[symmetric] Let_def first out auth_outcome_def
      e1_def[symmetric] e2_def[symmetric]
    using some second replace_at[OF a1] replace_at[OF a2]
    by (auto simp: entry_value_def s1_def s2_def split: option.splits)
  moreover have "auth_quiet ops t2 ?s'"
    using a auth_quiet_set[OF q0 auth_outcome_ok[OF ok]] by (simp add: out auth_at_def)
  moreover have "auth_at ops key a (snd out) ?s'" using a by simp
  then have "cache_Check ops key ?s'" "auth_entry ops key newFunc2 ?s' = snd out"
    by (simp_all add: cache_Check_def auth_entry_def auth_at_def)
  moreover have "en_state e = EntryReady \<and> snd out = e \<longrightarrow> ?s' = s"
    using set_entry_same[OF a] e
    by (auto simp: s0_def cache_Check_def auth_entry_def new_entry_def split: option.splits)
  ultimately show ?thesis by blast
qed

end

section \<open>Properties\<close>

text \<open>
  C13: A decision of the authorization cache always returns, and what it answers is backed: a grant is
  a cached grant that has not expired or what the loader answered in this very call; an error is an
  error of the loader in this call, and it is not kept: the entry is left to be loaded again, by the
  function of this caller.
\<close>

theorem auth_decision_backed:
  assumes "cache_store ops" and "auth_quiet ops now s" and "now \<le> t2"
  shows "\<exists>ctx err s'.
    AuthorizationCache_Get ops ttl inner t1 t2 t3 key newFunc s = Some (Inr ((ctx, err), s'))
    \<and> auth_quiet ops t2 s'
    \<and> (case err of
         None \<Rightarrow> (\<exists>v. en_state (auth_entry ops key newFunc s) = EntryReady
                   \<and> en_value (auth_entry ops key newFunc s) = Some v \<and> t2 < ec_exp v \<and> ec_ctx v = ctx)
               \<or> (\<exists>t \<in> {t1, t3}. inner (en_loadingFunc (auth_entry ops key newFunc s)) t = Inr ctx)
       | Some er \<Rightarrow> ctx = None
               \<and> (\<exists>t \<in> {t1, t3}. inner (en_loadingFunc (auth_entry ops key newFunc s)) t = Inl er)
               \<and> en_state (auth_entry ops key newFunc s') = EntryInit
               \<and> en_loadingFunc (auth_entry ops key newFunc s') = newFunc)"
proof -
  define e where "e = auth_entry ops key newFunc s"
  have ok: "auth_entry_ok t2 e"
    using assms(2,3) auth_entry_ok_mono[OF _ assms(3)]
    by (auto simp: e_def auth_entry_def auth_quiet_def split: option.splits)
      (simp add: auth_entry_ok_def new_entry_def)
  from cache_store.auth_Get_outcome[OF assms e_def refl] obtain s' where s':
    "AuthorizationCache_Get ops ttl inner t1 t2 t3 key newFunc s =
       Some (Inr (fst (auth_outcome ttl inner t1 t2 t3 newFunc e), s'))"
    "auth_quiet ops t2 s'"
    "auth_entry ops key newFunc s' = snd (auth_outcome ttl inner t1 t2 t3 newFunc e)" by blast
  obtain ctx err e' where out: "auth_outcome ttl inner t1 t2 t3 newFunc e = ((ctx, err), e')"
    by (metis prod.collapse)
  have "case err of
         None \<Rightarrow> (\<exists>v. en_state e = EntryReady \<and> en_value e = Some v \<and> t2 < ec_exp v \<and> ec_ctx v = ctx)
               \<or> inner (en_loadingFunc e) t1 = Inr ctx \<or> inner (en_loadingFunc e) t3 = Inr ctx
       | Some er \<Rightarrow> ctx = None
               \<and> (inner (en_loadingFunc e) t1 = Inl er \<or> inner (en_loadingFunc e) t3 = Inl er)
               \<and> en_state e' = EntryInit \<and> en_loadingFunc e' = newFunc"
    using ok out
    by (cases "en_state e"; cases "en_value e"; cases "inner (en_loadingFunc e) t1";
        cases "inner (en_loadingFunc e) t3")
      (auto simp: auth_outcome_def auth_entry_ok_def settle_entry_def auth_loadingFunc_def Let_def
        split: if_splits)
  with s' out show ?thesis
    by (intro exI[of _ ctx] exI[of _ err] exI[of _ s']) (auto simp: e_def split: option.splits)
qed

definition auth_empty :: "(string \<rightharpoonup> nat, string) auth_cache" where
  "auth_empty = NewLoadingCache Map.empty"

lemma auth_empty_quiet: "auth_quiet MapStore now auth_empty"
  by (simp add: auth_quiet_def auth_empty_def NewLoadingCache_def MapStore_def)

lemma auth_empty_entry: "auth_entry MapStore k f auth_empty = new_entry f"
  by (simp add: auth_entry_def auth_empty_def NewLoadingCache_def MapStore_def)

theorem auth_decision_backed_witness:
  "\<exists>ctx er s'. AuthorizationCache_Get MapStore 5 (\<lambda>f t. Inl ErrCanceled) 1 2 3 ''k'' ''f'' auth_empty
       = Some (Inr ((None, Some er), s'))
     \<and> er = ErrCanceled \<and> ctx = (None :: tenantInfo option)"
  using auth_decision_backed[OF mapstore.cache_store_axioms auth_empty_quiet, of 0 2 5
      "\<lambda>f t. Inl ErrCanceled" 1 3 "''k''" "''f''"]
  by (auto simp: auth_empty_entry new_entry_def split: option.splits)

text \<open>
  C27: A granted decision is kept for its time to live: a later call within it answers the same
  tenant without asking any loader, and leaves the cache as it is.
\<close>

theorem auth_grant_kept:
  assumes "cache_store ops" and "auth_quiet ops now s" and "now \<le> t2"
    and "en_state (auth_entry ops key newFunc s) = EntryInit"
    and "inner (en_loadingFunc (auth_entry ops key newFunc s)) t1 = Inr ctx"
    and "t2 \<le> t5" and "t5 < t1 + ttl"
  shows "\<exists>s'. AuthorizationCache_Get ops ttl inner t1 t2 t3 key newFunc s = Some (Inr ((ctx, None), s'))
    \<and> AuthorizationCache_Get ops ttl inner' t4 t5 t6 key newFunc' s' = Some (Inr ((ctx, None), s'))"
proof -
  define e where "e = auth_entry ops key newFunc s"
  define e' where "e' = e\<lparr>en_state := EntryReady, en_value := Some \<lparr>ec_exp = t1 + ttl, ec_ctx = ctx\<rparr>,
      en_err := None\<rparr>"
  have out: "auth_outcome ttl inner t1 t2 t3 newFunc e = ((ctx, None), e')"
    using assms(4-7) by (simp add: auth_outcome_def Let_def e_def[symmetric] e'_def settle_entry_def
        auth_loadingFunc_def)
  have out': "auth_outcome ttl inner' t4 t5 t6 newFunc' e' = ((ctx, None), e')"
    using assms(7) by (simp add: auth_outcome_def Let_def e'_def)
  from cache_store.auth_Get_outcome[OF assms(1,2,3) e_def out[symmetric], of newFunc'] obtain s' where s':
    "AuthorizationCache_Get ops ttl inner t1 t2 t3 key newFunc s = Some (Inr ((ctx, None), s'))"
    "auth_quiet ops t2 s'" "auth_entry ops key newFunc' s' = e'" by auto
  from cache_store.auth_Get_outcome[OF assms(1) s'(2) assms(6) s'(3)[symmetric] out'[symmetric]] s'(1)
  show ?thesis by (auto simp: e'_def)
qed

theorem auth_grant_kept_witness:
  "\<exists>s'. AuthorizationCache_Get MapStore 5 (\<lambda>f t. Inr None) 1 2 3 ''k'' ''f'' auth_empty
       = Some (Inr ((None, None), s'))
     \<and> AuthorizationCache_Get MapStore 5 (\<lambda>f t. Inl ErrCanceled) 4 5 6 ''k'' ''g'' s'
       = Some (Inr ((None, None), s'))"
  using auth_grant_kept[OF mapstore.cache_store_axioms auth_empty_quiet, of 0 2 "''k''" "''f''"
      "\<lambda>f t. Inr None" 1 None 5 5 3]
  by (simp add: auth_entry_def auth_empty_def NewLoadingCache_def MapStore_def new_entry_def)

text \<open>
  Two different tokens can share one cached decision: the key is a cleaned path, so a token with
  parent steps in it is answered the decision of another token, without the service being asked.
\<close>

theorem auth_key_collision:
  "auth_key ''ident'' ''ns'' ''fn'' \<lparr>at_scheme = ''Bearer'', at_value = ''bogus/../secret''\<rparr> =
     auth_key ''ident'' ''ns'' ''fn'' \<lparr>at_scheme = ''Bearer'', at_value = ''secret''\<rparr>"
  by (simp add: auth_key_def filepath_Join_def filepath_Clean_def)

text \<open>
  C38: A header of a scheme, a space and a value is read back as exactly these two, and a non-empty
  header without a space is not an access error: reading it panics, slicing at index minus one.
\<close>

theorem extract_token_roundtrip:
  assumes "CHR '' '' \<notin> set scheme" and "scheme \<noteq> ''''"
  shows "ExtractAccessToken (AccessToken_String \<lparr>at_scheme = scheme, at_value = v\<rparr>) =
      Inr (Some \<lparr>at_scheme = scheme, at_value = v\<rparr>)
    \<and> ExtractAccessToken scheme = Inl SliceBounds"
  using assms
  by (simp add: ExtractAccessToken_def AccessToken_String_def index_of_split index_of_absent
      go_slice_to_def go_slice_from_def Let_def nat_add_distrib)

theorem extract_token_roundtrip_witness:
  "ExtractAccessToken ''Bearer abc'' = Inr (Some \<lparr>at_scheme = ''Bearer'', at_value = ''abc''\<rparr>)
   \<and> ExtractAccessToken ''Bearer'' = Inl SliceBounds"
  using extract_token_roundtrip[of "''Bearer''" "''abc''"] by (simp add: AccessToken_String_def)

end
