(* ===== verification/WorkerPool.thy ===== *)
theory WorkerPool
  imports Prelude
begin

text \<open>
  Workers of \<open>foundation/scheduler\<close>: the options (\<open>opts.go\<close>, \<open>worker.go\<close>), the thread pool and its
  reconciliation (\<open>worker.go\<close>, \<open>workthread.go\<close>), and the autoscaler's decision (\<open>scaler.go\<close>). What
  the runnable answers when it is told of a starting or stopping thread is a list of outcomes,
  \<open>True\<close> for no error, consumed one per call. A cancelled thread dies only when it next looks at its
  context, which is after the job it is waiting for.
\<close>

section \<open>Options\<close>

record workerOpts =
  wo_jobType :: string
  wo_poolSize :: int
  wo_autoscaleMax :: int
  wo_jobTimeoutSeconds :: int
  wo_numRetries :: int
  wo_retrySecs :: int
  wo_preWarm :: bool

definition defaultOpts :: "string \<Rightarrow> workerOpts" where
  "defaultOpts jobType =
     \<lparr>wo_jobType = jobType, wo_poolSize = 1, wo_autoscaleMax = 1, wo_jobTimeoutSeconds = 0,
      wo_numRetries = 5, wo_retrySecs = 3, wo_preWarm = False\<rparr>"

type_synonym worker_option = "workerOpts \<Rightarrow> workerOpts"

definition PoolSize :: "int \<Rightarrow> worker_option" where
  "PoolSize n opts = opts\<lparr>wo_poolSize := n\<rparr>"

definition Autoscale :: "int \<Rightarrow> int \<Rightarrow> worker_option" where
  "Autoscale numCPU mx opts = opts\<lparr>wo_autoscaleMax := (if mx = 0 then numCPU else mx)\<rparr>"

definition TimeoutSeconds :: "int \<Rightarrow> worker_option" where
  "TimeoutSeconds timeout opts = opts\<lparr>wo_jobTimeoutSeconds := timeout\<rparr>"

definition RetrySeconds :: "int \<Rightarrow> worker_option" where
  "RetrySeconds secs opts = opts\<lparr>wo_retrySecs := secs\<rparr>"

definition MaxRetries :: "int \<Rightarrow> worker_option" where
  "MaxRetries count opts = opts\<lparr>wo_numRetries := count\<rparr>"

definition PreWarm :: worker_option where
  "PreWarm opts = opts\<lparr>wo_preWarm := True\<rparr>"

section \<open>Workers\<close>

definition defaultChanSize :: nat where
  "defaultChanSize = 256"

text \<open>A job is a number. A thread is waiting for a job or running one, and may be cancelled.\<close>

record workThread =
  wt_cancelled :: bool
  wt_running :: "nat option"

record worker =
  wk_workChan :: "nat list"
  wk_options :: workerOpts
  wk_targetThreadCount :: int
  wk_threads :: "workThread list"
  wk_stopping :: "workThread list"

definition newWorker :: "workerOpts \<Rightarrow> worker" where
  "newWorker opts =
     \<lparr>wk_workChan = [], wk_options = opts, wk_targetThreadCount = wo_poolSize opts, wk_threads = [],
      wk_stopping = []\<rparr>"

definition newWorkThread :: workThread where
  "newWorkThread = \<lparr>wt_cancelled = False, wt_running = None\<rparr>"

text \<open>\<open>addThread\<close> and \<open>removeThread\<close>, given the answer of \<open>OnChange\<close>; \<open>False\<close> is an error.\<close>

definition addThread :: "bool \<Rightarrow> worker \<Rightarrow> bool \<times> worker" where
  "addThread change_ok w =
     (if \<not> change_ok then (False, w)
      else (True, w\<lparr>wk_threads := wk_threads w @ [newWorkThread]\<rparr>))"

definition removeThread :: "bool \<Rightarrow> worker \<Rightarrow> bool \<times> worker" where
  "removeThread change_ok w =
     (let wt = (last (wk_threads w))\<lparr>wt_cancelled := True\<rparr>
      in if \<not> change_ok then (False, w\<lparr>wk_threads := butlast (wk_threads w) @ [wt]\<rparr>)
         else (True, w\<lparr>wk_threads := butlast (wk_threads w), wk_stopping := wt # wk_stopping w\<rparr>))"

text \<open>
  \<open>reconcilePoolSize\<close>: \<open>Some ok\<close> is its return, \<open>None\<close> that the given outcomes are used up first. The
  third component is what is left of them.
\<close>

fun reconcile_loop ::
    "bool list \<Rightarrow> int \<Rightarrow> worker \<Rightarrow> (bool \<times> worker \<times> bool list) option" where
  "reconcile_loop outs attempts w =
     (if int (length (wk_threads w)) = wk_targetThreadCount w then Some (True, w, outs)
      else case outs of
             [] \<Rightarrow> None
           | ok # outs' \<Rightarrow>
               (let (done, w') = (if int (length (wk_threads w)) < wk_targetThreadCount w
                                  then addThread ok w else removeThread ok w)
                in if done then reconcile_loop outs' attempts w'
                   else if attempts > wo_numRetries (wk_options w) then Some (False, w', outs')
                   else reconcile_loop outs' (attempts + 1) w'))"

declare reconcile_loop.simps [simp del]

definition reconcilePoolSize :: "bool list \<Rightarrow> worker \<Rightarrow> (bool \<times> worker \<times> bool list) option" where
  "reconcilePoolSize outs w = reconcile_loop outs 0 w"

definition setThreadCount :: "bool list \<Rightarrow> int \<Rightarrow> worker \<Rightarrow> (bool \<times> worker \<times> bool list) option" where
  "setThreadCount outs n w = reconcilePoolSize outs (w\<lparr>wk_targetThreadCount := n\<rparr>)"

definition worker_start :: "bool list \<Rightarrow> worker \<Rightarrow> (bool \<times> worker \<times> bool list) option" where
  "worker_start outs w =
     (if wo_preWarm (wk_options w) then reconcilePoolSize outs w else Some (True, w, outs))"

definition worker_stop :: "bool list \<Rightarrow> worker \<Rightarrow> (bool \<times> worker \<times> bool list) option" where
  "worker_stop outs w = setThreadCount outs 0 w"

text \<open>\<open>schedule\<close>: the answer says whether the job was queued (it is answered an error otherwise).\<close>

definition worker_schedule :: "bool list \<Rightarrow> nat \<Rightarrow> worker \<Rightarrow> (bool \<times> worker \<times> bool list) option" where
  "worker_schedule outs job w =
     (case reconcilePoolSize outs w of
        None \<Rightarrow> None
      | Some (False, w', outs') \<Rightarrow> Some (False, w', outs')
      | Some (True, w', outs') \<Rightarrow>
          (case chan_send defaultChanSize job (wk_workChan w') of
             None \<Rightarrow> None
           | Some q \<Rightarrow> Some (True, w'\<lparr>wk_workChan := q\<rparr>, outs')))"

section \<open>Work threads\<close>

text \<open>
  One step of the threads of a worker: a thread takes the next job, or finishes its job and looks
  at its context, dying if it was cancelled. \<open>started\<close> logs the jobs that were begun.
\<close>

inductive pool_step :: "nat list \<times> workThread list \<times> nat list \<Rightarrow> nat list \<times> workThread list \<times> nat list \<Rightarrow> bool"
  where
  take_job: "ts ! i = \<lparr>wt_cancelled = c, wt_running = None\<rparr> \<Longrightarrow> i < length ts \<Longrightarrow>
     pool_step (j # q, ts, started)
       (q, ts[i := \<lparr>wt_cancelled = c, wt_running = Some j\<rparr>], started @ [j])"
| finish_job: "ts ! i = \<lparr>wt_cancelled = False, wt_running = Some j\<rparr> \<Longrightarrow> i < length ts \<Longrightarrow>
     pool_step (q, ts, started) (q, ts[i := \<lparr>wt_cancelled = False, wt_running = None\<rparr>], started)"
| finish_die: "ts ! i = \<lparr>wt_cancelled = True, wt_running = Some j\<rparr> \<Longrightarrow> i < length ts \<Longrightarrow>
     pool_step (q, ts, started) (q, take i ts @ drop (Suc i) ts, started)"

inductive_cases pool_stepE: "pool_step (q, ts, started) s'"

section \<open>The autoscaler's decision\<close>

text \<open>
  One turn of the autoscaler for one worker: the new target, if it sets one. The job rate is a
  rational number. Go's integer division of a thread count is \<open>div\<close>, the count being non-negative.
\<close>

definition scale_decision :: "int \<Rightarrow> int \<Rightarrow> rat \<Rightarrow> workerOpts \<Rightarrow> int option" where
  "scale_decision jobCount threadCount jobRate opts =
     (if jobCount > threadCount * 2 \<or> jobRate > rat_of_int (threadCount * 2) then
        (if threadCount * 2 \<le> wo_autoscaleMax opts then Some (threadCount * 2)
         else Some (wo_autoscaleMax opts))
      else if jobCount < threadCount div 2 \<and> jobRate < rat_of_int (threadCount div 2) then
        (if threadCount div 2 > wo_poolSize opts then Some (threadCount div 2)
         else Some (wo_poolSize opts))
      else None)"

section \<open>The table of workers\<close>

record scaler =
  sc_workers :: "string \<rightharpoonup> worker"
  sc_autoscaling :: bool

definition newScaler :: scaler where
  "newScaler = \<lparr>sc_workers = Map.empty, sc_autoscaling = False\<rparr>"

definition startAutoscaler :: "scaler \<Rightarrow> scaler" where
  "startAutoscaler s = s\<lparr>sc_autoscaling := True\<rparr>"

definition addWorker :: "string \<Rightarrow> worker \<Rightarrow> scaler \<Rightarrow> scaler" where
  "addWorker jobType wk s = s\<lparr>sc_workers := (sc_workers s)(jobType \<mapsto> wk)\<rparr>"

definition findWorker :: "string \<Rightarrow> scaler \<Rightarrow> worker option" where
  "findWorker jobType s = sc_workers s jobType"

definition removeWorker :: "bool list \<Rightarrow> string \<Rightarrow> scaler \<Rightarrow> (bool \<times> scaler \<times> worker option) option" where
  "removeWorker outs jobType s =
     (case sc_workers s jobType of
        None \<Rightarrow> Some (True, s, None)
      | Some wk \<Rightarrow>
          map_option (\<lambda>(ok, wk', _). (ok, s\<lparr>sc_workers := (sc_workers s)(jobType := None)\<rparr>, Some wk'))
            (worker_stop outs wk))"

definition core_register :: "string \<Rightarrow> worker_option list \<Rightarrow> scaler \<Rightarrow> scaler" where
  "core_register jobType options s =
     (let opts = fold (\<lambda>o1 opts. o1 opts) options (defaultOpts jobType);
          s1 = (if wo_autoscaleMax opts > wo_poolSize opts then startAutoscaler s else s)
      in addWorker jobType (newWorker opts) s1)"

text \<open>\<open>do\<close>: \<open>False\<close> is an immediate error result, \<open>True\<close> that the job goes to the worker found.\<close>

definition core_do :: "string \<Rightarrow> scaler \<Rightarrow> bool" where
  "core_do jobType s \<longleftrightarrow> findWorker jobType s \<noteq> None"

definition hasWorker :: "string \<Rightarrow> scaler \<Rightarrow> bool" where
  "hasWorker jobType s \<longleftrightarrow> findWorker jobType s \<noteq> None"

section \<open>Lemmas\<close>

lemma reconcile_ok_size:
  "reconcile_loop outs att w = Some (True, w', outs') \<Longrightarrow>
     int (length (wk_threads w')) = wk_targetThreadCount w \<and> wk_targetThreadCount w' = wk_targetThreadCount w
     \<and> wk_workChan w' = wk_workChan w"
proof (induction outs arbitrary: att w)
  case Nil
  then show ?case by (subst (asm) reconcile_loop.simps) (auto split: if_splits)
next
  case (Cons ok outs)
  from Cons.prems show ?case
    by (subst (asm) reconcile_loop.simps)
      (auto simp: addThread_def removeThread_def Let_def split: if_splits dest!: Cons.IH)
qed

text \<open>
  With at most as many failures among the outcomes as retries plus one, the pool gets its size.
\<close>

lemma reconcile_retries:
  assumes "int (length (filter Not outs)) \<le> wo_numRetries (wk_options w) + 1 - att"
    and "abs (wk_targetThreadCount w - int (length (wk_threads w))) \<le> int (length (filter (\<lambda>b. b) outs))"
    and "0 \<le> wk_targetThreadCount w"
  shows "\<exists>w' outs'. reconcile_loop outs att w = Some (True, w', outs')"
  using assms
proof (induction outs arbitrary: att w)
  case Nil
  then show ?case by (subst reconcile_loop.simps) simp
next
  case (Cons ok outs)
  show ?case
  proof (cases "int (length (wk_threads w)) = wk_targetThreadCount w")
    case False
    define w1 where "w1 = snd (if int (length (wk_threads w)) < wk_targetThreadCount w
        then addThread ok w else removeThread ok w)"
    have ne: "\<not> int (length (wk_threads w)) < wk_targetThreadCount w \<Longrightarrow> wk_threads w \<noteq> []"
      using False Cons.prems(3) by auto
    have fr: "wk_options w1 = wk_options w" "wk_targetThreadCount w1 = wk_targetThreadCount w"
      by (simp_all add: w1_def addThread_def removeThread_def Let_def)
    have len: "int (length (wk_threads w1)) =
        int (length (wk_threads w)) + (if ok then (if int (length (wk_threads w)) < wk_targetThreadCount w then 1 else -1) else 0)"
      using ne by (cases "wk_threads w") (auto simp: w1_def addThread_def removeThread_def Let_def)
    have step: "reconcile_loop (ok # outs) att w =
        (if ok then reconcile_loop outs att w1
         else if att > wo_numRetries (wk_options w) then Some (False, w1, outs)
         else reconcile_loop outs (att + 1) w1)"
      using False by (subst reconcile_loop.simps)
        (auto simp: w1_def addThread_def removeThread_def Let_def)
    show ?thesis
    proof (cases ok)
      case True
      have "\<exists>w' outs'. reconcile_loop outs att w1 = Some (True, w', outs')"
        using Cons.prems False True len fr by (intro Cons.IH) (auto split: if_splits)
      with True step show ?thesis by simp
    next
      case fail: False
      have "\<exists>w' outs'. reconcile_loop outs (att + 1) w1 = Some (True, w', outs')"
        using Cons.prems False fail len fr by (intro Cons.IH) auto
      with fail step Cons.prems(1) show ?thesis by simp
    qed
  qed (subst reconcile_loop.simps, simp)
qed

text \<open>Only failures: the pool is left alone until one more than the retries plus one is used up.\<close>

lemma reconcile_all_fail:
  assumes "int k = wo_numRetries (wk_options w) + 2 - att" "0 < k"
    and "int (length (wk_threads w)) < wk_targetThreadCount w"
  shows "reconcile_loop (replicate k False @ outs) att w = Some (False, w, outs)"
  using assms
proof (induction k arbitrary: att)
  case (Suc k)
  show ?case
  proof (cases "k = 0")
    case True
    with Suc.prems show ?thesis by (subst reconcile_loop.simps) (simp add: addThread_def)
  next
    case False
    with Suc.prems have "reconcile_loop (replicate k False @ outs) (att + 1) w = Some (False, w, outs)"
      by (intro Suc.IH) auto
    with False Suc.prems show ?thesis by (subst reconcile_loop.simps) (simp add: addThread_def)
  qed
qed simp

lemma reconcile_remove_fails:
  assumes "int k = wo_numRetries (wk_options w) + 2 - att" "0 < k" "wk_threads w = ts @ [t]"
    and "wk_targetThreadCount w = int (length ts)"
  shows "reconcile_loop (replicate k False) att w =
    Some (False, w\<lparr>wk_threads := ts @ [t\<lparr>wt_cancelled := True\<rparr>]\<rparr>, [])"
  using assms
proof (induction k arbitrary: att w t)
  case (Suc k)
  let ?w1 = "w\<lparr>wk_threads := ts @ [t\<lparr>wt_cancelled := True\<rparr>]\<rparr>"
  have step: "removeThread False w = (False, ?w1)" using Suc.prems(3) by (simp add: removeThread_def)
  show ?case
  proof (cases "k = 0")
    case True
    with Suc.prems step show ?thesis by (subst reconcile_loop.simps) simp
  next
    case False
    with Suc.prems have "reconcile_loop (replicate k False) (att + 1) ?w1 =
        Some (False, ?w1\<lparr>wk_threads := ts @ [t\<lparr>wt_cancelled := True, wt_cancelled := True\<rparr>]\<rparr>, [])"
      by (intro Suc.IH) auto
    with False Suc.prems step show ?thesis by (subst reconcile_loop.simps) simp
  qed
qed simp

lemma pool_step_fifo:
  "pool_step\<^sup>*\<^sup>* (q, ts, st) (q', ts', st') \<Longrightarrow> \<exists>new. st' = st @ new \<and> q = new @ q'"
proof (induction "(q', ts', st')" arbitrary: q' ts' st' rule: rtranclp_induct)
  case (step s)
  obtain q1 ts1 st1 where s: "s = (q1, ts1, st1)" by (cases s) auto
  from step(3)[OF s] obtain new where "st1 = st @ new" "q = new @ q1" by blast
  with step(2) show ?case unfolding s by (auto elim!: pool_stepE)
qed simp

text \<open>Every cancelled thread begins at most one more job.\<close>

definition idle_threads :: "workThread list \<Rightarrow> nat" where
  "idle_threads ts = length (filter (\<lambda>t. wt_running t = None) ts)"

lemma idle_update:
  "i < length ts \<Longrightarrow> wt_running (ts ! i) = None \<Longrightarrow> wt_running t \<noteq> None \<Longrightarrow>
     Suc (idle_threads (ts[i := t])) = idle_threads ts"
  by (subst (2) id_take_nth_drop[of i ts]) (auto simp: idle_threads_def upd_conv_take_nth_drop)

lemma idle_drop1:
  "i < length ts \<Longrightarrow> wt_running (ts ! i) \<noteq> None \<Longrightarrow>
     idle_threads (take i ts @ drop (Suc i) ts) = idle_threads ts"
  by (subst (3) id_take_nth_drop[of i ts]) (auto simp: idle_threads_def)

lemma cancelled_step:
  assumes "pool_step (q, ts, st) (q', ts', st')" "\<forall>t \<in> set ts. wt_cancelled t"
  shows "(\<forall>t \<in> set ts'. wt_cancelled t) \<and> length st' + idle_threads ts' = length st + idle_threads ts"
  using assms(1)
proof cases
  case (take_job i c j)
  have "ts ! i \<in> set ts" using take_job(5) by (rule nth_mem)
  with assms(2) take_job have "c" by force
  with take_job assms(2) idle_update[of i ts "\<lparr>wt_cancelled = c, wt_running = Some j\<rparr>"] show ?thesis
    by (auto dest!: set_update_subset_insert[THEN subsetD])
next
  case (finish_job i j)
  have "ts ! i \<in> set ts" using finish_job(5) by (rule nth_mem)
  with assms(2) finish_job show ?thesis by force
next
  case (finish_die i j)
  with assms(2) show ?thesis by (auto simp: idle_drop1 dest: in_set_takeD in_set_dropD)
qed

lemma cancelled_reach:
  assumes "pool_step\<^sup>*\<^sup>* (q, ts, []) (q', ts', st')" "\<forall>t \<in> set ts. wt_cancelled t"
  shows "length st' \<le> idle_threads ts"
proof -
  have "(\<forall>t \<in> set ts'. wt_cancelled t) \<and> length st' + idle_threads ts' = idle_threads ts"
    using assms(1)
  proof (induction "(q', ts', st')" arbitrary: q' ts' st' rule: rtranclp_induct)
    case base
    then show ?case using assms(2) by simp
  next
    case (step s)
    obtain q1 ts1 st1 where s: "s = (q1, ts1, st1)" by (cases s) auto
    from step(3)[OF s] cancelled_step[OF step(2)[unfolded s]] show ?case by auto
  qed
  then show ?thesis by simp
qed

section \<open>Properties\<close>

text \<open>
  C36: Reconciling brings a worker to exactly its target number of threads as long as the runnable
  refuses at most one time more than the configured retries, and gives up with an error, leaving the
  pool as it was, when it refuses two times more: \<open>n\<close> retries are \<open>n + 2\<close> attempts.
\<close>

theorem reconcile_reaches_target:
  assumes "0 \<le> wo_numRetries (wk_options w)" and "0 \<le> wk_targetThreadCount w"
    and "int (length (filter Not outs)) \<le> wo_numRetries (wk_options w) + 1"
    and "abs (wk_targetThreadCount w - int (length (wk_threads w))) \<le> int (length (filter (\<lambda>b. b) outs))"
  shows "(\<exists>w' outs'. reconcilePoolSize outs w = Some (True, w', outs')
      \<and> int (length (wk_threads w')) = wk_targetThreadCount w \<and> wk_workChan w' = wk_workChan w)
    \<and> (int (length (wk_threads w)) < wk_targetThreadCount w \<longrightarrow>
        reconcilePoolSize (replicate (nat (wo_numRetries (wk_options w) + 2)) False) w = Some (False, w, []))"
proof -
  obtain w' outs' where r: "reconcilePoolSize outs w = Some (True, w', outs')"
    using reconcile_retries[of outs w 0] assms by (auto simp: reconcilePoolSize_def)
  moreover have "reconcilePoolSize (replicate (nat (wo_numRetries (wk_options w) + 2)) False) w = Some (False, w, [])"
    if "int (length (wk_threads w)) < wk_targetThreadCount w"
    using reconcile_all_fail[of "nat (wo_numRetries (wk_options w) + 2)" w 0 "[]"] that assms(1)
    by (simp add: reconcilePoolSize_def)
  ultimately show ?thesis
    using reconcile_ok_size[of outs 0 w w' outs'] by (auto simp: reconcilePoolSize_def)
qed

theorem reconcile_reaches_target_witness:
  "\<exists>w' outs'. reconcilePoolSize [False, True] (newWorker (defaultOpts ''j'')) = Some (True, w', outs')
     \<and> length (wk_threads w') = 1"
  using reconcile_reaches_target[of "newWorker (defaultOpts ''j'')" "[False, True]"]
  by (auto simp: newWorker_def defaultOpts_def)

text \<open>
  A thread whose removal the runnable refused is cancelled but still counted: when the target is
  raised back to the old size the pool is declared complete, with one live thread too few.
\<close>

theorem failed_removal_leaves_dead_thread:
  assumes "0 \<le> wo_numRetries (wk_options w)"
    and "wk_threads w = ts @ [t]" and "\<forall>x \<in> set (ts @ [t]). \<not> wt_cancelled x"
  shows "\<exists>w' w''. setThreadCount (replicate (nat (wo_numRetries (wk_options w) + 2)) False) (int (length ts)) w
        = Some (False, w', [])
    \<and> setThreadCount [] (int (length ts) + 1) w' = Some (True, w'', [])
    \<and> length (filter (\<lambda>x. \<not> wt_cancelled x) (wk_threads w'')) = length ts"
proof -
  let ?k = "nat (wo_numRetries (wk_options w) + 2)"
  let ?w0 = "w\<lparr>wk_targetThreadCount := int (length ts)\<rparr>"
  let ?w1 = "?w0\<lparr>wk_threads := ts @ [t\<lparr>wt_cancelled := True\<rparr>]\<rparr>"
  have "setThreadCount (replicate ?k False) (int (length ts)) w = Some (False, ?w1, [])"
    using reconcile_remove_fails[of ?k ?w0 0 ts t] assms(1,2)
    by (simp add: setThreadCount_def reconcilePoolSize_def)
  moreover have "setThreadCount [] (int (length ts) + 1) ?w1 =
      Some (True, ?w1\<lparr>wk_targetThreadCount := int (length ts) + 1\<rparr>, [])"
    by (simp add: setThreadCount_def reconcilePoolSize_def reconcile_loop.simps)
  moreover have "filter (\<lambda>x. \<not> wt_cancelled x) ts = ts" using assms(3) by (simp add: filter_id_conv)
  ultimately show ?thesis by auto
qed

theorem failed_removal_leaves_dead_thread_witness:
  "\<exists>w' w''. setThreadCount (replicate 7 False) 0 ((newWorker (defaultOpts ''j''))\<lparr>wk_threads := [newWorkThread]\<rparr>)
      = Some (False, w', [])
    \<and> setThreadCount [] 1 w' = Some (True, w'', [])
    \<and> length (filter (\<lambda>x. \<not> wt_cancelled x) (wk_threads w'')) = 0"
  using failed_removal_leaves_dead_thread[of "(newWorker (defaultOpts ''j''))\<lparr>wk_threads := [newWorkThread]\<rparr>"
      "[]" newWorkThread]
  by (simp add: newWorker_def defaultOpts_def newWorkThread_def)

text \<open>
  Jobs are begun in the order they were queued, each once; when all threads of a worker have been
  cancelled, as a deregistration does, at most one more job per idle thread is ever begun, and the
  jobs behind them stay in the queue for ever.
\<close>

theorem cancelled_pool_strands_jobs:
  assumes "pool_step\<^sup>*\<^sup>* (q, ts, []) (q', ts', started)" and "\<forall>t \<in> set ts. wt_cancelled t"
  shows "q = started @ q' \<and> length started \<le> idle_threads ts"
  using pool_step_fifo[OF assms(1)] cancelled_reach[OF assms] by simp

theorem cancelled_pool_strands_jobs_witness:
  "pool_step\<^sup>*\<^sup>* ([1, 2], [\<lparr>wt_cancelled = True, wt_running = None\<rparr>], [])
     ([2], [\<lparr>wt_cancelled = True, wt_running = Some 1\<rparr>], [1])
   \<and> [1, 2] = [1] @ [2::nat]"
proof -
  have "pool_step ([1, 2], [\<lparr>wt_cancelled = True, wt_running = None\<rparr>], [])
     ([2], [\<lparr>wt_cancelled = True, wt_running = Some 1\<rparr>], [1])"
    using take_job[of "[\<lparr>wt_cancelled = True, wt_running = None\<rparr>]" 0 True 1 "[2]" "[]"] by simp
  then have r: "pool_step\<^sup>*\<^sup>* ([1, 2], [\<lparr>wt_cancelled = True, wt_running = None\<rparr>], [])
     ([2], [\<lparr>wt_cancelled = True, wt_running = Some 1\<rparr>], [1])" by (rule r_into_rtranclp)
  from cancelled_pool_strands_jobs[OF r] r show ?thesis by simp
qed



end
