(* ===== verification/Schedules.thy ===== *)
theory Schedules
  imports Prelude
begin

text \<open>
  Schedules and the watcher that polls them: \<open>schedule.go\<close> and \<open>watcher.go\<close> of
  \<open>foundation/scheduler\<close>. Times are nanoseconds. A job function is a label; the watcher's passes over
  its schedules are in the order of a list of identifiers, since Go visits maps in any order.
\<close>

section \<open>Schedules\<close>

record everySchedule =
  ev_jobFunc :: nat
  ev_seconds :: int
  ev_last :: "int option"

record afterSchedule =
  af_jobFunc :: nat
  af_seconds :: int
  af_created :: int
  af_done :: bool

definition second :: int where
  "second = 1000000000"

definition Every :: "int \<Rightarrow> nat \<Rightarrow> everySchedule" where
  "Every seconds f = \<lparr>ev_jobFunc = f, ev_seconds = seconds, ev_last = None\<rparr>"

definition every_Check :: "int \<Rightarrow> everySchedule \<Rightarrow> nat option \<times> everySchedule" where
  "every_Check now e =
     (if (case ev_last e of None \<Rightarrow> True | Some l \<Rightarrow> now - l \<ge> ev_seconds e * second)
      then (Some (ev_jobFunc e), e\<lparr>ev_last := Some now\<rparr>) else (None, e))"

definition After :: "int \<Rightarrow> int \<Rightarrow> nat \<Rightarrow> afterSchedule" where
  "After now seconds f = \<lparr>af_jobFunc = f, af_seconds = seconds, af_created = now, af_done = False\<rparr>"

definition after_Check :: "int \<Rightarrow> afterSchedule \<Rightarrow> nat option \<times> afterSchedule" where
  "after_Check now a =
     (if now - af_created a \<ge> af_seconds a * second
      then (Some (af_jobFunc a), a\<lparr>af_done := True\<rparr>) else (None, a))"

text \<open>A value of the interface \<open>Schedule\<close>.\<close>

datatype schedule = SEvery everySchedule | SAfter afterSchedule

fun sched_Done :: "schedule \<Rightarrow> bool" where
  "sched_Done (SEvery e) = False"
| "sched_Done (SAfter a) = af_done a"

fun sched_Check :: "int \<Rightarrow> schedule \<Rightarrow> nat option \<times> schedule" where
  "sched_Check now (SEvery e) = (let (j, e') = every_Check now e in (j, SEvery e'))"
| "sched_Check now (SAfter a) = (let (j, a') = after_Check now a in (j, SAfter a'))"

section \<open>The watcher\<close>

text \<open>\<open>wa_jobs\<close> logs the jobs given to the scheduler, with the schedule and the time of the pass.\<close>

record watcher =
  wa_schedules :: "string \<rightharpoonup> schedule"
  wa_jobs :: "(string \<times> int \<times> nat) list"

definition newWatcher :: watcher where
  "newWatcher = \<lparr>wa_schedules = Map.empty, wa_jobs = []\<rparr>"

definition watch :: "string \<Rightarrow> schedule \<Rightarrow> watcher \<Rightarrow> watcher" where
  "watch uuid s w = w\<lparr>wa_schedules := (wa_schedules w)(uuid \<mapsto> s)\<rparr>"

fun watch_pass :: "int \<Rightarrow> string list \<Rightarrow> watcher \<Rightarrow> string list \<times> watcher" where
  "watch_pass now [] w = ([], w)"
| "watch_pass now (u # us) w =
     (case wa_schedules w u of
        None \<Rightarrow> watch_pass now us w
      | Some s \<Rightarrow>
          if sched_Done s then (let (rs, w') = watch_pass now us w in (u # rs, w'))
          else (let (j, s') = sched_Check now s;
                    w1 = w\<lparr>wa_schedules := (wa_schedules w)(u \<mapsto> s'),
                           wa_jobs := wa_jobs w @ (case j of None \<Rightarrow> [] | Some f \<Rightarrow> [(u, now, f)])\<rparr>
                in watch_pass now us w1))"

definition watch_tick :: "string list \<Rightarrow> int \<Rightarrow> watcher \<Rightarrow> watcher" where
  "watch_tick order now w =
     (let (rs, w1) = watch_pass now order w
      in w1\<lparr>wa_schedules := fold (\<lambda>u m. m(u := None)) rs (wa_schedules w1)\<rparr>)"

definition watch_run :: "string list \<Rightarrow> int list \<Rightarrow> watcher \<Rightarrow> watcher" where
  "watch_run order ticks w = fold (watch_tick order) ticks w"

section \<open>One schedule of many\<close>

text \<open>What the watcher does to one schedule in a tick, and over a run.\<close>

definition sched_tick :: "int \<Rightarrow> schedule option \<Rightarrow> (int \<times> nat) list \<times> schedule option" where
  "sched_tick now os =
     (case os of
        None \<Rightarrow> ([], None)
      | Some s \<Rightarrow>
          if sched_Done s then ([], None)
          else (let (j, s') = sched_Check now s
                in (case j of None \<Rightarrow> [] | Some f \<Rightarrow> [(now, f)], Some s')))"

fun sched_run :: "int list \<Rightarrow> schedule option \<Rightarrow> (int \<times> nat) list \<times> schedule option" where
  "sched_run [] os = ([], os)"
| "sched_run (t # ts) os =
     (let (js, os1) = sched_tick t os; (js', os2) = sched_run ts os1 in (js @ js', os2))"

definition jobs_of :: "string \<Rightarrow> watcher \<Rightarrow> (int \<times> nat) list" where
  "jobs_of u w = map snd (filter (\<lambda>x. fst x = u) (wa_jobs w))"

text \<open>The state after the check of one schedule that is not done.\<close>

definition checked :: "int \<Rightarrow> string \<Rightarrow> schedule \<Rightarrow> watcher \<Rightarrow> watcher" where
  "checked now u s w =
     w\<lparr>wa_schedules := (wa_schedules w)(u \<mapsto> snd (sched_Check now s)),
       wa_jobs := wa_jobs w @ (case fst (sched_Check now s) of None \<Rightarrow> [] | Some f \<Rightarrow> [(u, now, f)])\<rparr>"

lemma checked_frame:
  "wa_schedules (checked now u s w) v = (if v = u then Some (snd (sched_Check now s)) else wa_schedules w v)"
  "jobs_of v (checked now u s w) = jobs_of v w @
     (if v = u then (case fst (sched_Check now s) of None \<Rightarrow> [] | Some f \<Rightarrow> [(now, f)]) else [])"
  by (auto simp: checked_def jobs_of_def split: option.splits)

lemma watch_pass_Cons:
  "watch_pass now (u # us) w =
     (case wa_schedules w u of
        None \<Rightarrow> watch_pass now us w
      | Some s \<Rightarrow> if sched_Done s then (u # fst (watch_pass now us w), snd (watch_pass now us w))
                  else watch_pass now us (checked now u s w))"
  by (auto simp: checked_def Let_def split: option.splits prod.splits)

declare watch_pass.simps(2) [simp del]

lemma watch_pass_other:
  "u \<notin> set us \<Longrightarrow> wa_schedules (snd (watch_pass now us w)) u = wa_schedules w u
     \<and> jobs_of u (snd (watch_pass now us w)) = jobs_of u w \<and> u \<notin> set (fst (watch_pass now us w))"
  by (induction us arbitrary: w) (auto simp: watch_pass_Cons checked_frame split: option.splits)

lemma watch_pass_self:
  assumes "distinct us" "u \<in> set us"
  shows "jobs_of u (snd (watch_pass now us w)) = jobs_of u w @ fst (sched_tick now (wa_schedules w u))
    \<and> (if u \<in> set (fst (watch_pass now us w)) then None else wa_schedules (snd (watch_pass now us w)) u)
        = snd (sched_tick now (wa_schedules w u))"
  using assms
proof (induction us arbitrary: w)
  case (Cons v us)
  show ?case
  proof (cases "u = v")
    case True
    then have "u \<notin> set us" using Cons.prems by simp
    note o = watch_pass_other[OF this, of now]
    show ?thesis
      using o[of w] o[of "checked now u s w" for s] True
      by (cases "wa_schedules w u")
        (auto simp: watch_pass_Cons checked_frame sched_tick_def split: prod.splits)
  next
    case False
    then have "distinct us" "u \<in> set us" using Cons.prems by auto
    note IH = Cons.IH[OF this]
    show ?thesis
      using IH[of w] IH[of "checked now v (the (wa_schedules w v)) w"] False
      by (cases "wa_schedules w v") (auto simp: watch_pass_Cons checked_frame)
  qed
qed simp

lemma fold_delete: "fold (\<lambda>u m. m(u := None)) rs m u = (if u \<in> set rs then None else m u)"
  by (induction rs arbitrary: m) auto

lemma watch_tick_self:
  assumes "distinct order" "u \<in> set order"
  shows "jobs_of u (watch_tick order now w) = jobs_of u w @ fst (sched_tick now (wa_schedules w u))
    \<and> wa_schedules (watch_tick order now w) u = snd (sched_tick now (wa_schedules w u))"
  using watch_pass_self[OF assms, of now w]
  by (auto simp: watch_tick_def jobs_of_def fold_delete split: prod.splits)

lemma watch_run_self:
  assumes "distinct order" "u \<in> set order"
  shows "jobs_of u (watch_run order ticks w) = jobs_of u w @ fst (sched_run ticks (wa_schedules w u))
    \<and> wa_schedules (watch_run order ticks w) u = snd (sched_run ticks (wa_schedules w u))"
proof (induction ticks arbitrary: w)
  case (Cons t ticks)
  show ?case
    using Cons[of "watch_tick order t w"] watch_tick_self[OF assms, of t w]
    by (auto simp: watch_run_def split: prod.splits)
qed (simp add: watch_run_def)

section \<open>The two kinds of schedule over a run\<close>

lemma sched_run_None [simp]: "sched_run ts None = ([], None)"
  by (induction ts) (simp_all add: sched_tick_def)

lemma After_sel [simp]:
  "af_jobFunc (After t n f) = f" "af_seconds (After t n f) = n" "af_created (After t n f) = t"
  "\<not> af_done (After t n f)"
  by (simp_all add: After_def)

lemma after_run_done: "af_done a \<Longrightarrow> fst (sched_run ts (Some (SAfter a))) = []"
  by (cases ts) (auto simp: sched_tick_def split: prod.splits)

lemma after_run:
  assumes "\<not> af_done a"
  shows "fst (sched_run ts (Some (SAfter a))) =
    (case find (\<lambda>t. t - af_created a \<ge> af_seconds a * second) ts of
       None \<Rightarrow> [] | Some t \<Rightarrow> [(t, af_jobFunc a)])"
proof (induction ts)
  case (Cons t ts)
  show ?case
  proof (cases "t - af_created a \<ge> af_seconds a * second")
    case True
    then show ?thesis
      using assms after_run_done[of "a\<lparr>af_done := True\<rparr>" ts]
      by (auto simp: sched_tick_def after_Check_def split: prod.splits)
  next
    case False
    then show ?thesis
      using assms Cons by (auto simp: sched_tick_def after_Check_def split: prod.splits)
  qed
qed simp

definition spaced :: "int \<Rightarrow> int option \<Rightarrow> int list \<Rightarrow> bool" where
  "spaced gap l ts \<longleftrightarrow>
     sorted_wrt (\<lambda>a b. b - a \<ge> gap) ((case l of None \<Rightarrow> [] | Some t \<Rightarrow> [t]) @ ts)"

lemma every_run_spaced:
  assumes "sorted ((case ev_last e of None \<Rightarrow> [] | Some t \<Rightarrow> [t]) @ ts)" "0 \<le> ev_seconds e"
  shows "spaced (ev_seconds e * second) (ev_last e) (map fst (fst (sched_run ts (Some (SEvery e)))))
    \<and> set (map fst (fst (sched_run ts (Some (SEvery e))))) \<subseteq> set ts
    \<and> snd ` set (fst (sched_run ts (Some (SEvery e)))) \<subseteq> {ev_jobFunc e}"
  using assms
proof (induction ts arbitrary: e)
  case Nil
  then show ?case by (simp add: spaced_def split: option.splits)
next
  case (Cons t ts)
  define due where "due = (case ev_last e of None \<Rightarrow> True | Some l \<Rightarrow> t - l \<ge> ev_seconds e * second)"
  show ?case
  proof (cases due)
    case True
    let ?e = "e\<lparr>ev_last := Some t\<rparr>"
    have r: "fst (sched_run (t # ts) (Some (SEvery e))) = (t, ev_jobFunc e) # fst (sched_run ts (Some (SEvery ?e)))"
      using True by (auto simp: sched_tick_def every_Check_def due_def split: prod.splits)
    have "spaced (ev_seconds e * second) (Some t) (map fst (fst (sched_run ts (Some (SEvery ?e)))))
        \<and> set (map fst (fst (sched_run ts (Some (SEvery ?e))))) \<subseteq> set ts
        \<and> snd ` set (fst (sched_run ts (Some (SEvery ?e)))) \<subseteq> {ev_jobFunc e}"
      using Cons.IH[of ?e] Cons.prems by (auto split: option.splits)
    moreover have "sorted (t # ts)" using Cons.prems(1) by (auto split: option.splits)
    ultimately show ?thesis
      using True unfolding r by (fastforce simp: spaced_def due_def split: option.splits)
  next
    case False
    then have "fst (sched_run (t # ts) (Some (SEvery e))) = fst (sched_run ts (Some (SEvery e)))"
      by (auto simp: sched_tick_def every_Check_def due_def split: prod.splits)
    then show ?thesis using Cons.IH[of e] Cons.prems by (auto split: option.splits)
  qed
qed

section \<open>Properties\<close>

text \<open>
  Whatever other schedules are being watched, a one-time schedule gives exactly one job, at the
  first pass of the watcher that is its delay or more after its creation, and none before.
\<close>

theorem after_fires_once:
  assumes "distinct order" and "u \<in> set order" and "jobs_of u w = []"
  shows "jobs_of u (watch_run order ticks (watch u (SAfter (After created seconds f)) w)) =
    (case find (\<lambda>t. t - created \<ge> seconds * second) ticks of None \<Rightarrow> [] | Some t \<Rightarrow> [(t, f)])"
  using watch_run_self[OF assms(1,2), of ticks "watch u (SAfter (After created seconds f)) w"] assms(3)
    after_run[of "After created seconds f" ticks]
  unfolding After_sel by (simp add: watch_def jobs_of_def)

theorem after_fires_once_witness:
  "jobs_of ''a'' (watch_run [''a''] [0, 1000000000, 2000000000, 3000000000]
      (watch ''a'' (SAfter (After 0 2 9)) newWatcher)) = [(2000000000, 9)]"
  using after_fires_once[of "[''a'']" "''a''" newWatcher "[0, 1000000000, 2000000000, 3000000000]" 0 2 9]
  by (simp add: newWatcher_def jobs_of_def second_def)

text \<open>
  A repeating schedule gives its job at the first pass and then only at passes at least its
  period after the job before, whatever other schedules are being watched.
\<close>

theorem every_keeps_period:
  assumes "distinct order" and "u \<in> set order" and "jobs_of u w = []" and "sorted ticks" and "0 \<le> seconds"
    and "run = watch_run order ticks (watch u (SEvery (Every seconds f)) w)"
  shows "sorted_wrt (\<lambda>a b. b - a \<ge> seconds * second) (map fst (jobs_of u run))
    \<and> set (map fst (jobs_of u run)) \<subseteq> set ticks \<and> snd ` set (jobs_of u run) \<subseteq> {f}
    \<and> (\<forall>t ts. ticks = t # ts \<longrightarrow> (\<exists>js. jobs_of u run = (t, f) # js))"
proof -
  have run: "jobs_of u run = fst (sched_run ticks (Some (SEvery (Every seconds f))))"
    using watch_run_self[OF assms(1,2), of ticks "watch u (SEvery (Every seconds f)) w"] assms(3)
    by (simp add: assms(6) watch_def jobs_of_def)
  have "\<exists>js. jobs_of u run = (t, f) # js" if "ticks = t # ts" for t ts
    by (auto simp: run that sched_tick_def every_Check_def Every_def split: prod.splits)
  then show ?thesis
    using every_run_spaced[of "Every seconds f" ticks] assms(4,5)
    unfolding run by (auto simp: Every_def spaced_def)
qed

theorem every_keeps_period_witness:
  "sorted_wrt (\<lambda>a b. b - a \<ge> 2 * second) (map fst (jobs_of ''a'' (watch_run [''a''] [0, 1000000000, 2000000000]
      (watch ''a'' (SEvery (Every 2 9)) newWatcher))))"
  using every_keeps_period[of "[''a'']" "''a''" newWatcher "[0, 1000000000, 2000000000]" 2 _ 9]
  by (simp add: newWatcher_def jobs_of_def)

end
