(* ===== verification/Syncer.thy ===== *)
theory Syncer
  imports Prelude
begin

text \<open>
  The syncer of \<open>e2core/syncer/syncer.go\<close>: a local copy of the system's tenants and modules, brought
  up to date by a job. The system source is a library interface: one run's answers are a record, an
  error or a value each; the tenants are listed in the order Go visits the map in.
\<close>

section \<open>State\<close>

record module =
  mo_Ref :: string
  mo_Name :: string
  mo_Namespace :: string
  mo_FQMN :: string

record tenantOverview =
  to_Version :: int
  to_Modules :: "module list option"

record syncJob =
  sj_version :: int
  sj_tenantIdents :: "(string \<times> int) list"
  sj_overviews :: "string \<rightharpoonup> tenantOverview"
  sj_modules :: "string \<rightharpoonup> module"

record source =
  src_State :: "string + int"
  src_Overview :: "string + (string \<times> int) list"
  src_Tenant :: "string \<Rightarrow> string + tenantOverview"

definition newSyncJob :: syncJob where
  "newSyncJob =
     \<lparr>sj_version = 0, sj_tenantIdents = [], sj_overviews = Map.empty, sj_modules = Map.empty\<rparr>"

definition zero_module :: module where
  "zero_module = \<lparr>mo_Ref = '''', mo_Name = '''', mo_Namespace = '''', mo_FQMN = ''''\<rparr>"

section \<open>Operations\<close>

text \<open>A tenant without modules gets the empty list.\<close>

definition norm_overview :: "tenantOverview \<Rightarrow> tenantOverview" where
  "norm_overview t = (case to_Modules t of None \<Rightarrow> t\<lparr>to_Modules := Some []\<rparr> | Some _ \<Rightarrow> t)"

definition store_tenant :: "string \<Rightarrow> tenantOverview \<Rightarrow> syncJob \<Rightarrow> syncJob" where
  "store_tenant ident t s =
     (let t' = norm_overview t
      in s\<lparr>sj_overviews := (sj_overviews s)(ident \<mapsto> t'),
           sj_modules := fold (\<lambda>m ms. ms(mo_Ref m \<mapsto> m)) (the (to_Modules t')) (sj_modules s)\<rparr>)"

fun sync_tenants ::
    "(string \<Rightarrow> string + tenantOverview) \<Rightarrow> (string \<times> int) list \<Rightarrow> syncJob \<Rightarrow> string option \<times> syncJob" where
  "sync_tenants get [] s = (None, s)"
| "sync_tenants get ((ident, version) # refs) s =
     (if (case sj_overviews s ident of None \<Rightarrow> False | Some t \<Rightarrow> to_Version t = version)
      then sync_tenants get refs s
      else case get ident of
             Inl err \<Rightarrow> (Some (''failed to app.TenantOverview for '' @ ident @ '': '' @ err), s)
           | Inr t \<Rightarrow> sync_tenants get refs (store_tenant ident t s))"

definition sync_Run :: "source \<Rightarrow> syncJob \<Rightarrow> string option \<times> syncJob" where
  "sync_Run src s =
     (case src_State src of
        Inl err \<Rightarrow> (Some (''failed to systemSource.State: '' @ err), s)
      | Inr version \<Rightarrow>
          if version = sj_version s then (None, s)
          else if version < sj_version s then (None, s)
          else (case src_Overview src of
                  Inl err \<Rightarrow> (Some (''failed to app.Overview: '' @ err), s)
                | Inr refs \<Rightarrow>
                    (case sync_tenants (src_Tenant src) refs s of
                       (Some err, s1) \<Rightarrow> (Some err, s1)
                     | (None, s1) \<Rightarrow> (None, s1\<lparr>sj_version := version, sj_tenantIdents := refs\<rparr>))))"

definition ListTenants :: "syncJob \<Rightarrow> (string \<times> int) list" where
  "ListTenants s = sj_tenantIdents s"

definition TenantOverview :: "string \<Rightarrow> syncJob \<Rightarrow> tenantOverview option" where
  "TenantOverview ident s = sj_overviews s ident"

definition GetModuleByName :: "string \<Rightarrow> string \<Rightarrow> string \<Rightarrow> syncJob \<Rightarrow> module option" where
  "GetModuleByName ident namespace name s =
     (case sj_overviews s ident of
        None \<Rightarrow> None
      | Some t \<Rightarrow> (case to_Modules t of
                    None \<Rightarrow> None
                  | Some ms \<Rightarrow> find (\<lambda>m. mo_Namespace m = namespace \<and> mo_Name m = name) ms))"

text \<open>The pointer answered is never nil.\<close>

definition GetModuleByRef :: "string \<Rightarrow> syncJob \<Rightarrow> module" where
  "GetModuleByRef ref s = (case sj_modules s ref of None \<Rightarrow> zero_module | Some m \<Rightarrow> m)"

section \<open>What the copy agrees with\<close>

text \<open>
  \<open>hist ident v\<close> is the overview of a tenant at its version \<open>v\<close>. A copy is faithful when every tenant
  it has is the one of the version it carries; a source is, when it answers such overviews.
\<close>

definition faithful :: "(string \<Rightarrow> int \<Rightarrow> tenantOverview) \<Rightarrow> syncJob \<Rightarrow> bool" where
  "faithful hist s \<longleftrightarrow>
     (\<forall>ident t. sj_overviews s ident = Some t \<longrightarrow> t = norm_overview (hist ident (to_Version t)))"

definition answers_hist :: "(string \<Rightarrow> int \<Rightarrow> tenantOverview) \<Rightarrow> source \<Rightarrow> bool" where
  "answers_hist hist src \<longleftrightarrow> (\<forall>ident t. src_Tenant src ident = Inr t \<longrightarrow> t = hist ident (to_Version t))"

lemma norm_version [simp]: "to_Version (norm_overview t) = to_Version t"
  by (simp add: norm_overview_def split: option.splits)

lemma store_tenant_overviews [simp]:
  "sj_overviews (store_tenant ident t s) = (sj_overviews s)(ident \<mapsto> norm_overview t)"
  "sj_version (store_tenant ident t s) = sj_version s"
  "sj_tenantIdents (store_tenant ident t s) = sj_tenantIdents s"
  by (simp_all add: store_tenant_def Let_def)

lemma faithful_store: "faithful hist s \<Longrightarrow> t = hist ident (to_Version t) \<Longrightarrow> faithful hist (store_tenant ident t s)"
  by (auto simp: faithful_def)

lemma sync_tenants_frame:
  "sync_tenants get refs s = (r, s') \<Longrightarrow>
     sj_version s' = sj_version s \<and> sj_tenantIdents s' = sj_tenantIdents s
     \<and> (\<forall>ident. ident \<notin> fst ` set refs \<longrightarrow> sj_overviews s' ident = sj_overviews s ident)"
  by (induction get refs s rule: sync_tenants.induct) (auto split: if_splits sum.splits)

lemma sync_tenants_faithful:
  assumes "\<And>ident t. get ident = Inr t \<Longrightarrow> t = hist ident (to_Version t)"
  shows "faithful hist s \<Longrightarrow> sync_tenants get refs s = (r, s') \<Longrightarrow> faithful hist s'"
  using assms
  by (induction get refs s rule: sync_tenants.induct) (auto intro: faithful_store split: if_splits sum.splits)

lemma sync_tenants_complete:
  assumes "\<And>ident v. (ident, v) \<in> set refs \<Longrightarrow> \<exists>t. get ident = Inr t \<and> to_Version t = v"
    and "distinct (map fst refs)"
  shows "\<exists>s'. sync_tenants get refs s = (None, s')
    \<and> (\<forall>(ident, v) \<in> set refs. \<exists>t. sj_overviews s' ident = Some t \<and> to_Version t = v)"
  using assms
proof (induction get refs s rule: sync_tenants.induct)
  case (2 get ident version refs s)
  obtain t where t: "get ident = Inr t" "to_Version t = version" using "2.prems"(1) by auto
  have fresh: "ident \<notin> fst ` set refs" using "2.prems"(2) by auto
  show ?case
  proof (cases "case sj_overviews s ident of None \<Rightarrow> False | Some t \<Rightarrow> to_Version t = version")
    case True
    then obtain s' where "sync_tenants get refs s = (None, s')"
      "\<forall>(ident, v) \<in> set refs. \<exists>t. sj_overviews s' ident = Some t \<and> to_Version t = v"
      using "2.IH"(1)[OF True] "2.prems" by auto
    with True sync_tenants_frame[OF this(1)] fresh show ?thesis by (auto split: option.splits)
  next
    case False
    let ?s = "store_tenant ident t s"
    obtain s' where "sync_tenants get refs ?s = (None, s')"
      "\<forall>(ident, v) \<in> set refs. \<exists>t. sj_overviews s' ident = Some t \<and> to_Version t = v"
      using "2.IH"(2)[OF False t(1)] "2.prems" by auto
    with False t sync_tenants_frame[OF this(1)] fresh show ?thesis by simp
  qed
qed simp

lemma sync_Run_faithful:
  "faithful hist s \<Longrightarrow> answers_hist hist src \<Longrightarrow> faithful hist (snd (sync_Run src s))"
  using sync_tenants_faithful[of "src_Tenant src" hist s]
  by (auto simp: sync_Run_def answers_hist_def faithful_def split: sum.splits prod.splits option.splits)

lemma sync_Run_version: "sj_version s \<le> sj_version (snd (sync_Run src s))"
  by (auto simp: sync_Run_def dest: sync_tenants_frame split: sum.splits prod.splits option.splits)

definition sync_runs :: "source list \<Rightarrow> syncJob \<Rightarrow> syncJob" where
  "sync_runs srcs s = fold (\<lambda>src s. snd (sync_Run src s)) srcs s"

lemma sync_runs_faithful:
  "faithful hist s \<Longrightarrow> \<forall>src \<in> set srcs. answers_hist hist src \<Longrightarrow> faithful hist (sync_runs srcs s)"
  by (induction srcs arbitrary: s) (auto simp: sync_runs_def sync_Run_faithful)

lemma faithful_new: "faithful hist newSyncJob"
  by (simp add: faithful_def newSyncJob_def)

section \<open>Properties\<close>

text \<open>
  C26: The syncer catches up whatever happened before: after any earlier runs, failed ones included,
  one run against a source that answers everything at a newer version leaves exactly the listed
  tenants, and a look-up by name finds in each what the source has at the listed version.
\<close>

theorem sync_catches_up:
  assumes "\<forall>src \<in> set srcs. answers_hist hist src" and "answers_hist hist src"
    and "src_State src = Inr version" and "sj_version (sync_runs srcs newSyncJob) < version"
    and "src_Overview src = Inr refs" and "distinct (map fst refs)"
    and "\<And>ident v. (ident, v) \<in> set refs \<Longrightarrow> \<exists>t. src_Tenant src ident = Inr t \<and> to_Version t = v"
    and "(ident, v) \<in> set refs"
  shows "\<exists>s'. sync_Run src (sync_runs srcs newSyncJob) = (None, s') \<and> sj_version s' = version
    \<and> ListTenants s' = refs \<and> TenantOverview ident s' = Some (norm_overview (hist ident v))
    \<and> GetModuleByName ident namespace name s' =
        (case to_Modules (hist ident v) of
           None \<Rightarrow> None
         | Some ms \<Rightarrow> find (\<lambda>m. mo_Namespace m = namespace \<and> mo_Name m = name) ms)"
proof -
  let ?s = "sync_runs srcs newSyncJob"
  have f: "faithful hist ?s" using sync_runs_faithful[OF faithful_new assms(1)] .
  from sync_tenants_complete[of refs "src_Tenant src" ?s, OF assms(7) assms(6)] obtain s1 where s1:
    "sync_tenants (src_Tenant src) refs ?s = (None, s1)"
    "\<forall>(ident, v) \<in> set refs. \<exists>t. sj_overviews s1 ident = Some t \<and> to_Version t = v" by blast
  have f1: "faithful hist s1"
    using sync_tenants_faithful[OF _ f s1(1)] assms(2) by (auto simp: answers_hist_def)
  obtain t where t: "sj_overviews s1 ident = Some t" "to_Version t = v" using bspec[OF s1(2) assms(8)] by auto
  then have "t = norm_overview (hist ident v)" using f1 by (auto simp: faithful_def)
  moreover have "sync_Run src ?s = (None, s1\<lparr>sj_version := version, sj_tenantIdents := refs\<rparr>)"
    using assms(3-5) s1(1) by (simp add: sync_Run_def)
  ultimately show ?thesis
    using t by (auto simp: ListTenants_def TenantOverview_def GetModuleByName_def norm_overview_def
        split: option.splits)
qed

definition example_module :: module where
  "example_module = \<lparr>mo_Ref = ''r'', mo_Name = ''n'', mo_Namespace = ''d'', mo_FQMN = ''f''\<rparr>"

definition example_source :: "int \<Rightarrow> (string \<times> int) list \<Rightarrow> source" where
  "example_source version refs =
     \<lparr>src_State = Inr version, src_Overview = Inr refs,
      src_Tenant = (\<lambda>ident. Inr \<lparr>to_Version = 1, to_Modules = Some [example_module]\<rparr>)\<rparr>"

theorem sync_catches_up_witness:
  "\<exists>s'. sync_Run (example_source 4 [(''t'', 1)]) newSyncJob = (None, s')
    \<and> GetModuleByName ''t'' ''d'' ''n'' s' = Some example_module"
proof -
  have h: "answers_hist (\<lambda>ident v. \<lparr>to_Version = 1, to_Modules = Some [example_module]\<rparr>)
      (example_source 4 [(''t'', 1)])"
    by (simp add: answers_hist_def example_source_def)
  show ?thesis
    using sync_catches_up[of "[]", OF _ h, of 4 "[(''t'', 1)]" "''t''" 1 "''d''" "''n''"]
    by (auto simp: example_source_def sync_runs_def newSyncJob_def example_module_def)
qed

text \<open>
  A tenant the source no longer lists disappears from the list of tenants only: its overview and
  its modules are still found by name and by reference; and the look-up of an unknown reference
  answers a module of empty fields instead of nothing.
\<close>

theorem removed_tenant_still_served:
  assumes "src_State src = Inr version" and "sj_version s < version" and "src_Overview src = Inr []"
    and "sync_Run src s = (r, s')"
  shows "r = None \<and> ListTenants s' = [] \<and> TenantOverview ident s' = TenantOverview ident s
    \<and> GetModuleByName ident namespace name s' = GetModuleByName ident namespace name s
    \<and> GetModuleByRef ref s' = GetModuleByRef ref s
    \<and> (sj_modules s ref = None \<longrightarrow> GetModuleByRef ref s' = zero_module)"
  using assms by (auto simp: sync_Run_def ListTenants_def TenantOverview_def GetModuleByName_def
      GetModuleByRef_def)

theorem removed_tenant_still_served_witness:
  "\<exists>s'. sync_Run (example_source 5 []) (snd (sync_Run (example_source 4 [(''t'', 1)]) newSyncJob)) = (None, s')
    \<and> ListTenants s' = [] \<and> GetModuleByName ''t'' ''d'' ''n'' s' = Some example_module"
proof -
  let ?s = "snd (sync_Run (example_source 4 [(''t'', 1)]) newSyncJob)"
  have v: "sj_version ?s = 4" "GetModuleByName ''t'' ''d'' ''n'' ?s = Some example_module"
    by (simp_all add: example_source_def sync_Run_def newSyncJob_def GetModuleByName_def
        store_tenant_def norm_overview_def example_module_def)
  obtain r s' where e: "sync_Run (example_source 5 []) ?s = (r, s')" by fastforce
  have "src_State (example_source 5 []) = Inr 5" "src_Overview (example_source 5 []) = Inr []"
    by (simp_all add: example_source_def)
  from removed_tenant_still_served[OF this(1) _ this(2) e] v e show ?thesis by auto
qed

end
