(* ===== verification/SatBackend.thy ===== *)
theory SatBackend
  imports Prelude
begin

text \<open>
  The process backend, \<open>e2core/backend/satbackend\<close>: the watcher of one module's processes
  (\<open>watcher.go\<close>), the port of a new one (\<open>command.go\<close>) and one module's turn of the orchestrator's
  reconciliation (\<open>orchestrator.go\<close>). Instances are known by their port. The wait group is its
  counter; cancelling a process is logged with its reason. What a port answers to the metrics
  request, and the orders in which Go visits maps, are arguments.
\<close>

section \<open>Watchers\<close>

datatype cancel_reason = errScaleDown | errTerminateAll | errTerminateOne

record sat_instance =
  in_fqmn :: string
  in_uuid :: string
  in_threads :: "int option"

record sat_watcher =
  sw_fqmn :: string
  sw_instances :: "string \<rightharpoonup> sat_instance"
  sw_deadList :: "string list"
  sw_running :: int
  sw_cancelled :: "(string \<times> cancel_reason) list"

record watcherReport =
  wr_instCount :: int
  wr_totalThreads :: int
  wr_failedPorts :: "string list"

definition newSatWatcher :: "string \<Rightarrow> sat_watcher" where
  "newSatWatcher fqmn =
     \<lparr>sw_fqmn = fqmn, sw_instances = Map.empty, sw_deadList = [], sw_running = 0, sw_cancelled = []\<rparr>"

definition addToDead :: "string \<Rightarrow> sat_watcher \<Rightarrow> string option \<times> sat_watcher" where
  "addToDead port w =
     (if port \<in> set (sw_deadList w) then (Some ''port is already in the dead list'', w)
      else (None, w\<lparr>sw_deadList := sw_deadList w @ [port]\<rparr>))"

definition sat_add :: "string \<Rightarrow> string \<Rightarrow> string \<Rightarrow> sat_watcher \<Rightarrow> sat_watcher" where
  "sat_add fqmn port uuid w =
     w\<lparr>sw_running := sw_running w + 1,
       sw_instances := (sw_instances w)(port \<mapsto> \<lparr>in_fqmn = fqmn, in_uuid = uuid, in_threads = None\<rparr>)\<rparr>"

text \<open>Cancelling and forgetting the instance on a port that has one; the counter must not go negative.\<close>

definition drop_instance :: "cancel_reason \<Rightarrow> string \<Rightarrow> sat_watcher \<Rightarrow> sat_watcher go" where
  "drop_instance why p w =
     (if sw_running w - 1 < 0 then Inl NegativeWaitGroup
      else Inr (w\<lparr>sw_cancelled := sw_cancelled w @ [(p, why)],
                  sw_instances := (sw_instances w)(p := None), sw_running := sw_running w - 1\<rparr>))"

text \<open>\<open>scaleDown\<close> takes the first port Go visits.\<close>

fun scaleDown :: "string list \<Rightarrow> sat_watcher \<Rightarrow> sat_watcher go" where
  "scaleDown [] w = Inr w"
| "scaleDown (p # order) w =
     (if sw_instances w p = None then scaleDown order w else drop_instance errScaleDown p w)"

fun terminate_all :: "string list \<Rightarrow> sat_watcher \<Rightarrow> sat_watcher go" where
  "terminate_all [] w = Inr w"
| "terminate_all (p # order) w =
     (if sw_instances w p = None then terminate_all order w
      else go_bind (drop_instance errTerminateAll p w) (terminate_all order))"

text \<open>\<open>sat_terminate\<close> returns only when the counter of the wait group is zero.\<close>

definition sat_terminate :: "string list \<Rightarrow> sat_watcher \<Rightarrow> sat_watcher prog" where
  "sat_terminate order w =
     prog_bind (Some (terminate_all order w)) (\<lambda>w'.
       if sw_running w' = 0 then Some (Inr w') else None)"

definition terminateInstance :: "string \<Rightarrow> sat_watcher \<Rightarrow> (string option \<times> sat_watcher) go" where
  "terminateInstance p w =
     (case sw_instances w p of
        None \<Rightarrow> Inr (Some (''there is no instance on port '' @ p), w)
      | Some _ \<Rightarrow> go_bind (drop_instance errTerminateOne p w) (\<lambda>w'. Inr (None, w')))"

text \<open>\<open>get p\<close> is the total thread count a port reports, if it answers.\<close>

fun report_loop :: "(string \<Rightarrow> int option) \<Rightarrow> string list \<Rightarrow> sat_watcher \<Rightarrow>
    int \<times> string list \<times> sat_watcher" where
  "report_loop get [] w = (0, [], w)"
| "report_loop get (p # order) w =
     (case sw_instances w p of
        None \<Rightarrow> report_loop get order w
      | Some inst \<Rightarrow>
          (case get p of
             None \<Rightarrow> (let (n, fs, w') = report_loop get order w in (n, p # fs, w'))
           | Some t \<Rightarrow>
               (let (n, fs, w') = report_loop get order
                      (w\<lparr>sw_instances := (sw_instances w)(p \<mapsto> inst\<lparr>in_threads := Some t\<rparr>)\<rparr>)
                in (t + n, fs, w'))))"

definition sat_report :: "(string \<Rightarrow> int option) \<Rightarrow> string list \<Rightarrow> sat_watcher \<Rightarrow>
    watcherReport option \<times> sat_watcher" where
  "sat_report get order w =
     (if dom (sw_instances w) = {} then (None, w)
      else (let (n, fs, w') = report_loop get order w
            in (Some \<lparr>wr_instCount = int (card (dom (sw_instances w))) - int (length fs),
                      wr_totalThreads = n, wr_failedPorts = fs\<rparr>, w')))"

section \<open>Ports\<close>

text \<open>The port for a random number below ten thousand.\<close>

definition randPort :: "nat \<Rightarrow> string" where
  "randPort r = dec (r mod 10000 + 10000)"

definition modStartCommand :: "string \<Rightarrow> nat \<Rightarrow> string list \<times> string" where
  "modStartCommand fqmn r = ([''e2core'', ''mod'', ''start'', fqmn], randPort r)"

section \<open>One module's turn\<close>

record orchestrator =
  oc_sats :: "string \<rightharpoonup> sat_watcher"
  oc_failedPortCounts :: "string \<rightharpoonup> int"

datatype scale_action = Launch | ScaleDown | NoAction

text \<open>Division of Go integers, which truncates; the divisors here are positive.\<close>

definition go_quot :: "int \<Rightarrow> int \<Rightarrow> int" where
  "go_quot a b = (if a < 0 then - (- a div b) else a div b)"

definition threshold :: "int \<Rightarrow> int" where
  "threshold numCPU = (if go_quot numCPU 2 > 8 then 8 else go_quot numCPU 2)"

definition scale_action :: "int \<Rightarrow> watcherReport option \<Rightarrow> scale_action" where
  "scale_action numCPU report =
     (case report of
        None \<Rightarrow> Launch
      | Some r \<Rightarrow>
          if wr_instCount r = 0 then Launch
          else if wr_instCount r > 0 \<and> go_quot (wr_totalThreads r) (wr_instCount r) \<ge> threshold numCPU then
            (if wr_instCount r \<ge> numCPU then NoAction else Launch)
          else if wr_instCount r > 0 \<and> go_quot (wr_totalThreads r) (wr_instCount r) < threshold numCPU then
            (if wr_instCount r = 1 then NoAction else ScaleDown)
          else NoAction)"

fun count_failures :: "string list \<Rightarrow> sat_watcher \<Rightarrow> (string \<rightharpoonup> int) \<Rightarrow> (sat_watcher \<times> (string \<rightharpoonup> int)) go" where
  "count_failures [] w counts = Inr (w, counts)"
| "count_failures (p # ps) w counts =
     (case counts p of
        None \<Rightarrow> count_failures ps w (counts(p \<mapsto> 1))
      | Some c \<Rightarrow>
          if c > 5 then go_bind (terminateInstance p w) (\<lambda>(_, w'). count_failures ps w' (counts(p := None)))
          else count_failures ps w (counts(p \<mapsto> c + 1)))"

fun bury_dead :: "string list \<Rightarrow> sat_watcher \<Rightarrow> sat_watcher go" where
  "bury_dead [] w = Inr w"
| "bury_dead (p # ps) w = go_bind (terminateInstance p w) (\<lambda>(_, w'). bury_dead ps w')"

text \<open>
  The reconciliation of one module: the new state, and whether a process is being launched. The
  launch runs on its own goroutine and ends in \<open>sat_add\<close>, or in nothing when the process does not start.
\<close>

definition reconcile_module :: "int \<Rightarrow> (string \<Rightarrow> int option) \<Rightarrow> string list \<Rightarrow> string list \<Rightarrow> string \<Rightarrow>
    orchestrator \<Rightarrow> (bool \<times> orchestrator) go" where
  "reconcile_module numCPU get order order2 fqmn o1 =
     (let w0 = (case oc_sats o1 fqmn of None \<Rightarrow> newSatWatcher fqmn | Some w \<Rightarrow> w)
      in go_bind (bury_dead (sw_deadList w0) w0) (\<lambda>w1.
           let (report, w2) = sat_report get order (w1\<lparr>sw_deadList := []\<rparr>);
               act = scale_action numCPU report
           in go_bind (if act = ScaleDown then scaleDown order2 w2 else Inr w2) (\<lambda>w3.
              go_bind (case report of
                         None \<Rightarrow> Inr (w3, oc_failedPortCounts o1)
                       | Some r \<Rightarrow> count_failures (wr_failedPorts r) w3 (oc_failedPortCounts o1))
                (\<lambda>(w4, counts).
                   Inr (act = Launch, o1\<lparr>oc_sats := (oc_sats o1)(fqmn \<mapsto> w4),
                                         oc_failedPortCounts := counts\<rparr>)))))"

text \<open>
  A launch: the random number of its port and the identifier of the process, \<open>None\<close> when it did not
  start. When a process ends its port goes to the dead list.
\<close>

definition launch :: "nat \<Rightarrow> string option \<Rightarrow> string \<Rightarrow> orchestrator \<Rightarrow> orchestrator" where
  "launch r uuid fqmn oc =
     (let (_, port) = modStartCommand fqmn r
      in case (oc_sats oc fqmn, uuid) of
           (Some w, Some u) \<Rightarrow> oc\<lparr>oc_sats := (oc_sats oc)(fqmn \<mapsto> sat_add fqmn port u w)\<rparr>
         | _ \<Rightarrow> oc)"

definition process_ends :: "string \<Rightarrow> string \<Rightarrow> orchestrator \<Rightarrow> orchestrator" where
  "process_ends port fqmn oc =
     (case oc_sats oc fqmn of
        None \<Rightarrow> oc
      | Some w \<Rightarrow> oc\<lparr>oc_sats := (oc_sats oc)(fqmn \<mapsto> snd (addToDead port w))\<rparr>)"

text \<open>
  A turn over all modules, answering those a process is launched for; \<open>orders\<close> are the two orders in
  which a module's processes are visited.
\<close>

fun reconcileConstellation :: "int \<Rightarrow> (string \<Rightarrow> int option) \<Rightarrow> (string \<Rightarrow> string list \<times> string list) \<Rightarrow>
    string list \<Rightarrow> orchestrator \<Rightarrow> (string list \<times> orchestrator) go" where
  "reconcileConstellation numCPU get orders [] oc = Inr ([], oc)"
| "reconcileConstellation numCPU get orders (fqmn # ms) oc =
     go_bind (reconcile_module numCPU get (fst (orders fqmn)) (snd (orders fqmn)) fqmn oc) (\<lambda>(l, oc1).
     go_bind (reconcileConstellation numCPU get orders ms oc1) (\<lambda>(ls, oc2).
       Inr (if l then fqmn # ls else ls, oc2)))"

text \<open>The end of \<open>Start\<close>: every watcher is terminated in turn.\<close>

fun stop_watchers :: "(string \<Rightarrow> string list) \<Rightarrow> string list \<Rightarrow> orchestrator \<Rightarrow> orchestrator prog" where
  "stop_watchers ports [] oc = Some (Inr oc)"
| "stop_watchers ports (fqmn # fs) oc =
     (case oc_sats oc fqmn of
        None \<Rightarrow> stop_watchers ports fs oc
      | Some w \<Rightarrow> prog_bind (sat_terminate (ports fqmn) w) (\<lambda>w'.
                    stop_watchers ports fs (oc\<lparr>oc_sats := (oc_sats oc)(fqmn \<mapsto> w')\<rparr>)))"

section \<open>The counter and the instances\<close>

text \<open>
  By how much the counter exceeds the number of instances: what every operation keeps, except an
  addition to an occupied port.
\<close>

definition surplus :: "int \<Rightarrow> sat_watcher \<Rightarrow> bool" where
  "surplus k w \<longleftrightarrow> 0 \<le> k \<and> finite (dom (sw_instances w)) \<and> sw_running w = int (card (dom (sw_instances w))) + k"

lemma surplus_new: "surplus 0 (newSatWatcher fqmn)"
  by (simp add: surplus_def newSatWatcher_def)

lemma surplus_add: "surplus k w \<Longrightarrow>
    surplus (if sw_instances w port = None then k else k + 1) (sat_add fqmn port uuid w)"
  by (auto simp: surplus_def sat_add_def card_insert_if domIff insert_absorb[OF domI])

lemma surplus_drop:
  assumes "surplus k w" "sw_instances w p \<noteq> None"
  shows "\<exists>w'. drop_instance why p w = Inr w' \<and> surplus k w' \<and> sw_instances w' = (sw_instances w)(p := None)
    \<and> sw_cancelled w' = sw_cancelled w @ [(p, why)]"
proof -
  have p: "p \<in> dom (sw_instances w)" "finite (dom (sw_instances w))" using assms by (auto simp: surplus_def)
  then have "card (dom (sw_instances w)) > 0" by (auto simp: card_gt_0_iff)
  with p assms(1) show ?thesis
    by (auto simp: drop_instance_def surplus_def card_Diff_singleton)
qed

lemma surplus_terminateInstance:
  "surplus k w \<Longrightarrow> \<exists>r w'. terminateInstance p w = Inr (r, w') \<and> surplus k w'"
  using surplus_drop[of k w p errTerminateOne] by (cases "sw_instances w p") (auto simp: terminateInstance_def)

lemma surplus_bury: "surplus k w \<Longrightarrow> \<exists>w'. bury_dead ps w = Inr w' \<and> surplus k w'"
proof (induction ps arbitrary: w)
  case (Cons p ps)
  from surplus_terminateInstance[OF Cons.prems, of p] obtain r w1 where
    "terminateInstance p w = Inr (r, w1)" "surplus k w1" by blast
  with Cons.IH[of w1] show ?case by auto
qed simp

lemma surplus_scaleDown: "surplus k w \<Longrightarrow> \<exists>w'. scaleDown order w = Inr w' \<and> surplus k w'"
proof (induction order)
  case (Cons p order)
  then show ?case using surplus_drop[of k w p errScaleDown] by (cases "sw_instances w p") auto
qed simp

lemma surplus_failures: "surplus k w \<Longrightarrow> \<exists>w' c'. count_failures ps w c = Inr (w', c') \<and> surplus k w'"
proof (induction ps arbitrary: w c)
  case (Cons p ps)
  from surplus_terminateInstance[OF Cons.prems, of p] obtain r w1 where
    "terminateInstance p w = Inr (r, w1)" "surplus k w1" by blast
  then show ?case using Cons.IH[OF Cons.prems] Cons.IH[of w1] by (auto split: option.splits)
qed simp

lemma report_loop_dom:
  "report_loop get order w = (n, fs, w') \<Longrightarrow>
     dom (sw_instances w') = dom (sw_instances w) \<and> sw_running w' = sw_running w"
proof (induction get order w arbitrary: n fs w' rule: report_loop.induct)
  case (2 get p order w)
  then show ?case
    by (cases "sw_instances w p"; cases "get p")
       (auto simp: insert_absorb[OF domI] simp del: fun_upd_apply split: prod.splits)
qed simp

lemma surplus_report: "surplus k w \<Longrightarrow> sat_report get order w = (r, w') \<Longrightarrow> surplus k w'"
  by (auto simp: sat_report_def surplus_def dest!: report_loop_dom split: if_splits prod.splits)

lemma surplus_deadList [simp]: "surplus k (w\<lparr>sw_deadList := ds\<rparr>) = surplus k w"
  by (simp add: surplus_def)

lemma terminate_all_surplus:
  "surplus k w \<Longrightarrow> dom (sw_instances w) \<subseteq> set order \<Longrightarrow>
     \<exists>w' log. terminate_all order w = Inr w' \<and> surplus k w' \<and> sw_instances w' = Map.empty
       \<and> sw_cancelled w' = sw_cancelled w @ log \<and> set log = dom (sw_instances w) \<times> {errTerminateAll}"
proof (induction order arbitrary: w)
  case Nil
  then show ?case by auto
next
  case (Cons p order)
  show ?case
  proof (cases "sw_instances w p")
    case None
    with Cons.prems(2) have "dom (sw_instances w) \<subseteq> set order" by auto
    with None Cons.prems(1) Cons.IH[of w] show ?thesis by simp
  next
    case (Some i)
    from surplus_drop[OF Cons.prems(1), of p errTerminateAll] Some obtain w1 where w1:
      "drop_instance errTerminateAll p w = Inr w1" "surplus k w1" "sw_instances w1 = (sw_instances w)(p := None)"
      "sw_cancelled w1 = sw_cancelled w @ [(p, errTerminateAll)]"
      by auto
    then have d: "dom (sw_instances w1) = dom (sw_instances w) - {p}" by auto
    then have "dom (sw_instances w1) \<subseteq> set order" using Cons.prems(2) by auto
    from Cons.IH[OF w1(2) this] obtain w' log where
      "terminate_all order w1 = Inr w'" "surplus k w'" "sw_instances w' = Map.empty"
      "sw_cancelled w' = sw_cancelled w1 @ log" "set log = dom (sw_instances w1) \<times> {errTerminateAll}" by auto
    with w1 d Some show ?thesis by (auto intro!: exI[of _ "(p, errTerminateAll) # log"] simp: insert_absorb)
  qed
qed

lemma sat_terminate_surplus:
  assumes "surplus k w" "dom (sw_instances w) \<subseteq> set order"
  shows "\<exists>w' log. sat_terminate order w = (if k = 0 then Some (Inr w') else None)
     \<and> sw_instances w' = Map.empty \<and> sw_cancelled w' = sw_cancelled w @ log
     \<and> set log = dom (sw_instances w) \<times> {errTerminateAll}"
  using terminate_all_surplus[OF assms] by (auto simp: sat_terminate_def surplus_def)

section \<open>Reports\<close>

definition answering :: "(string \<Rightarrow> int option) \<Rightarrow> string list \<Rightarrow> string list" where
  "answering get order = filter (\<lambda>p. get p \<noteq> None) order"

definition threads_of :: "(string \<Rightarrow> int option) \<Rightarrow> string list \<Rightarrow> int" where
  "threads_of get order = sum_list (map (\<lambda>p. the (get p)) (answering get order))"

lemma report_loop_spec:
  "set order \<subseteq> dom (sw_instances w) \<Longrightarrow> \<exists>w'. report_loop get order w
     = (threads_of get order, filter (\<lambda>p. get p = None) order, w')
     \<and> dom (sw_instances w') = dom (sw_instances w) \<and> sw_running w' = sw_running w"
proof (induction get order w rule: report_loop.induct)
  case (2 get p order w)
  then obtain i where i: "sw_instances w p = Some i" by auto
  show ?case
  proof (cases "get p")
    case None
    with 2 i show ?thesis by (auto simp: threads_of_def answering_def)
  next
    case (Some t)
    with 2(3)[OF i Some] 2(4) i show ?thesis
      by (auto simp: threads_of_def answering_def insert_absorb[OF domI] simp del: fun_upd_apply)
  qed
qed (simp add: threads_of_def answering_def)

lemma sat_report_spec:
  assumes "dom (sw_instances w) = set order" "distinct order" "order \<noteq> []"
  shows "\<exists>w'. sat_report get order w = (Some \<lparr>wr_instCount = int (length (answering get order)),
      wr_totalThreads = threads_of get order, wr_failedPorts = filter (\<lambda>p. get p = None) order\<rparr>, w')"
proof -
  have "length (answering get order) + length (filter (\<lambda>p. get p = None) order) = length order"
    using sum_length_filter_compl[of "\<lambda>p. get p \<noteq> None" order] by (simp add: answering_def)
  then show ?thesis using report_loop_spec[of order w get] assms
    by (auto simp: sat_report_def distinct_card)
qed

section \<open>The properties of the backend\<close>

fun repeat_failure :: "string \<Rightarrow> nat \<Rightarrow> sat_watcher \<Rightarrow> (string \<rightharpoonup> int) \<Rightarrow>
    (sat_watcher \<times> (string \<rightharpoonup> int)) go" where
  "repeat_failure p 0 w c = Inr (w, c)"
| "repeat_failure p (Suc n) w c =
     go_bind (count_failures [p] w c) (\<lambda>(w', c'). repeat_failure p n w' c')"

lemma repeat_failure_counts:
  "c p = Some m \<Longrightarrow> m + int n \<le> 6 \<Longrightarrow>
     repeat_failure p n w c = Inr (w, c(p \<mapsto> m + int n))"
proof (induction n arbitrary: c m)
  case 0
  then show ?case by (auto simp: fun_upd_idem)
next
  case (Suc n)
  then have "repeat_failure p n w (c(p \<mapsto> m + 1)) = Inr (w, (c(p \<mapsto> m + 1))(p \<mapsto> m + 1 + int n))"
    by (intro Suc.IH) auto
  with Suc.prems show ?case by (auto simp: algebra_simps fun_eq_iff)
qed

lemma repeat_failure_add:
  "repeat_failure p (n + m) w c = go_bind (repeat_failure p n w c) (\<lambda>(w', c'). repeat_failure p m w' c')"
proof (induction n arbitrary: w c)
  case (Suc n)
  then show ?case
    by (cases "count_failures [p] w c") (auto split: prod.splits)
qed simp

lemma reconcile_module_surplus:
  assumes "\<And>w. oc_sats oc f = Some w \<Longrightarrow> surplus k w" "oc_sats oc f = None \<longrightarrow> k = 0"
  shows "\<exists>b oc' w'. reconcile_module numCPU get order order2 f oc = Inr (b, oc')
    \<and> oc_sats oc' f = Some w' \<and> surplus k w' \<and> (\<forall>g. g \<noteq> f \<longrightarrow> oc_sats oc' g = oc_sats oc g)"
proof -
  define w0 where "w0 = (case oc_sats oc f of None \<Rightarrow> newSatWatcher f | Some w \<Rightarrow> w)"
  have "surplus k w0" using assms surplus_new by (auto simp: w0_def split: option.splits)
  from surplus_bury[OF this] obtain w1 where w1: "bury_dead (sw_deadList w0) w0 = Inr w1" "surplus k w1" by blast
  obtain r w2 where w2: "sat_report get order (w1\<lparr>sw_deadList := []\<rparr>) = (r, w2)" by fastforce
  have s2: "surplus k w2" by (rule surplus_report[OF _ w2]) (simp add: w1)
  obtain w3 where w3: "(if scale_action numCPU r = ScaleDown then scaleDown order2 w2 else Inr w2) = Inr w3"
    "surplus k w3"
    using surplus_scaleDown[OF s2, of order2] s2 by (cases "scale_action numCPU r = ScaleDown") auto
  obtain w4 c4 where w4: "(case r of None \<Rightarrow> Inr (w3, oc_failedPortCounts oc)
      | Some r \<Rightarrow> count_failures (wr_failedPorts r) w3 (oc_failedPortCounts oc)) = Inr (w4, c4)"
    "surplus k w4" using surplus_failures[OF w3(2)] w3(2) by (cases r) (auto, blast)
  show ?thesis
    using w1(1) w2 w3(1) w4 by (simp add: reconcile_module_def w0_def[symmetric] Let_def)
qed

text \<open>
  The orchestrator of a running node: turns, launches on free ports and processes that end, in any
  order.
\<close>

definition newOrchestrator :: orchestrator where
  "newOrchestrator = \<lparr>oc_sats = Map.empty, oc_failedPortCounts = Map.empty\<rparr>"

inductive oc_step :: "orchestrator \<Rightarrow> orchestrator \<Rightarrow> bool" where
  Turn: "reconcileConstellation numCPU get orders ms oc = Inr (ls, oc') \<Longrightarrow> oc_step oc oc'"
| Launch: "oc_sats oc f = Some w \<Longrightarrow> sw_instances w (randPort r) = None \<Longrightarrow> oc_step oc (launch r uuid f oc)"
| Ends: "oc_step oc (process_ends port f oc)"

definition even_counts :: "orchestrator \<Rightarrow> bool" where
  "even_counts oc \<longleftrightarrow> (\<forall>f w. oc_sats oc f = Some w \<longrightarrow> surplus 0 w)"

lemma even_counts_module:
  assumes "even_counts oc"
  shows "\<exists>b oc'. reconcile_module numCPU get order order2 f oc = Inr (b, oc') \<and> even_counts oc'"
proof -
  have *: "\<And>w. oc_sats oc f = Some w \<Longrightarrow> surplus 0 w" "oc_sats oc f = None \<longrightarrow> (0::int) = 0"
    using assms by (auto simp: even_counts_def)
  obtain b oc' w' where r: "reconcile_module numCPU get order order2 f oc = Inr (b, oc')"
    "oc_sats oc' f = Some w'" "surplus 0 w'" "\<forall>g. g \<noteq> f \<longrightarrow> oc_sats oc' g = oc_sats oc g"
    using reconcile_module_surplus[OF *, of numCPU get order order2] by blast
  have "surplus 0 w" if "oc_sats oc' g = Some w" for g w
    using that r(2,3,4) assms by (cases "g = f") (auto simp: even_counts_def)
  with r(1) show ?thesis by (auto simp: even_counts_def)
qed

lemma even_counts_turn:
  "even_counts oc \<Longrightarrow> \<exists>ls oc'. reconcileConstellation numCPU get orders ms oc = Inr (ls, oc') \<and> even_counts oc'"
proof (induction ms arbitrary: oc)
  case (Cons f ms)
  obtain b oc1 where "reconcile_module numCPU get (fst (orders f)) (snd (orders f)) f oc = Inr (b, oc1)" "even_counts oc1"
    using even_counts_module[OF Cons.prems] by blast
  with Cons.IH[of oc1] show ?case by auto
qed simp

lemma even_counts_launch:
  assumes "even_counts oc" "oc_sats oc f = Some w" "sw_instances w (randPort r) = None"
  shows "even_counts (launch r uuid f oc)"
  using assms surplus_add[of 0 w "randPort r" f]
  by (auto simp: even_counts_def launch_def modStartCommand_def split: option.split)

lemma even_counts_ends: "even_counts oc \<Longrightarrow> even_counts (process_ends port f oc)"
  by (auto simp: even_counts_def process_ends_def addToDead_def split: option.split)

lemma even_counts_step: "oc_step oc oc' \<Longrightarrow> even_counts oc \<Longrightarrow> even_counts oc'"
proof (induction rule: oc_step.induct)
  case (Turn numCPU get orders ms oc ls oc')
  then show ?case using even_counts_turn[of oc numCPU get orders ms] by auto
qed (auto intro: even_counts_launch even_counts_ends)

interpretation orch: step_system oc_step even_counts
  by unfold_locales (rule even_counts_step)

lemma even_counts_reachable: "oc_step\<^sup>*\<^sup>* newOrchestrator oc \<Longrightarrow> even_counts oc"
  by (erule orch.inv_reach) (simp add: newOrchestrator_def even_counts_def)

lemma stop_watchers_even:
  "even_counts oc \<Longrightarrow> \<forall>f w. oc_sats oc f = Some w \<longrightarrow> dom (sw_instances w) \<subseteq> set (ports f) \<Longrightarrow>
     \<exists>oc'. stop_watchers ports fs oc = Some (Inr oc')
       \<and> (\<forall>g w. oc_sats oc' g = Some w \<and> (g \<in> set fs \<or> (\<forall>w0. oc_sats oc g = Some w0 \<longrightarrow> sw_instances w0 = Map.empty))
            \<longrightarrow> sw_instances w = Map.empty)"
proof (induction fs arbitrary: oc)
  case (Cons f fs)
  show ?case
  proof (cases "oc_sats oc f")
    case None
    from Cons.IH[OF Cons.prems] obtain oc' where oc': "stop_watchers ports fs oc = Some (Inr oc')"
      "\<And>g w. oc_sats oc' g = Some w \<and> (g \<in> set fs \<or> (\<forall>w0. oc_sats oc g = Some w0 \<longrightarrow> sw_instances w0 = Map.empty))
            \<longrightarrow> sw_instances w = Map.empty" by blast
    have "sw_instances w = Map.empty" if "oc_sats oc' f = Some w" for w
      using oc'(2)[of f w] that None by simp
    with oc' None show ?thesis by (intro exI[of _ oc']) auto
  next
    case (Some w)
    have "surplus 0 w" "dom (sw_instances w) \<subseteq> set (ports f)"
      using Cons.prems Some by (auto simp: even_counts_def)
    from terminate_all_surplus[OF this] obtain w' where
      t: "terminate_all (ports f) w = Inr w'" "surplus 0 w'" "sw_instances w' = Map.empty" by blast
    then have tw: "sat_terminate (ports f) w = Some (Inr w')"
      by (simp add: sat_terminate_def surplus_def)
    let ?oc = "oc\<lparr>oc_sats := (oc_sats oc)(f \<mapsto> w')\<rparr>"
    have "even_counts ?oc" "\<forall>f w. oc_sats ?oc f = Some w \<longrightarrow> dom (sw_instances w) \<subseteq> set (ports f)"
      using Cons.prems t(2,3) by (auto simp: even_counts_def)
    from Cons.IH[OF this] obtain oc' where oc': "stop_watchers ports fs ?oc = Some (Inr oc')"
      "\<And>g w. oc_sats oc' g = Some w \<and> (g \<in> set fs \<or> (\<forall>w0. oc_sats ?oc g = Some w0 \<longrightarrow> sw_instances w0 = Map.empty))
            \<longrightarrow> sw_instances w = Map.empty" by blast
    have "sw_instances v = Map.empty" if "oc_sats oc' g = Some v"
      "g \<in> set (f # fs) \<or> (\<forall>w0. oc_sats oc g = Some w0 \<longrightarrow> sw_instances w0 = Map.empty)" for g v
      using oc'(2)[of g v] that t(3) by (cases "g = f") auto
    with oc'(1) tw Some show ?thesis by (intro exI[of _ oc']) auto
  qed
qed auto


text \<open>
  A turn launches a process for a module exactly when none of its processes answers the metrics
  request, or when those that answer are fewer than the processors and average at least the threshold
  of threads. Processes that do not answer are not counted against the maximum.
\<close>

theorem launch_iff_overloaded_or_silent:
  assumes "oc_sats oc f = Some w" "surplus k w" "sw_deadList w = []"
    and "dom (sw_instances w) = set order" "distinct order" "order \<noteq> []"
  shows "\<exists>oc'. reconcile_module numCPU get order order2 f oc =
     Inr (answering get order = []
          \<or> int (length (answering get order)) < numCPU
            \<and> threshold numCPU \<le> go_quot (threads_of get order) (int (length (answering get order))), oc')"
proof -
  from reconcile_module_surplus[of oc f k numCPU get order order2] assms(1,2)
  obtain b oc' where r: "reconcile_module numCPU get order order2 f oc = Inr (b, oc')" by auto
  from sat_report_spec[OF assms(4,5,6)] obtain w2 where w2: "sat_report get order w =
     (Some \<lparr>wr_instCount = int (length (answering get order)), wr_totalThreads = threads_of get order,
        wr_failedPorts = filter (\<lambda>p. get p = None) order\<rparr>, w2)" (is "_ = (Some ?r, _)") by blast
  have "w\<lparr>sw_deadList := []\<rparr> = w" using assms(3) by simp
  with r w2 assms(1,3) have "b = (scale_action numCPU (Some ?r) = Launch)"
    by (auto simp: reconcile_module_def Let_def go_bind_Inr_iff split: prod.splits)
  also have "\<dots> = (answering get order = [] \<or> int (length (answering get order)) < numCPU
            \<and> threshold numCPU \<le> go_quot (threads_of get order) (int (length (answering get order))))"
    by (auto simp: scale_action_def)
  finally show ?thesis using r by simp
qed

text \<open>
  A process is terminated at its seventh failed metrics request and not before, and its count is
  then forgotten; the count is that of the port and is not reset by requests that succeed.
\<close>

theorem seventh_failure_terminates:
  assumes "surplus k w" "sw_instances w p \<noteq> None" "c p = None"
  shows "(0 < n \<and> n \<le> 6 \<longrightarrow> repeat_failure p n w c = Inr (w, c(p \<mapsto> int n)))
    \<and> (\<exists>w'. repeat_failure p 7 w c = Inr (w', c) \<and> sw_instances w' = (sw_instances w)(p := None)
            \<and> sw_cancelled w' = sw_cancelled w @ [(p, errTerminateOne)])"
proof (rule conjI, goal_cases)
  have one: "repeat_failure p (Suc m) w c = Inr (w, c(p \<mapsto> 1 + int m))" if "m \<le> 5" for m
    using that repeat_failure_counts[of "c(p \<mapsto> 1)" p 1 m w] assms(3) by simp
  case 1
  show ?case using one[of "n - 1"] by (auto simp: gr0_conv_Suc)
next
  case 2
  obtain w' where w': "drop_instance errTerminateOne p w = Inr w'" "sw_instances w' = (sw_instances w)(p := None)"
    "sw_cancelled w' = sw_cancelled w @ [(p, errTerminateOne)]"
    using surplus_drop[OF assms(1,2), of errTerminateOne] by blast
  have "repeat_failure p (Suc 5) w c = Inr (w, c(p \<mapsto> 6))"
    using repeat_failure_counts[of "c(p \<mapsto> 1)" p 1 5 w] assms(3)
    by (subst repeat_failure.simps(2)) simp
  then have "repeat_failure p 7 w c = repeat_failure p 1 w (c(p \<mapsto> 6))"
    using repeat_failure_add[of p "Suc 5" 1 w c] by simp
  also have "\<dots> = Inr (w', c(p := None))"
    using w'(1) assms(2) by (auto simp: terminateInstance_def)
  also have "c(p := None) = c" using assms(3) by (simp add: fun_upd_idem)
  finally show ?case using w' by blast
qed

text \<open>Two processes of one module; the second answers, the first does not.\<close>

definition two_procs :: sat_watcher where
  "two_procs = sat_add ''m'' ''10001'' ''u1'' (sat_add ''m'' ''10000'' ''u0'' (newSatWatcher ''m''))"

definition second_answers :: "string \<Rightarrow> int option" where
  "second_answers p = (if p = ''10001'' then Some 3 else None)"

lemma two_procs_instances:
  "surplus 0 two_procs" "sw_instances two_procs ''10000'' \<noteq> None" "sw_deadList two_procs = []"
  "dom (sw_instances two_procs) = set [''10000'', ''10001'']"
  by (auto simp: two_procs_def surplus_def sat_add_def newSatWatcher_def)

definition two_ports :: "string list" where
  "two_ports = [''10000'', ''10001'']"

definition two_orch :: orchestrator where
  "two_orch = \<lparr>oc_sats = [''m'' \<mapsto> two_procs], oc_failedPortCounts = Map.empty\<rparr>"

lemma two_orch_sats: "oc_sats two_orch ''m'' = Some two_procs"
  by (simp add: two_orch_def)

lemma two_procs_report:
  "int (length (answering second_answers two_ports)) = 1"
  "threads_of second_answers two_ports = 3" "threshold 4 = 2" "go_quot 3 1 = 3"
  by (simp_all add: two_ports_def answering_def second_answers_def threads_of_def threshold_def go_quot_def)

lemma two_ports_props:
  "dom (sw_instances two_procs) = set two_ports" "distinct two_ports" "two_ports \<noteq> []"
  using two_procs_instances(4) by (simp_all add: two_ports_def)

lemma two_orch_turn:
  "reconcileConstellation 4 (\<lambda>_. None) (\<lambda>_. ([], [])) [''m''] newOrchestrator
   = Inr ([''m''], \<lparr>oc_sats = [''m'' \<mapsto> newSatWatcher ''m''], oc_failedPortCounts = Map.empty\<rparr>)"
  by (simp add: reconcile_module_def newOrchestrator_def newSatWatcher_def sat_report_def scale_action_def Let_def)


lemma launch_iff_overloaded_or_silent_witness:
  "\<exists>oc'. reconcile_module 4 second_answers two_ports (rev two_ports) ''m'' two_orch = Inr (True, oc')"
proof -
  have t: "(answering second_answers two_ports = [] \<or> int (length (answering second_answers two_ports)) < 4
     \<and> threshold 4 \<le> go_quot (threads_of second_answers two_ports)
                      (int (length (answering second_answers two_ports)))) = True"
    unfolding two_procs_report by simp
  show ?thesis
    using launch_iff_overloaded_or_silent[OF two_orch_sats two_procs_instances(1,3) two_ports_props,
      of 4 second_answers "rev two_ports"]
    unfolding t .
qed

lemma seventh_failure_terminates_witness:
  "repeat_failure ''10000'' 6 two_procs Map.empty = Inr (two_procs, [''10000'' \<mapsto> int 6])
   \<and> (\<exists>w'. repeat_failure ''10000'' 7 two_procs Map.empty = Inr (w', Map.empty)
          \<and> sw_instances w' = (sw_instances two_procs)(''10000'' := None)
          \<and> sw_cancelled w' = sw_cancelled two_procs @ [(''10000'', errTerminateOne)])"
proof -
  have "0 < (6::nat) \<and> 6 \<le> (6::nat)" by simp
  with seventh_failure_terminates[OF two_procs_instances(1,2), of Map.empty 6] show ?thesis by blast
qed

end
