(* ===== verification/Results.thy ===== *)
theory Results
  imports Pod
begin

text \<open>
  Jobs, their results and the replies to messages: \<open>job.go\<close>, \<open>result.go\<close>, \<open>group.go\<close>, \<open>ctx.go\<close> and
  \<open>Listen\<close> of \<open>scheduler.go\<close> in \<open>foundation/scheduler\<close>. Results are shared by pointers, so they live
  in a heap. A result is a pair of one-place channels; taking from an empty channel waits, which is
  \<open>None\<close>. A result sent into another result is passed on by a goroutine, kept in \<open>rs_forwards\<close>.
\<close>

section \<open>Data and jobs\<close>

datatype any_data =
    DNil
  | DBytes bytes
  | DString string
  | DInt int
  | DMessage message
  | DResult nat
  | DGroup nat
  | DRequest nat
  | DOther nat

record job =
  job_uuid :: string
  job_jobType :: string
  job_data :: any_data
  job_req :: "nat option"

definition NewJob :: "string \<Rightarrow> string \<Rightarrow> any_data \<Rightarrow> job" where
  "NewJob uuid jobType d =
     \<lparr>job_uuid = uuid, job_jobType = jobType, job_data = d,
      job_req = (case d of DRequest r \<Rightarrow> Some r | _ \<Rightarrow> None)\<rparr>"

definition Job_String :: "job \<Rightarrow> string" where
  "Job_String j = (case job_data j of DString s \<Rightarrow> s | DBytes b \<Rightarrow> b | _ \<Rightarrow> '''')"

definition Job_Bytes :: "job \<Rightarrow> bytes option" where
  "Job_Bytes j = (case job_data j of DBytes b \<Rightarrow> Some b | DString s \<Rightarrow> Some s | _ \<Rightarrow> None)"

definition Job_Int :: "job \<Rightarrow> int" where
  "Job_Int j = (case job_data j of DInt i \<Rightarrow> i | _ \<Rightarrow> 0)"

definition Job_Unmarshal :: "(bytes \<Rightarrow> string option) \<Rightarrow> job \<Rightarrow> string option" where
  "Job_Unmarshal decode j =
     (case job_data j of DBytes b \<Rightarrow> decode b | _ \<Rightarrow> Some ''failed to Unmarshal, job data is not []byte'')"

section \<open>Results\<close>

record result =
  r_uuid :: string
  r_data :: any_data
  r_err :: "string option"
  r_resultChan :: "unit list"
  r_errChan :: "unit list"

datatype forward = ForwardResult nat nat | ForwardGroup nat nat

record results =
  rs_heap :: "result list"
  rs_groups :: "nat list list"
  rs_forwards :: "forward list"

definition newResult :: "string \<Rightarrow> result" where
  "newResult uuid =
     \<lparr>r_uuid = uuid, r_data = DNil, r_err = None, r_resultChan = [], r_errChan = []\<rparr>"

definition set_result :: "nat \<Rightarrow> result \<Rightarrow> results \<Rightarrow> results" where
  "set_result p r s = s\<lparr>rs_heap := (rs_heap s)[p := r]\<rparr>"

definition sendErr :: "nat \<Rightarrow> string option \<Rightarrow> results \<Rightarrow> results option" where
  "sendErr p err s =
     map_option (\<lambda>q. set_result p ((rs_heap s ! p)\<lparr>r_err := err, r_errChan := q\<rparr>) s)
       (chan_send 1 () (r_errChan (rs_heap s ! p)))"

definition sendResult :: "nat \<Rightarrow> any_data \<Rightarrow> results \<Rightarrow> results option" where
  "sendResult p d s =
     (case d of
        DResult r \<Rightarrow> Some (s\<lparr>rs_forwards := rs_forwards s @ [ForwardResult p r]\<rparr>)
      | DGroup g \<Rightarrow> Some (s\<lparr>rs_forwards := rs_forwards s @ [ForwardGroup p g]\<rparr>)
      | _ \<Rightarrow> map_option (\<lambda>q. set_result p ((rs_heap s ! p)\<lparr>r_data := d, r_resultChan := q\<rparr>) s)
               (chan_send 1 () (r_resultChan (rs_heap s ! p))))"

text \<open>
  \<open>Then\<close>: the data and no error, or the error. When both channels are ready Go chooses; \<open>pick\<close> says
  whether the result is preferred.
\<close>

definition Result_Then :: "bool \<Rightarrow> nat \<Rightarrow> results \<Rightarrow> ((any_data \<times> string option) \<times> results) option" where
  "Result_Then pick p s =
     (let r = rs_heap s ! p
      in if r_resultChan r \<noteq> [] \<and> (pick \<or> r_errChan r = []) then
           Some ((r_data r, None), set_result p (r\<lparr>r_resultChan := tl (r_resultChan r)\<rparr>) s)
         else if r_errChan r \<noteq> [] then
           Some ((DNil, r_err r), set_result p (r\<lparr>r_errChan := tl (r_errChan r)\<rparr>) s)
         else None)"

definition Result_ThenInt :: "bool \<Rightarrow> nat \<Rightarrow> results \<Rightarrow> ((int \<times> string option) \<times> results) option" where
  "Result_ThenInt pick p s =
     map_option (\<lambda>((d, err), s').
         (case err of
            Some e \<Rightarrow> (0, Some e)
          | None \<Rightarrow> (case d of DInt i \<Rightarrow> (i, None)
                    | _ \<Rightarrow> (0, Some ''failed to convert result to Int'')), s'))
       (Result_Then pick p s)"

definition Result_ThenJSON :: "(bytes \<Rightarrow> string option) \<Rightarrow> bool \<Rightarrow> nat \<Rightarrow> results \<Rightarrow>
    (string option \<times> results) option" where
  "Result_ThenJSON decode pick p s =
     map_option (\<lambda>((d, err), s').
         (case err of
            Some e \<Rightarrow> Some e
          | None \<Rightarrow>
              (case d of
                 DBytes b \<Rightarrow> map_option (\<lambda>e. ''failed to Unmarshal result: '' @ e) (decode b)
               | _ \<Rightarrow> Some ''cannot unmarshal, result is not []byte''), s'))
       (Result_Then pick p s)"

text \<open>
  \<open>ThenDo\<close> and \<open>Discard\<close> return at once; their goroutines take the result as \<open>Then\<close> does, and hand it to a
  function, or to nothing.
\<close>

definition Result_ThenDo :: "(any_data \<Rightarrow> string option \<Rightarrow> 'a) \<Rightarrow> bool \<Rightarrow> nat \<Rightarrow> results \<Rightarrow> ('a \<times> results) option" where
  "Result_ThenDo do pick p s = map_option (\<lambda>((d, err), s'). (do d err, s')) (Result_Then pick p s)"

definition Result_Discard :: "bool \<Rightarrow> nat \<Rightarrow> results \<Rightarrow> results option" where
  "Result_Discard pick p s = map_option snd (Result_Then pick p s)"

section \<open>Groups\<close>

definition NewGroup :: "results \<Rightarrow> nat \<times> results" where
  "NewGroup s = (length (rs_groups s), s\<lparr>rs_groups := rs_groups s @ [[]]\<rparr>)"

definition Group_Add :: "nat \<Rightarrow> nat \<Rightarrow> results \<Rightarrow> results" where
  "Group_Add g p s = s\<lparr>rs_groups := (rs_groups s)[g := rs_groups s ! g @ [p]]\<rparr>"

text \<open>
  \<open>Wait\<close> takes every result; the goroutines run in the order given, and the first error in it is
  the one answered.
\<close>

fun wait_all :: "nat list \<Rightarrow> string option \<Rightarrow> results \<Rightarrow> (string option \<times> results) option" where
  "wait_all [] err s = Some (err, s)"
| "wait_all (p # ps) err s =
     (case Result_Then True p s of
        None \<Rightarrow> None
      | Some ((_, e), s') \<Rightarrow> wait_all ps (if err = None then e else err) s')"

definition Group_Wait :: "nat \<Rightarrow> results \<Rightarrow> (string option \<times> results) option" where
  "Group_Wait g s = wait_all (rs_groups s ! g) None s"

text \<open>The goroutine of the \<open>i\<close>-th forward: it takes the source and sends on what it got.\<close>

definition forward_run :: "nat \<Rightarrow> results \<Rightarrow> results option" where
  "forward_run i s =
     (if i < length (rs_forwards s) then
        (let s1 = s\<lparr>rs_forwards := take i (rs_forwards s) @ drop (Suc i) (rs_forwards s)\<rparr>
         in case rs_forwards s ! i of
              ForwardResult p r \<Rightarrow>
                (case Result_Then True r s1 of
                   None \<Rightarrow> None
                 | Some ((d, None), s2) \<Rightarrow> sendResult p d s2
                 | Some ((_, Some e), s2) \<Rightarrow> sendErr p (Some e) s2)
            | ForwardGroup p g \<Rightarrow>
                (case Group_Wait g s1 of
                   None \<Rightarrow> None
                 | Some (None, s2) \<Rightarrow> sendResult p DNil s2
                 | Some (Some e, s2) \<Rightarrow> sendErr p (Some e) s2))
      else None)"

text \<open>What a work thread does with the outcome of a job.\<close>

definition thread_report :: "nat \<Rightarrow> any_data \<times> string option \<Rightarrow> results \<Rightarrow> results option" where
  "thread_report p out s =
     (case snd out of Some e \<Rightarrow> sendErr p (Some e) s | None \<Rightarrow> sendResult p (fst out) s)"

section \<open>The context of a job\<close>

record ffiResult =
  ffi_Result :: bytes
  ffi_Err :: "string option"

record ctx =
  ctx_ffiResult :: "ffiResult option"
  ctx_ffiVars :: "(string \<times> string) list option"

definition newCtx :: ctx where
  "newCtx = \<lparr>ctx_ffiResult = None, ctx_ffiVars = Some []\<rparr>"

definition SetFFIResult :: "bytes \<Rightarrow> string option \<Rightarrow> 'a ctx_scheme \<Rightarrow> (ffiResult option \<times> string option) \<times> 'a ctx_scheme" where
  "SetFFIResult res err c =
     (case ctx_ffiResult c of
        Some _ \<Rightarrow> ((None, Some (''context'' @ CHR 0x27 # ''s ffiResult is already set'')), c)
      | None \<Rightarrow> (let r = \<lparr>ffi_Result = res, ffi_Err = err\<rparr> in ((Some r, None), c\<lparr>ctx_ffiResult := Some r\<rparr>)))"

definition UseFFIResult :: "'a ctx_scheme \<Rightarrow> (ffiResult option \<times> string option) \<times> 'a ctx_scheme" where
  "UseFFIResult c =
     (case ctx_ffiResult c of
        None \<Rightarrow> ((None, Some (''context'' @ CHR 0x27 # ''s ffiResult is not set'')), c)
      | Some r \<Rightarrow> ((Some r, None), c\<lparr>ctx_ffiResult := None\<rparr>))"

definition HasFFIResult :: "'a ctx_scheme \<Rightarrow> bool" where
  "HasFFIResult c \<longleftrightarrow> ctx_ffiResult c \<noteq> None"

definition AddVar :: "string \<Rightarrow> string \<Rightarrow> 'a ctx_scheme \<Rightarrow> 'a ctx_scheme" where
  "AddVar name val c =
     (case ctx_ffiVars c of
        None \<Rightarrow> c\<lparr>ctx_ffiVars := Some [(name, val)]\<rparr>
      | Some vs \<Rightarrow> c\<lparr>ctx_ffiVars := Some (vs @ [(name, val)])\<rparr>)"

definition UseVars :: "'a ctx_scheme \<Rightarrow> ((string \<times> string) list option \<times> string option) \<times> 'a ctx_scheme" where
  "UseVars c =
     (case ctx_ffiVars c of
        None \<Rightarrow> ((None, Some (''context'' @ CHR 0x27 # ''s ffiVars is not set'')), c)
      | Some vs \<Rightarrow> ((Some vs, None), c\<lparr>ctx_ffiVars := None\<rparr>))"

text \<open>The size is an \<open>int32\<close>: the conversion of a length wraps.\<close>

definition FFISize :: "ffiResult \<Rightarrow> 32 word" where
  "FFISize r =
     (case ffi_Err r of
        Some e \<Rightarrow> word_of_int (int (length e) * -1)
      | None \<Rightarrow> word_of_int (int (length (ffi_Result r))))"

section \<open>Replies\<close>

definition MsgTypeReactrJobErr :: string where "MsgTypeReactrJobErr = ''reactr.joberr''"
definition MsgTypeReactrRunErr :: string where "MsgTypeReactrRunErr = ''reactr.runerr''"
definition MsgTypeReactrResult :: string where "MsgTypeReactrResult = ''reactr.result''"
definition MsgTypeReactrNilResult :: string where "MsgTypeReactrNilResult = ''reactr.nil''"

text \<open>An error of a job is a run error of the runnable or another error, with its text.\<close>

datatype job_err = RunErr string | OtherErr string

text \<open>
  The reply \<open>Listen\<close> makes of a job's outcome, before it is addressed by \<open>ReplyTo\<close>; \<open>uuid\<close> and \<open>now\<close>
  are for a new message, \<open>encode\<close> is the JSON encoder.
\<close>

definition listen_reply :: "(any_data \<Rightarrow> string + bytes) \<Rightarrow> string \<Rightarrow> int \<Rightarrow> message \<Rightarrow>
    any_data \<times> job_err option \<Rightarrow> message" where
  "listen_reply encode uuid now msg out =
     (let mk = (\<lambda>ty d. NewMsgWithParentID uuid now ty (msg_ParentID msg) d)
      in case snd out of
           Some (RunErr e) \<Rightarrow> mk MsgTypeReactrRunErr e
         | Some (OtherErr e) \<Rightarrow> mk MsgTypeReactrJobErr e
         | None \<Rightarrow>
             (case fst out of
                DNil \<Rightarrow> mk MsgTypeReactrNilResult []
              | DMessage m \<Rightarrow> SetReplyTo m (msg_UUID msg)
              | DBytes b \<Rightarrow> mk MsgTypeReactrResult b
              | DString s \<Rightarrow> mk MsgTypeReactrResult s
              | d \<Rightarrow> (case encode d of
                        Inl e \<Rightarrow> mk MsgTypeReactrJobErr (''failed to Marshal job result: '' @ e)
                      | Inr b \<Rightarrow> mk MsgTypeReactrResult b)))"

definition Listen_callback :: "(any_data \<Rightarrow> string + bytes) \<Rightarrow> string \<Rightarrow> int \<Rightarrow> message \<Rightarrow>
    any_data \<times> job_err option \<Rightarrow> pod \<Rightarrow> (string \<times> message) option \<times> pod" where
  "Listen_callback encode uuid now msg out p =
     Pod_ReplyTo msg (listen_reply encode uuid now msg out) p"

section \<open>Lemmas\<close>

lemma set_result_frame [simp]:
  "rs_heap (set_result p r s) = (rs_heap s)[p := r]" "rs_groups (set_result p r s) = rs_groups s"
  "rs_forwards (set_result p r s) = rs_forwards s"
  by (simp_all add: set_result_def)

text \<open>Data that is sent as it is, and not passed on from another result or a group.\<close>

fun plain_data :: "any_data \<Rightarrow> bool" where
  "plain_data (DResult r) = False"
| "plain_data (DGroup g) = False"
| "plain_data d = True"

lemma sendResult_plain:
  "plain_data d \<Longrightarrow> sendResult p d s =
     map_option (\<lambda>q. set_result p ((rs_heap s ! p)\<lparr>r_data := d, r_resultChan := q\<rparr>) s)
       (chan_send 1 () (r_resultChan (rs_heap s ! p)))"
  by (cases d) (simp_all add: sendResult_def)

text \<open>A result nobody has answered or taken yet.\<close>

definition pending :: "nat \<Rightarrow> results \<Rightarrow> bool" where
  "pending p s \<longleftrightarrow> p < length (rs_heap s) \<and> r_resultChan (rs_heap s ! p) = []
     \<and> r_errChan (rs_heap s ! p) = []"

definition reported :: "any_data \<times> string option \<Rightarrow> result \<Rightarrow> result" where
  "reported out r =
     (case snd out of
        None \<Rightarrow> r\<lparr>r_data := fst out, r_resultChan := [()]\<rparr>
      | Some e \<Rightarrow> r\<lparr>r_err := Some e, r_errChan := [()]\<rparr>)"

lemma report_plain:
  "pending p s \<Longrightarrow> plain_data d \<Longrightarrow>
     thread_report p (d, e) s = Some (set_result p (reported (d, e) (rs_heap s ! p)) s)"
  by (cases e)
    (simp_all add: thread_report_def sendResult_plain sendErr_def chan_send_def pending_def reported_def)

lemma Then_reported:
  assumes "p < length (rs_heap s)" "rs_heap s ! p = reported (d, e) r"
    and "r_resultChan r = []" "r_errChan r = []"
  shows "\<exists>r'. Result_Then pick p s = Some ((if e = None then d else DNil, e), set_result p r' s)
    \<and> r_resultChan r' = [] \<and> r_errChan r' = []"
  using assms by (cases e) (auto simp: Result_Then_def reported_def)

lemma Then_empty:
  "r_resultChan (rs_heap s ! p) = [] \<Longrightarrow> r_errChan (rs_heap s ! p) = [] \<Longrightarrow> Result_Then pick p s = None"
  by (simp add: Result_Then_def)

section \<open>Properties\<close>

text \<open>
  A job's outcome is answered to exactly one taker: the first \<open>Then\<close> after the job reported gets
  its data, or its error and no data, and every later one waits for ever.
\<close>

theorem result_answered_once:
  assumes "pending p s" and "plain_data d"
  shows "\<exists>s1 s2. thread_report p (d, e) s = Some s1
    \<and> Result_Then pick p s1 = Some ((if e = None then d else DNil, e), s2)
    \<and> Result_Then pick' p s2 = None"
proof -
  let ?s1 = "set_result p (reported (d, e) (rs_heap s ! p)) s"
  from Then_reported[of p ?s1 d e "rs_heap s ! p" pick] assms(1) obtain r' where r':
    "Result_Then pick p ?s1 = Some ((if e = None then d else DNil, e), set_result p r' ?s1)"
    "r_resultChan r' = []" "r_errChan r' = []" by (auto simp: pending_def)
  moreover have "Result_Then pick' p (set_result p r' ?s1) = None"
    using assms(1) r'(2,3) by (intro Then_empty) (simp_all add: pending_def)
  ultimately show ?thesis using report_plain[OF assms, of e] by blast
qed

definition two_results :: results where
  "two_results = \<lparr>rs_heap = [newResult ''a'', newResult ''b''], rs_groups = [[0, 1]], rs_forwards = []\<rparr>"

lemma two_results_pending: "pending 0 two_results" "pending 1 two_results"
  by (simp_all add: pending_def two_results_def newResult_def)

theorem result_answered_once_witness:
  "\<exists>s1 s2. thread_report 0 (DInt 5, None) two_results = Some s1
    \<and> Result_Then True 0 s1 = Some ((DInt 5, None), s2) \<and> Result_Then True 0 s2 = None"
  using result_answered_once[OF two_results_pending(1), of "DInt 5" None True True] by simp

text \<open>
  A result sent into another result reaches its taker unchanged: once the inner job has
  reported, the forwarding goroutine runs, and the outer result answers the inner outcome.
\<close>

theorem nested_result_forwarded:
  assumes "pending p s" and "pending r s" and "p \<noteq> r" and "rs_forwards s = []" and "plain_data d"
  shows "\<exists>s1 s2 s3 s4. thread_report p (DResult r, None) s = Some s1
    \<and> thread_report r (d, e) s1 = Some s2 \<and> forward_run 0 s2 = Some s3
    \<and> Result_Then pick p s3 = Some ((if e = None then d else DNil, e), s4)"
proof -
  let ?s1 = "s\<lparr>rs_forwards := [ForwardResult p r]\<rparr>"
  have s1: "thread_report p (DResult r, None) s = Some ?s1"
    using assms(4) by (simp add: thread_report_def sendResult_def)
  have p1: "pending p ?s1" "pending r ?s1" using assms(1,2) by (simp_all add: pending_def)
  let ?s2 = "set_result r (reported (d, e) (rs_heap s ! r)) ?s1"
  have s2: "thread_report r (d, e) ?s1 = Some ?s2" using report_plain[OF p1(2) assms(5)] by simp
  let ?t = "?s2\<lparr>rs_forwards := []\<rparr>"
  from Then_reported[of r ?t d e "rs_heap s ! r" True] assms(2) obtain r' where r':
    "Result_Then True r ?t = Some ((if e = None then d else DNil, e), set_result r r' ?t)"
    by (auto simp: pending_def)
  let ?u = "set_result r r' ?t"
  have pu: "pending p ?u" using assms(1,3) by (simp add: pending_def)
  let ?s3 = "set_result p (reported (d, e) (rs_heap ?u ! p)) ?u"
  have s3: "forward_run 0 ?s2 = Some ?s3"
    using r' report_plain[OF pu assms(5), of e]
    by (cases e) (simp_all add: forward_run_def thread_report_def)
  from Then_reported[of p ?s3 d e "rs_heap ?u ! p" pick] pu obtain r'' where
    "Result_Then pick p ?s3 = Some ((if e = None then d else DNil, e), set_result p r'' ?s3)"
    by (auto simp: pending_def)
  with s1 s2 s3 show ?thesis by blast
qed

theorem nested_result_forwarded_witness:
  "\<exists>s1 s2 s3 s4. thread_report 0 (DResult 1, None) two_results = Some s1
    \<and> thread_report 1 (DInt 5, None) s1 = Some s2 \<and> forward_run 0 s2 = Some s3
    \<and> Result_Then True 0 s3 = Some ((DInt 5, None), s4)"
  using nested_result_forwarded[OF two_results_pending, of "DInt 5" None True]
  by (simp add: two_results_def)

text \<open>
  The size a job's context reports to the Wasm side tells an error from a result, and gives the
  number of bytes to read, exactly when the error text is not empty and both fit 31 bits; an error
  with an empty text is reported as a successful empty result.
\<close>

theorem ffi_size_sign:
  assumes "length (ffi_Result r) < 2 ^ 31"
  shows "(ffi_Err r = None \<longrightarrow> sint (FFISize r) = int (length (ffi_Result r)))
    \<and> (\<forall>e. ffi_Err r = Some e \<and> length e < 2 ^ 31 \<longrightarrow> sint (FFISize r) = - int (length e))
    \<and> (ffi_Err r = Some '''' \<longrightarrow> FFISize r = FFISize \<lparr>ffi_Result = [], ffi_Err = None\<rparr>)"
proof -
  have sint_small: "sint (word_of_int i :: 32 word) = i" if "- (2 ^ 31) \<le> i" "i < 2 ^ 31" for i
    using that by (simp add: signed_of_int signed_take_bit_int_eq_self)
  show ?thesis
    using assms sint_small[of "int (length (ffi_Result r))"] sint_small[of "- int (length (the (ffi_Err r)))"]
    by (auto simp: FFISize_def)
qed

theorem ffi_size_sign_witness:
  "sint (FFISize \<lparr>ffi_Result = ''abc'', ffi_Err = None\<rparr>) = 3
   \<and> FFISize \<lparr>ffi_Result = '''', ffi_Err = Some ''''\<rparr> = FFISize \<lparr>ffi_Result = [], ffi_Err = None\<rparr>"
  using ffi_size_sign[of "\<lparr>ffi_Result = ''abc'', ffi_Err = None\<rparr>"]
    ffi_size_sign[of "\<lparr>ffi_Result = '''', ffi_Err = Some ''''\<rparr>"] by simp

text \<open>
  Every outcome of a job that was triggered by a message is answered by exactly one reply, sent
  on the bus and addressed to that message; a nil result too, as an empty message of its own type.
\<close>

theorem listen_always_replies:
  assumes "\<not> pod_dead p"
  shows "\<exists>reply. fst (Listen_callback encode uuid now msg out p) = Some (msg_UUID reply, reply)
    \<and> msg_ReplyTo reply = msg_UUID msg
    \<and> (case out of
         (DNil, None) \<Rightarrow> msg_Type reply = MsgTypeReactrNilResult \<and> msg_Data reply = []
       | (DBytes b, None) \<Rightarrow> msg_Type reply = MsgTypeReactrResult \<and> msg_Data reply = b
       | (DString b, None) \<Rightarrow> msg_Type reply = MsgTypeReactrResult \<and> msg_Data reply = b
       | (_, Some (RunErr e)) \<Rightarrow> msg_Type reply = MsgTypeReactrRunErr \<and> msg_Data reply = e
       | (_, Some (OtherErr e)) \<Rightarrow> msg_Type reply = MsgTypeReactrJobErr \<and> msg_Data reply = e
       | _ \<Rightarrow> True)"
proof -
  let ?reply = "SetReplyTo (listen_reply encode uuid now msg out) (msg_UUID msg)"
  have "fst (Listen_callback encode uuid now msg out p) = Some (msg_UUID ?reply, ?reply)"
    using assms by (simp add: Listen_callback_def Pod_ReplyTo_def Pod_Send_def)
  moreover obtain d e where out: "out = (d, e)" by (cases out)
  have "case out of
         (DNil, None) \<Rightarrow> msg_Type ?reply = MsgTypeReactrNilResult \<and> msg_Data ?reply = []
       | (DBytes b, None) \<Rightarrow> msg_Type ?reply = MsgTypeReactrResult \<and> msg_Data ?reply = b
       | (DString b, None) \<Rightarrow> msg_Type ?reply = MsgTypeReactrResult \<and> msg_Data ?reply = b
       | (_, Some (RunErr e)) \<Rightarrow> msg_Type ?reply = MsgTypeReactrRunErr \<and> msg_Data ?reply = e
       | (_, Some (OtherErr e)) \<Rightarrow> msg_Type ?reply = MsgTypeReactrJobErr \<and> msg_Data ?reply = e
       | _ \<Rightarrow> True"
    unfolding out
    by (cases e; cases d; (cases "the e")?) (simp_all add: listen_reply_def message_defs)
  ultimately show ?thesis by (intro exI[of _ ?reply]) simp
qed

theorem listen_always_replies_witness:
  "\<exists>reply. fst (Listen_callback (\<lambda>_. Inl '''') ''r'' 0 (NewMsg ''u'' 0 ''t'' []) (DNil, None) (newPod False))
      = Some (msg_UUID reply, reply) \<and> msg_Type reply = MsgTypeReactrNilResult"
  using listen_always_replies[of "newPod False" "\<lambda>_. Inl ''''" "''r''" 0 "NewMsg ''u'' 0 ''t'' []" "(DNil, None)"]
  by (auto simp: newPod_def)

end
