(* ===== verification/Dispatch.thy ===== *)
theory Dispatch
  imports Prelude
begin

text \<open>
  Sequences and their dispatch: \<open>e2core/sequence/sequence.go\<close>, \<open>e2core/server/dispatcher.go\<close> and the
  handler that runs a plugin by name (\<open>server/handlers.go\<close>). The workflow step is a library type: its
  \<open>IsSingle\<close> and \<open>IsGroup\<close> answers are fields of a step. A request's maps may be nil (\<open>None\<close>), and
  writing to a nil map panics. What arrives while an execution waits is a list of results, \<open>None\<close>
  being the time-out; when the list is used up nothing more arrives, which is the time-out too.
\<close>

section \<open>Sequences\<close>

record step =
  st_FQMN :: string
  st_IsSingle :: bool
  st_IsGroup :: bool
  st_Completed :: bool

record response =
  rp_Output :: string
  rp_RespHeaders :: "(string \<times> string) list option"

record execResult =
  er_FQMN :: string
  er_Response :: "response option"
  er_Code :: int
  er_Message :: string
  er_ExecErr :: string

record coord_request =
  rq_ID :: string
  rq_State :: "(string \<rightharpoonup> string) option"
  rq_RespHeaders :: "(string \<rightharpoonup> string) option"
  rq_SequenceJSON :: string

record sequence =
  sq_steps :: "step list"
  sq_req :: coord_request

definition createUncompletedSteps :: "step list \<Rightarrow> step list" where
  "createUncompletedSteps execs = map (\<lambda>s. s\<lparr>st_Completed := False\<rparr>) execs"

text \<open>The encoding of the steps (\<open>None\<close> when it fails) and their decoding are arguments.\<close>

definition newWithSteps :: "(step list \<Rightarrow> string option) \<Rightarrow> step list \<Rightarrow> coord_request \<Rightarrow> string + sequence" where
  "newWithSteps encode steps req =
     (case encode steps of
        None \<Rightarrow> Inl ''failed to Marshal step''
      | Some j \<Rightarrow> Inr \<lparr>sq_steps = steps, sq_req = req\<lparr>rq_SequenceJSON := j\<rparr>\<rparr>)"

definition New :: "(step list \<Rightarrow> string option) \<Rightarrow> step list \<Rightarrow> coord_request \<Rightarrow> string + sequence" where
  "New encode workflowSteps req = newWithSteps encode (createUncompletedSteps workflowSteps) req"

definition FromJSON :: "(string \<Rightarrow> step list option) \<Rightarrow> (step list \<Rightarrow> string option) \<Rightarrow> string \<Rightarrow>
    coord_request \<Rightarrow> string + sequence" where
  "FromJSON decode encode seqJSON req =
     (case decode seqJSON of
        None \<Rightarrow> Inl ''failed to Unmarshal steps''
      | Some steps \<Rightarrow> newWithSteps encode steps req)"

definition StepsJSON :: "(step list \<Rightarrow> string option) \<Rightarrow> sequence \<Rightarrow> string option" where
  "StepsJSON encode seq = encode (sq_steps seq)"

text \<open>\<open>NextStep\<close> answers a pointer into the steps: the index of the first incomplete one.\<close>

fun next_index :: "step list \<Rightarrow> nat option" where
  "next_index [] = None"
| "next_index (s # ss) = (if \<not> st_Completed s then Some 0 else map_option Suc (next_index ss))"

definition NextStep :: "sequence \<Rightarrow> nat option" where
  "NextStep seq = next_index (sq_steps seq)"

definition ParentID :: "sequence \<Rightarrow> string" where
  "ParentID seq = rq_ID (sq_req seq)"

text \<open>Assignment to an entry of a map that may be nil.\<close>

definition map_assign :: "'k \<Rightarrow> 'v \<Rightarrow> ('k \<rightharpoonup> 'v) option \<Rightarrow> ('k \<rightharpoonup> 'v) option go" where
  "map_assign k v m = (case m of None \<Rightarrow> Inl NilMapWrite | Some f \<Rightarrow> Inr (Some (f(k \<mapsto> v))))"

fun assign_all :: "(string \<times> string) list \<Rightarrow> (string \<rightharpoonup> string) option \<Rightarrow> (string \<rightharpoonup> string) option go" where
  "assign_all [] m = Inr m"
| "assign_all ((k, v) # kvs) m = go_bind (map_assign k v m) (assign_all kvs)"

datatype seq_error = SeqRunErr int string | SeqExecErr string

fun handle_results :: "execResult list \<Rightarrow> coord_request \<Rightarrow> (seq_error option \<times> coord_request) go" where
  "handle_results [] req = Inr (None, req)"
| "handle_results (r # rs) req =
     (if er_Code r \<noteq> 0 \<or> er_Message r \<noteq> '''' then Inr (Some (SeqRunErr (er_Code r) (er_Message r)), req)
      else if er_ExecErr r \<noteq> '''' then Inr (Some (SeqExecErr (er_ExecErr r)), req)
      else case er_Response r of
             None \<Rightarrow> Inl NilDereference
           | Some rp \<Rightarrow>
               go_bind (map_assign (er_FQMN r) (rp_Output rp) (rq_State req)) (\<lambda>st.
               go_bind (case rp_RespHeaders rp of
                          None \<Rightarrow> Inr (rq_RespHeaders req)
                        | Some kvs \<Rightarrow> assign_all kvs (rq_RespHeaders req)) (\<lambda>hs.
               handle_results rs (req\<lparr>rq_State := st, rq_RespHeaders := hs\<rparr>))))"

definition HandleStepResults :: "execResult list \<Rightarrow> sequence \<Rightarrow> (seq_error option \<times> sequence) go" where
  "HandleStepResults results seq =
     go_bind (handle_results results (sq_req seq)) (\<lambda>(err, req).
       case err of
         Some e \<Rightarrow> Inr (Some e, seq\<lparr>sq_req := req\<rparr>)
       | None \<Rightarrow>
           (case NextStep seq of
              None \<Rightarrow> Inl NilDereference
            | Some i \<Rightarrow>
                Inr (None, seq\<lparr>sq_req := req,
                     sq_steps := (sq_steps seq)[i := (sq_steps seq ! i)\<lparr>st_Completed := True\<rparr>]\<rparr>)))"

section \<open>Execution\<close>

datatype exec_error =
    NoSteps
  | TunnelFailed
  | NilResponse string
  | StepFailed seq_error
  | ErrDispatchTimeout
  | ErrCannotHandle

definition awaitResult :: "execResult option list \<Rightarrow> sequence \<Rightarrow>
    (exec_error option \<times> sequence \<times> execResult option list) go" where
  "awaitResult events seq =
     (case events of
        [] \<Rightarrow> Inr (Some ErrDispatchTimeout, seq, [])
      | None # es \<Rightarrow> Inr (Some ErrDispatchTimeout, seq, es)
      | Some r # es \<Rightarrow>
          if er_Response r = None then Inr (Some (NilResponse (er_FQMN r)), seq, es)
          else go_bind (HandleStepResults [r] seq) (\<lambda>(err, seq').
                 Inr (map_option StepFailed err, seq', es)))"

definition dispatchSingle :: "bool \<Rightarrow> execResult option list \<Rightarrow> sequence \<Rightarrow>
    (exec_error option \<times> sequence \<times> execResult option list) go" where
  "dispatchSingle tunnel_ok events seq =
     (if tunnel_ok then awaitResult events seq else Inr (Some TunnelFailed, seq, events))"

text \<open>\<open>None\<close> is a loop that never ends: a step that is neither single nor a group.\<close>

partial_function (option) execute_loop ::
    "execResult option list \<Rightarrow> sequence \<Rightarrow> (go_panic + exec_error option \<times> sequence) option" where
  "execute_loop events seq =
     (case NextStep seq of
        None \<Rightarrow> Some (Inr (None, seq))
      | Some i \<Rightarrow>
          if st_IsSingle (sq_steps seq ! i) then
            prog_bind (Some (awaitResult events seq)) (\<lambda>(err, seq', es).
              case err of Some e \<Rightarrow> Some (Inr (Some e, seq')) | None \<Rightarrow> execute_loop es seq')
          else if st_IsGroup (sq_steps seq ! i) then Some (Inr (Some ErrCannotHandle, seq))
          else execute_loop events seq)"

definition Execute :: "bool \<Rightarrow> execResult option list \<Rightarrow> sequence \<Rightarrow> (exec_error option \<times> sequence) prog" where
  "Execute tunnel_ok events seq =
     (case NextStep seq of
        None \<Rightarrow> Some (Inr (Some NoSteps, seq))
      | Some _ \<Rightarrow>
          prog_bind (Some (dispatchSingle tunnel_ok events seq)) (\<lambda>(err, seq', es).
            case err of Some e \<Rightarrow> Some (Inr (Some e, seq')) | None \<Rightarrow> execute_loop es seq'))"

section \<open>Running a plugin by name\<close>

datatype http_reply = HttpError int string | HttpOK "(string \<times> string list) list" "string option"

text \<open>
  The module found by the syncer, the parsed request (or the failure to parse it) and the headers to
  write in order are arguments; the reply's headers are those the response did not have before.
\<close>

definition executePluginByName :: "(step list \<Rightarrow> string option) \<Rightarrow> string option \<Rightarrow> coord_request option \<Rightarrow> string list \<Rightarrow> bool \<Rightarrow>
    execResult option list \<Rightarrow> http_reply prog" where
  "executePluginByName encode modul request order tunnel_ok events =
     (case modul of
        None \<Rightarrow> Some (Inr (HttpError 404 ''module not found''))
      | Some fqmn \<Rightarrow>
          (case request of
             None \<Rightarrow> Some (Inr (HttpError 500 ''failed to handle request''))
           | Some req \<Rightarrow>
               (case New encode [\<lparr>st_FQMN = fqmn, st_IsSingle = True, st_IsGroup = False,
                                  st_Completed = False\<rparr>] req of
                  Inl _ \<Rightarrow> Some (Inr (HttpError 500 ''failed to handle request''))
                | Inr seq \<Rightarrow> prog_bind (Execute tunnel_ok events seq) (\<lambda>(err, seq').
                    case err of
                      Some _ \<Rightarrow> Some (Inr (HttpError 500 ''failed to execute plugin''))
                    | None \<Rightarrow>
                        (let req' = sq_req seq';
                             heads = (case rq_RespHeaders req' of
                                        None \<Rightarrow> []
                                      | Some hs \<Rightarrow> map (\<lambda>h. (h, [the (hs h)]))
                                                    (filter (\<lambda>h. hs h \<noteq> None) order))
                         in Some (Inr (HttpOK heads
                              (Option.bind (rq_State req') (\<lambda>st. st fqmn)))))))))"

section \<open>Callbacks and the lock\<close>

text \<open>
  An execution waits for results, or is leaving: it has its error or its last result and wants to
  remove its callback, for which it needs the write lock. A handler that has a result for an
  execution which no longer waits holds the read lock and never gets rid of the result.
\<close>

datatype exec_phase = Waiting | Leaving

record dispatcher =
  d_callbacks :: "string \<rightharpoonup> exec_phase"
  d_blocked :: "string list"

definition newDispatcher :: dispatcher where
  "newDispatcher = \<lparr>d_callbacks = Map.empty, d_blocked = []\<rparr>"

definition addCallback :: "string \<Rightarrow> dispatcher \<Rightarrow> dispatcher option" where
  "addCallback p d =
     (if d_blocked d \<noteq> [] then None else Some (d\<lparr>d_callbacks := (d_callbacks d)(p \<mapsto> Waiting)\<rparr>))"

definition removeCallback :: "string \<Rightarrow> dispatcher \<Rightarrow> dispatcher option" where
  "removeCallback p d =
     (if d_blocked d \<noteq> [] then None else Some (d\<lparr>d_callbacks := (d_callbacks d)(p := None)\<rparr>))"

text \<open>A message with a result for \<open>p\<close>; \<open>last_one\<close> says whether the execution needs no further one.\<close>

definition onMsgHandler :: "string \<Rightarrow> bool \<Rightarrow> dispatcher \<Rightarrow> dispatcher" where
  "onMsgHandler p last_one d =
     (case d_callbacks d p of
        None \<Rightarrow> d
      | Some Waiting \<Rightarrow>
          d\<lparr>d_callbacks := (d_callbacks d)(p \<mapsto> (if last_one then Leaving else Waiting))\<rparr>
      | Some Leaving \<Rightarrow> d\<lparr>d_blocked := d_blocked d @ [p]\<rparr>)"

inductive dispatcher_step :: "dispatcher \<Rightarrow> dispatcher \<Rightarrow> bool" where
  ds_start: "d_callbacks d p = None \<Longrightarrow> addCallback p d = Some d' \<Longrightarrow> dispatcher_step d d'"
| ds_result: "dispatcher_step d (onMsgHandler p last_one d)"
| ds_timeout: "d_callbacks d p = Some Waiting \<Longrightarrow>
     dispatcher_step d (d\<lparr>d_callbacks := (d_callbacks d)(p \<mapsto> Leaving)\<rparr>)"
| ds_return: "d_callbacks d p = Some Leaving \<Longrightarrow> removeCallback p d = Some d' \<Longrightarrow> dispatcher_step d d'"

section \<open>Lemmas\<close>

lemma next_index_prefix:
  assumes "\<forall>s \<in> set done. st_Completed s"
  shows "next_index (done @ ss) = map_option (\<lambda>i. length done + i) (next_index ss)"
  using assms by (induction "done") (cases "next_index ss"; simp)+

text \<open>A result that is no error, with the maps it writes to present.\<close>

definition good_result :: "execResult \<Rightarrow> bool" where
  "good_result r \<longleftrightarrow> er_Code r = 0 \<and> er_Message r = '''' \<and> er_ExecErr r = '''' \<and> er_Response r \<noteq> None"

definition result_state :: "execResult list \<Rightarrow> (string \<rightharpoonup> string) \<Rightarrow> (string \<rightharpoonup> string)" where
  "result_state rs st = fold (\<lambda>r m. m(er_FQMN r \<mapsto> rp_Output (the (er_Response r)))) rs st"

lemma assign_all_Some: "\<exists>hs'. assign_all kvs (Some hs) = Inr (Some hs')"
  by (induction kvs arbitrary: hs) (auto simp: map_assign_def)

lemma handle_good:
  assumes "good_result r" "rq_State req = Some st" "rq_RespHeaders req = Some hs"
  shows "\<exists>hs'. handle_results [r] req =
    Inr (None, req\<lparr>rq_State := Some (result_state [r] st), rq_RespHeaders := Some hs'\<rparr>)"
proof -
  obtain rp where rp: "er_Response r = Some rp" using assms(1) by (auto simp: good_result_def)
  show ?thesis
  proof (cases "rp_RespHeaders rp")
    case None
    then show ?thesis using assms rp
      by (intro exI[of _ hs]) (simp add: good_result_def map_assign_def result_state_def)
  next
    case (Some kvs)
    obtain hs' where "assign_all kvs (Some hs) = Inr (Some hs')" using assign_all_Some by blast
    then show ?thesis using assms rp Some
      by (intro exI[of _ hs']) (simp add: good_result_def map_assign_def result_state_def)
  qed
qed

lemma await_good:
  assumes "good_result r" "sq_steps seq = done @ s # todo" "\<forall>x \<in> set done. st_Completed x"
    and "\<not> st_Completed s" "rq_State (sq_req seq) = Some st" "rq_RespHeaders (sq_req seq) = Some hs"
  shows "\<exists>seq' hs'. awaitResult (Some r # es) seq = Inr (None, seq', es)
    \<and> sq_steps seq' = done @ s\<lparr>st_Completed := True\<rparr> # todo
    \<and> rq_State (sq_req seq') = Some (result_state [r] st) \<and> rq_RespHeaders (sq_req seq') = Some hs'"
proof -
  from handle_good[OF assms(1,5,6)] obtain hs' where h: "handle_results [r] (sq_req seq) =
      Inr (None, (sq_req seq)\<lparr>rq_State := Some (result_state [r] st), rq_RespHeaders := Some hs'\<rparr>)" by blast
  have "NextStep seq = Some (length done)"
    using assms(2,3,4) next_index_prefix[OF assms(3), of "s # todo"] by (simp add: NextStep_def)
  moreover have "er_Response r \<noteq> None" using assms(1) by (simp add: good_result_def)
  ultimately show ?thesis
    using h assms(2) by (simp add: awaitResult_def HandleStepResults_def)
qed

lemma execute_loop_good:
  assumes "sq_steps seq = done @ todo" "\<forall>x \<in> set done. st_Completed x"
    and "\<forall>x \<in> set todo. \<not> st_Completed x \<and> st_IsSingle x" "length rs = length todo"
    and "\<forall>r \<in> set rs. good_result r" "rq_State (sq_req seq) = Some st" "rq_RespHeaders (sq_req seq) = Some hs"
  shows "\<exists>seq'. execute_loop (map Some rs @ es) seq = Some (Inr (None, seq'))
    \<and> sq_steps seq' = done @ map (\<lambda>s. s\<lparr>st_Completed := True\<rparr>) todo
    \<and> rq_State (sq_req seq') = Some (result_state rs st)"
  using assms
proof (induction todo arbitrary: seq "done" rs st hs)
  case Nil
  have "NextStep seq = None" using Nil next_index_prefix[of "done" "[]"] by (simp add: NextStep_def)
  with Nil show ?case by (subst execute_loop.simps) (simp add: result_state_def)
next
  case (Cons s todo)
  obtain r rs' where rs: "rs = r # rs'" using Cons.prems(4) by (cases rs) auto
  have s: "\<not> st_Completed s" "st_IsSingle s" "good_result r" using Cons.prems(3,5) rs by auto
  have nx: "NextStep seq = Some (length done)"
    using Cons.prems(1,2) s(1) next_index_prefix[OF Cons.prems(2), of "s # todo"] by (simp add: NextStep_def)
  from await_good[OF s(3) Cons.prems(1,2) s(1) Cons.prems(6,7), of "map Some rs' @ es"] obtain seq' hs' where a:
    "awaitResult (Some r # map Some rs' @ es) seq = Inr (None, seq', map Some rs' @ es)"
    "sq_steps seq' = (done @ [s\<lparr>st_Completed := True\<rparr>]) @ todo"
    "rq_State (sq_req seq') = Some (result_state [r] st)" "rq_RespHeaders (sq_req seq') = Some hs'" by auto
  have "\<exists>seq''. execute_loop (map Some rs' @ es) seq' = Some (Inr (None, seq''))
      \<and> sq_steps seq'' = (done @ [s\<lparr>st_Completed := True\<rparr>]) @ map (\<lambda>s. s\<lparr>st_Completed := True\<rparr>) todo
      \<and> rq_State (sq_req seq'') = Some (result_state rs' (result_state [r] st))"
    using Cons.prems rs a by (intro Cons.IH) auto
  moreover have "execute_loop (map Some rs @ es) seq = execute_loop (map Some rs' @ es) seq'"
    using nx Cons.prems(1) s(2) rs a(1) by (subst execute_loop.simps) simp
  ultimately show ?case using rs by (simp add: result_state_def)
qed

lemma disp_blocked_step:
  "dispatcher_step d d' \<Longrightarrow> d_blocked d \<noteq> [] \<Longrightarrow>
     d_blocked d' \<noteq> [] \<and> dom (d_callbacks d') = dom (d_callbacks d)"
  by (induction rule: dispatcher_step.induct)
    (auto simp: addCallback_def removeCallback_def onMsgHandler_def split: option.splits exec_phase.splits if_splits)

interpretation blocked: step_system dispatcher_step "\<lambda>d. d_blocked d \<noteq> [] \<and> dom (d_callbacks d) = D" for D
  by unfold_locales (use disp_blocked_step in blast)

lemma disp_blocked_reach:
  "dispatcher_step\<^sup>*\<^sup>* d d' \<Longrightarrow> d_blocked d \<noteq> [] \<Longrightarrow>
     d_blocked d' \<noteq> [] \<and> dom (d_callbacks d') = dom (d_callbacks d)"
  by (rule blocked.inv_reach) simp_all

lemma execute_all_good:
  assumes "steps \<noteq> []" and "\<forall>s \<in> set steps. st_IsSingle s" and "length rs = length steps"
    and "New encode steps req = Inr seq"
    and "\<forall>r \<in> set rs. good_result r" and "rq_State req = Some st" and "rq_RespHeaders req = Some hs"
  shows "\<exists>seq'. Execute True (map Some rs) seq = Some (Inr (None, seq'))
    \<and> sq_steps seq' = map (\<lambda>s. s\<lparr>st_Completed := True\<rparr>) steps
    \<and> rq_State (sq_req seq') = Some (result_state rs st)"
proof -
  obtain s todo where st: "steps = s # todo" using assms(1) by (cases steps) auto
  obtain r rs' where rs: "rs = r # rs'" using assms(3) st by (cases rs) auto
  let ?u = "\<lambda>x. x\<lparr>st_Completed := False\<rparr>"
  have seq: "sq_steps seq = [] @ ?u s # map ?u todo"
    "rq_State (sq_req seq) = rq_State req" "rq_RespHeaders (sq_req seq) = rq_RespHeaders req"
    using assms(4) by (auto simp: New_def newWithSteps_def createUncompletedSteps_def st split: option.splits)
  have r: "good_result r" "\<forall>x \<in> set []. st_Completed x" "\<not> st_Completed (?u s)"
    using assms(5) rs by simp_all
  have maps: "rq_State (sq_req seq) = Some st" "rq_RespHeaders (sq_req seq) = Some hs"
    using assms(6,7) seq(2,3) by simp_all
  from await_good[OF r(1) seq(1) r(2,3) maps, of "map Some rs'"] obtain seq1 hs1 where a:
    "awaitResult (Some r # map Some rs') seq = Inr (None, seq1, map Some rs')"
    "sq_steps seq1 = [s\<lparr>st_Completed := True\<rparr>] @ map ?u todo"
    "rq_State (sq_req seq1) = Some (result_state [r] st)" "rq_RespHeaders (sq_req seq1) = Some hs1"
    by auto
  have rest: "\<forall>x \<in> set [s\<lparr>st_Completed := True\<rparr>]. st_Completed x"
    "\<forall>x \<in> set (map ?u todo). \<not> st_Completed x \<and> st_IsSingle x" "length rs' = length (map ?u todo)"
    "\<forall>r \<in> set rs'. good_result r"
    using assms(2,3,5) rs st by auto
  from execute_loop_good[OF a(2) rest a(3,4), of "[]"] obtain seq2 where
    "execute_loop (map Some rs') seq1 = Some (Inr (None, seq2))"
    "sq_steps seq2 = [s\<lparr>st_Completed := True\<rparr>] @ map (\<lambda>x. x\<lparr>st_Completed := True\<rparr>) (map ?u todo)"
    "rq_State (sq_req seq2) = Some (result_state rs' (result_state [r] st))" by auto
  moreover have "NextStep seq = Some 0" using seq(1) by (simp add: NextStep_def)
  ultimately show ?thesis
    using a(1) rs st by (simp add: Execute_def dispatchSingle_def result_state_def comp_def)
qed

section \<open>Properties\<close>

text \<open>
  A sequence of single steps whose results all arrive completes: the execution returns without
  an error, every step is completed, and the state holds each result's output under its plugin.
\<close>

theorem execute_completes_sequence:
  assumes "steps \<noteq> []" and "\<forall>s \<in> set steps. st_IsSingle s" and "length rs = length steps"
    and "New encode steps req = Inr seq"
    and "\<forall>r \<in> set rs. good_result r" and "rq_State req = Some st" and "rq_RespHeaders req = Some hs"
  shows "\<exists>seq'. Execute True (map Some rs) seq = Some (Inr (None, seq'))
    \<and> sq_steps seq' = map (\<lambda>s. s\<lparr>st_Completed := True\<rparr>) steps
    \<and> rq_State (sq_req seq') = Some (result_state rs st)"
  by (rule execute_all_good[OF assms])

definition example_result :: "string \<Rightarrow> string \<Rightarrow> execResult" where
  "example_result fqmn out = \<lparr>er_FQMN = fqmn, er_Response = Some \<lparr>rp_Output = out, rp_RespHeaders = None\<rparr>,
     er_Code = 0, er_Message = '''', er_ExecErr = ''''\<rparr>"

definition example_steps :: "step list" where
  "example_steps = [\<lparr>st_FQMN = ''a'', st_IsSingle = True, st_IsGroup = False, st_Completed = False\<rparr>,
                    \<lparr>st_FQMN = ''b'', st_IsSingle = True, st_IsGroup = False, st_Completed = False\<rparr>]"

definition example_req :: coord_request where
  "example_req = \<lparr>rq_ID = ''id'', rq_State = Some Map.empty, rq_RespHeaders = Some Map.empty,
                  rq_SequenceJSON = ''''\<rparr>"

theorem execute_completes_sequence_witness:
  "\<exists>seq'. Execute True (map Some [example_result ''a'' ''1'', example_result ''b'' ''2''])
      \<lparr>sq_steps = example_steps, sq_req = example_req\<lparr>rq_SequenceJSON := ''json''\<rparr>\<rparr> = Some (Inr (None, seq'))
    \<and> sq_steps seq' = map (\<lambda>s. s\<lparr>st_Completed := True\<rparr>) example_steps
    \<and> rq_State (sq_req seq') = Some (result_state [example_result ''a'' ''1'', example_result ''b'' ''2''] Map.empty)"
  by (rule execute_completes_sequence[where encode = "\<lambda>_. Some ''json''" and req = example_req
        and hs = Map.empty])
     (auto simp: example_steps_def example_req_def New_def newWithSteps_def createUncompletedSteps_def
        good_result_def example_result_def)

text \<open>
  A result that arrives for an execution which no longer waits stops the dispatcher for good: in
  every continuation that execution, and every other one, keeps its callback, so none returns, and
  none is started.
\<close>

theorem late_result_stops_dispatcher:
  assumes "d_callbacks d p = Some Leaving"
    and "dispatcher_step\<^sup>*\<^sup>* (onMsgHandler p last_one d) d'"
  shows "dom (d_callbacks d') = dom (d_callbacks d) \<and> addCallback q d' = None \<and> removeCallback q d' = None"
proof -
  have d: "onMsgHandler p last_one d = d\<lparr>d_blocked := d_blocked d @ [p]\<rparr>"
    using assms(1) by (simp add: onMsgHandler_def)
  from disp_blocked_reach[OF assms(2)] show ?thesis
    unfolding d by (simp add: addCallback_def removeCallback_def)
qed

theorem late_result_stops_dispatcher_witness:
  "removeCallback ''p'' (onMsgHandler ''p'' True \<lparr>d_callbacks = [''p'' \<mapsto> Leaving], d_blocked = []\<rparr>) = None"
  using late_result_stops_dispatcher[of "\<lparr>d_callbacks = [''p'' \<mapsto> Leaving], d_blocked = []\<rparr>" "''p''" True _ "''p''"]
  by (metis dispatcher.select_convs(1) fun_upd_same rtranclp.rtrancl_refl)

end
