(* ===== verification/WasmInstance.thy ===== *)
theory WasmInstance
  imports Results Dispatch
begin

text \<open>
  Wasm instances on the host side: \<open>instance.go\<close> and \<open>mapper.go\<close> of
  \<open>sat/engine2/runtime/instance\<close> and the instance pool of \<open>sat/engine2/runtime/pool.go\<close>. An instance's
  linear memory is a byte string; the wasmtime store behind it and the guest's own code are not under
  the repository. Addresses and sizes come from the guest as \<open>int32\<close>, read as signed numbers.
\<close>

section \<open>Instances\<close>

text \<open>The coordinated request of a job, as far as this code reads it; the capability code may change it.\<close>

record wasm_request = coord_request +
  wq_Body :: bytes

text \<open>The job context with the request its Go context carries.\<close>

record job_ctx = ctx +
  jc_request :: "wasm_request option"

datatype run_err = RunErrCode int string

record wasm_inst =
  wi_memory :: "bytes option"
  wi_ctx :: "job_ctx option"
  wi_resultChan :: "bytes list"
  wi_errChan :: "run_err list"
  wi_open :: bool

definition newInstance :: "bytes option \<Rightarrow> wasm_inst" where
  "newInstance mem = \<lparr>wi_memory = mem, wi_ctx = None, wi_resultChan = [], wi_errChan = [], wi_open = True\<rparr>"

definition ReadMemory :: "32 word \<Rightarrow> 32 word \<Rightarrow> wasm_inst \<Rightarrow> bytes go" where
  "ReadMemory pointer n w =
     (case wi_memory w of
        None \<Rightarrow> Inr []
      | Some m \<Rightarrow>
          go_bind (go_slice_from m (sint pointer)) (\<lambda>data.
            if sint n < 0 then Inl MakeSliceLen
            else Inr (go_copy (replicate (nat (sint n)) (CHR 0x00)) data)))"

definition WriteMemoryAtLocation :: "32 word \<Rightarrow> bytes \<Rightarrow> wasm_inst \<Rightarrow> wasm_inst go" where
  "WriteMemoryAtLocation pointer data w =
     (case wi_memory w of
        None \<Rightarrow> Inr w
      | Some m \<Rightarrow>
          go_bind (go_slice_from m (sint pointer)) (\<lambda>scoped.
            Inr (w\<lparr>wi_memory := Some (take (nat (sint pointer)) m @ go_copy scoped data)\<rparr>)))"

text \<open>When both channels hold something Go chooses one; \<open>pick\<close> prefers the result.\<close>

definition ExecutionResult :: "bool \<Rightarrow> wasm_inst \<Rightarrow> (bytes option \<times> run_err option) \<times> wasm_inst" where
  "ExecutionResult pick w =
     (if wi_resultChan w \<noteq> [] \<and> (pick \<or> wi_errChan w = []) then
        ((Some (hd (wi_resultChan w)), None), w\<lparr>wi_resultChan := tl (wi_resultChan w)\<rparr>)
      else if wi_errChan w \<noteq> [] then
        ((None, Some (hd (wi_errChan w))), w\<lparr>wi_errChan := tl (wi_errChan w)\<rparr>)
      else ((None, None), w))"

text \<open>A send waits, which is \<open>None\<close>, on a full channel and on the nil channels of a closed instance.\<close>

definition SendExecutionResult :: "bytes option \<Rightarrow> run_err option \<Rightarrow> wasm_inst \<Rightarrow> wasm_inst option" where
  "SendExecutionResult res err w =
     (case err of
        Some e \<Rightarrow>
          if wi_open w then map_option (\<lambda>q. w\<lparr>wi_errChan := q\<rparr>) (chan_send 1 e (wi_errChan w)) else None
      | None \<Rightarrow>
          (case res of
             Some r \<Rightarrow>
               if wi_open w then map_option (\<lambda>q. w\<lparr>wi_resultChan := q\<rparr>) (chan_send 1 r (wi_resultChan w)) else None
           | None \<Rightarrow> Some w))"

definition UseCtx :: "job_ctx option \<Rightarrow> wasm_inst \<Rightarrow> wasm_inst" where
  "UseCtx c w = w\<lparr>wi_ctx := c\<rparr>"

definition Instance_Close :: "wasm_inst \<Rightarrow> wasm_inst" where
  "Instance_Close w = w\<lparr>wi_ctx := None, wi_resultChan := [], wi_errChan := [], wi_open := False\<rparr>"

section \<open>The instance mapper\<close>

text \<open>
  The instances live in a heap. The global map sends an identifier to an address. The random
  identifiers are a list, \<open>None\<close> a failing random source; a list that is used up is a search that is
  still going on.
\<close>

record engine =
  eg_insts :: "wasm_inst list"
  eg_mapper :: "32 word \<rightharpoonup> nat"
  eg_logs :: "(32 word \<times> string \<times> string \<times> 32 word) list"

definition inst_at :: "nat \<Rightarrow> engine \<Rightarrow> wasm_inst" where
  "inst_at a eg = eg_insts eg ! a"

definition set_inst :: "nat \<Rightarrow> wasm_inst \<Rightarrow> engine \<Rightarrow> engine" where
  "set_inst a w eg = eg\<lparr>eg_insts := (eg_insts eg)[a := w]\<rparr>"

definition ForIdentifier :: "32 word \<Rightarrow> bool \<Rightarrow> engine \<Rightarrow> (string + nat) go" where
  "ForIdentifier ident needsFFIResult eg =
     (case eg_mapper eg ident of
        None \<Rightarrow> Inr (Inl ''instance does not exist'')
      | Some a \<Rightarrow>
          if needsFFIResult then
            (case wi_ctx (inst_at a eg) of
               None \<Rightarrow> Inl NilDereference
             | Some c \<Rightarrow>
                 if ctx_ffiResult c \<noteq> None
                 then Inr (Inl ''cannot use instance for host call with existing call in progress'')
                 else Inr (Inr a))
          else Inr (Inr a))"

fun Mapper_Store :: "32 word option list \<Rightarrow> nat \<Rightarrow> engine \<Rightarrow> ((string + 32 word) \<times> engine) option" where
  "Mapper_Store [] a eg = None"
| "Mapper_Store (None # rs) a eg = Some (Inl ''failed to randomIdentifier'', eg)"
| "Mapper_Store (Some ident # rs) a eg =
     (if eg_mapper eg ident \<noteq> None then Mapper_Store rs a eg
      else Some (Inr ident, eg\<lparr>eg_mapper := (eg_mapper eg)(ident \<mapsto> a)\<rparr>))"

definition Mapper_Remove :: "32 word \<Rightarrow> engine \<Rightarrow> engine" where
  "Mapper_Remove ident eg = eg\<lparr>eg_mapper := (eg_mapper eg)(ident := None)\<rparr>"

text \<open>The identifier made of a random number below the largest \<open>int32\<close>.\<close>

definition randomIdentifier :: "nat \<Rightarrow> 32 word" where
  "randomIdentifier r = word_of_nat (r mod (2 ^ 31 - 1))"

section \<open>The pool\<close>

text \<open>
  The pool as the steps of its users. A use starts the making of a new instance on its own goroutine
  (\<open>ip_refills\<close>) and then waits for an instance (\<open>ip_waiting\<close>). Instances are numbered as they are made;
  \<open>ip_used\<close> are those handed to a job or destroyed. \<open>ip_adds\<close> and \<open>ip_removes\<close> count the additions
  and removals made for worker threads.
\<close>

record ipool =
  ip_available :: "nat list"
  ip_refills :: nat
  ip_waiting :: nat
  ip_used :: "nat list"
  ip_next :: nat
  ip_adds :: nat
  ip_removes :: nat

definition NewInstancePool :: ipool where
  "NewInstancePool = \<lparr>ip_available = [], ip_refills = 0, ip_waiting = 0, ip_used = [], ip_next = 0,
     ip_adds = 0, ip_removes = 0\<rparr>"

definition poolCap :: nat where "poolCap = 64"

text \<open>Putting a new instance into the channel waits while it is full.\<close>

definition put_new :: "ipool \<Rightarrow> ipool option" where
  "put_new p =
     map_option (\<lambda>q. p\<lparr>ip_available := q, ip_next := ip_next p + 1\<rparr>)
       (chan_send poolCap (ip_next p) (ip_available p))"

definition AddInstance :: "ipool \<Rightarrow> ipool option" where
  "AddInstance p = map_option (\<lambda>p'. p'\<lparr>ip_adds := ip_adds p + 1\<rparr>) (put_new p)"

definition RemoveInstance :: "ipool \<Rightarrow> ipool option" where
  "RemoveInstance p =
     (case ip_available p of
        [] \<Rightarrow> None
      | a # as \<Rightarrow> Some (p\<lparr>ip_available := as, ip_used := ip_used p @ [a], ip_removes := ip_removes p + 1\<rparr>))"

definition use_begin :: "ipool \<Rightarrow> ipool" where
  "use_begin p = p\<lparr>ip_refills := ip_refills p + 1, ip_waiting := ip_waiting p + 1\<rparr>"

definition use_refill :: "ipool \<Rightarrow> ipool option" where
  "use_refill p =
     (if ip_refills p = 0 then None
      else map_option (\<lambda>p'. p'\<lparr>ip_refills := ip_refills p - 1\<rparr>) (put_new p))"

definition use_take :: "ipool \<Rightarrow> (nat \<times> ipool) option" where
  "use_take p =
     (case ip_available p of
        [] \<Rightarrow> None
      | a # as \<Rightarrow>
          if ip_waiting p = 0 then None
          else Some (a, p\<lparr>ip_available := as, ip_used := ip_used p @ [a], ip_waiting := ip_waiting p - 1\<rparr>))"

inductive pool_move :: "ipool \<Rightarrow> ipool \<Rightarrow> bool" where
  Add: "AddInstance p = Some p' \<Longrightarrow> pool_move p p'"
| Remove: "RemoveInstance p = Some p' \<Longrightarrow> pool_move p p'"
| Begin: "pool_move p (use_begin p)"
| Refill: "use_refill p = Some p' \<Longrightarrow> pool_move p p'"
| Take: "use_take p = Some (a, p') \<Longrightarrow> pool_move p p'"

definition pool_reachable :: "ipool \<Rightarrow> bool" where
  "pool_reachable p \<longleftrightarrow> pool_move\<^sup>*\<^sup>* NewInstancePool p"

section \<open>Instances of the pool\<close>

text \<open>
  Every instance is in the channel or was taken from it, once; the channel and the refills under way
  match the users waiting and the worker threads.
\<close>

definition pool_ok :: "ipool \<Rightarrow> bool" where
  "pool_ok p \<longleftrightarrow> distinct (ip_available p @ ip_used p)
     \<and> set (ip_available p @ ip_used p) = {..<ip_next p}
     \<and> length (ip_available p) + ip_refills p + ip_removes p = ip_waiting p + ip_adds p
     \<and> length (ip_available p) \<le> poolCap"

named_theorems pool_defs \<open>operations of the pool\<close>

declare put_new_def [pool_defs] AddInstance_def [pool_defs] RemoveInstance_def [pool_defs]
  use_begin_def [pool_defs] use_refill_def [pool_defs] use_take_def [pool_defs]

lemma pool_ok_new [inv_intros]: "pool_ok NewInstancePool"
  by (simp add: pool_ok_def NewInstancePool_def)

lemma pool_ok_put:
  assumes "pool_ok p" "length (ip_available p) < poolCap" "r + ip_adds p + 1 = ip_refills p + n"
  shows "pool_ok (p\<lparr>ip_available := ip_available p @ [ip_next p], ip_next := ip_next p + 1,
               ip_refills := r, ip_adds := n\<rparr>)"
proof -
  have f: "distinct (ip_available p @ ip_used p)" "set (ip_available p @ ip_used p) = {..<ip_next p}"
    "length (ip_available p) + ip_refills p + ip_removes p = ip_waiting p + ip_adds p"
    using assms(1) by (auto simp: pool_ok_def)
  have "ip_next p \<notin> set (ip_available p @ ip_used p)" by (simp only: f(2) lessThan_iff less_irrefl not_False_eq_True)
  moreover have "{..<ip_next p + 1} = insert (ip_next p) {..<ip_next p}" by auto
  ultimately show ?thesis using f assms(2,3) by (simp add: pool_ok_def)
qed

lemma pool_ok_drop:
  assumes "pool_ok p" "ip_available p = a # as" "w + ip_removes p + 1 = ip_waiting p + n"
  shows "pool_ok (p\<lparr>ip_available := as, ip_used := ip_used p @ [a], ip_waiting := w, ip_removes := n\<rparr>)"
  using assms by (auto simp: pool_ok_def)

lemma pool_ok_move [inv_intros]:
  assumes "pool_move p p'" "pool_ok p"
  shows "pool_ok p'"
  using assms
proof cases
  case Add
  then show ?thesis using pool_ok_put[OF assms(2), of "ip_refills p" "ip_adds p + 1"]
    by (auto simp: AddInstance_def put_new_def chan_send_Some_iff)
next
  case Remove
  then show ?thesis using pool_ok_drop[OF assms(2), of _ _ "ip_waiting p" "ip_removes p + 1"]
    by (auto simp: RemoveInstance_def split: list.split_asm)
next
  case Begin
  then show ?thesis using assms(2) by (simp add: pool_ok_def use_begin_def)
next
  case Refill
  then show ?thesis using pool_ok_put[OF assms(2), of "ip_refills p - 1" "ip_adds p"]
    by (auto simp: use_refill_def put_new_def chan_send_Some_iff split: if_split_asm)
next
  case (Take a)
  then show ?thesis using pool_ok_drop[OF assms(2), of _ _ "ip_waiting p - 1" "ip_removes p"]
    by (auto simp: use_take_def split: list.split_asm if_split_asm)
qed

interpretation pools: step_system pool_move pool_ok
  by unfold_locales (rule pool_ok_move)

lemma pool_ok_reachable: "pool_reachable p \<Longrightarrow> pool_ok p"
  unfolding pool_reachable_def by (erule pools.inv_reach) (auto intro: inv_intros)

lemma used_grows: "pool_move p p' \<Longrightarrow> set (ip_used p) \<subseteq> set (ip_used p')"
  by (induction rule: pool_move.induct)
    (auto simp: pool_defs chan_send_Some_iff split: list.split_asm if_split_asm)

interpretation used: step_system pool_move "\<lambda>p. U \<subseteq> set (ip_used p)" for U
  by unfold_locales (use used_grows in blast)

lemma used_grows_star: "pool_move\<^sup>*\<^sup>* p p' \<Longrightarrow> set (ip_used p) \<subseteq> set (ip_used p')"
  by (rule used.inv_reach) auto

text \<open>
  C30: No instance serves two jobs: one taken from the pool was never taken before and never will be
  again. And a job that waits is served: as long as no more instances were removed than added, one is
  ready or one is being made, and making one never blocks while the worker threads and the waiting jobs
  together are at most the channel's capacity.
\<close>

theorem pool_serves_fresh_instances:
  assumes "pool_reachable p"
  shows "(\<forall>a p1 p2 b p3. use_take p = Some (a, p1) \<and> pool_move\<^sup>*\<^sup>* p1 p2 \<and> use_take p2 = Some (b, p3) \<longrightarrow>
            a \<notin> set (ip_used p) \<and> a \<noteq> b)
    \<and> (0 < ip_waiting p \<and> ip_removes p \<le> ip_adds p \<longrightarrow> use_take p \<noteq> None \<or> ip_refills p > 0)
    \<and> (ip_refills p > 0 \<and> ip_waiting p + ip_adds p \<le> poolCap + ip_removes p \<longrightarrow> use_refill p \<noteq> None)"
proof (intro conjI allI impI)
  have ok: "pool_ok p" using assms by (rule pool_ok_reachable)
  {
    fix a p1 p2 b p3
    assume *: "use_take p = Some (a, p1) \<and> pool_move\<^sup>*\<^sup>* p1 p2 \<and> use_take p2 = Some (b, p3)"
    show "a \<notin> set (ip_used p)"
      using * ok by (auto simp: use_take_def pool_ok_def split: list.split_asm if_split_asm)
    have "pool_reachable p2"
      using assms * unfolding pool_reachable_def by (meson pool_move.Take rtranclp.rtrancl_into_rtrancl rtranclp_trans)
    then have ok2: "pool_ok p2" by (rule pool_ok_reachable)
    have "a \<in> set (ip_used p1)" using * by (auto simp: use_take_def split: list.split_asm if_split_asm)
    then have "a \<in> set (ip_used p2)" using * used_grows_star by blast
    then show "a \<noteq> b" using * ok2 by (auto simp: use_take_def pool_ok_def split: list.split_asm if_split_asm)
  }
  show "use_take p \<noteq> None \<or> ip_refills p > 0" if "0 < ip_waiting p \<and> ip_removes p \<le> ip_adds p"
    using that ok by (auto simp: use_take_def pool_ok_def split: list.split)
  show "use_refill p \<noteq> None" if "ip_refills p > 0 \<and> ip_waiting p + ip_adds p \<le> poolCap + ip_removes p"
    using that ok by (auto simp: use_refill_def put_new_def chan_send_def pool_ok_def)
qed

lemma pool_serves_fresh_instances_witness:
  "let p = use_begin NewInstancePool
   in (0 < ip_waiting p \<and> ip_removes p \<le> ip_adds p \<longrightarrow> use_take p \<noteq> None \<or> ip_refills p > 0)
    \<and> (ip_refills p > 0 \<and> ip_waiting p + ip_adds p \<le> poolCap + ip_removes p \<longrightarrow> use_refill p \<noteq> None)"
proof -
  have "pool_reachable (use_begin NewInstancePool)"
    unfolding pool_reachable_def by (rule r_into_rtranclp, rule pool_move.Begin)
  from pool_serves_fresh_instances[OF this] show ?thesis by (simp add: Let_def)
qed

end
