(* ===== verification/WasmApi.thy ===== *)
theory WasmApi
  imports WasmInstance
begin

text \<open>
  The host functions a Wasm module may call: the files of \<open>sat/engine2/api\<close>. What the capabilities of
  the host answer (request fields, response headers, HTTP) comes from a library and is a record of
  functions; the log is kept in the engine state.
\<close>

section \<open>Capabilities\<close>

datatype cap_err = ErrKeyNotFound | ErrReqNotSet | CapErr string

record http_response =
  hr_StatusCode :: nat
  hr_Body :: bytes

record capabilities =
  cap_GetField :: "32 word \<Rightarrow> string \<Rightarrow> wasm_request option \<Rightarrow> cap_err + bytes"
  cap_SetField :: "32 word \<Rightarrow> string \<Rightarrow> string \<Rightarrow> wasm_request option \<Rightarrow> cap_err option \<times> wasm_request option"
  cap_SetResponseHeader :: "string \<Rightarrow> string \<Rightarrow> wasm_request option \<Rightarrow> cap_err option \<times> wasm_request option"
  cap_HTTPDo :: "string \<Rightarrow> string \<Rightarrow> bytes \<Rightarrow> (string \<times> string) list \<Rightarrow> string + http_response"
  cap_RequestFieldTypeMeta :: "32 word"

section \<open>Strings and headers\<close>

text \<open>\<open>strings.Split\<close> for a separator that is not empty.\<close>

fun split_acc :: "string \<Rightarrow> string \<Rightarrow> string \<Rightarrow> string list" where
  "split_acc sep acc [] = [rev acc]"
| "split_acc sep acc (c # cs) =
     (if take (length sep) (c # cs) = sep then rev acc # split_acc sep [] (drop (length sep - 1) cs)
      else split_acc sep (c # acc) cs)"

definition go_split :: "string \<Rightarrow> string \<Rightarrow> string list" where
  "go_split s sep = split_acc sep [] s"

text \<open>Header names are kept in the canonical form of \<open>net/textproto\<close>.\<close>

definition is_lower :: "char \<Rightarrow> bool" where
  "is_lower c \<longleftrightarrow> 97 \<le> (of_char c :: nat) \<and> (of_char c :: nat) \<le> 122"

definition is_upper :: "char \<Rightarrow> bool" where
  "is_upper c \<longleftrightarrow> 65 \<le> (of_char c :: nat) \<and> (of_char c :: nat) \<le> 90"

definition is_digit :: "char \<Rightarrow> bool" where
  "is_digit c \<longleftrightarrow> 48 \<le> (of_char c :: nat) \<and> (of_char c :: nat) \<le> 57"

definition is_token :: "char \<Rightarrow> bool" where
  "is_token c \<longleftrightarrow> is_lower c \<or> is_upper c \<or> is_digit c \<or> c \<in> set (CHR 0x27 # CHR 0x60 # ''!#$%&*+-.^_|~'')"

fun canon :: "bool \<Rightarrow> string \<Rightarrow> string" where
  "canon up [] = []"
| "canon up (c # cs) =
     (if up \<and> is_lower c then char_of ((of_char c :: nat) - 32)
      else if \<not> up \<and> is_upper c then char_of ((of_char c :: nat) + 32) else c) # canon (c = CHR ''-'') cs"

definition CanonicalMIMEHeaderKey :: "string \<Rightarrow> string" where
  "CanonicalMIMEHeaderKey s = (if list_all is_token s then canon True s else s)"

type_synonym headers = "(string \<times> string) list"

definition Header_Add :: "string \<Rightarrow> string \<Rightarrow> headers \<Rightarrow> headers" where
  "Header_Add k v hs = hs @ [(CanonicalMIMEHeaderKey k, v)]"

definition Header_Get :: "string \<Rightarrow> headers \<Rightarrow> string" where
  "Header_Get k hs = (case map_of hs (CanonicalMIMEHeaderKey k) of Some v \<Rightarrow> v | None \<Rightarrow> '''')"

fun parse_headers :: "string list \<Rightarrow> headers \<Rightarrow> headers option" where
  "parse_headers [] hs = Some hs"
| "parse_headers (p # ps) hs =
     (case go_split p '':'' of
        [k, v] \<Rightarrow> parse_headers ps (Header_Add k v hs)
      | _ \<Rightarrow> None)"

text \<open>The first part is the URL; \<open>None\<close> is the error of a header that was not formatted correctly.\<close>

definition parseHTTPHeaders :: "string list \<Rightarrow> headers option" where
  "parseHTTPHeaders urlParts = (if length urlParts > 1 then parse_headers (tl urlParts) [] else Some [])"

definition methodValToMethod :: "32 word \<Rightarrow> string option" where
  "methodValToMethod m =
     map_of [(0, ''GET''), (1, ''HEAD''), (2, ''OPTIONS''), (3, ''POST''), (4, ''PUT''), (5, ''PATCH''),
             (6, ''DELETE'')] m"

section \<open>The host functions\<close>

text \<open>The context of an instance; a call through the nil context of an idle instance panics.\<close>

definition Ctx :: "nat \<Rightarrow> engine \<Rightarrow> job_ctx go" where
  "Ctx a eg = (case wi_ctx (inst_at a eg) of None \<Rightarrow> Inl NilDereference | Some c \<Rightarrow> Inr c)"

definition put_ctx :: "nat \<Rightarrow> job_ctx \<Rightarrow> engine \<Rightarrow> engine" where
  "put_ctx a c eg = set_inst a ((inst_at a eg)\<lparr>wi_ctx := Some c\<rparr>) eg"

definition getFfiResult :: "32 word \<Rightarrow> 32 word \<Rightarrow> engine \<Rightarrow> (32 word \<times> engine) go" where
  "getFfiResult pointer ident eg =
     go_bind (ForIdentifier ident False eg) (\<lambda>r. case r of
         Inl _ \<Rightarrow> Inr (-1, eg)
       | Inr a \<Rightarrow> go_bind (Ctx a eg) (\<lambda>c.
           case UseFFIResult c of
             ((Some res, None), c') \<Rightarrow>
               (let data = (case ffi_Err res of Some e \<Rightarrow> e | None \<Rightarrow> ffi_Result res)
                in go_bind (WriteMemoryAtLocation pointer data ((inst_at a eg)\<lparr>wi_ctx := Some c'\<rparr>))
                     (\<lambda>w. Inr (0, set_inst a w eg)))
           | _ \<Rightarrow> Inr (-1, eg)))"

definition addFfiVar :: "32 word \<Rightarrow> 32 word \<Rightarrow> 32 word \<Rightarrow> 32 word \<Rightarrow> 32 word \<Rightarrow> engine \<Rightarrow> (32 word \<times> engine) go" where
  "addFfiVar namePtr nameLen valPtr valLen ident eg =
     go_bind (ForIdentifier ident False eg) (\<lambda>r. case r of
         Inl _ \<Rightarrow> Inr (-1, eg)
       | Inr a \<Rightarrow>
           go_bind (ReadMemory namePtr nameLen (inst_at a eg)) (\<lambda>name.
           go_bind (ReadMemory valPtr valLen (inst_at a eg)) (\<lambda>val.
           go_bind (Ctx a eg) (\<lambda>c. Inr (0, put_ctx a (AddVar name val c) eg)))))"

text \<open>How a host function leaves its result for the module: stored in the context, its size returned.\<close>

definition finish_ffi :: "bytes \<Rightarrow> string option \<Rightarrow> nat \<Rightarrow> engine \<Rightarrow> (32 word \<times> engine) go" where
  "finish_ffi res err a eg =
     go_bind (Ctx a eg) (\<lambda>c.
       case SetFFIResult res err c of
         ((Some r, None), c') \<Rightarrow> Inr (FFISize r, put_ctx a c' eg)
       | _ \<Rightarrow> Inr (-1, eg))"

definition fetch :: "capabilities \<Rightarrow> string \<Rightarrow> string \<Rightarrow> bytes \<Rightarrow> headers \<Rightarrow> bytes \<times> string option" where
  "fetch caps httpMethod url body headers =
     (case cap_HTTPDo caps httpMethod url body headers of
        Inl e \<Rightarrow> ([], Some e)
      | Inr resp \<Rightarrow>
          if hr_StatusCode resp > 299 then ([], Some (dec (hr_StatusCode resp) @ '': '' @ hr_Body resp))
          else (hr_Body resp, None))"

definition fetchUrl :: "capabilities \<Rightarrow> 32 word \<Rightarrow> 32 word \<Rightarrow> 32 word \<Rightarrow> 32 word \<Rightarrow> 32 word \<Rightarrow> 32 word \<Rightarrow>
    engine \<Rightarrow> (32 word \<times> engine) go" where
  "fetchUrl caps verb urlPointer urlSize bodyPointer bodySize ident eg =
     go_bind (ForIdentifier ident True eg) (\<lambda>r. case r of
         Inl _ \<Rightarrow> Inr (-1, eg)
       | Inr a \<Rightarrow>
           (case methodValToMethod verb of
              None \<Rightarrow> Inr (-2, eg)
            | Some httpMethod \<Rightarrow>
                go_bind (ReadMemory urlPointer urlSize (inst_at a eg)) (\<lambda>urlBytes.
                  let urlParts = go_split urlBytes ''::'' in
                  case parseHTTPHeaders urlParts of
                    None \<Rightarrow> Inr (-2, eg)
                  | Some headers \<Rightarrow>
                      go_bind (ReadMemory bodyPointer bodySize (inst_at a eg)) (\<lambda>body.
                        let headers' = (if body \<noteq> [] \<and> Header_Get ''Content-Type'' headers = ''''
                                        then Header_Add ''Content-Type'' ''application/octet-stream'' headers
                                        else headers);
                            (resp, err) = fetch caps httpMethod (hd urlParts) body headers'
                        in finish_ffi resp err a eg))))"

definition logMsg :: "capabilities \<Rightarrow> 32 word \<Rightarrow> 32 word \<Rightarrow> 32 word \<Rightarrow> 32 word \<Rightarrow> engine \<Rightarrow> engine go" where
  "logMsg caps pointer n level ident eg =
     go_bind (ForIdentifier ident False eg) (\<lambda>r. case r of
         Inl _ \<Rightarrow> Inr eg
       | Inr a \<Rightarrow>
           go_bind (ReadMemory pointer n (inst_at a eg)) (\<lambda>msg.
           go_bind (Ctx a eg) (\<lambda>c.
             let reqID = (case jc_request c of
                            None \<Rightarrow> ''''
                          | Some req \<Rightarrow>
                              (case cap_GetField caps (cap_RequestFieldTypeMeta caps) ''id'' (Some req) of
                                 Inl _ \<Rightarrow> ''''
                               | Inr v \<Rightarrow> v))
             in Inr (eg\<lparr>eg_logs := eg_logs eg @ [(level, msg, reqID, ident)]\<rparr>))))"

definition requestGetField :: "capabilities \<Rightarrow> 32 word \<Rightarrow> 32 word \<Rightarrow> 32 word \<Rightarrow> 32 word \<Rightarrow> engine \<Rightarrow>
    (32 word \<times> engine) go" where
  "requestGetField caps fieldType keyPointer keySize ident eg =
     go_bind (ForIdentifier ident True eg) (\<lambda>r. case r of
         Inl _ \<Rightarrow> Inr (-1, eg)
       | Inr a \<Rightarrow>
           go_bind (ReadMemory keyPointer keySize (inst_at a eg)) (\<lambda>key.
           go_bind (Ctx a eg) (\<lambda>c.
             case cap_GetField caps fieldType key (jc_request c) of
               Inl ErrKeyNotFound \<Rightarrow> finish_ffi [] None a eg
             | Inl _ \<Rightarrow> Inr (-1, eg)
             | Inr val \<Rightarrow> finish_ffi val None a eg)))"

text \<open>
  The error of \<open>SetField\<close> is declared inside the \<open>if\<close>; the \<open>err\<close> given to \<open>SetFFIResult\<close> is that of
  \<open>ForIdentifier\<close>, which is nil here.
\<close>

definition requestSetField :: "capabilities \<Rightarrow> 32 word \<Rightarrow> 32 word \<Rightarrow> 32 word \<Rightarrow> 32 word \<Rightarrow> 32 word \<Rightarrow> 32 word \<Rightarrow>
    engine \<Rightarrow> (32 word \<times> engine) go" where
  "requestSetField caps fieldType keyPointer keySize valPointer valSize ident eg =
     go_bind (ForIdentifier ident True eg) (\<lambda>r. case r of
         Inl _ \<Rightarrow> Inr (-1, eg)
       | Inr a \<Rightarrow>
           go_bind (ReadMemory keyPointer keySize (inst_at a eg)) (\<lambda>key.
           go_bind (ReadMemory valPointer valSize (inst_at a eg)) (\<lambda>val.
           go_bind (Ctx a eg) (\<lambda>c.
             let (_, req') = cap_SetField caps fieldType key val (jc_request c)
             in finish_ffi [] None a (put_ctx a (c\<lparr>jc_request := req'\<rparr>) eg)))))"

definition responseSetHeader :: "capabilities \<Rightarrow> 32 word \<Rightarrow> 32 word \<Rightarrow> 32 word \<Rightarrow> 32 word \<Rightarrow> 32 word \<Rightarrow> engine \<Rightarrow>
    (32 word \<times> engine) go" where
  "responseSetHeader caps keyPointer keySize valPointer valSize ident eg =
     go_bind (ForIdentifier ident False eg) (\<lambda>r. case r of
         Inl _ \<Rightarrow> Inr (-1, eg)
       | Inr a \<Rightarrow>
           go_bind (ReadMemory keyPointer keySize (inst_at a eg)) (\<lambda>key.
           go_bind (ReadMemory valPointer valSize (inst_at a eg)) (\<lambda>val.
           go_bind (Ctx a eg) (\<lambda>c.
             let (err, req') = cap_SetResponseHeader caps key val (jc_request c);
                 eg' = put_ctx a (c\<lparr>jc_request := req'\<rparr>) eg
             in Inr (case err of None \<Rightarrow> 0 | Some ErrReqNotSet \<Rightarrow> -2 | Some _ \<Rightarrow> -5, eg')))))"

definition returnResult :: "32 word \<Rightarrow> 32 word \<Rightarrow> 32 word \<Rightarrow> engine \<Rightarrow> engine prog" where
  "returnResult pointer n ident eg =
     prog_bind (Some (ForIdentifier ident False eg)) (\<lambda>r. case r of
         Inl _ \<Rightarrow> Some (Inr eg)
       | Inr a \<Rightarrow>
           prog_bind (Some (ReadMemory pointer n (inst_at a eg))) (\<lambda>res.
             map_option (\<lambda>w. Inr (set_inst a w eg)) (SendExecutionResult (Some res) None (inst_at a eg))))"

definition returnError :: "32 word \<Rightarrow> 32 word \<Rightarrow> 32 word \<Rightarrow> 32 word \<Rightarrow> engine \<Rightarrow> engine prog" where
  "returnError code pointer n ident eg =
     prog_bind (Some (ForIdentifier ident False eg)) (\<lambda>r. case r of
         Inl _ \<Rightarrow> Some (Inr eg)
       | Inr a \<Rightarrow>
           prog_bind (Some (ReadMemory pointer n (inst_at a eg))) (\<lambda>res.
             map_option (\<lambda>w. Inr (set_inst a w eg))
               (SendExecutionResult None (Some (RunErrCode (sint code) res)) (inst_at a eg))))"

section \<open>The table of host functions\<close>

record hostFn =
  hf_Name :: string
  hf_ArgCount :: nat
  hf_Returns :: bool

definition NewHostFn :: "string \<Rightarrow> nat \<Rightarrow> bool \<Rightarrow> hostFn" where
  "NewHostFn name argCount returns = \<lparr>hf_Name = name, hf_ArgCount = argCount, hf_Returns = returns\<rparr>"

definition ReturnResultHandler :: hostFn where "ReturnResultHandler = NewHostFn ''return_result'' 3 False"
definition ReturnErrorHandler :: hostFn where "ReturnErrorHandler = NewHostFn ''return_error'' 4 False"
definition GetFFIResultHandler :: hostFn where "GetFFIResultHandler = NewHostFn ''get_ffi_result'' 2 True"
definition AddFFIVariableHandler :: hostFn where "AddFFIVariableHandler = NewHostFn ''add_ffi_var'' 5 True"
definition FetchURLHandler :: hostFn where "FetchURLHandler = NewHostFn ''fetch_url'' 6 True"
definition LogMsgHandler :: hostFn where "LogMsgHandler = NewHostFn ''log_msg'' 4 False"
definition RequestGetFieldHandler :: hostFn where "RequestGetFieldHandler = NewHostFn ''request_get_field'' 4 True"
definition RequestSetFieldHandler :: hostFn where "RequestSetFieldHandler = NewHostFn ''request_set_field'' 6 True"
definition RespSetHeaderHandler :: hostFn where "RespSetHeaderHandler = NewHostFn ''resp_set_header'' 5 False"

definition HostFunctions :: "hostFn list" where
  "HostFunctions =
     [ReturnResultHandler, ReturnErrorHandler, GetFFIResultHandler, AddFFIVariableHandler, FetchURLHandler,
      LogMsgHandler, RequestGetFieldHandler, RequestSetFieldHandler, RespSetHeaderHandler]"

text \<open>
  The bodies of the handlers, by name: each reads its arguments by position and calls the function.
  A function without a value answers \<open>None\<close>.
\<close>

definition void :: "engine go \<Rightarrow> (32 word option \<times> engine) prog" where
  "void r = Some (go_bind r (\<lambda>eg. Inr (None, eg)))"

definition valued :: "(32 word \<times> engine) go \<Rightarrow> (32 word option \<times> engine) prog" where
  "valued r = Some (go_bind r (\<lambda>(v, eg). Inr (Some v, eg)))"

definition host_body :: "capabilities \<Rightarrow> string \<Rightarrow> 32 word list \<Rightarrow> engine \<Rightarrow> (32 word option \<times> engine) prog" where
  "host_body caps name args eg =
     (let bad = Some (Inl IndexOutOfRange)
      in if name = ''return_result'' then
           (case args of [p, n, i] \<Rightarrow> prog_bind (returnResult p n i eg) (\<lambda>eg'. Some (Inr (None, eg'))) | _ \<Rightarrow> bad)
         else if name = ''return_error'' then
           (case args of [c, p, n, i] \<Rightarrow> prog_bind (returnError c p n i eg) (\<lambda>eg'. Some (Inr (None, eg'))) | _ \<Rightarrow> bad)
         else if name = ''get_ffi_result'' then
           (case args of [p, i] \<Rightarrow> valued (getFfiResult p i eg) | _ \<Rightarrow> bad)
         else if name = ''add_ffi_var'' then
           (case args of [np, nl, vp, vl, i] \<Rightarrow> valued (addFfiVar np nl vp vl i eg) | _ \<Rightarrow> bad)
         else if name = ''fetch_url'' then
           (case args of [m, up, us, bp, bs, i] \<Rightarrow> valued (fetchUrl caps m up us bp bs i eg) | _ \<Rightarrow> bad)
         else if name = ''log_msg'' then
           (case args of [p, n, l, i] \<Rightarrow> void (logMsg caps p n l i eg) | _ \<Rightarrow> bad)
         else if name = ''request_get_field'' then
           (case args of [f, kp, ks, i] \<Rightarrow> valued (requestGetField caps f kp ks i eg) | _ \<Rightarrow> bad)
         else if name = ''request_set_field'' then
           (case args of [f, kp, ks, vp, vs, i] \<Rightarrow> valued (requestSetField caps f kp ks vp vs i eg) | _ \<Rightarrow> bad)
         else (case args of [kp, ks, vp, vs, i] \<Rightarrow>
                 void (go_bind (responseSetHeader caps kp ks vp vs i eg) (\<lambda>(_, eg'). Inr eg')) | _ \<Rightarrow> bad))"

text \<open>
  What the linker runs for an imported function: the first \<open>ArgCount\<close> arguments are passed on; more
  are ignored, fewer panic.
\<close>

definition call_host :: "capabilities \<Rightarrow> hostFn \<Rightarrow> 32 word list \<Rightarrow> engine \<Rightarrow> (32 word option \<times> engine) prog" where
  "call_host caps fn args eg =
     (if length args < hf_ArgCount fn then Some (Inl IndexOutOfRange)
      else host_body caps (hf_Name fn) (take (hf_ArgCount fn) args) eg)"

section \<open>What a call changes\<close>

text \<open>At most the instance behind one identifier, and the log.\<close>

definition frame :: "32 word \<Rightarrow> engine \<Rightarrow> engine \<Rightarrow> bool" where
  "frame i eg eg' \<longleftrightarrow> eg_mapper eg' = eg_mapper eg \<and> length (eg_insts eg') = length (eg_insts eg)
     \<and> (\<forall>a. eg_mapper eg i \<noteq> Some a \<longrightarrow> inst_at a eg' = inst_at a eg)"

named_theorems frames \<open>frame lemmas of the host functions\<close>

lemma frame_refl [simp, intro]: "frame i eg eg"
  by (simp add: frame_def)

lemma frame_trans: "frame i eg eg' \<Longrightarrow> frame i eg' eg'' \<Longrightarrow> frame i eg eg''"
  by (auto simp: frame_def)

lemma set_inst_simps [simp]:
  "eg_mapper (set_inst a w eg) = eg_mapper eg" "length (eg_insts (set_inst a w eg)) = length (eg_insts eg)"
  "eg_logs (set_inst a w eg) = eg_logs eg"
  "b \<noteq> a \<Longrightarrow> inst_at b (set_inst a w eg) = inst_at b eg"
  "a < length (eg_insts eg) \<Longrightarrow> inst_at a (set_inst a w eg) = w"
  "set_inst a w (set_inst a w' eg) = set_inst a w eg"
  by (simp_all add: set_inst_def inst_at_def)

lemma put_ctx_simps [simp]:
  "eg_mapper (put_ctx a c eg) = eg_mapper eg" "length (eg_insts (put_ctx a c eg)) = length (eg_insts eg)"
  "b \<noteq> a \<Longrightarrow> inst_at b (put_ctx a c eg) = inst_at b eg"
  "a < length (eg_insts eg) \<Longrightarrow> inst_at a (put_ctx a c eg) = (inst_at a eg)\<lparr>wi_ctx := Some c\<rparr>"
  by (simp_all add: put_ctx_def)

lemma frame_set_inst [simp]: "eg_mapper eg i = Some a \<Longrightarrow> frame i eg (set_inst a w eg)"
  by (auto simp: frame_def)

lemma frame_put_ctx [simp]: "eg_mapper eg i = Some a \<Longrightarrow> frame i eg (put_ctx a c eg)"
  by (auto simp: put_ctx_def)

lemma ForIdentifier_mapped: "ForIdentifier i b eg = Inr (Inr a) \<Longrightarrow> eg_mapper eg i = Some a"
  by (auto simp: ForIdentifier_def split: option.split_asm if_split_asm)

lemma finish_ffi_frame:
  "finish_ffi res err a eg = Inr (v, eg') \<Longrightarrow> eg_mapper eg i = Some a \<Longrightarrow> frame i eg eg'"
  by (auto simp: finish_ffi_def elim!: go_bind_InrE split: prod.split_asm option.split_asm)

lemma put_finish_frame:
  "finish_ffi res err a (put_ctx a c eg) = Inr (v, eg') \<Longrightarrow> eg_mapper eg i = Some a \<Longrightarrow> frame i eg eg'"
  by (rule frame_trans[OF frame_put_ctx finish_ffi_frame]) auto

lemma getFfiResult_frame [frames]: "getFfiResult p i eg = Inr (v, eg') \<Longrightarrow> frame i eg eg'"
  by (auto simp: getFfiResult_def  elim!: go_bind_InrE dest!: ForIdentifier_mapped
      split: sum.split_asm prod.split_asm option.split_asm)

lemma addFfiVar_frame [frames]: "addFfiVar np nl vp vl i eg = Inr (v, eg') \<Longrightarrow> frame i eg eg'"
  by (auto simp: addFfiVar_def  elim!: go_bind_InrE dest!: ForIdentifier_mapped split: sum.split_asm)

lemma fetchUrl_frame [frames]: "fetchUrl caps m up us bp bs i eg = Inr (v, eg') \<Longrightarrow> frame i eg eg'"
  by (auto simp: fetchUrl_def  Let_def elim!: go_bind_InrE dest!: ForIdentifier_mapped
      split: sum.split_asm option.split_asm prod.split_asm) (erule (1) finish_ffi_frame)+

lemma logMsg_frame [frames]: "logMsg caps p n l i eg = Inr eg' \<Longrightarrow> frame i eg eg'"
  by (auto simp: logMsg_def  Let_def frame_def inst_at_def elim!: go_bind_InrE split: sum.split_asm)

lemma requestGetField_frame [frames]: "requestGetField caps f kp ks i eg = Inr (v, eg') \<Longrightarrow> frame i eg eg'"
  by (auto simp: requestGetField_def  elim!: go_bind_InrE dest!: ForIdentifier_mapped
      split: sum.split_asm cap_err.split_asm) (erule (1) finish_ffi_frame)+

lemma requestSetField_frame [frames]:
  "requestSetField caps f kp ks vp vs i eg = Inr (v, eg') \<Longrightarrow> frame i eg eg'"
  by (auto simp: requestSetField_def elim!: go_bind_InrE dest!: ForIdentifier_mapped
      split: sum.split_asm prod.split_asm) (erule (1) put_finish_frame)

lemma responseSetHeader_frame [frames]:
  "responseSetHeader caps kp ks vp vs i eg = Inr (v, eg') \<Longrightarrow> frame i eg eg'"
  by (auto simp: responseSetHeader_def  elim!: go_bind_InrE dest!: ForIdentifier_mapped
      split: sum.split_asm prod.split_asm)

lemma returnResult_frame [frames]: "returnResult p n i eg = Some (Inr eg') \<Longrightarrow> frame i eg eg'"
  by (auto simp: returnResult_def elim!: prog_bind_InrE dest!: ForIdentifier_mapped split: sum.split_asm)

lemma returnError_frame [frames]: "returnError c p n i eg = Some (Inr eg') \<Longrightarrow> frame i eg eg'"
  by (auto simp: returnError_def elim!: prog_bind_InrE dest!: ForIdentifier_mapped split: sum.split_asm)

text \<open>The ways a host function can panic.\<close>

definition host_panics :: "go_panic set" where
  "host_panics = {SliceBounds, MakeSliceLen, NilDereference}"

named_theorems panics \<open>the panics of the host functions\<close>

lemma ReadMemory_panics [panics]: "ReadMemory p n w = Inl e \<Longrightarrow> e \<in> host_panics"
  by (auto simp: ReadMemory_def go_slice_from_def host_panics_def elim!: go_bind_InlE
      split: option.split_asm if_split_asm)

lemma WriteMemory_panics [panics]: "WriteMemoryAtLocation p d w = Inl e \<Longrightarrow> e \<in> host_panics"
  by (auto simp: WriteMemoryAtLocation_def go_slice_from_def host_panics_def elim!: go_bind_InlE
      split: option.split_asm if_split_asm)

lemma ForIdentifier_panics [panics]: "ForIdentifier i b eg = Inl e \<Longrightarrow> e \<in> host_panics"
  by (auto simp: ForIdentifier_def host_panics_def split: option.split_asm if_split_asm)

lemma Ctx_panics [panics]: "Ctx a eg = Inl e \<Longrightarrow> e \<in> host_panics"
  by (auto simp: Ctx_def host_panics_def split: option.split_asm)

lemma finish_ffi_panics [panics]: "finish_ffi r e a eg = Inl p \<Longrightarrow> p \<in> host_panics"
  by (auto simp: finish_ffi_def elim!: go_bind_InlE split: prod.split_asm option.split_asm) (blast dest: panics)+

lemma getFfiResult_panics [panics]: "getFfiResult p i eg = Inl e \<Longrightarrow> e \<in> host_panics"
  by (auto simp: getFfiResult_def elim!: go_bind_InlE
      split: sum.split_asm prod.split_asm option.split_asm) (blast dest: panics)+

lemma addFfiVar_panics [panics]: "addFfiVar np nl vp vl i eg = Inl e \<Longrightarrow> e \<in> host_panics"
  by (auto simp: addFfiVar_def elim!: go_bind_InlE split: sum.split_asm) (blast dest: panics)+

lemma fetchUrl_panics [panics]: "fetchUrl caps m up us bp bs i eg = Inl e \<Longrightarrow> e \<in> host_panics"
  by (auto simp: fetchUrl_def Let_def elim!: go_bind_InlE
      split: sum.split_asm option.split_asm prod.split_asm) (blast dest: panics)+

lemma logMsg_panics [panics]: "logMsg caps p n l i eg = Inl e \<Longrightarrow> e \<in> host_panics"
  by (auto simp: logMsg_def Let_def elim!: go_bind_InlE split: sum.split_asm) (blast dest: panics)+

lemma requestGetField_panics [panics]: "requestGetField caps f kp ks i eg = Inl e \<Longrightarrow> e \<in> host_panics"
  by (auto simp: requestGetField_def elim!: go_bind_InlE split: sum.split_asm cap_err.split_asm) (blast dest: panics)+

lemma requestSetField_panics [panics]: "requestSetField caps f kp ks vp vs i eg = Inl e \<Longrightarrow> e \<in> host_panics"
  by (auto simp: requestSetField_def elim!: go_bind_InlE split: sum.split_asm prod.split_asm) (blast dest: panics)+

lemma responseSetHeader_panics [panics]:
  "responseSetHeader caps kp ks vp vs i eg = Inl e \<Longrightarrow> e \<in> host_panics"
  by (auto simp: responseSetHeader_def elim!: go_bind_InlE split: sum.split_asm prod.split_asm) (blast dest: panics)+

lemma returnResult_panics [panics]: "returnResult p n i eg = Some (Inl e) \<Longrightarrow> e \<in> host_panics"
  by (auto simp: returnResult_def elim!: prog_bind_InlE split: sum.split_asm) (blast dest: panics)+

lemma returnError_panics [panics]: "returnError c p n i eg = Some (Inl e) \<Longrightarrow> e \<in> host_panics"
  by (auto simp: returnError_def elim!: prog_bind_InlE split: sum.split_asm) (blast dest: panics)+

lemma void_cases:
  "(void r = Some (Inr (v, eg'))) = (r = Inr eg' \<and> v = None)" "(void r = Some (Inl e)) = (r = Inl e)"
  "void r \<noteq> None"
  by (cases r; auto simp: void_def)+

lemma valued_cases:
  "(valued r = Some (Inr (v, eg'))) = (\<exists>u. r = Inr (u, eg') \<and> v = Some u)"
  "(valued r = Some (Inl e)) = (r = Inl e)" "valued r \<noteq> None"
  by (cases r; auto simp: valued_def)+

lemmas handler_defs = ReturnResultHandler_def ReturnErrorHandler_def GetFFIResultHandler_def
  AddFFIVariableHandler_def FetchURLHandler_def LogMsgHandler_def RequestGetFieldHandler_def
  RequestSetFieldHandler_def RespSetHeaderHandler_def NewHostFn_def

lemma args_lengths:
  "length xs = 2 \<longleftrightarrow> (\<exists>a b. xs = [a, b])" "length xs = 3 \<longleftrightarrow> (\<exists>a b c. xs = [a, b, c])"
  "length xs = 4 \<longleftrightarrow> (\<exists>a b c d. xs = [a, b, c, d])" "length xs = 5 \<longleftrightarrow> (\<exists>a b c d e. xs = [a, b, c, d, e])"
  "length xs = 6 \<longleftrightarrow> (\<exists>a b c d e f. xs = [a, b, c, d, e, f])"
  by (auto simp: eval_nat_numeral length_Suc_conv)

text \<open>What the theorem below says of one call.\<close>

definition call_ok :: "capabilities \<Rightarrow> hostFn \<Rightarrow> 32 word list \<Rightarrow> engine \<Rightarrow> bool" where
  "call_ok caps fn args eg \<longleftrightarrow>
     (case call_host caps fn args eg of
        None \<Rightarrow> hf_Name fn \<in> {''return_result'', ''return_error''}
      | Some (Inl e) \<Rightarrow> e \<in> host_panics
      | Some (Inr (v, eg')) \<Rightarrow> frame (last args) eg eg' \<and> (v \<noteq> None \<longleftrightarrow> hf_Returns fn))"

lemma call_ok_intro:
  assumes "\<And>v eg'. call_host caps fn args eg = Some (Inr (v, eg')) \<Longrightarrow>
      frame (last args) eg eg' \<and> (v \<noteq> None \<longleftrightarrow> hf_Returns fn)"
    and "\<And>e. call_host caps fn args eg = Some (Inl e) \<Longrightarrow> e \<in> host_panics"
    and "call_host caps fn args eg = None \<Longrightarrow> hf_Name fn \<in> {''return_result'', ''return_error''}"
  shows "call_ok caps fn args eg"
  using assms by (auto simp: call_ok_def split: option.split sum.split)

lemma call_ok_return_result: "length args = 3 \<Longrightarrow> call_ok caps ReturnResultHandler args eg"
  by (rule call_ok_intro)
    (auto simp: call_host_def host_body_def handler_defs args_lengths elim!: prog_bind_InrE prog_bind_InlE
      dest: frames panics)

lemma call_ok_return_error: "length args = 4 \<Longrightarrow> call_ok caps ReturnErrorHandler args eg"
  by (rule call_ok_intro)
    (auto simp: call_host_def host_body_def handler_defs args_lengths elim!: prog_bind_InrE prog_bind_InlE
      dest: frames panics)

lemma call_ok_get_ffi: "length args = 2 \<Longrightarrow> call_ok caps GetFFIResultHandler args eg"
  by (rule call_ok_intro)
    (auto simp: call_host_def host_body_def handler_defs args_lengths valued_cases dest: frames panics)

lemma call_ok_add_var: "length args = 5 \<Longrightarrow> call_ok caps AddFFIVariableHandler args eg"
  by (rule call_ok_intro)
    (auto simp: call_host_def host_body_def handler_defs args_lengths valued_cases dest: frames panics)

lemma call_ok_fetch: "length args = 6 \<Longrightarrow> call_ok caps FetchURLHandler args eg"
  by (rule call_ok_intro)
    (auto simp: call_host_def host_body_def handler_defs args_lengths valued_cases dest: frames panics)

lemma call_ok_log: "length args = 4 \<Longrightarrow> call_ok caps LogMsgHandler args eg"
  by (rule call_ok_intro)
    (auto simp: call_host_def host_body_def handler_defs args_lengths void_cases dest: frames panics)

lemma call_ok_get_field: "length args = 4 \<Longrightarrow> call_ok caps RequestGetFieldHandler args eg"
  by (rule call_ok_intro)
    (auto simp: call_host_def host_body_def handler_defs args_lengths valued_cases dest: frames panics)

lemma call_ok_set_field: "length args = 6 \<Longrightarrow> call_ok caps RequestSetFieldHandler args eg"
  by (rule call_ok_intro)
    (auto simp: call_host_def host_body_def handler_defs args_lengths valued_cases dest: frames panics)

lemma call_ok_set_header: "length args = 5 \<Longrightarrow> call_ok caps RespSetHeaderHandler args eg"
  by (rule call_ok_intro)
    (auto simp: call_host_def host_body_def handler_defs args_lengths void_cases
      elim!: go_bind_InrE go_bind_InlE dest: frames panics)

lemmas calls_ok = call_ok_return_result call_ok_return_error call_ok_get_ffi call_ok_add_var call_ok_fetch
  call_ok_log call_ok_get_field call_ok_set_field call_ok_set_header

text \<open>
  C18: A host function called with the number of arguments it is registered with changes at most the
  instance behind the identifier it was given, which is its last argument, and leaves the table of
  identifiers alone; it answers a value exactly when it is registered as returning one. It panics only
  for an address outside the memory, a negative size or an idle instance, and only the two functions
  that hand over a result can block.
\<close>

theorem host_call_isolated:
  assumes "fn \<in> set HostFunctions" "length args = hf_ArgCount fn"
  shows "case call_host caps fn args eg of
      None \<Rightarrow> hf_Name fn \<in> {''return_result'', ''return_error''}
    | Some (Inl e) \<Rightarrow> e \<in> {SliceBounds, MakeSliceLen, NilDereference}
    | Some (Inr (v, eg')) \<Rightarrow>
        eg_mapper eg' = eg_mapper eg
        \<and> (\<forall>a. eg_mapper eg (last args) \<noteq> Some a \<longrightarrow> inst_at a eg' = inst_at a eg)
        \<and> (v \<noteq> None \<longleftrightarrow> hf_Returns fn)"
proof -
  have "call_ok caps fn args eg"
    using assms calls_ok[of args caps eg] by (auto simp: HostFunctions_def handler_defs)
  then show ?thesis by (auto simp: call_ok_def frame_def host_panics_def split: option.split sum.split)
qed

section \<open>Handing over a result\<close>

lemma ReadMemory_in:
  assumes "wi_memory w = Some m" "0 \<le> sint p" "0 \<le> sint n" "sint p + sint n \<le> int (length m)"
  shows "ReadMemory p n w = Inr (take (nat (sint n)) (drop (nat (sint p)) m))"
  using assms by (simp add: ReadMemory_def go_slice_from_def go_copy_long)

lemma ForIdentifier_live:
  "eg_mapper eg i = Some a \<Longrightarrow> wi_ctx (inst_at a eg) = Some c \<Longrightarrow> ctx_ffiResult c = None \<Longrightarrow>
     ForIdentifier i b eg = Inr (Inr a)"
  by (simp add: ForIdentifier_def)

lemma ForIdentifier_False: "eg_mapper eg i = Some a \<Longrightarrow> ForIdentifier i False eg = Inr (Inr a)"
  by (simp add: ForIdentifier_def)


section \<open>Request fields\<close>

lemma FFISize_small: "length r < 2 ^ 31 \<Longrightarrow> sint (FFISize \<lparr>ffi_Result = r, ffi_Err = None\<rparr>) = int (length r)"
  by (simp add: FFISize_def signed_of_nat signed_take_bit_int_eq_self)

lemma finish_ffi_free:
  "wi_ctx (inst_at a eg) = Some c \<Longrightarrow> ctx_ffiResult c = None \<Longrightarrow>
     finish_ffi r e a eg = Inr (FFISize \<lparr>ffi_Result = r, ffi_Err = e\<rparr>,
       put_ctx a (c\<lparr>ctx_ffiResult := Some \<lparr>ffi_Result = r, ffi_Err = e\<rparr>\<rparr>) eg)"
  by (simp add: finish_ffi_def Ctx_def SetFFIResult_def Let_def)


text \<open>
  A request field that could not be set is reported to the module as set: whatever error the
  capability answers, the call returns 0 and leaves an empty result without an error.
\<close>

theorem set_field_error_lost:
  assumes "eg_mapper eg i = Some a" "a < length (eg_insts eg)" "wi_ctx (inst_at a eg) = Some c"
    and "ctx_ffiResult c = None" "wi_memory (inst_at a eg) = Some m"
    and "0 \<le> sint kp" "0 \<le> sint ks" "sint kp + sint ks \<le> int (length m)"
    and "0 \<le> sint vp" "0 \<le> sint vs" "sint vp + sint vs \<le> int (length m)"
    and "cap_SetField caps f (take (nat (sint ks)) (drop (nat (sint kp)) m))
           (take (nat (sint vs)) (drop (nat (sint vp)) m)) (jc_request c) = (Some e, req')"
  shows "\<exists>eg'. requestSetField caps f kp ks vp vs i eg = Inr (0, eg')
    \<and> wi_ctx (inst_at a eg') = Some (c\<lparr>jc_request := req', ctx_ffiResult := Some \<lparr>ffi_Result = [], ffi_Err = None\<rparr>\<rparr>)"
proof -
  let ?c = "c\<lparr>jc_request := req'\<rparr>"
  have "wi_ctx (inst_at a (put_ctx a ?c eg)) = Some ?c" "ctx_ffiResult ?c = None"
    using assms(2,4) by simp_all
  from finish_ffi_free[OF this] have
    "requestSetField caps f kp ks vp vs i eg = Inr (FFISize \<lparr>ffi_Result = [], ffi_Err = None\<rparr>,
       put_ctx a (?c\<lparr>ctx_ffiResult := Some \<lparr>ffi_Result = [], ffi_Err = None\<rparr>\<rparr>) (put_ctx a ?c eg))"
    using assms by (simp add: requestSetField_def ForIdentifier_live ReadMemory_in Ctx_def)
  then show ?thesis using assms(2) by (auto simp: FFISize_def)
qed

section \<open>Headers in a URL\<close>

text \<open>A string without two colons in a row and without one at its end.\<close>

fun no_double :: "string \<Rightarrow> bool" where
  "no_double [] = True"
| "no_double [c] = (c \<noteq> CHR '':'')"
| "no_double (c # d # cs) = (\<not> (c = CHR '':'' \<and> d = CHR '':'') \<and> no_double (d # cs))"

lemma split_double_last: "no_double s \<Longrightarrow> split_acc ''::'' acc s = [rev acc @ s]"
proof (induction s arbitrary: acc rule: no_double.induct)
  case (3 c d cs)
  then show ?case using "3.IH"[of "c # acc"] by auto
qed auto

lemma split_double_cons:
  "no_double s \<Longrightarrow> split_acc ''::'' acc (s @ ''::'' @ rest) = (rev acc @ s) # split_acc ''::'' [] rest"
proof (induction s arbitrary: acc rule: no_double.induct)
  case (3 c d cs)
  then show ?case using "3.IH"[of "c # acc"] by auto
qed auto

definition header_part :: "string \<times> string \<Rightarrow> string" where
  "header_part h = fst h @ '':'' @ snd h"

definition encode_url :: "string \<Rightarrow> headers \<Rightarrow> string" where
  "encode_url url hs = url @ concat (map (\<lambda>h. ''::'' @ header_part h) hs)"

lemma split_encode_url:
  "no_double url \<Longrightarrow> \<forall>h \<in> set hs. no_double (header_part h) \<Longrightarrow>
     go_split (encode_url url hs) ''::'' = url # map header_part hs"
proof (induction hs arbitrary: url)
  case Nil
  then show ?case by (simp add: go_split_def encode_url_def split_double_last)
next
  case (Cons h hs)
  have "go_split (encode_url url (h # hs)) ''::'' = url # split_acc ''::'' [] (encode_url (header_part h) hs)"
    using split_double_cons[OF Cons.prems(1), of "[]" "encode_url (header_part h) hs"]
    by (simp add: go_split_def encode_url_def)
  with Cons.IH[of "header_part h"] Cons.prems(2) show ?case by (simp add: go_split_def)
qed

lemma length_split_char: "length (split_acc [c] acc s) = Suc (length (filter (\<lambda>x. x = c) s))"
  by (induction s arbitrary: acc) auto

lemma split_char_none: "c \<notin> set s \<Longrightarrow> split_acc [c] acc s = [rev acc @ s]"
  by (induction s arbitrary: acc) auto

lemma split_char_one: "c \<notin> set k \<Longrightarrow> c \<notin> set v \<Longrightarrow> split_acc [c] acc (k @ c # v) = [rev acc @ k, v]"
  by (induction k arbitrary: acc) (auto simp: split_char_none)

definition plain_header :: "string \<times> string \<Rightarrow> bool" where
  "plain_header h \<longleftrightarrow> CHR '':'' \<notin> set (fst h) \<and> CHR '':'' \<notin> set (snd h)"

lemma split_header_plain: "plain_header h \<Longrightarrow> go_split (header_part h) '':'' = [fst h, snd h]"
  by (simp add: go_split_def header_part_def plain_header_def split_char_one)

lemma split_header_other: "\<not> plain_header h \<Longrightarrow> \<exists>a b c ds. go_split (header_part h) '':'' = a # b # c # ds"
proof -
  assume "\<not> plain_header h"
  then have "filter (\<lambda>x. x = CHR '':'') (fst h) \<noteq> [] \<or> filter (\<lambda>x. x = CHR '':'') (snd h) \<noteq> []"
    by (auto simp: plain_header_def filter_empty_conv)
  then have "length (go_split (header_part h) '':'') \<ge> 3"
    by (auto simp: go_split_def length_split_char header_part_def Suc_le_eq)
  then show ?thesis by (auto simp: numeral_3_eq_3 Suc_le_length_iff)
qed

lemma parse_headers_encoded:
  "parse_headers (map header_part hs) acc =
     (if \<forall>h \<in> set hs. plain_header h then Some (acc @ map (\<lambda>h. (CanonicalMIMEHeaderKey (fst h), snd h)) hs)
      else None)"
proof (induction hs arbitrary: acc)
  case (Cons h hs)
  show ?case
  proof (cases "plain_header h")
    case True
    with Cons show ?thesis by (simp add: split_header_plain Header_Add_def)
  next
    case False
    with split_header_other[OF False] show ?thesis by auto
  qed
qed simp

text \<open>
  The headers a module appends to the URL of a request come out as they were put in, under their
  canonical names and in their order, and the URL too, when no name or value contains a colon. One
  header whose name or value does contain a colon makes the whole request fail.
\<close>

theorem url_headers_roundtrip:
  assumes "no_double url" "\<forall>h \<in> set hs. no_double (header_part h)"
  shows "hd (go_split (encode_url url hs) ''::'') = url
    \<and> parseHTTPHeaders (go_split (encode_url url hs) ''::'') =
        (if \<forall>h \<in> set hs. plain_header h then Some (map (\<lambda>h. (CanonicalMIMEHeaderKey (fst h), snd h)) hs)
         else None)"
  using split_encode_url[OF assms] parse_headers_encoded[of hs "[]"]
  by (cases hs) (auto simp: parseHTTPHeaders_def)

lemma url_headers_roundtrip_witness:
  "hd (go_split (encode_url ''http://h'' [(''accept'', ''x''), (''x-a'', ''y'')]) ''::'') = ''http://h''
   \<and> parseHTTPHeaders (go_split (encode_url ''http://h'' [(''accept'', ''x''), (''x-a'', ''y'')]) ''::'')
     = (if \<forall>h \<in> set [(''accept'', ''x''), (''x-a'', ''y'')]. plain_header h
        then Some (map (\<lambda>h. (CanonicalMIMEHeaderKey (fst h), snd h)) [(''accept'', ''x''), (''x-a'', ''y'')]) else None)"
  by (rule url_headers_roundtrip) (simp_all add: header_part_def)

section \<open>An engine with one running instance\<close>

definition no_caps :: capabilities where
  "no_caps = \<lparr>cap_GetField = (\<lambda>_ _ _. Inr ''value''), cap_SetField = (\<lambda>_ _ _ r. (Some ErrReqNotSet, r)),
     cap_SetResponseHeader = (\<lambda>_ _ r. (None, r)), cap_HTTPDo = (\<lambda>_ _ _ _. Inl ''no network''),
     cap_RequestFieldTypeMeta = 0\<rparr>"

definition idle_ctx :: job_ctx where
  "idle_ctx = \<lparr>ctx_ffiResult = None, ctx_ffiVars = Some [], jc_request = None\<rparr>"

definition one_engine :: engine where
  "one_engine = \<lparr>eg_insts = [(newInstance (Some ''keyval------''))\<lparr>wi_ctx := Some idle_ctx\<rparr>],
     eg_mapper = [7 \<mapsto> 0], eg_logs = []\<rparr>"

lemma one_engine_props:
  "eg_mapper one_engine 7 = Some 0" "0 < length (eg_insts one_engine)"
  "wi_ctx (inst_at 0 one_engine) = Some idle_ctx" "ctx_ffiResult idle_ctx = None"
  "wi_memory (inst_at 0 one_engine) = Some ''keyval------''" "wi_open (inst_at 0 one_engine)"
  by (simp_all add: one_engine_def idle_ctx_def inst_at_def newInstance_def)

lemma host_call_isolated_witness:
  "case call_host no_caps GetFFIResultHandler [0, 7] one_engine of
      None \<Rightarrow> hf_Name GetFFIResultHandler \<in> {''return_result'', ''return_error''}
    | Some (Inl e) \<Rightarrow> e \<in> {SliceBounds, MakeSliceLen, NilDereference}
    | Some (Inr (v, eg')) \<Rightarrow>
        eg_mapper eg' = eg_mapper one_engine
        \<and> (\<forall>a. eg_mapper one_engine (last [0, 7]) \<noteq> Some a \<longrightarrow> inst_at a eg' = inst_at a one_engine)
        \<and> (v \<noteq> None \<longleftrightarrow> hf_Returns GetFFIResultHandler)"
  by (rule host_call_isolated) (simp_all add: HostFunctions_def handler_defs)



lemma set_field_error_lost_witness:
  "\<exists>eg'. requestSetField no_caps 1 0 3 3 3 7 one_engine = Inr (0, eg')
    \<and> wi_ctx (inst_at 0 eg') = Some (idle_ctx\<lparr>jc_request := None, ctx_ffiResult := Some \<lparr>ffi_Result = [], ffi_Err = None\<rparr>\<rparr>)"
  by (rule set_field_error_lost[OF one_engine_props(1-5)]) (simp_all add: no_caps_def idle_ctx_def)

end
