(* ===== verification/WasmRunner.thy ===== *)
theory WasmRunner
  imports WasmApi
begin

text \<open>
  One job in a Wasm module: \<open>UseInstance\<close> of \<open>sat/engine2/runtime/pool.go\<close> and \<open>Run\<close> of
  \<open>sat/engine2/wasmrunnable.go\<close>. The guest's code is not under the repository: one run of it is given
  as what it does, the memory it leaves and the host functions it calls in order, which is all the host
  sees of it. The instance taken from the pool is an argument.
\<close>

section \<open>Using an instance\<close>

definition upd_inst :: "nat \<Rightarrow> (wasm_inst \<Rightarrow> wasm_inst) \<Rightarrow> engine \<Rightarrow> engine" where
  "upd_inst a f eg = set_inst a (f (inst_at a eg)) eg"

text \<open>The deferred \<open>Close\<close> runs on both returns.\<close>

definition UseInstance :: "32 word option list \<Rightarrow> nat \<Rightarrow> job_ctx \<Rightarrow> (nat \<Rightarrow> 32 word \<Rightarrow> engine \<Rightarrow> ('r \<times> engine) prog) \<Rightarrow>
    engine \<Rightarrow> ((string + 'r) \<times> engine) prog" where
  "UseInstance idents a c instFunc eg =
     (case Mapper_Store idents a eg of
        None \<Rightarrow> None
      | Some (Inl e, eg1) \<Rightarrow> Some (Inr (Inl (''failed to setupNewIdentifier: '' @ e), upd_inst a Instance_Close eg1))
      | Some (Inr ident, eg1) \<Rightarrow>
          prog_bind (instFunc a ident (upd_inst a (UseCtx (Some c)) eg1)) (\<lambda>(r, eg2).
            Some (Inr (Inr r, upd_inst a Instance_Close (Mapper_Remove ident (upd_inst a (UseCtx None) eg2))))))"

section \<open>The guest\<close>

text \<open>
  The guest rewrites its memory, or calls a host function with arguments it chose; an argument may be
  the identifier it was started with.
\<close>

datatype guest_arg = Const "32 word" | OwnIdent

datatype guest_act = SetMemory bytes | CallHost hostFn "guest_arg list"

text \<open>
  \<open>g_alloc\<close> is what \<open>allocate\<close> answers: an error, a value that is not an \<open>int32\<close>, or a pointer;
  \<open>g_trap\<close> is the error \<open>run_e\<close> ends with.
\<close>

record guest =
  g_alloc :: "string + 32 word option"
  g_acts :: "guest_act list"
  g_trap :: "string option"

fun guest_value :: "32 word \<Rightarrow> guest_arg \<Rightarrow> 32 word" where
  "guest_value ident (Const x) = x"
| "guest_value ident OwnIdent = ident"

fun run_acts :: "capabilities \<Rightarrow> nat \<Rightarrow> 32 word \<Rightarrow> guest_act list \<Rightarrow> engine \<Rightarrow> engine prog" where
  "run_acts caps a ident [] eg = Some (Inr eg)"
| "run_acts caps a ident (SetMemory m # acts) eg =
     run_acts caps a ident acts (upd_inst a (\<lambda>w. w\<lparr>wi_memory := Some m\<rparr>) eg)"
| "run_acts caps a ident (CallHost fn args # acts) eg =
     prog_bind (call_host caps fn (map (guest_value ident) args) eg) (\<lambda>(_, eg'). run_acts caps a ident acts eg')"

definition WriteMemory :: "string + 32 word option \<Rightarrow> bytes \<Rightarrow> wasm_inst \<Rightarrow> ((string + 32 word) \<times> wasm_inst) go" where
  "WriteMemory alloc data w =
     (case alloc of
        Inl e \<Rightarrow> Inr (Inl (''failed to Call allocate: '' @ e), w)
      | Inr None \<Rightarrow> Inl TypeAssertion
      | Inr (Some p) \<Rightarrow> go_bind (WriteMemoryAtLocation p data w) (\<lambda>w'. Inr (Inr p, w')))"

section \<open>Running a job\<close>

datatype wasm_error = WErr string | WRunErr run_err

record wasm_response =
  wr_Output :: "bytes option"
  wr_RespHeaders :: "(string \<rightharpoonup> string) option"

definition job_request :: "(nat \<Rightarrow> wasm_request) \<Rightarrow> (bytes \<Rightarrow> wasm_request option) \<Rightarrow> job \<Rightarrow> wasm_request option" where
  "job_request reqs decode j =
     (case job_data j of
        DRequest r \<Rightarrow> Some (reqs r)
      | _ \<Rightarrow> decode (case Job_Bytes j of Some b \<Rightarrow> b | None \<Rightarrow> []))"

text \<open>The check of the sequence a request carries; building the sequence writes its encoding back.\<close>

definition check_sequence :: "(string \<Rightarrow> step list option) \<Rightarrow> (step list \<Rightarrow> string option) \<Rightarrow> wasm_request \<Rightarrow>
    string + wasm_request" where
  "check_sequence decode encode req =
     (if rq_SequenceJSON req = '''' then Inr req
      else case FromJSON decode encode (rq_SequenceJSON req) (coord_request.truncate req) of
             Inl e \<Rightarrow> Inl (''failed to sequence.FromJSON: '' @ e)
           | Inr seq \<Rightarrow>
               (case NextStep seq of
                  None \<Rightarrow> Inl ''got nil NextStep''
                | Some _ \<Rightarrow> Inr (req\<lparr>rq_SequenceJSON := rq_SequenceJSON (sq_req seq)\<rparr>)))"

text \<open>
  The function given to \<open>UseInstance\<close>: output, run error, call error and the request as the host
  functions left it. \<open>Deallocate\<close> touches only the guest's memory, which is not used any more.
\<close>

definition run_module :: "capabilities \<Rightarrow> bool \<Rightarrow> guest \<Rightarrow> wasm_request \<Rightarrow> nat \<Rightarrow> 32 word \<Rightarrow> engine \<Rightarrow>
    ((bytes option \<times> wasm_error option \<times> string option \<times> wasm_request) \<times> engine) prog" where
  "run_module caps pick g req a ident eg =
     prog_bind (Some (WriteMemory (g_alloc g) (wq_Body req) (inst_at a eg))) (\<lambda>(wr, w).
       case wr of
         Inl e \<Rightarrow> Some (Inr ((None, Some (WErr (''failed to instance.writeMemory: '' @ e)), None, req), eg))
       | Inr inPointer \<Rightarrow>
           prog_bind (run_acts caps a ident (g_acts g) (set_inst a w eg)) (\<lambda>eg1.
             let ((out, err), w1) = ExecutionResult pick (inst_at a eg1);
                 req' = (case wi_ctx w1 of Some c \<Rightarrow> (case jc_request c of Some r \<Rightarrow> r | None \<Rightarrow> req) | None \<Rightarrow> req)
             in Some (Inr ((out, map_option WRunErr err, g_trap g, req'), set_inst a w1 eg1))))"

definition Run :: "capabilities \<Rightarrow> (nat \<Rightarrow> wasm_request) \<Rightarrow> (bytes \<Rightarrow> wasm_request option) \<Rightarrow>
    (string \<Rightarrow> step list option) \<Rightarrow> (step list \<Rightarrow> string option) \<Rightarrow> bool \<Rightarrow> 32 word option list \<Rightarrow> guest \<Rightarrow> nat \<Rightarrow>
    job \<Rightarrow> ctx \<Rightarrow> engine \<Rightarrow> ((wasm_error + wasm_response) \<times> engine) prog" where
  "Run caps reqs decode_req decode_seq encode_seq pick idents g a j c eg =
     (case job_request reqs decode_req j of
        None \<Rightarrow> Some (Inr (Inl (WErr ''job data is not a CoordinatedRequest''), eg))
      | Some req0 \<Rightarrow>
          (case check_sequence decode_seq encode_seq req0 of
             Inl e \<Rightarrow> Some (Inr (Inl (WErr e), eg))
           | Inr req \<Rightarrow>
               prog_bind (UseInstance idents a (ctx.extend c (job_ctx.fields (Some req)))
                            (run_module caps pick g req) eg) (\<lambda>(r, eg').
                 case r of
                   Inl e \<Rightarrow> Some (Inr (Inl (WErr (''failed to useInstance: '' @ e)), eg'))
                 | Inr (out, runErr, callErr, req') \<Rightarrow>
                     Some (Inr (case runErr of
                         Some e \<Rightarrow> Inl e
                       | None \<Rightarrow>
                           (case callErr of
                              Some e \<Rightarrow> Inl (WErr (''wasm execution error: '' @ e))
                            | None \<Rightarrow> Inr \<lparr>wr_Output = out, wr_RespHeaders = rq_RespHeaders req'\<rparr>), eg')))))"

text \<open>\<open>OnChange\<close> adds an instance when a worker thread starts and removes one when it stops.\<close>

datatype change_event = ChangeTypeStart | ChangeTypeStop

definition OnChange :: "change_event \<Rightarrow> ipool \<Rightarrow> ipool option" where
  "OnChange evt p = (case evt of ChangeTypeStart \<Rightarrow> AddInstance p | ChangeTypeStop \<Rightarrow> RemoveInstance p)"

section \<open>What a run keeps\<close>

text \<open>A call the linker accepts: a function of the table with its number of arguments.\<close>

fun linked :: "guest_act \<Rightarrow> bool" where
  "linked (SetMemory m) = True"
| "linked (CallHost fn args) = (fn \<in> set HostFunctions \<and> length args = hf_ArgCount fn)"

fun quiet :: "guest_act \<Rightarrow> bool" where
  "quiet (SetMemory m) = True"
| "quiet (CallHost fn args) = (fn \<noteq> ReturnResultHandler \<and> fn \<noteq> ReturnErrorHandler)"

lemma linked_call_mapper:
  assumes "fn \<in> set HostFunctions" "length args = hf_ArgCount fn" "call_host caps fn args eg = Some (Inr (v, eg'))"
  shows "eg_mapper eg' = eg_mapper eg \<and> length (eg_insts eg') = length (eg_insts eg)"
proof -
  have "call_ok caps fn args eg"
    using assms(1,2) calls_ok[of args caps eg] by (auto simp: HostFunctions_def handler_defs)
  then show ?thesis using assms(3) by (simp add: call_ok_def frame_def)
qed

lemma upd_inst_simps [simp]:
  "eg_mapper (upd_inst a f eg) = eg_mapper eg" "length (eg_insts (upd_inst a f eg)) = length (eg_insts eg)"
  "a < length (eg_insts eg) \<Longrightarrow> inst_at a (upd_inst a f eg) = f (inst_at a eg)"
  by (simp_all add: upd_inst_def)

lemma run_acts_mapper:
  "run_acts caps a i acts eg = Some (Inr eg') \<Longrightarrow> list_all linked acts \<Longrightarrow>
     eg_mapper eg' = eg_mapper eg \<and> length (eg_insts eg') = length (eg_insts eg)"
proof (induction caps a i acts eg rule: run_acts.induct)
  case (3 caps a i fn args acts eg)
  from 3(2) obtain v eg1 where c: "call_host caps fn (map (guest_value i) args) eg = Some (Inr (v, eg1))"
    and r: "run_acts caps a i acts eg1 = Some (Inr eg')"
    by (auto elim!: prog_bind_InrE)
  from 3(3) have l: "fn \<in> set HostFunctions" "length (map (guest_value i) args) = hf_ArgCount fn"
    "list_all linked acts" by auto
  from linked_call_mapper[OF l(1,2) c] 3(1)[OF r l(3)] show ?case by simp
qed auto

lemma Mapper_Store_spec:
  "Mapper_Store ids a eg = Some (Inr i, eg') \<Longrightarrow>
     eg_mapper eg i = None \<and> eg' = eg\<lparr>eg_mapper := (eg_mapper eg)(i \<mapsto> a)\<rparr>"
  "Mapper_Store ids a eg = Some (Inl e, eg') \<Longrightarrow> eg' = eg"
  by (induction ids a eg rule: Mapper_Store.induct) (auto split: if_split_asm)

lemma Mapper_Remove_simps [simp]:
  "eg_mapper (Mapper_Remove i eg) = (eg_mapper eg)(i := None)" "eg_insts (Mapper_Remove i eg) = eg_insts eg"
  "inst_at b (Mapper_Remove i eg) = inst_at b eg"
  by (simp_all add: Mapper_Remove_def inst_at_def)

lemma run_module_mapper:
  assumes "run_module caps pick g req a i eg = Some (Inr (r, eg'))" "list_all linked (g_acts g)"
  shows "eg_mapper eg' = eg_mapper eg \<and> length (eg_insts eg') = length (eg_insts eg)"
  using assms
  by (auto simp: run_module_def Let_def elim!: prog_bind_InrE split: sum.split_asm prod.split_asm)
    (drule (1) run_acts_mapper, simp)+

lemma UseInstance_cleanup:
  assumes "UseInstance ids a c (run_module caps pick g req) eg = Some (Inr (r, eg'))"
    and "list_all linked (g_acts g)" "a < length (eg_insts eg)"
  shows "eg_mapper eg' = eg_mapper eg \<and> \<not> wi_open (inst_at a eg') \<and> wi_ctx (inst_at a eg') = None"
proof -
  from assms(1) obtain res eg1 where st: "Mapper_Store ids a eg = Some (res, eg1)"
    by (auto simp: UseInstance_def split: option.split_asm)
  show ?thesis
  proof (cases res)
    case (Inl e)
    with Mapper_Store_spec(2)[of ids a eg e eg1] st assms show ?thesis
      by (auto simp: UseInstance_def Instance_Close_def)
  next
    case (Inr i)
    with Mapper_Store_spec(1)[of ids a eg i eg1] st have m:
      "eg_mapper eg i = None" "eg1 = eg\<lparr>eg_mapper := (eg_mapper eg)(i \<mapsto> a)\<rparr>" by auto
    from assms(1) st Inr obtain x eg2 where
      r: "run_module caps pick g req a i (upd_inst a (UseCtx (Some c)) eg1) = Some (Inr (x, eg2))"
      and eg': "eg' = upd_inst a Instance_Close (Mapper_Remove i (upd_inst a (UseCtx None) eg2))"
      by (auto simp: UseInstance_def elim!: prog_bind_InrE)
    from run_module_mapper[OF r assms(2)] m have
      "eg_mapper eg2 = (eg_mapper eg)(i \<mapsto> a)" "length (eg_insts eg2) = length (eg_insts eg)" by simp_all
    with eg' m(1) assms(3) show ?thesis by (auto simp: Instance_Close_def)
  qed
qed

text \<open>
  Whatever a module does, a run that returns leaves the table of identifiers as it was, so the
  identifier of the job's instance is forgotten; the instance is closed and has no context. A run that
  returns before it uses the instance changes nothing.
\<close>

theorem run_leaves_no_identifier:
  assumes "Run caps reqs dr ds es pick ids g a j c eg = Some (Inr (r, eg'))"
    and "list_all linked (g_acts g)" "a < length (eg_insts eg)"
  shows "eg_mapper eg' = eg_mapper eg
    \<and> (eg' = eg \<or> \<not> wi_open (inst_at a eg') \<and> wi_ctx (inst_at a eg') = None)"
proof (cases "job_request reqs dr j")
  case None
  with assms(1) show ?thesis by (simp add: Run_def)
next
  case (Some req0)
  show ?thesis
  proof (cases "check_sequence ds es req0")
    case (Inl e)
    with Some assms(1) show ?thesis by (simp add: Run_def)
  next
    case (Inr req)
    with Some assms(1) obtain x where
      "UseInstance ids a (ctx.extend c (job_ctx.fields (Some req))) (run_module caps pick g req) eg = Some (Inr (x, eg'))"
      by (auto simp: Run_def elim!: prog_bind_InrE split: sum.split_asm prod.split_asm)
    from UseInstance_cleanup[OF this assms(2,3)] show ?thesis by blast
  qed
qed

section \<open>The result of a run\<close>

text \<open>The parts of an instance only the two returning functions write.\<close>

definition chans :: "wasm_inst \<Rightarrow> bytes list \<times> run_err list \<times> bool" where
  "chans w = (wi_resultChan w, wi_errChan w, wi_open w)"

definition keeps :: "engine \<Rightarrow> engine \<Rightarrow> bool" where
  "keeps eg eg' \<longleftrightarrow> (\<forall>b. chans (inst_at b eg') = chans (inst_at b eg))"

lemma chans_upd [simp]:
  "chans (w\<lparr>wi_ctx := c\<rparr>) = chans w" "chans (w\<lparr>wi_memory := m\<rparr>) = chans w"
  by (simp_all add: chans_def)

lemma keeps_refl [simp, intro]: "keeps eg eg"
  by (simp add: keeps_def)

lemma keeps_trans: "keeps eg eg' \<Longrightarrow> keeps eg' eg'' \<Longrightarrow> keeps eg eg''"
  by (simp add: keeps_def)

lemma keeps_set_inst: "chans w = chans (inst_at a eg) \<Longrightarrow> keeps eg (set_inst a w eg)"
  by (auto simp: keeps_def set_inst_def inst_at_def nth_upd)

lemma keeps_put_ctx [simp]: "keeps eg (put_ctx a c eg)"
  by (simp add: put_ctx_def keeps_set_inst)

lemma WriteMemory_chans: "WriteMemoryAtLocation p d w = Inr w' \<Longrightarrow> chans w' = chans w"
  by (auto simp: WriteMemoryAtLocation_def elim!: go_bind_InrE split: option.split_asm)

lemma finish_ffi_keeps: "finish_ffi res err a eg = Inr (v, eg') \<Longrightarrow> keeps eg eg'"
  by (auto simp: finish_ffi_def elim!: go_bind_InrE split: prod.split_asm option.split_asm)

named_theorems keeping \<open>host functions that leave results alone\<close>

lemma getFfiResult_keeps [keeping]: "getFfiResult p i eg = Inr (v, eg') \<Longrightarrow> keeps eg eg'"
  by (auto simp: getFfiResult_def elim!: go_bind_InrE intro!: keeps_set_inst dest!: WriteMemory_chans
      split: sum.split_asm prod.split_asm option.split_asm)

lemma addFfiVar_keeps [keeping]: "addFfiVar np nl vp vl i eg = Inr (v, eg') \<Longrightarrow> keeps eg eg'"
  by (auto simp: addFfiVar_def elim!: go_bind_InrE split: sum.split_asm)

lemma fetchUrl_keeps [keeping]: "fetchUrl caps m up us bp bs i eg = Inr (v, eg') \<Longrightarrow> keeps eg eg'"
  by (auto simp: fetchUrl_def Let_def elim!: go_bind_InrE
      split: sum.split_asm option.split_asm prod.split_asm) (erule finish_ffi_keeps)+

lemma logMsg_keeps [keeping]: "logMsg caps p n l i eg = Inr eg' \<Longrightarrow> keeps eg eg'"
  by (auto simp: logMsg_def Let_def keeps_def inst_at_def elim!: go_bind_InrE split: sum.split_asm)

lemma requestGetField_keeps [keeping]: "requestGetField caps f kp ks i eg = Inr (v, eg') \<Longrightarrow> keeps eg eg'"
  by (auto simp: requestGetField_def elim!: go_bind_InrE
      split: sum.split_asm cap_err.split_asm) (erule finish_ffi_keeps)+

lemma requestSetField_keeps [keeping]:
  "requestSetField caps f kp ks vp vs i eg = Inr (v, eg') \<Longrightarrow> keeps eg eg'"
  by (auto simp: requestSetField_def elim!: go_bind_InrE split: sum.split_asm prod.split_asm)
    (erule keeps_trans[OF keeps_put_ctx finish_ffi_keeps])

lemma responseSetHeader_keeps [keeping]:
  "responseSetHeader caps kp ks vp vs i eg = Inr (v, eg') \<Longrightarrow> keeps eg eg'"
  by (auto simp: responseSetHeader_def elim!: go_bind_InrE split: sum.split_asm prod.split_asm)

lemma quiet_call_keeps:
  assumes "fn \<in> set HostFunctions" "length args = hf_ArgCount fn" "quiet (CallHost fn as)"
    and "call_host caps fn args eg = Some (Inr (v, eg'))"
  shows "keeps eg eg'"
proof -
  have "fn = GetFFIResultHandler \<or> fn = AddFFIVariableHandler \<or> fn = FetchURLHandler \<or> fn = LogMsgHandler
    \<or> fn = RequestGetFieldHandler \<or> fn = RequestSetFieldHandler \<or> fn = RespSetHeaderHandler"
    using assms(1,3) by (auto simp: HostFunctions_def)
  then show ?thesis using assms(2,4)
    by (elim disjE) (auto simp: call_host_def host_body_def handler_defs args_lengths valued_cases void_cases
        elim!: go_bind_InrE dest: keeping)
qed

lemma run_acts_keeps:
  "run_acts caps a i acts eg = Some (Inr eg') \<Longrightarrow> list_all linked acts \<Longrightarrow> list_all quiet acts \<Longrightarrow> keeps eg eg'"
proof (induction caps a i acts eg rule: run_acts.induct)
  case (2 caps a i m acts eg)
  then have "keeps (upd_inst a (\<lambda>w. w\<lparr>wi_memory := Some m\<rparr>) eg) eg'" by simp
  moreover have "keeps eg (upd_inst a (\<lambda>w. w\<lparr>wi_memory := Some m\<rparr>) eg)"
    by (simp add: upd_inst_def keeps_set_inst)
  ultimately show ?case by (rule keeps_trans[rotated])
next
  case (3 caps a i fn args acts eg)
  from 3(2) obtain v eg1 where c: "call_host caps fn (map (guest_value i) args) eg = Some (Inr (v, eg1))"
    and r: "run_acts caps a i acts eg1 = Some (Inr eg')"
    by (auto elim!: prog_bind_InrE)
  from 3(3,4) have l: "fn \<in> set HostFunctions" "length (map (guest_value i) args) = hf_ArgCount fn"
    "list_all linked acts" "quiet (CallHost fn args)" "list_all quiet acts" by auto
  from quiet_call_keeps[OF l(1,2,4) c] 3(1)[OF r l(3,5)] show ?case by (rule keeps_trans)
qed auto

lemma run_acts_append:
  "run_acts caps a i (xs @ ys) eg = prog_bind (run_acts caps a i xs eg) (run_acts caps a i ys)"
proof (induction caps a i xs eg rule: run_acts.induct)
  case (3 caps a i fn args acts eg)
  then show ?case
    by (cases "call_host caps fn (map (guest_value i) args) eg" rule: option.exhaust[case_product sum.exhaust])
       (auto simp: prog_bind_def split: option.split sum.split prod.split)
qed auto

text \<open>The engine when the guest starts: its instance is known, has its context, and the input is in memory.\<close>

definition start_engine :: "nat \<Rightarrow> 32 word \<Rightarrow> job_ctx \<Rightarrow> bytes \<Rightarrow> engine \<Rightarrow> engine" where
  "start_engine a i c m eg =
     set_inst a ((newInstance (Some m))\<lparr>wi_ctx := Some c\<rparr>) (eg\<lparr>eg_mapper := (eg_mapper eg)(i \<mapsto> a)\<rparr>)"

definition put_input :: "nat \<Rightarrow> bytes \<Rightarrow> bytes \<Rightarrow> bytes" where
  "put_input p body m = take p m @ body @ drop (p + length body) m"

lemma returnResult_in:
  assumes "eg_mapper eg i = Some a" "wi_memory (inst_at a eg) = Some m" "wi_open (inst_at a eg)"
    and "wi_resultChan (inst_at a eg) = []" "0 \<le> sint q" "0 \<le> sint n" "sint q + sint n \<le> int (length m)"
  shows "returnResult q n i eg = Some (Inr (set_inst a ((inst_at a eg)\<lparr>wi_resultChan :=
           [take (nat (sint n)) (drop (nat (sint q)) m)]\<rparr>) eg))"
  using assms by (simp add: returnResult_def ForIdentifier_False ReadMemory_in SendExecutionResult_def chan_send_def)

lemma run_module_returns:
  assumes fresh: "eg_mapper eg i = None" "a < length (eg_insts eg)" "inst_at a eg = newInstance (Some m)"
    and alloc: "g_alloc g = Inr (Some p)" "0 \<le> sint p" "sint p + int (length (wq_Body req)) \<le> int (length m)"
    and acts: "g_acts g = pre @ [CallHost ReturnResultHandler [Const q, Const n, OwnIdent]]"
      "list_all linked pre" "list_all quiet pre"
    and run: "run_acts caps a i pre (start_engine a i c (put_input (nat (sint p)) (wq_Body req) m) eg) = Some (Inr eg1)"
    and mem: "wi_memory (inst_at a eg1) = Some m1" "0 \<le> sint q" "0 \<le> sint n" "sint q + sint n \<le> int (length m1)"
  shows "\<exists>req' eg2. run_module caps pick g req a i
      (upd_inst a (UseCtx (Some c)) (eg\<lparr>eg_mapper := (eg_mapper eg)(i \<mapsto> a)\<rparr>)) =
        Some (Inr ((Some (take (nat (sint n)) (drop (nat (sint q)) m1)), None, g_trap g, req'), eg2))"
proof -
  let ?begun = "upd_inst a (UseCtx (Some c)) (eg\<lparr>eg_mapper := (eg_mapper eg)(i \<mapsto> a)\<rparr>)"
  let ?eg = "start_engine a i c (put_input (nat (sint p)) (wq_Body req) m) eg"
  have at: "inst_at a (eg\<lparr>eg_mapper := (eg_mapper eg)(i \<mapsto> a)\<rparr>) = newInstance (Some m)"
    using fresh(3) by (simp add: inst_at_def)
  have i0: "inst_at a ?begun = (newInstance (Some m))\<lparr>wi_ctx := Some c\<rparr>"
    using fresh(2) by (simp add: at UseCtx_def)
  have w: "WriteMemory (g_alloc g) (wq_Body req) (inst_at a ?begun) =
      Inr (Inr p, (newInstance (Some (put_input (nat (sint p)) (wq_Body req) m)))\<lparr>wi_ctx := Some c\<rparr>)"
    using alloc by (simp add: WriteMemory_def WriteMemoryAtLocation_def i0 go_slice_from_def newInstance_def
        put_input_def go_copy_short add.commute nat_le_iff)
  have s: "set_inst a ((newInstance (Some (put_input (nat (sint p)) (wq_Body req) m)))\<lparr>wi_ctx := Some c\<rparr>) ?begun = ?eg"
    by (simp add: start_engine_def upd_inst_def)
  have i1: "inst_at a ?eg = (newInstance (Some (put_input (nat (sint p)) (wq_Body req) m)))\<lparr>wi_ctx := Some c\<rparr>"
    using fresh(2) by (simp add: start_engine_def)
  have "eg_mapper eg1 = eg_mapper ?eg" "length (eg_insts eg1) = length (eg_insts eg)"
    using run_acts_mapper[OF run acts(2)] by (simp_all add: start_engine_def)
  then have e1: "eg_mapper eg1 i = Some a" "a < length (eg_insts eg1)"
    using fresh(2) by (simp_all add: start_engine_def)
  have "chans (inst_at a eg1) = chans (inst_at a ?eg)"
    using run_acts_keeps[OF run acts(2,3)] by (simp add: keeps_def)
  then have ch: "wi_resultChan (inst_at a eg1) = []" "wi_errChan (inst_at a eg1) = []" "wi_open (inst_at a eg1)"
    by (simp_all add: chans_def i1 newInstance_def)
  let ?out = "take (nat (sint n)) (drop (nat (sint q)) m1)"
  have "run_acts caps a i (g_acts g) ?eg = Some (Inr (set_inst a ((inst_at a eg1)\<lparr>wi_resultChan := [?out]\<rparr>) eg1))"
    using run returnResult_in[OF e1(1) mem(1) ch(3,1) mem(2,3,4)]
    by (simp add: acts(1) run_acts_append call_host_def host_body_def handler_defs)
  with w s e1(2) ch(2) show ?thesis
    by (simp add: run_module_def ExecutionResult_def Let_def)
qed

text \<open>
  C12: A module that starts with its input in memory at the pointer it allocated, calls whatever host
  functions it likes and then returns a range of its memory as its result and does not trap: the job's
  result is exactly those bytes, and the identifier of its instance is free again.
\<close>

theorem run_returns_module_output:
  assumes "job_request reqs dr j = Some req0" "check_sequence ds es req0 = Inr req"
    and "eg_mapper eg i = None" "a < length (eg_insts eg)" "inst_at a eg = newInstance (Some m)"
    and "g_alloc g = Inr (Some p)" "0 \<le> sint p" "sint p + int (length (wq_Body req)) \<le> int (length m)"
    and "g_acts g = pre @ [CallHost ReturnResultHandler [Const q, Const n, OwnIdent]]"
      "list_all linked pre" "list_all quiet pre" "g_trap g = None"
    and "run_acts caps a i pre (start_engine a i (ctx.extend c (job_ctx.fields (Some req)))
           (put_input (nat (sint p)) (wq_Body req) m) eg) = Some (Inr eg1)"
    and "wi_memory (inst_at a eg1) = Some m1" "0 \<le> sint q" "0 \<le> sint n" "sint q + sint n \<le> int (length m1)"
  shows "\<exists>resp eg'. Run caps reqs dr ds es pick (Some i # ids) g a j c eg = Some (Inr (Inr resp, eg'))
    \<and> wr_Output resp = Some (take (nat (sint n)) (drop (nat (sint q)) m1)) \<and> eg_mapper eg' i = None"
proof -
  from run_module_returns[OF assms(3-11,13-17), of pick] assms(1,2,3,12) show ?thesis
    by (auto simp: Run_def UseInstance_def)
qed

text \<open>A module that asks for a field, fetches it into memory and returns it.\<close>

definition echo_field :: guest where
  "echo_field = \<lparr>g_alloc = Inr (Some 0),
     g_acts = [CallHost RequestGetFieldHandler [Const 1, Const 0, Const 3, OwnIdent],
               CallHost GetFFIResultHandler [Const 6, OwnIdent]]
       @ [CallHost ReturnResultHandler [Const 6, Const 5, OwnIdent]], g_trap = None\<rparr>"

definition key_request :: wasm_request where
  "key_request = \<lparr>rq_ID = ''id'', rq_State = None, rq_RespHeaders = None, rq_SequenceJSON = '''', wq_Body = ''key''\<rparr>"

definition key_job :: job where
  "key_job = \<lparr>job_uuid = '''', job_jobType = '''', job_data = DRequest 0, job_req = Some 0\<rparr>"

definition fresh_engine :: engine where
  "fresh_engine = \<lparr>eg_insts = [newInstance (Some ''------------'')], eg_mapper = Map.empty, eg_logs = []\<rparr>"

lemmas echo_defs = echo_field_def key_request_def key_job_def fresh_engine_def no_caps_def newCtx_def

lemma echo_pre_runs:
  "\<exists>eg1. run_acts no_caps 0 7 [CallHost RequestGetFieldHandler [Const 1, Const 0, Const 3, OwnIdent],
          CallHost GetFFIResultHandler [Const 6, OwnIdent]]
      (start_engine 0 7 (ctx.extend newCtx (job_ctx.fields (Some key_request)))
         (put_input (nat (sint (0 :: 32 word))) (wq_Body key_request) ''------------'') fresh_engine) = Some (Inr eg1)
    \<and> wi_memory (inst_at 0 eg1) = Some ''key---value-''"
  by (simp add: call_host_def host_body_def handler_defs requestGetField_def getFfiResult_def valued_def
      ForIdentifier_def start_engine_def put_input_def inst_at_def set_inst_def newInstance_def echo_defs
      ReadMemory_def WriteMemoryAtLocation_def go_slice_from_def go_copy_def Ctx_def finish_ffi_def put_ctx_def
      SetFFIResult_def UseFFIResult_def FFISize_def ctx.defs job_ctx.defs Let_def eval_nat_numeral)

lemma echo_setup:
  "job_request (\<lambda>_. key_request) dr key_job = Some key_request"
  "check_sequence ds es key_request = Inr key_request" "eg_mapper fresh_engine 7 = None"
  "0 < length (eg_insts fresh_engine)" "inst_at 0 fresh_engine = newInstance (Some ''------------'')"
  "g_alloc echo_field = Inr (Some 0)"
  "sint (0 :: 32 word) + int (length (wq_Body key_request)) \<le> int (length ''------------'')"
  "g_trap echo_field = None"
  by (simp_all add: job_request_def check_sequence_def inst_at_def echo_defs)

lemma run_returns_module_output_witness:
  "\<exists>resp eg'. Run no_caps (\<lambda>_. key_request) (\<lambda>_. None) (\<lambda>_. None) (\<lambda>_. None) True [Some 7] echo_field 0
       key_job newCtx fresh_engine = Some (Inr (Inr resp, eg'))
    \<and> wr_Output resp = Some ''value'' \<and> eg_mapper eg' 7 = None"
proof -
  obtain eg1 where run: "run_acts no_caps 0 7 [CallHost RequestGetFieldHandler [Const 1, Const 0, Const 3, OwnIdent],
          CallHost GetFFIResultHandler [Const 6, OwnIdent]]
      (start_engine 0 7 (ctx.extend newCtx (job_ctx.fields (Some key_request)))
         (put_input (nat (sint (0 :: 32 word))) (wq_Body key_request) ''------------'') fresh_engine) = Some (Inr eg1)"
    and mem: "wi_memory (inst_at 0 eg1) = Some ''key---value-''" using echo_pre_runs by blast
  have "\<exists>resp eg'. Run no_caps (\<lambda>_. key_request) (\<lambda>_. None) (\<lambda>_. None) (\<lambda>_. None) True [Some 7] echo_field 0
       key_job newCtx fresh_engine = Some (Inr (Inr resp, eg'))
    \<and> wr_Output resp = Some (take (nat (sint (5 :: 32 word))) (drop (nat (sint (6 :: 32 word))) ''key---value-''))
    \<and> eg_mapper eg' 7 = None"
    by (rule run_returns_module_output[OF echo_setup(1-6) _ echo_setup(7) _ _ _ echo_setup(8) run mem,
          where q = 6 and n = 5])
       (simp_all add: echo_field_def HostFunctions_def handler_defs)
  then show ?thesis by simp
qed

lemma run_leaves_no_identifier_witness:
  "\<exists>r eg'. Run no_caps (\<lambda>_. key_request) (\<lambda>_. None) (\<lambda>_. None) (\<lambda>_. None) True [None]
       echo_field 0 key_job newCtx fresh_engine = Some (Inr (r, eg'))
    \<and> eg_mapper eg' = eg_mapper fresh_engine
    \<and> (eg' = fresh_engine \<or> \<not> wi_open (inst_at 0 eg') \<and> wi_ctx (inst_at 0 eg') = None)"
proof -
  have "\<exists>r eg'. Run no_caps (\<lambda>_. key_request) (\<lambda>_. None) (\<lambda>_. None) (\<lambda>_. None) True [None]
       echo_field 0 key_job newCtx fresh_engine = Some (Inr (r, eg'))"
    using echo_setup(1,2) by (simp add: Run_def UseInstance_def)
  then obtain r eg' where run: "Run no_caps (\<lambda>_. key_request) (\<lambda>_. None) (\<lambda>_. None) (\<lambda>_. None) True [None]
       echo_field 0 key_job newCtx fresh_engine = Some (Inr (r, eg'))" by blast
  have "list_all linked (g_acts echo_field)"
    by (simp add: echo_field_def HostFunctions_def handler_defs)
  from run_leaves_no_identifier[OF run this echo_setup(4)] run show ?thesis by blast
qed

end
