(* ===== verification/Linker.thy ===== *)
theory Linker
  imports WasmRunner
begin

text \<open>
  How a module gets its instances and reaches the host (\<open>sat/engine2/runtime/pool.go\<close>,
  \<open>runtime/instance/instance.go\<close>, \<open>api/api.go\<close>): the module is compiled and linked once for a pool, every
  host function is defined in the linker under its type, and a new instance runs its \<open>_start\<close>. Compiling,
  the WASI functions and instantiating are wasmtime's and are arguments, as is what an export does. Floating
  point values are their bits.
\<close>

section \<open>Types and values\<close>

datatype wasm_type = I32 | I64 | F32 | F64

datatype wasm_val = ValI32 "32 word" | ValI64 "64 word" | ValF32 "32 word" | ValF64 "64 word"

record func_type =
  ft_params :: "wasm_type list"
  ft_returns :: "wasm_type list"

fun type_of :: "wasm_val \<Rightarrow> wasm_type" where
  "type_of (ValI32 _) = I32"
| "type_of (ValI64 _) = I64"
| "type_of (ValF32 _) = F32"
| "type_of (ValF64 _) = F64"

text \<open>\<open>Val.I32\<close> panics for a value of another type.\<close>

fun val_i32 :: "wasm_val \<Rightarrow> 32 word go" where
  "val_i32 (ValI32 x) = Inr x"
| "val_i32 _ = Inl TypeAssertion"

section \<open>Host functions in the linker\<close>

text \<open>The type a host function is defined under: as many \<open>i32\<close> as it has arguments, and one if it returns.\<close>

definition host_type :: "hostFn \<Rightarrow> func_type" where
  "host_type fn = \<lparr>ft_params = replicate (hf_ArgCount fn) I32, ft_returns = (if hf_Returns fn then [I32] else [])\<rparr>"

text \<open>The loop over the arguments of a call: it goes by the number of arguments of the function.\<close>

fun host_args :: "nat \<Rightarrow> wasm_val list \<Rightarrow> 32 word list go" where
  "host_args 0 args = Inr []"
| "host_args (Suc n) [] = Inl IndexOutOfRange"
| "host_args (Suc n) (a # args) = go_bind (val_i32 a) (\<lambda>x. go_bind (host_args n args) (\<lambda>xs. Inr (x # xs)))"

text \<open>What wasmtime calls; no handler answers an error.\<close>

definition wasmtimeFunc :: "capabilities \<Rightarrow> hostFn \<Rightarrow> wasm_val list \<Rightarrow> engine \<Rightarrow> (wasm_val list \<times> engine) prog" where
  "wasmtimeFunc caps fn args eg =
     prog_bind (Some (host_args (hf_ArgCount fn) args)) (\<lambda>xs.
     prog_bind (host_body caps (hf_Name fn) xs eg) (\<lambda>(result, eg').
       Some (Inr (case result of None \<Rightarrow> [] | Some v \<Rightarrow> [ValI32 v], eg'))))"

text \<open>
  The linker: module and name to a type and, for a host function, the function. A second definition of a
  name is refused, and the error is ignored.
\<close>

type_synonym linker = "string \<times> string \<rightharpoonup> func_type \<times> hostFn option"

definition FuncNew :: "string \<Rightarrow> string \<Rightarrow> func_type \<Rightarrow> hostFn \<Rightarrow> linker \<Rightarrow> linker" where
  "FuncNew modul name ft fn l = (if l (modul, name) = None then l((modul, name) \<mapsto> (ft, Some fn)) else l)"

definition addHostFns :: "hostFn list \<Rightarrow> linker \<Rightarrow> linker" where
  "addHostFns fns l = fold (\<lambda>fn. FuncNew ''env'' (hf_Name fn) (host_type fn) fn) fns l"

section \<open>The host's API\<close>

text \<open>
  The capabilities are made of a configuration by a library. The API with the default configuration takes
  it for granted that they are: after an error it is nil (\<open>None\<close>), and asking it for its functions panics.
\<close>

definition NewWithConfig :: "('c \<Rightarrow> string + capabilities) \<Rightarrow> 'c \<Rightarrow> string + capabilities" where
  "NewWithConfig newCaps config = map_sum (\<lambda>e. ''failed to capabilities.NewWithConfig: '' @ e) (\<lambda>c. c) (newCaps config)"

definition api_New :: "('c \<Rightarrow> string + capabilities) \<Rightarrow> 'c \<Rightarrow> capabilities option" where
  "api_New newCaps config = (case NewWithConfig newCaps config of Inl _ \<Rightarrow> None | Inr c \<Rightarrow> Some c)"

definition api_HostFunctions :: "capabilities option \<Rightarrow> hostFn list go" where
  "api_HostFunctions api = (case api of None \<Rightarrow> Inl NilDereference | Some _ \<Rightarrow> Inr HostFunctions)"

section \<open>The internals of a pool\<close>

text \<open>The code of the module, the host functions, and the compiled module with its linker once there is one.\<close>

record 'm pool_env =
  pe_data :: bytes
  pe_hostFns :: "hostFn list"
  pe_module :: "('m \<times> linker) option"

definition new_env :: "bytes \<Rightarrow> 'm pool_env" where
  "new_env data = \<lparr>pe_data = data, pe_hostFns = HostFunctions, pe_module = None\<rparr>"

definition newRunnerFromRef :: "bytes \<Rightarrow> capabilities option \<Rightarrow> ('m pool_env \<times> ipool) go" where
  "newRunnerFromRef data api =
     go_bind (api_HostFunctions api) (\<lambda>fns. Inr ((new_env data)\<lparr>pe_hostFns := fns\<rparr>, NewInstancePool))"

definition internals :: "(bytes \<Rightarrow> string + 'm) \<Rightarrow> string + linker \<Rightarrow> 'm pool_env \<Rightarrow> (string + 'm \<times> linker) \<times> 'm pool_env" where
  "internals compile wasi env =
     (case pe_module env of
        Some ml \<Rightarrow> (Inr ml, env)
      | None \<Rightarrow>
          (case compile (pe_data env) of
             Inl e \<Rightarrow> (Inl (''failed to NewModule: '' @ e), env)
           | Inr m \<Rightarrow>
               (case wasi of
                  Inl e \<Rightarrow> (Inl (''failed to DefineWasi: '' @ e), env)
                | Inr l \<Rightarrow> (let ml = (m, addHostFns (pe_hostFns env) l)
                            in (Inr ml, env\<lparr>pe_module := Some ml\<rparr>)))))"

text \<open>\<open>Call\<close> of an export; \<open>None\<close> in the exports is a missing one.\<close>

datatype call_error = ExportNotFound string | CallFailed string

definition Instance_Call :: "(string \<rightharpoonup> 'a \<Rightarrow> string + 'b) \<Rightarrow> string \<Rightarrow> 'a \<Rightarrow> call_error + 'b" where
  "Instance_Call exports fn args =
     (case exports fn of
        None \<Rightarrow> Inl (ExportNotFound (''function '' @ fn @ '' not found''))
      | Some f \<Rightarrow> map_sum (\<lambda>e. CallFailed (''failed to wasmFunc: '' @ e)) (\<lambda>r. r) (f args))"

text \<open>A new instance: its memory, and its exports for the call of \<open>_start\<close>.\<close>

definition new_instance :: "(bytes \<Rightarrow> string + 'm) \<Rightarrow> string + linker \<Rightarrow>
    ('m \<Rightarrow> linker \<Rightarrow> string + bytes option \<times> (string \<rightharpoonup> unit \<Rightarrow> string + unit)) \<Rightarrow> 'm pool_env \<Rightarrow>
    (string + wasm_inst) \<times> 'm pool_env" where
  "new_instance compile wasi instantiate env =
     (case internals compile wasi env of
        (Inl e, env') \<Rightarrow> (Inl (''failed to internals: '' @ e), env')
      | (Inr (m, l), env') \<Rightarrow>
          (case instantiate m l of
             Inl e \<Rightarrow> (Inl (''failed to linker.Instantiate: '' @ e), env')
           | Inr (mem, exports) \<Rightarrow>
               (case Instance_Call exports ''_start'' () of
                  Inl (CallFailed e) \<Rightarrow> (Inl (''failed to call exported _start: '' @ e), env')
                | _ \<Rightarrow> (Inr (newInstance mem), env'))))"

text \<open>
  Adding an instance to the channel; on the goroutine of a use an error is a panic, which nothing
  recovers.
\<close>

definition add_instance :: "(bytes \<Rightarrow> string + 'm) \<Rightarrow> string + linker \<Rightarrow>
    ('m \<Rightarrow> linker \<Rightarrow> string + bytes option \<times> (string \<rightharpoonup> unit \<Rightarrow> string + unit)) \<Rightarrow> 'm pool_env \<Rightarrow> ipool \<Rightarrow>
    (string option \<times> 'm pool_env \<times> ipool) option" where
  "add_instance compile wasi instantiate env p =
     (case new_instance compile wasi instantiate env of
        (Inl e, env') \<Rightarrow> Some (Some (''failed to builder.New: '' @ e), env', p)
      | (Inr w, env') \<Rightarrow> map_option (\<lambda>p'. (None, env', p')) (AddInstance p))"

section \<open>Lemmas\<close>

lemma host_args_i32: "host_args n (map ValI32 xs) = (if length xs < n then Inl IndexOutOfRange else Inr (take n xs))"
proof (induction n arbitrary: xs)
  case (Suc n)
  then show ?case by (cases xs) simp_all
qed simp

lemma values_i32: "map type_of vs = replicate n I32 \<Longrightarrow> \<exists>xs. vs = map ValI32 xs \<and> length xs = n"
proof (induction n arbitrary: vs)
  case (Suc n)
  then obtain v vs' where v: "vs = v # vs'" "type_of v = I32" "map type_of vs' = replicate n I32" by (cases vs) auto
  from v(2) obtain x where "v = ValI32 x" by (cases v) auto
  moreover from Suc.IH[OF v(3)] obtain xs where "vs' = map ValI32 xs" "length xs = n" by blast
  ultimately show ?case using v(1) by (intro exI[of _ "x # xs"]) auto
qed simp

text \<open>On values of the right type the linker runs the handler as \<open>call_host\<close> says.\<close>

lemma wasmtimeFunc_call_host:
  "wasmtimeFunc caps fn (map ValI32 xs) eg =
     prog_bind (call_host caps fn xs eg) (\<lambda>(result, eg').
       Some (Inr (case result of None \<Rightarrow> [] | Some v \<Rightarrow> [ValI32 v], eg')))"
  by (simp add: wasmtimeFunc_def host_args_i32 call_host_def)

text \<open>What the linker holds: a name that is taken keeps its definition.\<close>

lemma addHostFns_lookup:
  assumes "distinct (map hf_Name fns)" "\<forall>name. l (''env'', name) = None"
  shows "addHostFns fns l (''env'', name) = map_option (\<lambda>fn. (host_type fn, Some fn)) (find (\<lambda>fn. hf_Name fn = name) fns)"
  using assms unfolding addHostFns_def
proof (induction fns rule: rev_induct)
  case (snoc fn fns)
  have f: "find P (xs @ [x]) = (case find P xs of None \<Rightarrow> if P x then Some x else None | Some y \<Rightarrow> Some y)" for P xs and x :: hostFn
    by (induction xs) auto
  have "find (\<lambda>fn'. hf_Name fn' = hf_Name fn) fns = None"
    using snoc.prems(1) by (auto simp: find_None_iff image_iff)
  with snoc show ?case by (auto simp: FuncNew_def f split: option.split)
qed simp

lemma HostFunctions_distinct: "distinct (map hf_Name HostFunctions)"
  by (simp add: HostFunctions_def handler_defs)

lemma find_name: "distinct (map hf_Name fns) \<Longrightarrow> find (\<lambda>fn. hf_Name fn = name) fns = Some fn \<longleftrightarrow> fn \<in> set fns \<and> hf_Name fn = name"
  by (induction fns) auto

lemma internals_linker:
  assumes "internals compile (Inr wasi) (new_env data) = (Inr (m, l), env)"
  shows "l = addHostFns HostFunctions wasi"
  using assms by (auto simp: internals_def new_env_def Let_def split: sum.split_asm)

text \<open>A module is compiled and linked once; after a failure it is tried again.\<close>

lemma internals_once:
  "internals compile wasi env = (Inr ml, env') \<Longrightarrow> internals compile' wasi' env' = (Inr ml, env')"
  by (auto simp: internals_def Let_def split: option.split_asm sum.split_asm)

lemma internals_failed: "internals compile wasi env = (Inl e, env') \<Longrightarrow> env' = env"
  by (auto simp: internals_def Let_def split: option.split_asm sum.split_asm)

section \<open>Properties\<close>

text \<open>
  C19: The host's side of the boundary is well typed. In the linker of a pool every host function is
  defined under its name and type; and what is found under a name of the host, called with values of the
  types of its parameters, answers values of the types it is declared to return. It never fails on an
  argument that is missing or of another type: it panics only for an address outside the memory, a
  negative size or an idle instance, and only handing over a result can block.
\<close>

theorem host_functions_typed:
  assumes "internals compile (Inr wasi) (new_env data) = (Inr (m, l), env)" "\<forall>name. wasi (''env'', name) = None"
  shows "(\<forall>fn \<in> set HostFunctions. l (''env'', hf_Name fn) = Some (host_type fn, Some fn))
    \<and> (\<forall>name ft fn args caps eg. l (''env'', name) = Some (ft, Some fn) \<and> map type_of args = ft_params ft \<longrightarrow>
        (case wasmtimeFunc caps fn args eg of
           None \<Rightarrow> name \<in> {''return_result'', ''return_error''}
         | Some (Inl e) \<Rightarrow> e \<in> {SliceBounds, MakeSliceLen, NilDereference}
         | Some (Inr (vals, eg')) \<Rightarrow> map type_of vals = ft_returns ft))"
proof (intro conjI ballI allI impI)
  note l = addHostFns_lookup[OF HostFunctions_distinct assms(2)]
  note found = find_name[OF HostFunctions_distinct]
  show "l (''env'', hf_Name fn) = Some (host_type fn, Some fn)" if "fn \<in> set HostFunctions" for fn
    using that found[of "hf_Name fn" fn] by (simp add: internals_linker[OF assms(1)] l)
  fix name ft fn args caps eg
  assume a: "l (''env'', name) = Some (ft, Some fn) \<and> map type_of args = ft_params ft"
  then have fn: "fn \<in> set HostFunctions" "hf_Name fn = name" "ft = host_type fn"
    using found[of name fn] by (auto simp: internals_linker[OF assms(1)] l)
  with a obtain xs where xs: "args = map ValI32 xs" "length xs = hf_ArgCount fn"
    using values_i32[of args "hf_ArgCount fn"] by (auto simp: host_type_def)
  have "call_ok caps fn xs eg"
    using fn(1) xs(2) calls_ok[of xs caps eg] by (auto simp: HostFunctions_def handler_defs)
  then show "case wasmtimeFunc caps fn args eg of
           None \<Rightarrow> name \<in> {''return_result'', ''return_error''}
         | Some (Inl e) \<Rightarrow> e \<in> {SliceBounds, MakeSliceLen, NilDereference}
         | Some (Inr (vals, eg')) \<Rightarrow> map type_of vals = ft_returns ft"
    unfolding xs(1) wasmtimeFunc_call_host fn(3) host_type_def using fn(2)
    by (cases "call_host caps fn xs eg"; cases "the (call_host caps fn xs eg)")
      (auto simp: call_ok_def host_panics_def split: option.split_asm option.split)
qed

text \<open>A linker with one WASI function, and a call with the types of a function that answers.\<close>

definition example_wasi :: linker where
  "example_wasi = [(''wasi_snapshot_preview1'', ''proc_exit'') \<mapsto> (\<lparr>ft_params = [I32], ft_returns = []\<rparr>, None)]"

lemma host_functions_typed_witness:
  "addHostFns HostFunctions example_wasi (''env'', ''get_ffi_result'') = Some (host_type GetFFIResultHandler, Some GetFFIResultHandler)
    \<and> (case wasmtimeFunc no_caps GetFFIResultHandler [ValI32 0, ValI32 7] one_engine of
         Some (Inr (vals, _)) \<Rightarrow> map type_of vals = [I32] | Some (Inl e) \<Rightarrow> e \<in> {SliceBounds, MakeSliceLen, NilDereference} | None \<Rightarrow> False)"
proof -
  have i: "internals (\<lambda>d. Inr d) (Inr example_wasi) (new_env ''wasm'')
      = (Inr (''wasm'', addHostFns HostFunctions example_wasi),
         (new_env ''wasm'')\<lparr>pe_module := Some (''wasm'', addHostFns HostFunctions example_wasi)\<rparr>)"
    by (simp add: internals_def new_env_def Let_def)
  note typed = host_functions_typed[OF i]
  have h: "GetFFIResultHandler \<in> set HostFunctions" "hf_Name GetFFIResultHandler = ''get_ffi_result''"
    "ft_params (host_type GetFFIResultHandler) = [I32, I32]" "ft_returns (host_type GetFFIResultHandler) = [I32]"
    by (simp_all add: HostFunctions_def GetFFIResultHandler_def NewHostFn_def host_type_def numeral_2_eq_2)
  have w: "\<forall>name. example_wasi (''env'', name) = None" by (simp add: example_wasi_def)
  from typed[OF w, THEN conjunct1] h(1,2)
  have l: "addHostFns HostFunctions example_wasi (''env'', ''get_ffi_result'') = Some (host_type GetFFIResultHandler, Some GetFFIResultHandler)"
    by fastforce
  moreover from typed[OF w, THEN conjunct2, rule_format, of "''get_ffi_result''" _ GetFFIResultHandler "[ValI32 0, ValI32 7]" no_caps one_engine] l h
  have "case wasmtimeFunc no_caps GetFFIResultHandler [ValI32 0, ValI32 7] one_engine of
         Some (Inr (vals, _)) \<Rightarrow> map type_of vals = [I32] | Some (Inl e) \<Rightarrow> e \<in> {SliceBounds, MakeSliceLen, NilDereference} | None \<Rightarrow> False"
    by (auto split: option.split_asm sum.split_asm)
  ultimately show ?thesis by blast
qed

end
