(* ===== verification/Encodings.thy ===== *)
theory Encodings
  imports Message
begin

text \<open>
  Encodings to bytes. The program encodes its values as JSON; the properties rest only on what an
  encoding promises, that decoding gives back what was encoded. The concrete encodings here, of
  strings and lists of strings that can be followed by anything, serve the examples.
\<close>

definition encoding :: "('a \<Rightarrow> bytes option) \<Rightarrow> (bytes \<Rightarrow> 'a option) \<Rightarrow> bool" where
  "encoding enc dec' \<longleftrightarrow> (\<forall>x. \<exists>j. enc x = Some j \<and> dec' j = Some x)"

lemma encodingE:
  assumes "encoding enc dec'"
  obtains j where "enc x = Some j" "dec' j = Some x"
  using assms unfolding encoding_def by blast

lemma encoding_decodes: "encoding enc dec' \<Longrightarrow> enc x = Some j \<Longrightarrow> dec' j = Some x"
  unfolding encoding_def by (metis option.inject)

fun enc_str :: "string \<Rightarrow> string" where
  "enc_str [] = ''0''"
| "enc_str (c # cs) = CHR ''1'' # c # enc_str cs"

fun dec_str :: "string \<Rightarrow> (string \<times> string) option" where
  "dec_str (b # r) =
     (if b = CHR ''0'' then Some ([], r)
      else case r of [] \<Rightarrow> None | c # cs \<Rightarrow> map_option (\<lambda>(s, r). (c # s, r)) (dec_str cs))"
| "dec_str [] = None"

lemma dec_enc_str [simp]: "dec_str (enc_str s @ r) = Some (s, r)"
  by (induction s) simp_all

lemma dec_enc_str_nil [simp]: "dec_str (enc_str s) = Some (s, [])"
  using dec_enc_str[of s "[]"] by simp

fun enc_strs :: "string list \<Rightarrow> string" where
  "enc_strs [] = ''0''"
| "enc_strs (s # ss) = CHR ''1'' # enc_str s @ enc_strs ss"

fun dec_strs :: "nat \<Rightarrow> string \<Rightarrow> (string list \<times> string) option" where
  "dec_strs (Suc n) (b # r) =
     (if b = CHR ''0'' then Some ([], r)
      else case dec_str r of
             None \<Rightarrow> None
           | Some (s, r') \<Rightarrow> map_option (\<lambda>(ss, r''). (s # ss, r'')) (dec_strs n r'))"
| "dec_strs n r = None"

lemma dec_enc_strs: "length ss < n \<Longrightarrow> dec_strs n (enc_strs ss @ r) = Some (ss, r)"
proof (induction ss arbitrary: n)
  case Nil
  then show ?case by (cases n) auto
next
  case (Cons s ss)
  then obtain m where "n = Suc m" "length ss < m" by (cases n) auto
  with Cons.IH[of m] show ?case by simp
qed

lemma length_enc_strs: "length ss < length (enc_strs ss)"
  by (induction ss) auto

definition enc_bool :: "bool \<Rightarrow> char" where
  "enc_bool b = (if b then CHR ''1'' else CHR ''0'')"

lemma enc_bool_inverse [simp]: "(enc_bool b = CHR ''1'') = b"
  by (simp add: enc_bool_def)

text \<open>An integer as its sign and its absolute value in unary, and a message field by field.\<close>

definition enc_int :: "int \<Rightarrow> string" where
  "enc_int i = enc_str (enc_bool (0 \<le> i) # replicate (nat (abs i)) CHR ''1'')"

definition dec_int :: "string \<Rightarrow> (int \<times> string) option" where
  "dec_int s =
     (case dec_str s of
        Some (b # n, r) \<Rightarrow> Some (if b = CHR ''1'' then int (length n) else - int (length n), r)
      | _ \<Rightarrow> None)"

lemma dec_enc_int [simp]: "dec_int (enc_int i @ r) = Some (i, r)"
  by (simp add: enc_int_def dec_int_def)

definition enc_message :: "message \<Rightarrow> bytes" where
  "enc_message m = enc_int (msg_Timestamp m)
     @ enc_strs [msg_UUID m, msg_ParentID m, msg_ReplyTo m, msg_Type m, msg_Data m]"

definition dec_message :: "bytes \<Rightarrow> message option" where
  "dec_message s =
     (case dec_int s of
        Some (t, r) \<Rightarrow>
          (case dec_strs (length r) r of
             Some ([u, p, rt, ty, d], _) \<Rightarrow>
               Some \<lparr>msg_UUID = u, msg_ParentID = p, msg_ReplyTo = rt, msg_Type = ty, msg_Timestamp = t, msg_Data = d\<rparr>
           | _ \<Rightarrow> None)
      | None \<Rightarrow> None)"

lemma dec_strs_whole [simp]: "dec_strs (length (enc_strs ss)) (enc_strs ss) = Some (ss, [])"
  using dec_enc_strs[OF length_enc_strs[of ss], of "[]"] by simp

lemma dec_enc_message [simp]: "dec_message (enc_message m) = Some m"
  unfolding enc_message_def dec_message_def dec_enc_int option.case prod.case dec_strs_whole by simp

lemma message_encoding: "encoding (\<lambda>m. Some (enc_message m)) dec_message"
  by (simp add: encoding_def)

end
