(* ===== verification/SatNode.thy ===== *)
theory SatNode
  imports Dispatch Encodings
begin

text \<open>
  A Sat node's part in a request: what it makes of the outcome of a job, over HTTP
  (\<open>sat/sat/handler.go\<close>) and in the mesh (\<open>sat/sat/meshed.go\<close>), where it sends the result home and the
  rest of the sequence on to the next node. A message carries its parsed request, \<open>None\<close> when it does
  not parse; whether the bus takes a message is an argument, and so is the encoding of steps.
\<close>

section \<open>Outcomes of a job\<close>

datatype fn_error = FnRunErr int string | FnErr string

datatype fn_outcome = FnFailed fn_error | FnResponse response | FnNil | FnOther

definition empty_response :: response where
  "empty_response = \<lparr>rp_Output = '''', rp_RespHeaders = None\<rparr>"

section \<open>The HTTP handler\<close>

definition sat_handler :: "coord_request option \<Rightarrow> bool \<Rightarrow> (coord_request \<Rightarrow> fn_outcome) \<Rightarrow> http_reply option" where
  "sat_handler request registered run =
     (case request of
        None \<Rightarrow> Some (HttpError 500 '''')
      | Some req \<Rightarrow>
          if \<not> registered then Some (HttpError 500 ''unknown error'')
          else case run req of
                 FnFailed (FnRunErr code message) \<Rightarrow>
                   if code \<noteq> 0 \<or> message \<noteq> '''' then Some (HttpError code message)
                   else Some (HttpError 500 ''unknown error'')
               | FnFailed (FnErr _) \<Rightarrow> Some (HttpError 500 ''unknown error'')
               | FnNil \<Rightarrow> None
               | FnOther \<Rightarrow> Some (HttpError 500 '''')
               | FnResponse resp \<Rightarrow>
                   Some (HttpOK (case rp_RespHeaders resp of
                                   None \<Rightarrow> []
                                 | Some hs \<Rightarrow> map (\<lambda>(k, v). (k, [v])) hs) (Some (rp_Output resp))))"

section \<open>The mesh handler\<close>

text \<open>What a node sends: a result for the parent, and the request to tunnel to the next step's module.\<close>

record sat_sends =
  ss_result :: "execResult option"
  ss_next :: "(string \<times> coord_request) option"

text \<open>The result \<open>sendFnResult\<close> sends for an outcome; a result that is not a response panics.\<close>

definition make_result :: "string \<Rightarrow> fn_outcome \<Rightarrow> execResult go" where
  "make_result msgType out =
     (case out of
        FnFailed (FnRunErr code message) \<Rightarrow>
          Inr \<lparr>er_FQMN = msgType, er_Response = Some empty_response, er_Code = code, er_Message = message,
               er_ExecErr = ''''\<rparr>
      | FnFailed (FnErr e) \<Rightarrow>
          Inr \<lparr>er_FQMN = msgType, er_Response = Some empty_response, er_Code = 0, er_Message = '''', er_ExecErr = e\<rparr>
      | FnResponse resp \<Rightarrow>
          Inr \<lparr>er_FQMN = msgType, er_Response = Some resp, er_Code = 0, er_Message = '''', er_ExecErr = ''''\<rparr>
      | _ \<Rightarrow> Inl TypeAssertion)"

definition sendNextStep :: "sequence \<Rightarrow> coord_request \<Rightarrow> (string \<times> coord_request) option" where
  "sendNextStep seq req = map_option (\<lambda>i. (st_FQMN (sq_steps seq ! i), req)) (NextStep seq)"

definition handleFnResult :: "(string \<Rightarrow> step list option) \<Rightarrow> (step list \<Rightarrow> string option) \<Rightarrow> bool \<Rightarrow> string \<Rightarrow>
    coord_request option \<Rightarrow> fn_outcome \<Rightarrow> sat_sends go" where
  "handleFnResult decode encode send_ok msgType request out =
     (let quiet = \<lparr>ss_result = None, ss_next = None\<rparr>
      in case request of
           None \<Rightarrow> Inr quiet
         | Some req \<Rightarrow>
             (case FromJSON decode encode (rq_SequenceJSON req) req of
                Inl _ \<Rightarrow> Inr quiet
              | Inr seq \<Rightarrow>
                  if NextStep seq = None then Inr quiet
                  else go_bind (make_result msgType out) (\<lambda>fnr.
                    if \<not> send_ok then Inr quiet
                    else if (case out of FnFailed (FnErr _) \<Rightarrow> True | _ \<Rightarrow> False)
                         then Inr \<lparr>ss_result = Some fnr, ss_next = None\<rparr>
                    else go_bind (HandleStepResults [fnr] seq) (\<lambda>(err, seq').
                      Inr \<lparr>ss_result = Some fnr,
                           ss_next = (case err of
                               Some _ \<Rightarrow> None
                             | None \<Rightarrow>
                                 (case StepsJSON encode seq' of
                                    None \<Rightarrow> None
                                  | Some j \<Rightarrow> sendNextStep seq' ((sq_req seq')\<lparr>rq_SequenceJSON := j\<rparr>)))\<rparr>))))"

section \<open>A request in the mesh\<close>

text \<open>
  The results of a request that starts at the node of a module, with the modules given by what they
  make of a request. A node that has a next step tunnels it; \<open>fuel\<close> bounds the number of nodes.
\<close>

fun mesh_run :: "(string \<Rightarrow> step list option) \<Rightarrow> (step list \<Rightarrow> string option) \<Rightarrow> (string \<Rightarrow> coord_request \<Rightarrow> fn_outcome) \<Rightarrow>
    nat \<Rightarrow> string \<Rightarrow> coord_request \<Rightarrow> execResult list go" where
  "mesh_run decode encode runs 0 fqmn req = Inr []"
| "mesh_run decode encode runs (Suc fuel) fqmn req =
     go_bind (handleFnResult decode encode True fqmn (Some req) (runs fqmn req)) (\<lambda>s.
       go_bind (case ss_next s of
                  None \<Rightarrow> Inr []
                | Some (fqmn', req') \<Rightarrow> mesh_run decode encode runs fuel fqmn' req') (\<lambda>rs.
         Inr (case ss_result s of None \<Rightarrow> rs | Some r \<Rightarrow> r # rs)))"

lemma encoding_FromJSON:
  assumes "encoding encode decode" "encode steps = Some (rq_SequenceJSON req)"
  shows "FromJSON decode encode (rq_SequenceJSON req) req = Inr \<lparr>sq_steps = steps, sq_req = req\<rparr>"
proof -
  from assms(1) have "decode (rq_SequenceJSON req) = Some steps"
    using assms(2) by (rule encoding_decodes)
  with assms(2) show ?thesis by (simp add: FromJSON_def newWithSteps_def)
qed

definition response_result :: "string \<Rightarrow> response \<Rightarrow> execResult" where
  "response_result fqmn resp =
     \<lparr>er_FQMN = fqmn, er_Response = Some resp, er_Code = 0, er_Message = '''', er_ExecErr = ''''\<rparr>"

lemma response_result_simps [simp]:
  "er_FQMN (response_result fqmn resp) = fqmn" "er_Response (response_result fqmn resp) = Some resp"
  by (simp_all add: response_result_def)

lemma good_response_result [simp]: "good_result (response_result fqmn resp)"
  by (simp add: good_result_def response_result_def)

lemma HandleStepResults_good:
  assumes "good_result r" "sq_steps seq = done @ s # todo" "\<forall>x \<in> set done. st_Completed x"
    and "\<not> st_Completed s" "rq_State (sq_req seq) = Some st" "rq_RespHeaders (sq_req seq) = Some hs"
  shows "\<exists>seq' hs'. HandleStepResults [r] seq = Inr (None, seq')
    \<and> sq_steps seq' = done @ s\<lparr>st_Completed := True\<rparr> # todo
    \<and> rq_State (sq_req seq') = Some (result_state [r] st) \<and> rq_RespHeaders (sq_req seq') = Some hs'"
proof -
  from await_good[OF assms, of "[]"] obtain seq' hs' where
    "awaitResult [Some r] seq = Inr (None, seq', [])" "sq_steps seq' = done @ s\<lparr>st_Completed := True\<rparr> # todo"
    "rq_State (sq_req seq') = Some (result_state [r] st)" "rq_RespHeaders (sq_req seq') = Some hs'" by auto
  moreover from this(1) have "HandleStepResults [r] seq = Inr (None, seq')"
    by (auto simp: awaitResult_def elim!: go_bind_InrE split: if_split_asm prod.split_asm)
  ultimately show ?thesis by blast
qed

text \<open>One node of a request whose module answers: its result, and the rest of the steps sent on.\<close>

lemma handleFnResult_good:
  assumes "encoding encode decode" "encode (done @ s # todo) = Some (rq_SequenceJSON req)"
    and "\<forall>x \<in> set done. st_Completed x" "\<forall>x \<in> set (s # todo). \<not> st_Completed x"
    and "rq_State req = Some st" "rq_RespHeaders req = Some hs"
  shows "\<exists>req' hs'. handleFnResult decode encode True (st_FQMN s) (Some req) (FnResponse resp) =
      Inr \<lparr>ss_result = Some (response_result (st_FQMN s) resp),
           ss_next = (case todo of [] \<Rightarrow> None | t # _ \<Rightarrow> Some (st_FQMN t, req'))\<rparr>
    \<and> encode (done @ s\<lparr>st_Completed := True\<rparr> # todo) = Some (rq_SequenceJSON req')
    \<and> rq_State req' = Some (result_state [response_result (st_FQMN s) resp] st)
    \<and> rq_RespHeaders req' = Some hs'"
proof -
  let ?seq = "\<lparr>sq_steps = done @ s # todo, sq_req = req\<rparr>"
  have n: "NextStep ?seq = Some (length done)"
    using assms(3,4) next_index_prefix[OF assms(3), of "s # todo"] by (simp add: NextStep_def)
  obtain seq' hs' where h: "HandleStepResults [response_result (st_FQMN s) resp] ?seq = Inr (None, seq')"
    "sq_steps seq' = done @ s\<lparr>st_Completed := True\<rparr> # todo"
    "rq_State (sq_req seq') = Some (result_state [response_result (st_FQMN s) resp] st)"
    "rq_RespHeaders (sq_req seq') = Some hs'"
    using HandleStepResults_good[of "response_result (st_FQMN s) resp" ?seq "done" s todo st hs] assms(3-6) by auto
  obtain j where j: "encode (sq_steps seq') = Some j" using assms(1) by (rule encodingE)
  have n': "NextStep seq' = (case todo of [] \<Rightarrow> None | t # _ \<Rightarrow> Some (Suc (length done)))"
    using next_index_prefix[of "done @ [s\<lparr>st_Completed := True\<rparr>]" todo] assms(3,4) h(2)
    by (auto simp: NextStep_def split: list.split)
  have "handleFnResult decode encode True (st_FQMN s) (Some req) (FnResponse resp) =
      Inr \<lparr>ss_result = Some (response_result (st_FQMN s) resp),
           ss_next = sendNextStep seq' ((sq_req seq')\<lparr>rq_SequenceJSON := j\<rparr>)\<rparr>"
    using encoding_FromJSON[OF assms(1,2)] n h(1) j
    by (simp add: handleFnResult_def make_result_def response_result_def StepsJSON_def Let_def)
  moreover have "sendNextStep seq' r = (case todo of [] \<Rightarrow> None | t # _ \<Rightarrow> Some (st_FQMN t, r))" for r
    using n' h(2) by (auto simp: sendNextStep_def nth_append split: list.split)
  ultimately show ?thesis using h(2,3,4) j by (intro exI[of _ "(sq_req seq')\<lparr>rq_SequenceJSON := j\<rparr>"]) auto
qed

lemma mesh_run_good:
  assumes "encoding encode decode" "\<And>fqmn req. \<exists>resp. runs fqmn req = FnResponse resp"
    and "encode (done @ todo) = Some (rq_SequenceJSON req)"
    and "\<forall>x \<in> set done. st_Completed x" "\<forall>x \<in> set todo. \<not> st_Completed x" "todo \<noteq> []" "length todo \<le> fuel"
    and "rq_State req = Some st" "rq_RespHeaders req = Some hs"
  shows "\<exists>rs. mesh_run decode encode runs fuel (st_FQMN (hd todo)) req = Inr rs
    \<and> map er_FQMN rs = map st_FQMN todo \<and> (\<forall>r \<in> set rs. good_result r)
    \<and> (\<forall>k < length todo. \<exists>req_k. runs (st_FQMN (todo ! k)) req_k = FnResponse (the (er_Response (rs ! k)))
          \<and> rq_State req_k = Some (result_state (take k rs) st))"
  using assms(3-)
proof (induction todo arbitrary: "done" req fuel st hs)
  case (Cons s todo)
  obtain n where n: "fuel = Suc n" using Cons.prems(5) by (cases fuel) auto
  obtain resp where resp: "runs (st_FQMN s) req = FnResponse resp" using assms(2) by blast
  let ?r = "response_result (st_FQMN s) resp"
  from handleFnResult_good[OF assms(1) Cons.prems(1-3,6,7), of resp] obtain req' hs' where h:
    "handleFnResult decode encode True (st_FQMN s) (Some req) (FnResponse resp) =
      Inr \<lparr>ss_result = Some ?r, ss_next = (case todo of [] \<Rightarrow> None | t # _ \<Rightarrow> Some (st_FQMN t, req'))\<rparr>"
    "encode (done @ s\<lparr>st_Completed := True\<rparr> # todo) = Some (rq_SequenceJSON req')"
    "rq_State req' = Some (result_state [?r] st)" "rq_RespHeaders req' = Some hs'" by blast
  show ?case
  proof (cases todo)
    case Nil
    then show ?thesis using h(1) n resp Cons.prems(6)
      by (intro exI[of _ "[?r]"]) (auto simp: result_state_def)
  next
    case (Cons t ts)
    have "encode ((done @ [s\<lparr>st_Completed := True\<rparr>]) @ todo) = Some (rq_SequenceJSON req')" using h(2) by simp
    from Cons.IH[OF this _ _ _ _ h(3,4), of n] Cons.prems Cons n obtain rs where rs:
      "mesh_run decode encode runs n (st_FQMN (hd todo)) req' = Inr rs" "map er_FQMN rs = map st_FQMN todo"
      "\<forall>r \<in> set rs. good_result r"
      "\<forall>k < length todo. \<exists>req_k. runs (st_FQMN (todo ! k)) req_k = FnResponse (the (er_Response (rs ! k)))
          \<and> rq_State req_k = Some (result_state (take k rs) (result_state [?r] st))"
      by auto
    have "mesh_run decode encode runs fuel (st_FQMN s) req = Inr (?r # rs)"
      using h(1) resp n rs(1) Cons by simp
    moreover have "\<exists>req_k. runs (st_FQMN ((s # todo) ! k)) req_k = FnResponse (the (er_Response ((?r # rs) ! k)))
          \<and> rq_State req_k = Some (result_state (take k (?r # rs)) st)" if "k < length (s # todo)" for k
    proof (cases k)
      case 0
      then show ?thesis using resp Cons.prems(6)
        by (intro exI[of _ req]) (simp add: result_state_def)
    next
      case (Suc m)
      with that rs(4) show ?thesis by (auto simp: result_state_def)
    qed
    ultimately show ?thesis using rs(2,3) by (intro exI[of _ "?r # rs"]) simp
  qed
qed simp


section \<open>A step that fails\<close>

text \<open>What the dispatcher makes of a module's error; an error that says nothing is taken for a success.\<close>

definition step_error :: "fn_error \<Rightarrow> seq_error option" where
  "step_error e = (case e of
     FnRunErr code message \<Rightarrow> if code \<noteq> 0 \<or> message \<noteq> '''' then Some (SeqRunErr code message) else None
   | FnErr m \<Rightarrow> if m \<noteq> '''' then Some (SeqExecErr m) else None)"

definition error_result :: "string \<Rightarrow> fn_error \<Rightarrow> execResult" where
  "error_result fqmn e =
     \<lparr>er_FQMN = fqmn, er_Response = Some empty_response,
      er_Code = (case e of FnRunErr code _ \<Rightarrow> code | FnErr _ \<Rightarrow> 0),
      er_Message = (case e of FnRunErr _ message \<Rightarrow> message | FnErr _ \<Rightarrow> ''''),
      er_ExecErr = (case e of FnRunErr _ _ \<Rightarrow> '''' | FnErr m \<Rightarrow> m)\<rparr>"

lemma make_result_failed: "make_result fqmn (FnFailed e) = Inr (error_result fqmn e)"
  by (simp add: make_result_def error_result_def split: fn_error.split)

lemma error_result_Response [simp]: "er_Response (error_result fqmn e) = Some empty_response"
  "er_FQMN (error_result fqmn e) = fqmn"
  by (simp_all add: error_result_def)

lemma HandleStepResults_failed:
  "step_error e = Some f \<Longrightarrow> HandleStepResults [error_result fqmn e] seq = Inr (Some f, seq)"
  by (auto simp: step_error_def error_result_def HandleStepResults_def split: fn_error.split_asm if_split_asm)

lemma handleFnResult_failed:
  assumes "encoding encode decode" "encode (done @ s # todo) = Some (rq_SequenceJSON req)"
    and "\<forall>x \<in> set done. st_Completed x" "\<not> st_Completed s" "step_error e = Some f"
  shows "handleFnResult decode encode True (st_FQMN s) (Some req) (FnFailed e) =
      Inr \<lparr>ss_result = Some (error_result (st_FQMN s) e), ss_next = None\<rparr>"
proof -
  have "NextStep \<lparr>sq_steps = done @ s # todo, sq_req = req\<rparr> = Some (length done)"
    using assms(4) next_index_prefix[OF assms(3), of "s # todo"] by (simp add: NextStep_def)
  then show ?thesis
    using encoding_FromJSON[OF assms(1,2)]
    by (simp add: handleFnResult_def make_result_failed HandleStepResults_failed[OF assms(5)] Let_def)
qed

lemma mesh_run_fails:
  assumes "encoding encode decode" "\<forall>req. runs (st_FQMN b) req = FnFailed e" "step_error e = Some f"
    and "\<forall>x \<in> set todo. \<forall>req. \<exists>resp. runs (st_FQMN x) req = FnResponse resp"
    and "encode (done @ todo @ b # rest) = Some (rq_SequenceJSON req)"
    and "\<forall>x \<in> set done. st_Completed x" "\<forall>x \<in> set (todo @ b # rest). \<not> st_Completed x" "length todo < fuel"
    and "rq_State req = Some st" "rq_RespHeaders req = Some hs"
  shows "\<exists>rs. mesh_run decode encode runs fuel (st_FQMN (hd (todo @ [b]))) req = Inr (rs @ [error_result (st_FQMN b) e])
    \<and> map er_FQMN rs = map st_FQMN todo \<and> (\<forall>r \<in> set rs. good_result r)"
  using assms(4-)
proof (induction todo arbitrary: "done" req fuel st hs)
  case Nil
  obtain n where "fuel = Suc n" using Nil.prems(5) by (cases fuel) auto
  moreover from Nil have "encode (done @ b # rest) = Some (rq_SequenceJSON req)"
    "\<forall>x \<in> set done. st_Completed x" "\<not> st_Completed b" by simp_all
  note handleFnResult_failed[OF assms(1) this assms(3)]
  ultimately show ?case using assms(2) by simp
next
  case (Cons s todo)
  obtain n where n: "fuel = Suc n" using Cons.prems(5) by (cases fuel) auto
  obtain resp where resp: "runs (st_FQMN s) req = FnResponse resp" using Cons.prems(1) by (meson list.set_intros(1))
  let ?r = "response_result (st_FQMN s) resp"
  have e: "encode (done @ s # (todo @ b # rest)) = Some (rq_SequenceJSON req)"
    "\<forall>x \<in> set (s # todo @ b # rest). \<not> st_Completed x" using Cons.prems(2,4) by simp_all
  from handleFnResult_good[OF assms(1) e(1) Cons.prems(3) e(2) Cons.prems(6,7), of resp] obtain req' hs' where h:
    "handleFnResult decode encode True (st_FQMN s) (Some req) (FnResponse resp) =
      Inr \<lparr>ss_result = Some ?r, ss_next = (case todo @ b # rest of [] \<Rightarrow> None | t # _ \<Rightarrow> Some (st_FQMN t, req'))\<rparr>"
    "encode ((done @ [s\<lparr>st_Completed := True\<rparr>]) @ todo @ b # rest) = Some (rq_SequenceJSON req')"
    "rq_State req' = Some (result_state [?r] st)" "rq_RespHeaders req' = Some hs'" by auto
  have next_step: "(case todo @ b # rest of [] \<Rightarrow> None | t # _ \<Rightarrow> Some (st_FQMN t, req')) = Some (st_FQMN (hd (todo @ [b])), req')"
    by (cases todo) auto
  have hyps: "\<forall>x \<in> set todo. \<forall>req. \<exists>resp. runs (st_FQMN x) req = FnResponse resp"
    "\<forall>x \<in> set (done @ [s\<lparr>st_Completed := True\<rparr>]). st_Completed x" "\<forall>x \<in> set (todo @ b # rest). \<not> st_Completed x"
    "length todo < n"
    using Cons.prems(1,3,4,5) n by simp_all
  from Cons.IH[OF hyps(1) h(2) hyps(2-4) h(3,4)] obtain rs where rs:
    "mesh_run decode encode runs n (st_FQMN (hd (todo @ [b]))) req' = Inr (rs @ [error_result (st_FQMN b) e])"
    "map er_FQMN rs = map st_FQMN todo" "\<forall>r \<in> set rs. good_result r" by auto
  have "mesh_run decode encode runs fuel (st_FQMN s) req = Inr (?r # rs @ [error_result (st_FQMN b) e])"
    using h(1) resp n rs(1) next_step by simp
  with rs(2,3) show ?case by (intro exI[of _ "?r # rs"]) simp
qed


text \<open>The dispatcher's side: the results before the error are taken in, the error ends the execution.\<close>

lemma Execute_single:
  "NextStep seq = Some i \<Longrightarrow> st_IsSingle (sq_steps seq ! i) \<Longrightarrow> Execute True events seq = execute_loop events seq"
  by (subst execute_loop.simps) (simp add: Execute_def dispatchSingle_def)

lemma execute_loop_fails:
  assumes "sq_steps seq = done @ todo @ b # rest" "\<forall>x \<in> set done. st_Completed x"
    and "\<forall>x \<in> set (todo @ [b]). \<not> st_Completed x \<and> st_IsSingle x" "length rs = length todo"
    and "\<forall>r \<in> set rs. good_result r" "step_error e = Some f"
    and "rq_State (sq_req seq) = Some st" "rq_RespHeaders (sq_req seq) = Some hs"
  shows "\<exists>seq'. execute_loop (map Some rs @ Some (error_result fqmn e) # es) seq = Some (Inr (Some (StepFailed f), seq'))
    \<and> rq_State (sq_req seq') = Some (result_state rs st)"
  using assms
proof (induction todo arbitrary: seq "done" rs st hs)
  case Nil
  then have "NextStep seq = Some (length done)" "sq_steps seq ! length done = b"
    using next_index_prefix[OF Nil.prems(2), of "b # rest"] by (simp_all add: NextStep_def)
  moreover have "st_IsSingle b" using Nil.prems(3) by simp
  ultimately show ?case using Nil.prems
    by (subst execute_loop.simps) (simp add: awaitResult_def HandleStepResults_failed result_state_def)
next
  case (Cons s todo)
  obtain r rs' where rs: "rs = r # rs'" using Cons.prems(4) by (cases rs) auto
  let ?es = "map Some rs' @ Some (error_result fqmn e) # es"
  have s: "\<not> st_Completed s" "st_IsSingle s" "good_result r" using Cons.prems(3,5) rs by auto
  have steps: "sq_steps seq = done @ s # (todo @ b # rest)" using Cons.prems(1) by simp
  have nx: "NextStep seq = Some (length done)"
    using steps s(1) next_index_prefix[OF Cons.prems(2), of "s # todo @ b # rest"] by (simp add: NextStep_def)
  from await_good[OF s(3) steps Cons.prems(2) s(1) Cons.prems(7,8), of ?es] obtain seq' hs' where a:
    "awaitResult (Some r # ?es) seq = Inr (None, seq', ?es)"
    "sq_steps seq' = (done @ [s\<lparr>st_Completed := True\<rparr>]) @ todo @ b # rest"
    "rq_State (sq_req seq') = Some (result_state [r] st)" "rq_RespHeaders (sq_req seq') = Some hs'" by auto
  have "\<exists>seq''. execute_loop ?es seq' = Some (Inr (Some (StepFailed f), seq''))
      \<and> rq_State (sq_req seq'') = Some (result_state rs' (result_state [r] st))"
    using Cons.prems rs by (intro Cons.IH[OF a(2) _ _ _ _ _ a(3,4)]) auto
  moreover have "execute_loop (map Some rs @ Some (error_result fqmn e) # es) seq = execute_loop ?es seq'"
    using nx steps s(2) rs a(1) by (subst execute_loop.simps) simp
  ultimately show ?case using rs by (simp add: result_state_def)
qed

section \<open>An example\<close>

text \<open>A concrete encoding of steps, and two modules, the second of which answers what the first put out.\<close>

fun enc_steps :: "step list \<Rightarrow> string" where
  "enc_steps [] = ''0''"
| "enc_steps (s # ss) = CHR ''1'' # enc_bool (st_IsSingle s) # enc_bool (st_IsGroup s) # enc_bool (st_Completed s)
     # enc_str (st_FQMN s) @ enc_steps ss"

fun dec_steps :: "nat \<Rightarrow> string \<Rightarrow> step list option" where
  "dec_steps (Suc n) (b # x # y # z # cs) =
     (if b \<noteq> CHR ''1'' then None
      else case dec_str cs of
             None \<Rightarrow> None
           | Some (f, r) \<Rightarrow> map_option (\<lambda>ss. \<lparr>st_FQMN = f, st_IsSingle = (x = CHR ''1''), st_IsGroup = (y = CHR ''1''),
                                       st_Completed = (z = CHR ''1'')\<rparr> # ss) (dec_steps n r))"
| "dec_steps (Suc n) cs = Some []"
| "dec_steps 0 cs = None"

lemma dec_enc_steps: "length ss < n \<Longrightarrow> dec_steps n (enc_steps ss) = Some ss"
proof (induction ss arbitrary: n)
  case Nil
  then show ?case by (cases n) auto
next
  case (Cons s ss)
  then obtain m where "n = Suc m" "length ss < m" by (cases n) auto
  with Cons.IH[of m] show ?case by simp
qed

lemma length_enc_steps: "length ss < length (enc_steps ss)"
  by (induction ss) auto

lemma example_encoding: "encoding (\<lambda>ss. Some (enc_steps ss)) (\<lambda>s. dec_steps (length s) s)"
  by (simp add: encoding_def dec_enc_steps length_enc_steps)

definition example_modules :: "string \<Rightarrow> coord_request \<Rightarrow> fn_outcome" where
  "example_modules fqmn req =
     FnResponse \<lparr>rp_Output = (if fqmn = ''a'' then ''1'' else the (the (rq_State req) ''a'')), rp_RespHeaders = None\<rparr>"

text \<open>Of the two modules the second fails.\<close>

definition failing_modules :: "string \<Rightarrow> coord_request \<Rightarrow> fn_outcome" where
  "failing_modules fqmn req = (if fqmn = ''b'' then FnFailed (FnRunErr 500 ''boom'') else example_modules fqmn req)"

end
