(* ===== verification/PodWait.thy ===== *)
theory PodWait
  imports Pod
begin

text \<open>
  Waiting on a pod: \<open>WaitOn\<close>, \<open>WaitUntil\<close> and \<open>waitOnReply\<close> of \<open>foundation/bus/bus/pod.go\<close>, the
  receipts of \<open>receipt.go\<close> and the timeouts of \<open>timeout.go\<close>. One call of \<open>WaitUntil\<close> and the goroutines
  that handle the pod's messages share the callback's read-write lock and the call's unbuffered error
  channel; a step relation interleaves them. Meanwhile the owner makes no other call on the pod.
\<close>

section \<open>Timeouts\<close>

text \<open>
  The delay after which a timeout fires, in nanoseconds; \<open>None\<close> when it never does. The product is
  taken in 64 bits, and a delay that wrapped below zero fires at once.
\<close>

definition Timeout :: "int \<Rightarrow> int option" where
  "Timeout seconds =
     (if seconds > 0 then Some (sint ((1000000000 :: 64 word) * word_of_int seconds)) else None)"

definition TO :: "int \<Rightarrow> int option" where
  "TO seconds = Timeout seconds"

definition wait_timeout :: "(int option) option \<Rightarrow> int option" where
  "wait_timeout timeout = (case timeout of None \<Rightarrow> Timeout (-1) | Some t \<Rightarrow> t)"

lemma wait_timeout_nil [simp]: "wait_timeout None = None"
  by (simp add: wait_timeout_def Timeout_def)

section \<open>State\<close>

definition ErrWaitTimeout :: string where
  "ErrWaitTimeout = ''waited past timeout''"

definition ErrNoReceipt :: string where
  "ErrNoReceipt = ''message receipt is nil''"

text \<open>What the caller's function makes of a message: \<open>ErrMsgNotWanted\<close>, or an answer for the caller.\<close>

datatype verdict = MsgNotWanted | Verdict "string option"

text \<open>
  A handler has not taken the read lock yet, or holds it: blocked on the error channel, or about to
  report to the bus. A waiting call is before its first lock, in the select, out of it, waiting for the
  second lock (which keeps new readers out), or has returned.
\<close>

datatype wait_handler = Arrived | Sending "string option" | Reporting

datatype wait_phase = Starting | Selecting | Leaving "string option" | Locking "string option"
  | Returned "string option"

record wait_sys =
  wy_pod :: pod
  wy_handlers :: "(message \<times> wait_handler) list"
  wy_waiter :: wait_phase
  wy_accepted :: "message list"

definition wait_begin :: "pod \<Rightarrow> message list \<Rightarrow> wait_sys" where
  "wait_begin p ms =
     \<lparr>wy_pod = p, wy_handlers = map (\<lambda>m. (m, Arrived)) ms, wy_waiter = Starting, wy_accepted = []\<rparr>"

definition no_reader :: "(message \<times> wait_handler) list \<Rightarrow> bool" where
  "no_reader hs \<longleftrightarrow> list_all (\<lambda>(m, h). h = Arrived) hs"

section \<open>Steps\<close>

text \<open>
  A handler that gets the read lock: it is gone when there is no callback or the filter refuses the
  message, else the callback installed by \<open>WaitUntil\<close> decides.
\<close>

definition handler_begin :: "(message \<Rightarrow> verdict) \<Rightarrow> pod \<Rightarrow> message \<Rightarrow> wait_handler option" where
  "handler_begin onFunc p msg =
     (if pod_onFunc p = None \<or> \<not> filter_allow (pod_filter p) msg then None
      else case onFunc msg of MsgNotWanted \<Rightarrow> Some Reporting | Verdict v \<Rightarrow> Some (Sending v))"

inductive WaitUntil :: "int option \<Rightarrow> (message \<Rightarrow> verdict) \<Rightarrow> wait_sys \<Rightarrow> wait_sys \<Rightarrow> bool"
  for timeout :: "int option" and onFunc :: "message \<Rightarrow> verdict" where
  install: "wy_waiter s = Starting \<Longrightarrow> no_reader (wy_handlers s) \<Longrightarrow>
     pod_setOnFunc (Some (\<lambda>_. None)) (wy_pod s) = Some (Inr p) \<Longrightarrow>
     WaitUntil timeout onFunc s (s\<lparr>wy_pod := p, wy_waiter := Selecting\<rparr>)"
| ignore: "wy_handlers s = as @ (m, Arrived) # bs \<Longrightarrow> \<forall>v. wy_waiter s \<noteq> Locking v \<Longrightarrow>
     handler_begin onFunc (wy_pod s) m = None \<Longrightarrow>
     WaitUntil timeout onFunc s (s\<lparr>wy_handlers := as @ bs\<rparr>)"
| unwanted: "wy_handlers s = as @ (m, Arrived) # bs \<Longrightarrow> \<forall>v. wy_waiter s \<noteq> Locking v \<Longrightarrow>
     handler_begin onFunc (wy_pod s) m = Some Reporting \<Longrightarrow>
     WaitUntil timeout onFunc s (s\<lparr>wy_handlers := as @ (m, Reporting) # bs\<rparr>)"
| wanted: "wy_handlers s = as @ (m, Arrived) # bs \<Longrightarrow> \<forall>v. wy_waiter s \<noteq> Locking v \<Longrightarrow>
     handler_begin onFunc (wy_pod s) m = Some (Sending v) \<Longrightarrow>
     WaitUntil timeout onFunc s (s\<lparr>wy_handlers := as @ (m, Sending v) # bs, wy_accepted := wy_accepted s @ [m]\<rparr>)"
| receive: "wy_waiter s = Selecting \<Longrightarrow> wy_handlers s = as @ (m, Sending v) # bs \<Longrightarrow>
     WaitUntil timeout onFunc s (s\<lparr>wy_handlers := as @ (m, Reporting) # bs, wy_waiter := Leaving v\<rparr>)"
| expire: "wy_waiter s = Selecting \<Longrightarrow> timeout \<noteq> None \<Longrightarrow>
     WaitUntil timeout onFunc s (s\<lparr>wy_waiter := Leaving (Some ErrWaitTimeout)\<rparr>)"
| report: "wy_handlers s = as @ (m, Reporting) # bs \<Longrightarrow>
     pod_feedback podFeedbackMsgSuccess (wy_pod s) = Some (Inr p) \<Longrightarrow>
     WaitUntil timeout onFunc s (s\<lparr>wy_handlers := as @ bs, wy_pod := p\<rparr>)"
| bus_takes: "pod_feedbackChan (wy_pod s) = fb # fbs \<Longrightarrow>
     WaitUntil timeout onFunc s (s\<lparr>wy_pod := (wy_pod s)\<lparr>pod_feedbackChan := fbs\<rparr>\<rparr>)"
| call_lock: "wy_waiter s = Leaving v \<Longrightarrow> WaitUntil timeout onFunc s (s\<lparr>wy_waiter := Locking v\<rparr>)"
| leave: "wy_waiter s = Locking v \<Longrightarrow> no_reader (wy_handlers s) \<Longrightarrow>
     pod_setOnFunc None (wy_pod s) = Some (Inr p) \<Longrightarrow>
     WaitUntil timeout onFunc s (s\<lparr>wy_pod := p, wy_waiter := Returned v\<rparr>)"

text \<open>The same with messages arriving from the bus at any time.\<close>

inductive wait_env :: "int option \<Rightarrow> (message \<Rightarrow> verdict) \<Rightarrow> wait_sys \<Rightarrow> wait_sys \<Rightarrow> bool"
  for timeout :: "int option" and onFunc :: "message \<Rightarrow> verdict" where
  inside: "WaitUntil timeout onFunc s t \<Longrightarrow> wait_env timeout onFunc s t"
| arrive: "wait_env timeout onFunc s (s\<lparr>wy_handlers := wy_handlers s @ [(m, Arrived)]\<rparr>)"

inductive_cases WaitUntilE: "WaitUntil timeout onFunc s t"
inductive_cases wait_envE: "wait_env timeout onFunc s t"

section \<open>Receipts\<close>

definition reply_verdict :: "string \<Rightarrow> message \<Rightarrow> verdict" where
  "reply_verdict uuid msg = (if msg_ReplyTo msg \<noteq> uuid then MsgNotWanted else Verdict None)"

text \<open>
  What \<open>waitOnReply\<close> answers once its \<open>WaitUntil\<close> has returned: the error, or the caller's function on
  the message that the captured variable holds, the last one that was accepted.
\<close>

definition waitOnReply :: "(message \<Rightarrow> string option) \<Rightarrow> wait_sys \<Rightarrow> (string option) option" where
  "waitOnReply onFunc s =
     (case wy_waiter s of
        Returned (Some err) \<Rightarrow> Some (Some err)
      | Returned None \<Rightarrow> Some (onFunc (last (wy_accepted s)))
      | _ \<Rightarrow> None)"

datatype receipt_call = ReceiptError string | ReceiptWaits string "int option"

definition MsgReceipt_WaitUntil :: "string option \<Rightarrow> (int option) option \<Rightarrow> receipt_call" where
  "MsgReceipt_WaitUntil m timeout =
     (case m of None \<Rightarrow> ReceiptError ErrNoReceipt | Some uuid \<Rightarrow> ReceiptWaits uuid (wait_timeout timeout))"

definition MsgReceipt_WaitOn :: "string option \<Rightarrow> receipt_call" where
  "MsgReceipt_WaitOn m = MsgReceipt_WaitUntil m None"

text \<open>\<open>OnReply\<close> answers at once; the wait it starts runs on its own, and its answer is discarded.\<close>

definition OnReply :: "string option \<Rightarrow> string option \<times> string option" where
  "OnReply m = (case m of None \<Rightarrow> (Some ErrNoReceipt, None) | Some uuid \<Rightarrow> (None, Some uuid))"

section \<open>Every run ends\<close>

fun handler_weight :: "wait_handler \<Rightarrow> nat" where
  "handler_weight Arrived = 4"
| "handler_weight (Sending v) = 3"
| "handler_weight Reporting = 2"

fun waiter_weight :: "wait_phase \<Rightarrow> nat" where
  "waiter_weight Starting = 5"
| "waiter_weight Selecting = 3"
| "waiter_weight (Leaving v) = 2"
| "waiter_weight (Locking v) = 1"
| "waiter_weight (Returned v) = 0"

definition wait_measure :: "wait_sys \<Rightarrow> nat" where
  "wait_measure s = sum_list (map (\<lambda>(m, h). handler_weight h) (wy_handlers s)) + waiter_weight (wy_waiter s)
     + length (pod_feedbackChan (wy_pod s))"

lemma pod_setOnFunc_feedback:
  "pod_setOnFunc on p = Some (Inr p') \<Longrightarrow> length (pod_feedbackChan p') \<le> Suc (length (pod_feedbackChan p))"
  by (auto simp: pod_setOnFunc_def Let_def pod_feedback_Some_iff split: if_splits)

lemma pod_setOnFunc_None:
  "pod_setOnFunc None p = Some (Inr (p\<lparr>pod_filter := newMessageFilter, pod_onFunc := None\<rparr>))"
  by (simp add: pod_setOnFunc_def)

lemma WaitUntil_decreases: "WaitUntil timeout onFunc s t \<Longrightarrow> wait_measure t < wait_measure s"
proof (induction rule: WaitUntil.induct)
  case (install s p)
  then show ?case using pod_setOnFunc_feedback[of "Some (\<lambda>_. None)" "wy_pod s" p]
    by (simp add: wait_measure_def)
next
  case (leave s v p)
  then show ?case by (auto simp: wait_measure_def pod_setOnFunc_None)
qed (auto simp: wait_measure_def pod_feedback_Some_iff)

lemma WaitUntil_wf: "wf {(t, s). WaitUntil timeout onFunc s t}"
  by (rule wf_subset[of "measure wait_measure"]) (auto simp: WaitUntil_decreases)

section \<open>One wanted message\<close>

text \<open>The handlers that have an answer for the caller and have not delivered it.\<close>

definition undelivered :: "(message \<Rightarrow> verdict) \<Rightarrow> (message \<times> wait_handler) list \<Rightarrow> (message \<times> wait_handler) list" where
  "undelivered onFunc hs = filter (\<lambda>(m, h). onFunc m \<noteq> MsgNotWanted \<and> h \<noteq> Reporting) hs"

lemma undelivered_append [simp]:
  "undelivered onFunc (as @ bs) = undelivered onFunc as @ undelivered onFunc bs"
  "undelivered onFunc ((m, h) # bs) =
     (if onFunc m \<noteq> MsgNotWanted \<and> h \<noteq> Reporting then [(m, h)] else []) @ undelivered onFunc bs"
  "undelivered onFunc [] = []"
  by (simp_all add: undelivered_def)

definition senders_true :: "(message \<Rightarrow> verdict) \<Rightarrow> (message \<times> wait_handler) list \<Rightarrow> bool" where
  "senders_true onFunc hs \<longleftrightarrow> (\<forall>m v. (m, Sending v) \<in> set hs \<longrightarrow> onFunc m = Verdict v)"

definition wait_installed :: "pod \<Rightarrow> bool" where
  "wait_installed p \<longleftrightarrow> pod_onFunc p \<noteq> None \<and> pod_filter p = newMessageFilter"

text \<open>
  The invariant of a call without a timeout for which just \<open>m\<close> among the messages at hand has an
  answer \<open>v\<close>.
\<close>

definition one_wanted :: "(message \<Rightarrow> verdict) \<Rightarrow> message \<Rightarrow> string option \<Rightarrow> wait_sys \<Rightarrow> bool" where
  "one_wanted onFunc m v s \<longleftrightarrow> onFunc m = Verdict v \<and> senders_true onFunc (wy_handlers s)
     \<and> (let u = undelivered onFunc (wy_handlers s) in
        case wy_waiter s of
          Starting \<Rightarrow> False
        | Selecting \<Rightarrow> wait_installed (wy_pod s)
            \<and> (u = [(m, Arrived)] \<and> wy_accepted s = [] \<or> u = [(m, Sending v)] \<and> wy_accepted s = [m])
        | Returned w \<Rightarrow> w = v \<and> u = [] \<and> wy_accepted s = [m] \<and> pod_onFunc (wy_pod s) = None
        | Leaving w \<Rightarrow> w = v \<and> u = [] \<and> wy_accepted s = [m] \<and> wait_installed (wy_pod s)
        | Locking w \<Rightarrow> w = v \<and> u = [] \<and> wy_accepted s = [m] \<and> wait_installed (wy_pod s))"

lemma wait_installed_feedback [simp]:
  "wait_installed (p\<lparr>pod_feedbackChan := q\<rparr>) = wait_installed p"
  by (simp add: wait_installed_def)

lemma handler_begin_installed:
  "wait_installed p \<Longrightarrow> handler_begin onFunc p m =
     (case onFunc m of MsgNotWanted \<Rightarrow> Some Reporting | Verdict v \<Rightarrow> Some (Sending v))"
  by (auto simp: handler_begin_def wait_installed_def)

lemma handler_begin_uninstalled: "pod_onFunc p = None \<Longrightarrow> handler_begin onFunc p m = None"
  by (simp add: handler_begin_def)

lemma senders_true_simps [simp]:
  "senders_true onFunc (as @ bs) \<longleftrightarrow> senders_true onFunc as \<and> senders_true onFunc bs"
  "senders_true onFunc ((m, h) # bs) \<longleftrightarrow>
     (\<forall>v. h = Sending v \<longrightarrow> onFunc m = Verdict v) \<and> senders_true onFunc bs"
  "senders_true onFunc []"
  by (auto simp: senders_true_def)

lemma one_wanted_step:
  assumes "WaitUntil None onFunc s t" "one_wanted onFunc m v s"
  shows "one_wanted onFunc m v t"
  using assms
proof (induction rule: WaitUntil.induct)
  case (ignore s as m' bs)
  then show ?case
    by (auto simp: one_wanted_def Let_def handler_begin_installed split: wait_phase.splits verdict.splits)
next
  case (unwanted s as m' bs)
  then show ?case
    by (auto simp: one_wanted_def Let_def handler_begin_installed handler_begin_uninstalled
        split: wait_phase.splits verdict.splits)
next
  case (wanted s as m' bs w)
  then show ?case
    by (auto simp: one_wanted_def Let_def handler_begin_installed handler_begin_uninstalled append_eq_Cons_conv
        Cons_eq_append_conv split: wait_phase.splits verdict.splits)
next
  case (receive s as m' w bs)
  then have "onFunc m' = Verdict w" by (auto simp: one_wanted_def)
  with receive show ?case
    by (auto simp: one_wanted_def Let_def append_eq_Cons_conv Cons_eq_append_conv)
next
  case (report s as m' bs p)
  then show ?case
    by (auto simp: one_wanted_def Let_def pod_feedback_Some_iff split: wait_phase.splits)
next
  case (bus_takes s fb fbs)
  then show ?case by (auto simp: one_wanted_def Let_def split: wait_phase.splits)
next
  case (leave s w p)
  then show ?case by (auto simp: one_wanted_def Let_def pod_setOnFunc_None)
qed (auto simp: one_wanted_def Let_def)

text \<open>Where no step is left the call has returned and every handler is done.\<close>

definition wait_final :: "int option \<Rightarrow> (message \<Rightarrow> verdict) \<Rightarrow> wait_sys \<Rightarrow> bool" where
  "wait_final timeout onFunc s \<longleftrightarrow> (\<nexists>t. WaitUntil timeout onFunc s t)"

lemma wait_final_feedback: "wait_final timeout onFunc s \<Longrightarrow> pod_feedbackChan (wy_pod s) = []"
  unfolding wait_final_def by (cases "pod_feedbackChan (wy_pod s)") (blast intro: bus_takes)+

lemma wait_final_reporting:
  assumes "wait_final timeout onFunc s"
  shows "(m, Reporting) \<notin> set (wy_handlers s)"
proof
  assume "(m, Reporting) \<in> set (wy_handlers s)"
  then obtain as bs where "wy_handlers s = as @ (m, Reporting) # bs" by (meson split_list)
  moreover have "\<exists>p. pod_feedback podFeedbackMsgSuccess (wy_pod s) = Some (Inr p)"
    using wait_final_feedback[OF assms] by (simp add: pod_feedback_Some_iff defaultPodChanSize_def)
  ultimately show False using assms unfolding wait_final_def by (blast intro: report)
qed

lemma wait_final_arrived:
  assumes "wait_final timeout onFunc s" "(m, Arrived) \<in> set (wy_handlers s)"
  shows "\<exists>v. wy_waiter s = Locking v"
proof (rule ccontr)
  assume n: "\<nexists>v. wy_waiter s = Locking v"
  from assms(2) obtain as bs where h: "wy_handlers s = as @ (m, Arrived) # bs" by (meson split_list)
  have "\<exists>t. WaitUntil timeout onFunc s t"
  proof (cases "handler_begin onFunc (wy_pod s) m")
    case None
    then show ?thesis using h n by (blast intro: ignore)
  next
    case (Some k)
    moreover from this have "k \<noteq> Arrived" by (auto simp: handler_begin_def split: if_splits verdict.splits)
    ultimately show ?thesis using h n by (cases k) (blast intro: unwanted wanted)+
  qed
  with assms(1) show False by (simp add: wait_final_def)
qed

lemma one_wanted_final:
  assumes "one_wanted onFunc m v s" "wait_final timeout onFunc s"
  shows "wy_waiter s = Returned v \<and> wy_handlers s = [] \<and> wy_accepted s = [m]
    \<and> pod_onFunc (wy_pod s) = None"
proof -
  have sending: "(m', Sending w) \<in> set (undelivered onFunc (wy_handlers s))"
    if "(m', Sending w) \<in> set (wy_handlers s)" for m' w
    using that assms(1) by (auto simp: one_wanted_def senders_true_def undelivered_def)
  show ?thesis
  proof (cases "wy_waiter s")
    case Starting
    with assms(1) show ?thesis by (simp add: one_wanted_def)
  next
    case Selecting
    with assms(1) have "(m, Arrived) \<in> set (wy_handlers s) \<or> (m, Sending v) \<in> set (wy_handlers s)"
      by (auto simp: one_wanted_def Let_def undelivered_def filter_eq_Cons_iff)
    then have "(m, Sending v) \<in> set (wy_handlers s)"
      using wait_final_arrived[OF assms(2)] Selecting by auto
    then obtain as bs where "wy_handlers s = as @ (m, Sending v) # bs" by (meson split_list)
    with Selecting have "\<exists>t. WaitUntil timeout onFunc s t" by (blast intro: receive)
    with assms(2) show ?thesis by (simp add: wait_final_def)
  next
    case (Leaving w)
    with assms(2) show ?thesis unfolding wait_final_def by (blast intro: call_lock)
  next
    case (Locking w)
    with assms(1) have "undelivered onFunc (wy_handlers s) = []" by (simp add: one_wanted_def Let_def)
    with sending wait_final_reporting[OF assms(2)] have "h = Arrived" if "(x, h) \<in> set (wy_handlers s)" for x h
      using that by (cases h) auto
    then have "no_reader (wy_handlers s)" by (auto simp: no_reader_def list_all_iff)
    then have "\<exists>t. WaitUntil timeout onFunc s t"
      using leave[OF Locking _ pod_setOnFunc_None] by blast
    with assms(2) show ?thesis by (simp add: wait_final_def)
  next
    case (Returned w)
    with assms(1) have r: "w = v" "undelivered onFunc (wy_handlers s) = []" "wy_accepted s = [m]"
      "pod_onFunc (wy_pod s) = None" by (simp_all add: one_wanted_def Let_def)
    have "x \<notin> set (wy_handlers s)" for x
      using wait_final_arrived[OF assms(2)] wait_final_reporting[OF assms(2)] sending r(2) Returned
      by (cases x; cases "snd x") auto
    then have "wy_handlers s = []" by (metis list.set_intros(1) neq_Nil_conv)
    with r Returned show ?thesis by simp
  qed
qed

interpretation wanted: ending_system "WaitUntil None onFunc" "one_wanted onFunc m v" wait_measure for onFunc m v
  by unfold_locales (auto intro: one_wanted_step WaitUntil_decreases)

text \<open>Such a wait comes to its end, and not later than after as many steps as its measure says.\<close>

lemma one_wanted_ends:
  assumes "one_wanted onFunc m v s"
  shows "\<exists>t. (WaitUntil None onFunc)\<^sup>*\<^sup>* s t \<and> wait_final None onFunc t"
  using wanted.run_to_end[OF assms] by (auto simp: wait_final_def)

lemma undelivered_arrived:
  "undelivered onFunc (map (\<lambda>m. (m, Arrived)) ms) = map (\<lambda>m. (m, Arrived)) (filter (\<lambda>m. onFunc m \<noteq> MsgNotWanted) ms)"
  by (simp add: undelivered_def filter_map o_def)

lemma one_wanted_start:
  assumes "filter (\<lambda>m. onFunc m \<noteq> MsgNotWanted) ms = [m]" "onFunc m = Verdict v" "wait_installed p"
  shows "one_wanted onFunc m v
    \<lparr>wy_pod = p, wy_handlers = map (\<lambda>m. (m, Arrived)) ms, wy_waiter = Selecting, wy_accepted = []\<rparr>"
  using assms by (auto simp: one_wanted_def Let_def undelivered_arrived senders_true_def)

section \<open>An answer that comes after the waiter left\<close>

definition left_behind :: "wait_sys \<Rightarrow> bool" where
  "left_behind s \<longleftrightarrow> (\<exists>m v w. (m, Sending v) \<in> set (wy_handlers s)
     \<and> (wy_waiter s = Leaving w \<or> wy_waiter s = Locking w))"

lemma left_behind_step: "wait_env timeout onFunc s t \<Longrightarrow> left_behind s \<Longrightarrow> left_behind t"
proof (induction rule: wait_env.induct)
  case (inside s t)
  then show ?case
    by (induction rule: WaitUntil.induct) (auto simp: left_behind_def no_reader_def list_all_iff)
qed (auto simp: left_behind_def)

interpretation left: step_system "wait_env timeout onFunc" left_behind for timeout onFunc
  by unfold_locales (rule left_behind_step)

lemma locking_stays_step:
  "wait_env timeout onFunc s t \<Longrightarrow> left_behind s \<and> wy_waiter s = Locking v \<Longrightarrow> left_behind t \<and> wy_waiter t = Locking v"
proof (induction rule: wait_env.induct)
  case (inside s t)
  then have "left_behind t" using left_behind_step wait_env.inside by blast
  moreover have "wy_waiter t = Locking v"
    using inside by (induction rule: WaitUntil.induct) (auto simp: left_behind_def no_reader_def list_all_iff)
  ultimately show ?case by blast
qed (auto simp: left_behind_def)

interpretation locking: step_system "wait_env timeout onFunc" "\<lambda>s. left_behind s \<and> wy_waiter s = Locking v"
  for timeout onFunc v
  by unfold_locales (rule locking_stays_step)

lemma locked_out_step:
  "wait_env timeout onFunc s t \<Longrightarrow> wy_waiter s = Locking v \<Longrightarrow> (m, Arrived) \<in> set (wy_handlers s) \<Longrightarrow>
     (m, Arrived) \<in> set (wy_handlers t)"
proof (induction rule: wait_env.induct)
  case (inside s t)
  then show ?case by (induction rule: WaitUntil.induct) auto
qed auto

interpretation out: step_system "wait_env timeout onFunc"
  "\<lambda>s. (left_behind s \<and> wy_waiter s = Locking v) \<and> (m, Arrived) \<in> set (wy_handlers s)" for timeout onFunc v m
  by unfold_locales (metis locking.inv_step locked_out_step)

section \<open>Properties\<close>


text \<open>
  C25: A second answer, or one answer beside a timeout, can block the pod for good: some run leads to a
  state from which, whatever arrives and whatever steps follow, the waiting call never returns and no
  message that arrives later is ever handled.
\<close>

theorem second_answer_blocks_pod:
  assumes "wy_waiter s = Selecting" "wait_installed (wy_pod s)" "onFunc m = Verdict v"
    and "wy_handlers s = (m, Arrived) # hs"
    and "timeout \<noteq> None \<or> (m', Arrived) \<in> set hs \<and> onFunc m' = Verdict v'"
  shows "\<exists>s'. (WaitUntil timeout onFunc)\<^sup>*\<^sup>* s s' \<and>
    (\<forall>t. (wait_env timeout onFunc)\<^sup>*\<^sup>* s' t \<longrightarrow> (\<nexists>w. wy_waiter t = Returned w)
       \<and> (\<forall>t' x. (x, Arrived) \<in> set (wy_handlers t) \<and> (wait_env timeout onFunc)\<^sup>*\<^sup>* t t'
             \<longrightarrow> (x, Arrived) \<in> set (wy_handlers t')))"
proof -
  note b = handler_begin_installed[OF assms(2)]
  let ?s1 = "s\<lparr>wy_handlers := (m, Sending v) # hs, wy_accepted := wy_accepted s @ [m]\<rparr>"
  have 1: "WaitUntil timeout onFunc s ?s1"
    using WaitUntil.wanted[of s "[]" m hs onFunc v timeout] assms b by simp
  have "\<exists>s' w. (WaitUntil timeout onFunc)\<^sup>*\<^sup>* ?s1 s' \<and> wy_waiter s' = Leaving w \<and> left_behind s'"
  proof (cases "timeout = None")
    case False
    let ?s2 = "?s1\<lparr>wy_waiter := Leaving (Some ErrWaitTimeout)\<rparr>"
    have "WaitUntil timeout onFunc ?s1 ?s2" using assms(1) False by (intro expire) simp_all
    moreover have "wy_waiter ?s2 = Leaving (Some ErrWaitTimeout)" "left_behind ?s2"
      by (auto simp: left_behind_def)
    ultimately show ?thesis by blast
  next
    case True
    with assms(5) obtain as bs where hs: "hs = as @ (m', Arrived) # bs" "onFunc m' = Verdict v'"
      by (meson split_list)
    let ?s2 = "?s1\<lparr>wy_handlers := ((m, Sending v) # as) @ (m', Sending v') # bs, wy_accepted := wy_accepted ?s1 @ [m']\<rparr>"
    have 2: "WaitUntil timeout onFunc ?s1 ?s2"
      using WaitUntil.wanted[of ?s1 "(m, Sending v) # as" m' bs onFunc v' timeout] assms(1,2) hs
      by (simp add: handler_begin_installed)
    let ?s3 = "?s2\<lparr>wy_handlers := [] @ (m, Reporting) # (as @ (m', Sending v') # bs), wy_waiter := Leaving v\<rparr>"
    have 3: "WaitUntil timeout onFunc ?s2 ?s3"
      using assms(1) by (intro receive) simp_all
    have "(WaitUntil timeout onFunc)\<^sup>*\<^sup>* ?s1 ?s3" using 2 3 by (meson converse_rtranclp_into_rtranclp rtranclp.rtrancl_refl)
    moreover have "wy_waiter ?s3 = Leaving v" "left_behind ?s3" by (auto simp: left_behind_def)
    ultimately show ?thesis by blast
  qed
  then obtain s' w where r: "(WaitUntil timeout onFunc)\<^sup>*\<^sup>* ?s1 s'" "wy_waiter s' = Leaving w" "left_behind s'" by blast
  let ?l = "s'\<lparr>wy_waiter := Locking w\<rparr>"
  have "(WaitUntil timeout onFunc)\<^sup>*\<^sup>* s ?l"
    using 1 r(1) call_lock[OF r(2), of timeout onFunc] by (meson converse_rtranclp_into_rtranclp rtranclp.rtrancl_into_rtrancl)
  moreover have l: "left_behind ?l" using r(3) by (auto simp: left_behind_def)
  moreover have "wy_waiter t = Locking w" if "(wait_env timeout onFunc)\<^sup>*\<^sup>* ?l t" for t
    using locking.inv_reach[OF that] l by simp
  ultimately show ?thesis
    using left.inv_reach[OF _ l] out.inv_reach by (intro exI[of _ ?l]) (metis wait_phase.distinct(19))
qed

definition example_ask :: message where
  "example_ask = NewMsg ''ask'' 0 ''question'' []"

definition example_answer :: message where
  "example_answer = SetReplyTo (NewMsg ''a'' 0 ''answer'' []) ''ask''"

lemma example_send:
  "\<exists>p1 p2. Pod_Send example_ask (newPod False) = (Some (''ask'', example_ask), p1)
     \<and> pod_setOnFunc (Some (\<lambda>_. None)) p1 = Some (Inr p2)"
  by (simp add: Pod_Send_def newPod_def example_ask_def message_defs pod_setOnFunc_def)


lemma second_answer_blocks_pod_witness:
  "\<exists>p2 s'. (WaitUntil None (reply_verdict ''ask''))\<^sup>*\<^sup>*
      \<lparr>wy_pod = p2, wy_handlers = [(example_answer, Arrived), (example_answer\<lparr>msg_UUID := ''b''\<rparr>, Arrived)],
       wy_waiter = Selecting, wy_accepted = []\<rparr> s'
    \<and> (\<forall>t. (wait_env None (reply_verdict ''ask''))\<^sup>*\<^sup>* s' t \<longrightarrow> (\<nexists>w. wy_waiter t = Returned w))"
proof -
  from example_send obtain p1 p2 where p: "pod_setOnFunc (Some (\<lambda>_. None)) p1 = Some (Inr p2)" by blast
  let ?s = "\<lparr>wy_pod = p2, wy_handlers = [(example_answer, Arrived), (example_answer\<lparr>msg_UUID := ''b''\<rparr>, Arrived)],
       wy_waiter = Selecting, wy_accepted = []\<rparr>"
  have "wy_waiter ?s = Selecting" "wait_installed (wy_pod ?s)"
    "reply_verdict ''ask'' example_answer = Verdict None"
    "wy_handlers ?s = (example_answer, Arrived) # [(example_answer\<lparr>msg_UUID := ''b''\<rparr>, Arrived)]"
    "None \<noteq> (None :: int option) \<or> (example_answer\<lparr>msg_UUID := ''b''\<rparr>, Arrived)
        \<in> set [(example_answer\<lparr>msg_UUID := ''b''\<rparr>, Arrived)]
      \<and> reply_verdict ''ask'' (example_answer\<lparr>msg_UUID := ''b''\<rparr>) = Verdict None"
    using pod_setOnFunc_result[OF p]
    by (simp_all add: wait_installed_def reply_verdict_def example_answer_def message_defs)
  from second_answer_blocks_pod[OF this] show ?thesis by blast
qed

text \<open>A reply whose handler runs before the wait has put its callback in place is lost for it.\<close>

lemma early_reply_lost:
  assumes "pod_onFunc p = None"
  shows "WaitUntil timeout onFunc (wait_begin p [m]) (wait_begin p [])"
  using ignore[of "wait_begin p [m]" "[]" m "[]" onFunc timeout] assms
  by (simp add: wait_begin_def handler_begin_def)

text \<open>A wait on a nil receipt is answered at once, by an error, and a wait on a receipt is for its message.\<close>

lemma receipt_wait:
  "MsgReceipt_WaitOn None = ReceiptError ErrNoReceipt"
  "MsgReceipt_WaitOn (Some uuid) = ReceiptWaits uuid None"
  by (simp_all add: MsgReceipt_WaitOn_def MsgReceipt_WaitUntil_def)

end
