(* ===== verification/Websocket.thy ===== *)
theory Websocket
  imports Hub Encodings
begin

text \<open>
  The websocket transport of \<open>foundation/bus/transport/websocket/transport.go\<close>. A connection is the
  frames its peer has sent and will send, and those written to it; reading past the last frame is the
  read error of a connection that ended. Dialling, upgrading an HTTP request and what a write on the
  socket answers are the websocket library's and are arguments, as are the JSON encodings.
\<close>

section \<open>State\<close>

datatype frame = TextMessage bytes | BinaryMessage bytes

datatype write_error = ErrCloseSent | WriteNodeWithdrawn | WriteFailed string

record ws_conn =
  wc_nodeUUID :: string
  wc_in :: "frame list"
  wc_out :: "frame list"
  wc_closed :: bool

definition dialled :: "frame list \<Rightarrow> ws_conn" where
  "dialled incoming = \<lparr>wc_nodeUUID = '''', wc_in = incoming, wc_out = [], wc_closed = False\<rparr>"

definition MsgTypeWebsocketMessage :: string where
  "MsgTypeWebsocketMessage = ''websocket.message''"

definition withdrawMessage :: bytes where
  "withdrawMessage = ''WITHDRAW''"

definition withdrawAckMessage :: bytes where
  "withdrawAckMessage = ''WITHDRAW ACK''"

text \<open>The transport: the callback for incoming connections is set by \<open>Setup\<close>.\<close>

record ws_transport =
  wt_NodeUUID :: string
  wt_hasConnectionFunc :: bool

definition ws_New :: ws_transport where
  "ws_New = \<lparr>wt_NodeUUID = '''', wt_hasConnectionFunc = False\<rparr>"

definition ws_Setup :: "string \<Rightarrow> ws_transport \<Rightarrow> ws_transport" where
  "ws_Setup nodeUUID t = t\<lparr>wt_NodeUUID := nodeUUID, wt_hasConnectionFunc := True\<rparr>"

section \<open>Opening connections\<close>

definition ws_endpoint :: "string \<Rightarrow> string" where
  "ws_endpoint endpoint =
     (if take 2 endpoint = ''ws'' then endpoint else ''ws://'' @ endpoint)"

definition ws_Connect :: "(string \<Rightarrow> string + string) \<Rightarrow> (string \<Rightarrow> string + frame list) \<Rightarrow> string \<Rightarrow> string + ws_conn" where
  "ws_Connect parse dial endpoint =
     (case parse (ws_endpoint endpoint) of
        Inl err \<Rightarrow> Inl err
      | Inr url \<Rightarrow>
          (case dial url of
             Inl err \<Rightarrow> Inl (''[transport-websocket] failed to Dial endpoint: '' @ err)
           | Inr incoming \<Rightarrow> Inr (dialled incoming)))"

text \<open>A request to the endpoint: an internal error, no connection, or a connection for the hub.\<close>

datatype ws_serve = Serve500 | ServeNothing | ServeConnection ws_conn

definition HTTPHandlerFunc :: "ws_transport \<Rightarrow> (string + frame list) \<Rightarrow> ws_serve" where
  "HTTPHandlerFunc t upgraded =
     (if \<not> wt_hasConnectionFunc t then Serve500
      else case upgraded of Inl err \<Rightarrow> ServeNothing | Inr incoming \<Rightarrow> ServeConnection (dialled incoming))"

section \<open>Messages\<close>

definition WriteMessage :: "write_error option \<Rightarrow> frame \<Rightarrow> ws_conn \<Rightarrow> write_error option \<times> ws_conn" where
  "WriteMessage res f c = (case res of Some e \<Rightarrow> (Some e, c) | None \<Rightarrow> (None, c\<lparr>wc_out := wc_out c @ [f]\<rparr>))"

definition ReadMessage_frame :: "ws_conn \<Rightarrow> (frame \<times> ws_conn) option" where
  "ReadMessage_frame c = (case wc_in c of [] \<Rightarrow> None | f # fs \<Rightarrow> Some (f, c\<lparr>wc_in := fs\<rparr>))"

datatype ws_send_error = SendMarshal | SendConnectionClosed | SendNodeWithdrawnError | SendWrite string

definition ws_SendMsg :: "(message \<Rightarrow> bytes option) \<Rightarrow> write_error option \<Rightarrow> message \<Rightarrow> ws_conn \<Rightarrow>
    ws_send_error option \<times> ws_conn" where
  "ws_SendMsg marshal res msg c =
     (case marshal msg of
        None \<Rightarrow> (Some SendMarshal, c)
      | Some msgBytes \<Rightarrow>
          (case WriteMessage res (BinaryMessage msgBytes) c of
             (None, c') \<Rightarrow> (None, c')
           | (Some ErrCloseSent, c') \<Rightarrow> (Some SendConnectionClosed, c')
           | (Some WriteNodeWithdrawn, c') \<Rightarrow> (Some SendNodeWithdrawnError, c')
           | (Some (WriteFailed e), c') \<Rightarrow> (Some (SendWrite e), c')))"

text \<open>What a read gives the hub: an error, the peer's withdraw or its acknowledgement, or a message.\<close>

datatype ws_read = WsReadError | WsWithdraw bool | WsMessage message

definition ws_decode :: "(bytes \<Rightarrow> message option) \<Rightarrow> string \<Rightarrow> int \<Rightarrow> bytes \<Rightarrow> message" where
  "ws_decode unmarshal uuid now data =
     (case unmarshal data of Some m \<Rightarrow> m | None \<Rightarrow> NewMsg uuid now MsgTypeWebsocketMessage data)"

definition ws_ReadMsg :: "(bytes \<Rightarrow> message option) \<Rightarrow> string \<Rightarrow> int \<Rightarrow> ws_conn \<Rightarrow> ws_read \<times> ws_conn" where
  "ws_ReadMsg unmarshal uuid now c =
     (case ReadMessage_frame c of
        None \<Rightarrow> (WsReadError, c)
      | Some (TextMessage data, c') \<Rightarrow>
          if data = withdrawMessage then (WsWithdraw False, c')
          else if data = withdrawAckMessage then (WsWithdraw True, c')
          else (WsMessage (ws_decode unmarshal uuid now data), c')
      | Some (BinaryMessage data, c') \<Rightarrow> (WsMessage (ws_decode unmarshal uuid now data), c'))"

definition ws_SendWithdraw :: "write_error option \<Rightarrow> bool \<Rightarrow> ws_conn \<Rightarrow> write_error option \<times> ws_conn" where
  "ws_SendWithdraw res ack c =
     WriteMessage res (TextMessage (if ack then withdrawAckMessage else withdrawMessage)) c"

definition ws_Close :: "string option \<Rightarrow> ws_conn \<Rightarrow> string option \<times> ws_conn" where
  "ws_Close res c =
     (case res of
        Some e \<Rightarrow> (Some (''[transport-websocket] failed to Close connection: '' @ e), c\<lparr>wc_closed := True\<rparr>)
      | None \<Rightarrow> (None, c\<lparr>wc_closed := True\<rparr>))"

section \<open>Handshakes\<close>

datatype hs_error = HsMarshal | HsWrite | HsRead | HsNotHandshake | HsUnmarshal

definition OutgoingHandshake :: "(handshake \<Rightarrow> bytes option) \<Rightarrow> (bytes \<Rightarrow> handshakeAck option) \<Rightarrow> write_error option \<Rightarrow>
    handshake \<Rightarrow> ws_conn \<Rightarrow> (hs_error + handshakeAck) \<times> ws_conn" where
  "OutgoingHandshake enc dec_ack res hs c =
     (case enc hs of
        None \<Rightarrow> (Inl HsMarshal, c)
      | Some j \<Rightarrow>
          (case WriteMessage res (BinaryMessage j) c of
             (Some e, c1) \<Rightarrow> (Inl HsWrite, c1)
           | (None, c1) \<Rightarrow>
               (case ReadMessage_frame c1 of
                  None \<Rightarrow> (Inl HsRead, c1)
                | Some (TextMessage m, c2) \<Rightarrow> (Inl HsNotHandshake, c2)
                | Some (BinaryMessage m, c2) \<Rightarrow>
                    (case dec_ack m of
                       None \<Rightarrow> (Inl HsUnmarshal, c2)
                     | Some ack \<Rightarrow> (Inr ack, c2\<lparr>wc_nodeUUID := ack_UUID ack\<rparr>)))))"

definition IncomingHandshake :: "(bytes \<Rightarrow> handshake option) \<Rightarrow> (handshakeAck \<Rightarrow> bytes option) \<Rightarrow> write_error option \<Rightarrow>
    (handshake \<Rightarrow> handshakeAck) \<Rightarrow> ws_conn \<Rightarrow> (hs_error + handshake) \<times> ws_conn" where
  "IncomingHandshake dec_hs enc_ack res callback c =
     (case ReadMessage_frame c of
        None \<Rightarrow> (Inl HsRead, c)
      | Some (TextMessage m, c1) \<Rightarrow> (Inl HsNotHandshake, c1)
      | Some (BinaryMessage m, c1) \<Rightarrow>
          (case dec_hs m of
             None \<Rightarrow> (Inl HsUnmarshal, c1)
           | Some hs \<Rightarrow>
               (case enc_ack (callback hs) of
                  None \<Rightarrow> (Inl HsMarshal, c1)
                | Some j \<Rightarrow>
                    (case WriteMessage res (BinaryMessage j) c1 of
                       (Some e, c2) \<Rightarrow> (Inl HsWrite, c2)
                     | (None, c2) \<Rightarrow> (Inr hs, c2\<lparr>wc_nodeUUID := hs_UUID hs\<rparr>)))))"

lemmas ws_defs = WriteMessage_def ReadMessage_frame_def ws_SendMsg_def ws_ReadMsg_def ws_decode_def
  ws_SendWithdraw_def OutgoingHandshake_def IncomingHandshake_def dialled_def

section \<open>A stream of messages and withdraws\<close>

datatype ws_item = ItemMessage message | ItemWithdraw bool

fun ws_write :: "(message \<Rightarrow> bytes option) \<Rightarrow> ws_item list \<Rightarrow> ws_conn \<Rightarrow> ws_conn" where
  "ws_write marshal [] c = c"
| "ws_write marshal (ItemMessage m # xs) c = ws_write marshal xs (snd (ws_SendMsg marshal None m c))"
| "ws_write marshal (ItemWithdraw ack # xs) c = ws_write marshal xs (snd (ws_SendWithdraw None ack c))"

fun ws_reads :: "(bytes \<Rightarrow> message option) \<Rightarrow> nat \<Rightarrow> ws_conn \<Rightarrow> ws_read list" where
  "ws_reads unmarshal 0 c = []"
| "ws_reads unmarshal (Suc n) c = (let (r, c') = ws_ReadMsg unmarshal '''' 0 c in r # ws_reads unmarshal n c')"

fun item_read :: "ws_item \<Rightarrow> ws_read" where
  "item_read (ItemMessage m) = WsMessage m"
| "item_read (ItemWithdraw ack) = WsWithdraw ack"

lemma withdraw_messages_differ [simp]: "withdrawAckMessage \<noteq> withdrawMessage" "withdrawMessage \<noteq> withdrawAckMessage"
  by (simp_all add: withdrawAckMessage_def withdrawMessage_def)

fun item_frame :: "(message \<Rightarrow> bytes option) \<Rightarrow> ws_item \<Rightarrow> frame" where
  "item_frame marshal (ItemMessage m) = BinaryMessage (the (marshal m))"
| "item_frame marshal (ItemWithdraw ack) = TextMessage (if ack then withdrawAckMessage else withdrawMessage)"

lemma ws_write_out:
  "encoding marshal unmarshal \<Longrightarrow> wc_out (ws_write marshal xs c) = wc_out c @ map (item_frame marshal) xs"
proof (induction xs arbitrary: c)
  case (Cons x xs)
  then show ?case
  proof (cases x)
    case (ItemMessage m)
    from Cons.prems obtain j where "marshal m = Some j" by (rule encodingE)
    with Cons ItemMessage show ?thesis by (simp add: ws_defs)
  qed (auto simp: ws_defs)
qed simp

lemma ws_reads_frames:
  assumes "encoding marshal unmarshal"
  shows "ws_reads unmarshal (length xs) (c\<lparr>wc_in := map (item_frame marshal) xs\<rparr>) = map item_read xs"
proof (induction xs arbitrary: c)
  case (Cons x xs)
  have "ws_ReadMsg unmarshal '''' 0 (c\<lparr>wc_in := map (item_frame marshal) (x # xs)\<rparr>) =
      (item_read x, c\<lparr>wc_in := map (item_frame marshal) xs\<rparr>)"
  proof (cases x)
    case (ItemMessage m)
    from assms obtain j where "marshal m = Some j" "unmarshal j = Some m" by (rule encodingE)
    with ItemMessage show ?thesis by (simp add: ws_defs)
  qed (auto simp: ws_defs)
  with Cons.IH[of c] show ?case by simp
qed simp

text \<open>
  C32: What one end of a websocket connection sends is what the other reads, in order: messages as
  they were, a withdraw and its acknowledgement told apart from each other and from any message.
\<close>

theorem websocket_stream_roundtrip:
  assumes "encoding marshal unmarshal"
  shows "ws_reads unmarshal (length xs) (dialled (wc_out (ws_write marshal xs (dialled [])))) = map item_read xs"
  using ws_reads_frames[OF assms, of xs "dialled []"] by (simp add: ws_write_out[OF assms] dialled_def)

section \<open>Two hubs shake hands\<close>

text \<open>
  The exchange between a node that connects and one that answers with its hub's callback: what either
  side makes of it.
\<close>

definition ws_exchange :: "(handshake \<Rightarrow> bytes option) \<Rightarrow> (bytes \<Rightarrow> handshake option) \<Rightarrow>
    (handshakeAck \<Rightarrow> bytes option) \<Rightarrow> (bytes \<Rightarrow> handshakeAck option) \<Rightarrow> (handshake \<Rightarrow> handshakeAck) \<Rightarrow>
    handshake \<Rightarrow> (hs_error + handshakeAck) \<times> (hs_error + handshake)" where
  "ws_exchange enc dec_hs enc_ack dec_ack callback hs =
     (let sent = wc_out (snd (OutgoingHandshake enc dec_ack None hs (dialled [])));
          (inc, b) = IncomingHandshake dec_hs enc_ack None callback (dialled sent);
          (out, a) = OutgoingHandshake enc dec_ack None hs (dialled (wc_out b))
      in (out, inc))"

lemma ws_exchange_agrees:
  assumes "encoding enc dec_hs" "encoding enc_ack dec_ack"
  shows "ws_exchange enc dec_hs enc_ack dec_ack callback hs = (Inr (callback hs), Inr hs)"
proof -
  from assms(1) obtain j where "enc hs = Some j" "dec_hs j = Some hs" by (rule encodingE)
  moreover from assms(2) obtain k where "enc_ack (callback hs) = Some k" "dec_ack k = Some (callback hs)"
    by (rule encodingE)
  ultimately show ?thesis by (simp add: ws_exchange_def ws_defs)
qed

definition hub_handshake :: "hub \<Rightarrow> handshake" where
  "hub_handshake h = \<lparr>hs_UUID = hub_nodeUUID h, hs_BelongsTo = hub_belongsTo h, hs_Interests = hub_interests h\<rparr>"

lemma setupNew_peers:
  assumes "hub_inv h" "hub_readers h = 0" "\<not> connectionExists u h" "u \<noteq> ''''"
  shows "\<exists>h'. setupNewConnection conn u bt ints h = Some h' \<and> hub_inv h' \<and> connectionExists u h'
    \<and> (\<forall>cap. hub_peers h' cap = hub_peers h cap \<union> (if cap \<in> set ints then {u} else {}))
    \<and> hub_meshConnections h' u = Some \<lparr>ch_UUID = u, ch_Conn = Some conn, ch_Signaler = NewSignaler,
         ch_ErrChan = [], ch_BelongsTo = bt, ch_Interests = ints\<rparr>
    \<and> hub_closed h' = hub_closed h \<and> hub_sent h' = hub_sent h"
proof -
  have none: "hub_meshConnections h u = None"
    using assms(1,3) by (fastforce simp: hub_inv_def connectionExists_def split: option.splits)
  obtain h' where h': "hub_addConnection conn u bt ints h = Some h'"
    using assms(2) by (simp add: hub_addConnection_def)
  have "setupNewConnection conn u bt ints h = Some h'" using assms(3) h' by (simp add: setupNewConnection_def)
  moreover have "hub_inv h'" using hub_inv_addConnection[OF assms(1,3,4) h'] .
  moreover have "connectionExists u h'" "hub_closed h' = hub_closed h" "hub_sent h' = hub_sent h"
    "hub_meshConnections h' u = Some \<lparr>ch_UUID = u, ch_Conn = Some conn, ch_Signaler = NewSignaler,
         ch_ErrChan = [], ch_BelongsTo = bt, ch_Interests = ints\<rparr>"
    "\<forall>cap. hub_peers h' cap = hub_peers h cap \<union> (if cap \<in> set ints then {u} else {})"
    using h' none assms(2) by (auto simp: hub_addConnection_def connectionExists_def hub_peers_def split: if_split_asm)
  ultimately show ?thesis by blast
qed

text \<open>
  C21: Two hubs, one of which connects to the other over a websocket, with no connection between them
  yet: when the connecting node's group is the other's or is \<open>*\<close>, each ends with the other as a
  connected peer, listed for exactly the other's interests; otherwise both close the connection and
  keep their peers.
\<close>

theorem two_hubs_mesh:
  assumes "encoding enc dec_hs" "encoding enc_ack dec_ack"
    and "hub_inv a" "hub_inv b" "hub_readers a = 0" "hub_readers b = 0"
    and "hub_nodeUUID a \<noteq> ''''" "hub_nodeUUID b \<noteq> ''''"
    and "\<not> connectionExists (hub_nodeUUID b) a" "\<not> connectionExists (hub_nodeUUID a) b"
    and "uuid = '''' \<or> uuid = hub_nodeUUID b"
    and "ws_exchange enc dec_hs enc_ack dec_ack (handshake_callback b) (hub_handshake a) = (out, inc)"
  shows "\<exists>a' b'. setupOutgoingConnection (\<lambda>_ _. map_sum (\<lambda>_. ''handshake'') (\<lambda>k. k) out) ca uuid a = Some a'
    \<and> handleIncomingConnection (case inc of Inl _ \<Rightarrow> None | Inr hs \<Rightarrow> Some hs) (isl inc) cb b = Some b'
    \<and> (if hub_belongsTo a \<in> {hub_belongsTo b, ''*''} then
         connectionExists (hub_nodeUUID b) a' \<and> connectionExists (hub_nodeUUID a) b' \<and> hub_inv a' \<and> hub_inv b'
         \<and> (\<forall>cap. hub_peers a' cap = hub_peers a cap \<union> (if cap \<in> set (hub_interests b) then {hub_nodeUUID b} else {}))
         \<and> (\<forall>cap. hub_peers b' cap = hub_peers b cap \<union> (if cap \<in> set (hub_interests a) then {hub_nodeUUID a} else {}))
       else a' = hub_close ca a \<and> b' = hub_close cb b)"
proof -
  have e: "out = Inr (handshake_callback b (hub_handshake a))" "inc = Inr (hub_handshake a)"
    using ws_exchange_agrees[OF assms(1,2), of "handshake_callback b" "hub_handshake a"] assms(12) by simp_all
  obtain a' where a': "setupNewConnection ca (hub_nodeUUID b) (hub_belongsTo b) (hub_interests b) a = Some a'"
    "hub_inv a'" "connectionExists (hub_nodeUUID b) a'"
    "\<forall>cap. hub_peers a' cap = hub_peers a cap \<union> (if cap \<in> set (hub_interests b) then {hub_nodeUUID b} else {})"
    using setupNew_peers[OF assms(3,5,9,8), of ca "hub_belongsTo b" "hub_interests b"] by blast
  obtain b' where b': "setupNewConnection cb (hub_nodeUUID a) (hub_belongsTo a) (hub_interests a) b = Some b'"
    "hub_inv b'" "connectionExists (hub_nodeUUID a) b'"
    "\<forall>cap. hub_peers b' cap = hub_peers b cap \<union> (if cap \<in> set (hub_interests a) then {hub_nodeUUID a} else {})"
    using setupNew_peers[OF assms(4,6,10,7), of cb "hub_belongsTo a" "hub_interests a"] by blast
  show ?thesis
  proof (cases "hub_belongsTo a \<in> {hub_belongsTo b, ''*''}")
    case True
    have "setupOutgoingConnection (\<lambda>_ _. map_sum (\<lambda>_. ''handshake'') (\<lambda>k. k) out) ca uuid a = Some a'"
      "handleIncomingConnection (case inc of Inl _ \<Rightarrow> None | Inr hs \<Rightarrow> Some hs) (isl inc) cb b = Some b'"
      using True e a'(1) b'(1) assms(7,8,11)
      by (auto simp: setupOutgoingConnection_def handleIncomingConnection_def handshake_callback_def hub_handshake_def)
    with True a'(2-4) b'(2-4) show ?thesis by auto
  next
    case False
    then show ?thesis
      using e assms(7) by (auto simp: setupOutgoingConnection_def handleIncomingConnection_def
          handshake_callback_def hub_handshake_def)
  qed
qed

section \<open>Examples\<close>

definition enc_handshake :: "handshake \<Rightarrow> bytes" where
  "enc_handshake hs = enc_strs (hs_UUID hs # hs_BelongsTo hs # hs_Interests hs)"

definition dec_handshake :: "bytes \<Rightarrow> handshake option" where
  "dec_handshake s =
     (case dec_strs (length s) s of
        Some (u # b # ints, _) \<Rightarrow> Some \<lparr>hs_UUID = u, hs_BelongsTo = b, hs_Interests = ints\<rparr>
      | _ \<Rightarrow> None)"

lemma handshake_encoding: "encoding (\<lambda>hs. Some (enc_handshake hs)) dec_handshake"
  by (simp add: encoding_def enc_handshake_def dec_handshake_def del: enc_strs.simps)

definition enc_handshakeAck :: "handshakeAck \<Rightarrow> bytes" where
  "enc_handshakeAck k = enc_bool (ack_Accept k) # enc_strs (ack_UUID k # ack_BelongsTo k # ack_Interests k)"

definition dec_handshakeAck :: "bytes \<Rightarrow> handshakeAck option" where
  "dec_handshakeAck s =
     (case s of
        [] \<Rightarrow> None
      | a # r \<Rightarrow>
          (case dec_strs (length r) r of
             Some (u # b # ints, _) \<Rightarrow>
               Some \<lparr>ack_Accept = (a = CHR ''1''), ack_UUID = u, ack_BelongsTo = b, ack_Interests = ints\<rparr>
           | _ \<Rightarrow> None))"

lemma ack_encoding: "encoding (\<lambda>k. Some (enc_handshakeAck k)) dec_handshakeAck"
  by (simp add: encoding_def enc_handshakeAck_def dec_handshakeAck_def del: enc_strs.simps)

lemma websocket_stream_roundtrip_witness:
  "\<exists>c. ws_reads dec_message 3 c =
     [WsWithdraw False, WsMessage (NewMsg ''u'' 7 ''t'' ''WITHDRAW''), WsWithdraw True]"
proof -
  let ?xs = "[ItemWithdraw False, ItemMessage (NewMsg ''u'' 7 ''t'' ''WITHDRAW''), ItemWithdraw True]"
  have "length ?xs = 3" "map item_read ?xs = [WsWithdraw False, WsMessage (NewMsg ''u'' 7 ''t'' ''WITHDRAW''), WsWithdraw True]"
    by simp_all
  with websocket_stream_roundtrip[OF message_encoding, of ?xs] show ?thesis by metis
qed

definition example_node :: "string \<Rightarrow> string \<Rightarrow> hub" where
  "example_node uuid interest = initHub uuid ''tenant'' [interest] True False"

lemma two_hubs_mesh_witness:
  "\<exists>a' b' out inc. setupOutgoingConnection out 0 '''' (example_node ''a'' ''f'') = Some a'
    \<and> handleIncomingConnection inc False 0 (example_node ''b'' ''g'') = Some b'
    \<and> hub_peers a' ''g'' = {''b''} \<and> hub_peers b' ''f'' = {''a''} \<and> hub_peers b' ''g'' = {}"
proof -
  let ?a = "example_node ''a'' ''f''" and ?b = "example_node ''b'' ''g''"
  have inv: "hub_inv ?a" "hub_inv ?b" by (simp_all add: example_node_def hub_inv_init)
  have n: "hub_readers ?a = 0" "hub_readers ?b = 0" "hub_nodeUUID ?a \<noteq> ''''" "hub_nodeUUID ?b \<noteq> ''''"
    "\<not> connectionExists (hub_nodeUUID ?b) ?a" "\<not> connectionExists (hub_nodeUUID ?a) ?b" "'''' = '''' \<or> '''' = hub_nodeUUID ?b"
    by (simp_all add: example_node_def initHub_def connectionExists_def)
  have f: "hub_belongsTo ?a \<in> {hub_belongsTo ?b, ''*''}" "hub_nodeUUID ?a = ''a''" "hub_nodeUUID ?b = ''b''"
    "hub_peers ?a cap = {}" "hub_peers ?b cap = {}" "hub_interests ?a = [''f'']" "hub_interests ?b = [''g'']" for cap
    by (simp_all add: example_node_def initHub_def hub_peers_def)
  have x: "ws_exchange (\<lambda>hs. Some (enc_handshake hs)) dec_handshake (\<lambda>k. Some (enc_handshakeAck k)) dec_handshakeAck
      (handshake_callback ?b) (hub_handshake ?a) =
      (Inr (handshake_callback ?b (hub_handshake ?a)), Inr (hub_handshake ?a))"
    by (rule ws_exchange_agrees[OF handshake_encoding ack_encoding])
  from two_hubs_mesh[OF handshake_encoding ack_encoding inv n x, of 0 0] f(1) obtain a' b' where r:
    "setupOutgoingConnection (\<lambda>_ _. map_sum (\<lambda>_. ''handshake'') (\<lambda>k. k)
        (Inr (handshake_callback ?b (hub_handshake ?a)) :: hs_error + handshakeAck)) 0 '''' ?a = Some a'"
    "handleIncomingConnection (Some (hub_handshake ?a)) False 0 ?b = Some b'"
    "\<forall>cap. hub_peers a' cap = hub_peers ?a cap \<union> (if cap \<in> set (hub_interests ?b) then {hub_nodeUUID ?b} else {})"
    "\<forall>cap. hub_peers b' cap = hub_peers ?b cap \<union> (if cap \<in> set (hub_interests ?a) then {hub_nodeUUID ?a} else {})"
    by auto
  from r(3,4) have "hub_peers a' ''g'' = {''b''}" "hub_peers b' ''f'' = {''a''}" "hub_peers b' ''g'' = {}"
    by (simp_all add: f)
  with r(1,2) show ?thesis by blast
qed

text \<open>A host whose name begins with \<open>ws\<close> is taken for a URL with a scheme.\<close>

lemma ws_endpoint_host: "ws_endpoint ''wsgate:8080/meta/message'' = ''wsgate:8080/meta/message''"
  by (simp add: ws_endpoint_def)

lemma ws_endpoint_plain: "take 2 endpoint \<noteq> ''ws'' \<Longrightarrow> ws_endpoint endpoint = ''ws://'' @ endpoint"
  by (simp add: ws_endpoint_def)

end
