(* ===== verification/Bridge.thy ===== *)
theory Bridge
  imports Pod Encodings
begin

text \<open>
  The bridges to a Kafka (\<open>foundation/bus/transport/kafka/transport.go\<close>) or NATS topic
  (\<open>foundation/bus/transport/nats/transport.go\<close>): a pod whose callback publishes the messages of the
  topic's type, and a loop that puts what the topic delivers on the bus. The broker is the client
  libraries': what publishing answers and what polling yields are arguments.
\<close>

section \<open>Kafka\<close>

definition busMetadataHeaderKey :: string where
  "busMetadataHeaderKey = ''bus.metadata''"

text \<open>A header's value may be nil.\<close>

record kafka_record =
  kr_Topic :: string
  kr_Value :: bytes
  kr_Headers :: "(string \<times> bytes option) list"

definition kafka_record_of :: "(msg_meta \<Rightarrow> bytes option) \<Rightarrow> string \<Rightarrow> message \<Rightarrow> kafka_record option" where
  "kafka_record_of marshal topic msg =
     map_option (\<lambda>meta. \<lparr>kr_Topic = topic, kr_Value = msg_Data msg, kr_Headers = [(busMetadataHeaderKey, Some meta)]\<rparr>)
       (MarshalMetadata marshal msg)"

definition kafka_onFunc :: "(msg_meta \<Rightarrow> bytes option) \<Rightarrow> (kafka_record \<Rightarrow> string option) \<Rightarrow> string \<Rightarrow> MsgFunc" where
  "kafka_onFunc marshal produce topic msg =
     (case kafka_record_of marshal topic msg of
        None \<Rightarrow> Some ''failed to MarshalMetadata message''
      | Some r \<Rightarrow> map_option (\<lambda>e. ''failed to ProduceSync: '' @ e) (produce r))"

text \<open>What the hub tells a bridge; the transport and a connection to a topic, with the pod it serves.\<close>

record bridge_options =
  br_NodeUUID :: string

record kafka_transport =
  kt_opts :: "bridge_options option"
  kt_endpoint :: string

record kafka_conn =
  kc_topic :: string
  kc_client :: nat
  kc_pod :: "pod option"

definition kafka_New :: "string \<Rightarrow> kafka_transport" where
  "kafka_New endpoint = \<lparr>kt_opts = None, kt_endpoint = endpoint\<rparr>"

definition kafka_Setup :: "bridge_options \<Rightarrow> kafka_transport \<Rightarrow> kafka_transport" where
  "kafka_Setup opts t = t\<lparr>kt_opts := Some opts\<rparr>"

text \<open>\<open>new_client\<close> makes a client for an endpoint and the topic it consumes from.\<close>

definition kafka_ConnectTopic :: "(string \<Rightarrow> string \<Rightarrow> string + nat) \<Rightarrow> string \<Rightarrow> kafka_transport \<Rightarrow> string + kafka_conn" where
  "kafka_ConnectTopic new_client topic t =
     (case new_client (kt_endpoint t) topic of
        Inl e \<Rightarrow> Inl (''failed to NewClient: '' @ e)
      | Inr client \<Rightarrow> Inr \<lparr>kc_topic = topic, kc_client = client, kc_pod = None\<rparr>)"

text \<open>The clients still open.\<close>

definition kafka_Close :: "kafka_conn \<Rightarrow> nat set \<Rightarrow> nat set" where
  "kafka_Close c clients = clients - {kc_client c}"

definition kafka_Start :: "(msg_meta \<Rightarrow> bytes option) \<Rightarrow> (kafka_record \<Rightarrow> string option) \<Rightarrow> string \<Rightarrow> pod \<Rightarrow> pod prog" where
  "kafka_Start marshal produce topic p = Pod_OnType topic (Some (kafka_onFunc marshal produce topic)) p"

fun findMetaHeaderValue :: "string \<Rightarrow> (string \<times> bytes option) list \<Rightarrow> bytes option" where
  "findMetaHeaderValue key [] = None"
| "findMetaHeaderValue key ((k, v) # hs) = (if k = key then v else findMetaHeaderValue key hs)"

text \<open>The message made of a record, \<open>None\<close> when its metadata does not decode and it is skipped.\<close>

definition kafka_message :: "(bytes \<Rightarrow> msg_meta \<Rightarrow> msg_meta option) \<Rightarrow> string \<Rightarrow> int \<Rightarrow> string \<Rightarrow> kafka_record \<Rightarrow> message option" where
  "kafka_message unmarshal uuid now topic r =
     (case findMetaHeaderValue busMetadataHeaderKey (kr_Headers r) of
        None \<Rightarrow> Some (NewMsg uuid now topic (kr_Value r))
      | Some meta \<Rightarrow> MsgFromDataAndMeta unmarshal (kr_Value r) meta)"

text \<open>
  The messages a pod puts on the bus channel, in order; a dead pod sends nothing. One poll gives
  errors, which make the loop drop the whole poll, or records.
\<close>

fun send_all :: "message list \<Rightarrow> pod \<Rightarrow> message list \<times> pod" where
  "send_all [] p = ([], p)"
| "send_all (m # ms) p =
     (let (r, p1) = Pod_Send m p; (out, p2) = send_all ms p1
      in ((case r of None \<Rightarrow> out | Some (_, sent) \<Rightarrow> sent # out), p2))"

record kafka_poll =
  kp_Errors :: "string list"
  kp_Records :: "kafka_record list"

definition kafka_fetch :: "(kafka_record \<Rightarrow> message option) \<Rightarrow> kafka_poll \<Rightarrow> pod \<Rightarrow> message list \<times> pod" where
  "kafka_fetch message poll p =
     (if kp_Errors poll \<noteq> [] then ([], p)
      else send_all (List.map_filter message (kp_Records poll)) p)"

fun kafka_loop :: "(kafka_record \<Rightarrow> message option) \<Rightarrow> kafka_poll list \<Rightarrow> pod \<Rightarrow> message list \<times> pod" where
  "kafka_loop message [] p = ([], p)"
| "kafka_loop message (poll # polls) p =
     (let (out, p1) = kafka_fetch message poll p; (out', p2) = kafka_loop message polls p1 in (out @ out', p2))"

section \<open>NATS\<close>

definition nats_onFunc :: "(message \<Rightarrow> bytes option) \<Rightarrow> (bytes \<Rightarrow> string option) \<Rightarrow> MsgFunc" where
  "nats_onFunc marshal pubFn msg =
     (case Message_Marshal marshal msg of
        None \<Rightarrow> Some ''failed to Marshal message''
      | Some msgBytes \<Rightarrow> map_option (\<lambda>e. ''failed to pubFn: '' @ e) (pubFn msgBytes))"

text \<open>A transport has its connection from the start; a connection to a topic is a subscription and a publisher.\<close>

record nats_transport =
  na_opts :: "bridge_options option"
  na_serverConn :: nat

record nats_conn =
  nc_topic :: string
  nc_sub :: nat
  nc_pubFn :: "bytes \<Rightarrow> string option"
  nc_pod :: "pod option"

definition nats_New :: "(string \<Rightarrow> string + nat) \<Rightarrow> string \<Rightarrow> string + nats_transport" where
  "nats_New connect endpoint =
     (case connect endpoint of
        Inl e \<Rightarrow> Inl (''failed to nats.Connect: '' @ e)
      | Inr nc \<Rightarrow> Inr \<lparr>na_opts = None, na_serverConn = nc\<rparr>)"

definition nats_Setup :: "bridge_options \<Rightarrow> nats_transport \<Rightarrow> nats_transport" where
  "nats_Setup opts t = t\<lparr>na_opts := Some opts\<rparr>"

definition nats_ConnectTopic :: "(nat \<Rightarrow> string \<Rightarrow> string + nat) \<Rightarrow> (nat \<Rightarrow> string \<Rightarrow> bytes \<Rightarrow> string option) \<Rightarrow> string \<Rightarrow>
    nats_transport \<Rightarrow> string + nats_conn" where
  "nats_ConnectTopic subscribe publish topic t =
     (case subscribe (na_serverConn t) topic of
        Inl e \<Rightarrow> Inl (''failed to SubscribeSync: '' @ e)
      | Inr sub \<Rightarrow> Inr \<lparr>nc_topic = topic, nc_sub = sub, nc_pubFn = publish (na_serverConn t) topic, nc_pod = None\<rparr>)"

text \<open>The subscriptions still there; a failure to unsubscribe is logged.\<close>

definition nats_Close :: "(nat \<Rightarrow> string option) \<Rightarrow> nats_conn \<Rightarrow> nat set \<Rightarrow> nat set" where
  "nats_Close unsubscribe c subs = (if unsubscribe (nc_sub c) = None then subs - {nc_sub c} else subs)"

definition nats_Start :: "(message \<Rightarrow> bytes option) \<Rightarrow> (bytes \<Rightarrow> string option) \<Rightarrow> string \<Rightarrow> pod \<Rightarrow> pod prog" where
  "nats_Start marshal pubFn topic p = Pod_OnType topic (Some (nats_onFunc marshal pubFn)) p"

definition nats_message :: "(bytes \<Rightarrow> message \<Rightarrow> message option) \<Rightarrow> string \<Rightarrow> int \<Rightarrow> string \<Rightarrow> bytes \<Rightarrow> message" where
  "nats_message unmarshal uuid now topic data =
     (case MsgFromBytes unmarshal data of Some m \<Rightarrow> m | None \<Rightarrow> NewMsg uuid now topic data)"

datatype nats_next = NatsMsg bytes | NatsTimeout | NatsError string

text \<open>The receiving loop answers whether it is still running when the given answers are used up.\<close>

fun nats_loop :: "(bytes \<Rightarrow> message) \<Rightarrow> nats_next list \<Rightarrow> pod \<Rightarrow> bool \<times> message list \<times> pod" where
  "nats_loop message [] p = (True, [], p)"
| "nats_loop message (NatsTimeout # xs) p = nats_loop message xs p"
| "nats_loop message (NatsError e # xs) p = (False, [], p)"
| "nats_loop message (NatsMsg data # xs) p =
     (let (out, p1) = send_all [message data] p; (running, out', p2) = nats_loop message xs p1
      in (running, out @ out', p2))"

section \<open>What reaches the bus\<close>

lemma send_all_Cons: "snd (send_all (m # ms) p) = snd (send_all ms (snd (Pod_Send m p)))"
  by (simp add: Let_def split: prod.splits)

lemma send_all_frame: "pod_onFunc (snd (send_all ms p)) = pod_onFunc p \<and> pod_dead (snd (send_all ms p)) = pod_dead p"
proof (induction ms arbitrary: p)
  case (Cons m ms)
  from Cons.IH[of "snd (Pod_Send m p)"] show ?case
    by (auto simp: Pod_Send_def Let_def split: prod.splits)
qed simp

lemma send_all_alive: "\<not> pod_dead p \<Longrightarrow> fst (send_all ms p) = ms"
proof (induction ms arbitrary: p)
  case (Cons m ms)
  have "fst (send_all ms (snd (Pod_Send m p))) = ms" using Cons by (auto simp: Pod_Send_def)
  with Cons.prems show ?case by (auto simp: Pod_Send_def Let_def split: prod.splits)
qed simp

lemma send_all_dead: "pod_dead p \<Longrightarrow> send_all ms p = ([], p)"
  by (induction ms) (auto simp: Pod_Send_def)

text \<open>A message the pod has put on the bus is refused by its filter when it comes back from there.\<close>

lemma Pod_Send_filter:
  "\<not> filter_allow (pod_filter p) m \<Longrightarrow> \<not> filter_allow (pod_filter (snd (Pod_Send m' p))) m"
  by (auto simp: Pod_Send_def filter_allow_FilterUUID)

lemma send_all_filter_keeps:
  "\<not> filter_allow (pod_filter p) m \<Longrightarrow> \<not> filter_allow (pod_filter (snd (send_all ms p))) m"
proof (induction ms arbitrary: p)
  case (Cons m' ms)
  show ?case unfolding send_all_Cons by (rule Cons.IH[OF Pod_Send_filter[OF Cons.prems]])
qed simp

lemma send_all_filter:
  "\<not> pod_dead p \<Longrightarrow> m \<in> set ms \<Longrightarrow> \<not> filter_allow (pod_filter (snd (send_all ms p))) m"
proof (induction ms arbitrary: p)
  case (Cons m' ms)
  have d: "\<not> pod_dead (snd (Pod_Send m' p))" using Cons.prems(1) by (simp add: Pod_Send_def)
  have "\<not> filter_allow (pod_filter (snd (send_all ms (snd (Pod_Send m' p))))) m"
  proof (cases "m \<in> set ms")
    case True
    then show ?thesis using Cons.IH[OF d] by blast
  next
    case False
    with Cons.prems have "\<not> filter_allow (pod_filter (snd (Pod_Send m' p))) m"
      by (auto simp: Pod_Send_def filter_allow_FilterUUID)
    then show ?thesis by (rule send_all_filter_keeps)
  qed
  then show ?case unfolding send_all_Cons .
qed simp

lemma refused_not_handled: "\<not> filter_allow (pod_filter p) m \<Longrightarrow> pod_handle (Some m) p = Some (Inr p)"
  by (simp add: pod_handle_def split: option.splits)

lemma kafka_message_roundtrip:
  assumes "\<And>k k'. \<exists>j. marshal k = Some j \<and> unmarshal j k' = Some k"
  shows "kafka_message unmarshal uuid now topic (the (kafka_record_of marshal topic' m)) = Some m"
proof -
  from meta_roundtrip[of marshal unmarshal, OF assms, of m] obtain j where
    "MarshalMetadata marshal m = Some j" "MsgFromDataAndMeta unmarshal (msg_Data m) j = Some m" by blast
  then show ?thesis by (simp add: kafka_message_def kafka_record_of_def)
qed

lemma nats_message_roundtrip:
  assumes "\<And>m m'. \<exists>j. marshal m = Some j \<and> unmarshal j m' = Some m"
  shows "nats_message unmarshal uuid now topic (the (Message_Marshal marshal m)) = m"
proof -
  from assms[of m "message_of zero_meta ''''"] obtain j where
    "marshal m = Some j" "unmarshal j (message_of zero_meta '''') = Some m" by blast
  then show ?thesis by (simp add: nats_message_def Message_Marshal_def MsgFromBytes_def Message_Unmarshal_def)
qed

lemma nats_loop_messages:
  "nats_loop message (map NatsMsg ds) p = (True, send_all (map message ds) p)"
proof (induction ds arbitrary: p)
  case (Cons d ds)
  from Cons.IH[of "snd (Pod_Send (message d) p)"] show ?case by (auto simp: Let_def split: prod.splits option.splits)
qed simp

lemma nats_loop_error:
  "nats_loop message (map NatsMsg ds @ NatsError e # xs) p = (False, send_all (map message ds) p)"
proof (induction ds arbitrary: p)
  case (Cons d ds)
  from Cons.IH[of "snd (Pod_Send (message d) p)"] show ?case by (auto simp: Let_def split: prod.splits option.splits)
qed simp

lemma map_filter_total: "(\<And>x. x \<in> set xs \<Longrightarrow> f (g x) = Some x) \<Longrightarrow> List.map_filter f (map g xs) = xs"
  by (induction xs) (auto simp: List.map_filter_simps)

text \<open>
  C33: Messages published to a topic, in its order: every node whose pod lives puts exactly them on its
  bus, as they were published, over Kafka and over NATS alike, the node that published them included,
  and no node publishes them again when they come round its own bus.
\<close>

theorem bridge_delivers_without_loop:
  assumes "\<And>k k'. \<exists>j. marshal k = Some j \<and> unmarshal j k' = Some k"
    and "\<And>m m'. \<exists>j. marshal_all m = Some j \<and> unmarshal_all j m' = Some m"
    and "\<not> pod_dead p"
  shows "\<exists>p'. kafka_fetch (kafka_message unmarshal uuid now topic)
        \<lparr>kp_Errors = [], kp_Records = map (\<lambda>m. the (kafka_record_of marshal topic m)) ms\<rparr> p = (ms, p')
    \<and> nats_loop (nats_message unmarshal_all uuid now topic)
        (map (\<lambda>m. NatsMsg (the (Message_Marshal marshal_all m))) ms) p = (True, ms, p')
    \<and> (\<forall>m \<in> set ms. pod_handle (Some m) p' = Some (Inr p'))"
proof -
  have k: "List.map_filter (kafka_message unmarshal uuid now topic)
      (map (\<lambda>m. the (kafka_record_of marshal topic m)) ms) = ms"
    by (rule map_filter_total) (rule kafka_message_roundtrip[of marshal unmarshal, OF assms(1)])
  have n: "map (nats_message unmarshal_all uuid now topic) (map (\<lambda>m. the (Message_Marshal marshal_all m)) ms) = ms"
    by (simp add: o_def nats_message_roundtrip[of marshal_all unmarshal_all, OF assms(2)])
  have s: "send_all ms p = (ms, snd (send_all ms p))"
    using send_all_alive[OF assms(3), of ms] by (cases "send_all ms p") simp
  have "kafka_fetch (kafka_message unmarshal uuid now topic)
        \<lparr>kp_Errors = [], kp_Records = map (\<lambda>m. the (kafka_record_of marshal topic m)) ms\<rparr> p = send_all ms p"
    by (simp add: kafka_fetch_def k)
  moreover have "nats_loop (nats_message unmarshal_all uuid now topic)
        (map NatsMsg (map (\<lambda>m. the (Message_Marshal marshal_all m)) ms)) p = (True, send_all ms p)"
    unfolding nats_loop_messages n ..
  moreover have "\<forall>m \<in> set ms. pod_handle (Some m) (snd (send_all ms p)) = Some (Inr (snd (send_all ms p)))"
    using refused_not_handled send_all_filter[OF assms(3)] by blast
  ultimately show ?thesis using s by (intro exI[of _ "snd (send_all ms p)"]) (simp add: o_def)
qed

text \<open>A message as the metadata of an empty one.\<close>

definition enc_meta :: "msg_meta \<Rightarrow> bytes" where
  "enc_meta k = enc_message (message_of k '''')"

definition dec_meta :: "bytes \<Rightarrow> msg_meta \<Rightarrow> msg_meta option" where
  "dec_meta b k = map_option msg_Meta (dec_message b)"

lemma bridge_delivers_without_loop_witness:
  "\<exists>p' poll. kafka_fetch (kafka_message dec_meta ''u'' 0 ''topic'') poll (newPod False)
      = ([NewMsg ''x'' 1 ''topic'' ''data''], p')
    \<and> pod_handle (Some (NewMsg ''x'' 1 ''topic'' ''data'')) p' = Some (Inr p')"
proof -
  have 1: "\<exists>j. Some (enc_meta k) = Some j \<and> dec_meta j k' = Some k" for k k'
    by (simp add: enc_meta_def dec_meta_def)
  have 2: "\<exists>j. Some (enc_message m) = Some j \<and> dec_message j = Some m" for m by simp
  have "\<not> pod_dead (newPod False)" by (simp add: newPod_def)
  from bridge_delivers_without_loop[of "\<lambda>k. Some (enc_meta k)" dec_meta "\<lambda>m. Some (enc_message m)"
      "\<lambda>j _. dec_message j", OF 1 2 this, of "''u''" 0 "''topic''" "[NewMsg ''x'' 1 ''topic'' ''data'']"]
  show ?thesis by auto
qed

text \<open>A poll with an error loses the records that came with it; one error ends a NATS subscription for good.\<close>

lemma kafka_poll_error: "kp_Errors poll \<noteq> [] \<Longrightarrow> kafka_fetch message poll p = ([], p)"
  by (simp add: kafka_fetch_def)

lemma nats_error_ends: "fst (nats_loop message (NatsError e # xs) p) = False"
  by simp

end
