(* ===== verification/Bus.thy ===== *)
theory Bus
  imports MessageBus Hub
begin

text \<open>
  The bus as its users see it, \<open>foundation/bus/bus/bus.go\<close> with its options \<open>options.go\<close>, what the
  hub's construction starts, and the local discovery of \<open>foundation/bus/discovery/local\<close>. A plugin
  is present or not; what transports, discovery and the multicast library do is an argument of the
  operations that use them.
\<close>

section \<open>Options\<close>

record bus_options =
  bo_MeshTransport :: bool
  bo_BridgeTransport :: bool
  bo_Discovery :: bool
  bo_Port :: string
  bo_URI :: string
  bo_BelongsTo :: string
  bo_Interests :: "string list"

definition defaultOptions :: bus_options where
  "defaultOptions =
     \<lparr>bo_MeshTransport = False, bo_BridgeTransport = False, bo_Discovery = False, bo_Port = ''8080'',
      bo_URI = ''/meta/message'', bo_BelongsTo = ''*'', bo_Interests = []\<rparr>"

type_synonym OptionsModifier = "bus_options \<Rightarrow> bus_options"

definition newOptionsWithModifiers :: "OptionsModifier list \<Rightarrow> bus_options" where
  "newOptionsWithModifiers mods = fold (\<lambda>m opts. m opts) mods defaultOptions"

definition UseMeshTransport :: OptionsModifier where
  "UseMeshTransport opts = opts\<lparr>bo_MeshTransport := True\<rparr>"

definition UseBridgeTransport :: OptionsModifier where
  "UseBridgeTransport opts = opts\<lparr>bo_BridgeTransport := True\<rparr>"

definition UseEndpoint :: "string \<Rightarrow> string \<Rightarrow> OptionsModifier" where
  "UseEndpoint port uri opts =
     (let o1 = (if port \<noteq> '''' then opts\<lparr>bo_Port := port\<rparr> else opts)
      in if uri \<noteq> '''' then o1\<lparr>bo_URI := uri\<rparr> else o1)"

definition UseDiscovery :: OptionsModifier where
  "UseDiscovery opts = opts\<lparr>bo_Discovery := True\<rparr>"

definition UseBelongsTo :: "string \<Rightarrow> OptionsModifier" where
  "UseBelongsTo belongsTo opts = opts\<lparr>bo_BelongsTo := belongsTo\<rparr>"

definition UseInterests :: "string list \<Rightarrow> OptionsModifier" where
  "UseInterests interests opts = opts\<lparr>bo_Interests := interests\<rparr>"

section \<open>The bus\<close>

record bus =
  b_NodeUUID :: string
  b_BelongsTo :: string
  b_Interests :: "string list"
  b_bus :: messageBus
  b_hub :: hub

definition connectWithOpts :: "bool \<Rightarrow> messageBus \<Rightarrow> (pod \<times> messageBus) go" where
  "connectWithOpts wantsReplay mb =
     (let pod = newPod wantsReplay in go_bind (bus_addPod pod mb) (\<lambda>mb'. Inr (pod, mb')))"

definition Bus_Connect :: "bus \<Rightarrow> (pod \<times> bus) go" where
  "Bus_Connect b = go_bind (connectWithOpts False (b_bus b)) (\<lambda>(pod, mb). Inr (pod, b\<lparr>b_bus := mb\<rparr>))"

definition ConnectWithReplay :: "bus \<Rightarrow> (pod \<times> bus) go" where
  "ConnectWithReplay b = go_bind (connectWithOpts True (b_bus b)) (\<lambda>(pod, mb). Inr (pod, b\<lparr>b_bus := mb\<rparr>))"

text \<open>The hub of a new bus connects a pod of its own.\<close>

definition Bus_New :: "string \<Rightarrow> OptionsModifier list \<Rightarrow> bus go" where
  "Bus_New nodeUUID mods =
     (let opts = newOptionsWithModifiers mods
      in go_bind (connectWithOpts False newMessageBus) (\<lambda>(hubPod, mb).
           Inr \<lparr>b_NodeUUID = nodeUUID, b_BelongsTo = bo_BelongsTo opts, b_Interests = bo_Interests opts,
                b_bus = mb,
                b_hub = initHub nodeUUID (bo_BelongsTo opts) (bo_Interests opts)
                          (bo_MeshTransport opts) (bo_BridgeTransport opts)\<rparr>))"

text \<open>
  What runs after a hub's construction. One goroutine sets the mesh transport up and only then
  installs the broadcast and scans for failed connections; discovery needs a mesh transport.
\<close>

record hub_tasks =
  ht_broadcasts :: bool
  ht_scans :: bool
  ht_discovers :: bool
  ht_bridges :: bool

definition initHub_tasks :: "bus_options \<Rightarrow> bool \<Rightarrow> hub_tasks" where
  "initHub_tasks opts setup_returns =
     \<lparr>ht_broadcasts = (bo_MeshTransport opts \<and> setup_returns), ht_scans = (bo_MeshTransport opts \<and> setup_returns),
      ht_discovers = (bo_MeshTransport opts \<and> bo_Discovery opts), ht_bridges = bo_BridgeTransport opts\<rparr>"

definition ConnectEndpoint :: "(string \<Rightarrow> string + nat) \<Rightarrow> (nat \<Rightarrow> handshake \<Rightarrow> string + handshakeAck) \<Rightarrow>
    string \<Rightarrow> bus \<Rightarrow> (hub_error option \<times> bus) option" where
  "ConnectEndpoint connect out endpoint b =
     map_option (\<lambda>(e, h). (e, b\<lparr>b_hub := h\<rparr>)) (connectEndpoint connect out endpoint '''' (b_hub b))"

definition ConnectBridgeTopic :: "(string \<Rightarrow> string + nat) \<Rightarrow> string \<Rightarrow> bus \<Rightarrow> (hub_error option \<times> bus) option" where
  "ConnectBridgeTopic connect topic b =
     map_option (\<lambda>(e, h). (e, b\<lparr>b_hub := h\<rparr>)) (connectBridgeTopic connect topic (b_hub b))"

definition Bus_Tunnel :: "(string \<Rightarrow> bool) \<Rightarrow> string \<Rightarrow> message \<Rightarrow> bus \<Rightarrow> (hub_error option \<times> bus) go" where
  "Bus_Tunnel send_ok capability msg b =
     go_bind (sendTunneledMessage send_ok capability msg (b_hub b)) (\<lambda>(e, h). Inr (e, b\<lparr>b_hub := h\<rparr>))"

definition Bus_Withdraw :: "string list \<Rightarrow> (hub \<Rightarrow> hub) list \<Rightarrow> bus \<Rightarrow> (bool \<times> bus) option" where
  "Bus_Withdraw order envs b = map_option (\<lambda>(e, h). (e, b\<lparr>b_hub := h\<rparr>)) (hub_withdraw order envs (b_hub b))"

definition Bus_Stop :: "string list \<Rightarrow> bus \<Rightarrow> bus" where
  "Bus_Stop order b = b\<lparr>b_hub := hub_stop order (b_hub b)\<rparr>"

section \<open>Local discovery\<close>

text \<open>The plugin: what it advertises, whether it was started (its stop channel is made then), and the hub's reaction.\<close>

record discovery_opts =
  do_NodeUUID :: string
  do_TransportPort :: string
  do_TransportURI :: string

record 'f discovery =
  di_opts :: "discovery_opts option"
  di_stopChan :: bool
  di_discoveryFunc :: "'f option"

definition Discovery_New :: "'f discovery" where
  "Discovery_New = \<lparr>di_opts = None, di_stopChan = False, di_discoveryFunc = None\<rparr>"

text \<open>\<open>Start\<close> hands over to the multicast library, which answers when it was stopped or could not run.\<close>

definition Discovery_Start :: "(discovery_opts \<Rightarrow> string option) \<Rightarrow> discovery_opts \<Rightarrow> 'f \<Rightarrow> 'f discovery \<Rightarrow>
    string option \<times> 'f discovery" where
  "Discovery_Start discover opts discoveryFunc d =
     (discover opts, d\<lparr>di_opts := Some opts, di_discoveryFunc := Some discoveryFunc, di_stopChan := True\<rparr>)"

definition UseDiscoveryFunc :: "'f \<Rightarrow> 'f discovery \<Rightarrow> 'f discovery" where
  "UseDiscoveryFunc dFunc d = d\<lparr>di_discoveryFunc := Some dFunc\<rparr>"

text \<open>The payload a node multicasts, and what a node makes of one it receives.\<close>

record payload =
  pl_UUID :: string
  pl_Port :: string
  pl_Path :: string

definition discovery_payload :: "(payload \<Rightarrow> bytes) \<Rightarrow> string \<Rightarrow> bus_options \<Rightarrow> bytes" where
  "discovery_payload marshal nodeUUID opts =
     marshal \<lparr>pl_UUID = nodeUUID, pl_Port = bo_Port opts, pl_Path = bo_URI opts\<rparr>"

definition discovery_notify :: "(bytes \<Rightarrow> payload option) \<Rightarrow> string \<Rightarrow> bytes \<Rightarrow> (string \<times> string) option" where
  "discovery_notify unmarshal address peer =
     map_option (\<lambda>p. (address @ '':'' @ pl_Port p @ pl_Path p, pl_UUID p)) (unmarshal peer)"

text \<open>The hub's reaction to a notification; a payload that does not decode is discarded.\<close>

definition discovered :: "(bytes \<Rightarrow> payload option) \<Rightarrow> (string \<Rightarrow> string + nat) \<Rightarrow>
    (nat \<Rightarrow> handshake \<Rightarrow> string + handshakeAck) \<Rightarrow> string \<Rightarrow> bytes \<Rightarrow> hub \<Rightarrow> hub option" where
  "discovered unmarshal connect out address peer h =
     (case discovery_notify unmarshal address peer of
        None \<Rightarrow> Some h
      | Some (endpoint, uuid) \<Rightarrow> discoveryHandler connect out endpoint uuid h)"

text \<open>\<open>Stop\<close> sends on a channel only \<open>Start\<close> makes; before that, on a nil channel, it waits for ever.\<close>

definition Discovery_Stop :: "bool \<Rightarrow> unit option" where
  "Discovery_Stop started = (if started then Some () else None)"

section \<open>Lemmas\<close>

lemma option_modifiers:
  "bo_Port (newOptionsWithModifiers mods) = bo_Port (fold (\<lambda>m opts. m opts) mods defaultOptions)"
  "newOptionsWithModifiers (mods @ [m]) = m (newOptionsWithModifiers mods)"
  by (simp_all add: newOptionsWithModifiers_def)

text \<open>A transport whose set-up does not return leaves its node without broadcasts and scans.\<close>

lemma blocking_setup: "\<not> ht_broadcasts (initHub_tasks opts False) \<and> \<not> ht_scans (initHub_tasks opts False)"
  by (simp add: initHub_tasks_def)

lemma discovers_self: "pl_UUID p = hub_nodeUUID h \<Longrightarrow> unmarshal peer = Some p \<Longrightarrow>
    discovered unmarshal connect out address peer h = Some h"
  by (simp add: discovered_def discovery_notify_def discoveryHandler_def)

section \<open>A bus with pods connected one after the other\<close>

definition new_ring :: "messageBus \<Rightarrow> nat list \<Rightarrow> bool" where
  "new_ring b xs \<longleftrightarrow> bus_ok b xs \<and> bus_buffer b = NewMsgBuffer defaultBufferSize \<and> pool_pending (bus_pool b) = []
     \<and> (\<forall>a \<in> set xs. \<exists>i w. conn_at (bus_pool b) a = newPodConnection i (newPod w))"

lemma strip_simps [simp]: "strip (c\<lparr>pc_next := n\<rparr>) = strip c" "strip (newPodConnection i p) = newPodConnection i p"
  by (simp_all add: strip_def newPodConnection_def)

lemma pool_insert_conns:
  assumes "pool_ring s xs" "pool_ids s" "pool_insert p s = Inr s'"
  shows "conn_at s' (nat (pool_maxID s + 1)) = newPodConnection (pool_maxID s + 1) p"
    and "a \<in> set xs \<Longrightarrow> conn_at s' a = conn_at s a"
proof -
  let ?a = "nat (pool_maxID s + 1)"
  have lt: "int x \<le> pool_maxID s" if "pool_conns s x = Some c" for x c
    using assms(2) that by (auto simp: pool_ids_def)
  have ne: "x \<noteq> ?a" if xin: "x \<in> set xs" for x
  proof -
    obtain c where "pool_conns s x = Some c" using ring_conn[OF assms(1) xin] by blast
    from lt[OF this] show ?thesis by auto
  qed
  show "conn_at s' ?a = newPodConnection (pool_maxID s + 1) p"
    using assms(3) by (auto simp: pool_insert_def Let_def conn_insertAfter_def conn_at_def conn_deref_def
        elim!: go_bind_InrE split: option.split_asm)
  assume a: "a \<in> set xs"
  show "conn_at s' a = conn_at s a"
    using assms(3) ne[OF a] by (auto simp: pool_insert_def Let_def conn_insertAfter_def conn_at_def conn_deref_def
        elim!: go_bind_InrE split: option.split_asm if_split_asm)
qed

lemma new_ring_new: "new_ring newMessageBus []"
  by (simp add: new_ring_def bus_ok_def newMessageBus_def pool_ring_new pool_ids_new buffer_ok_New defaultBufferSize_def
      del: One_nat_def) (simp add: newConnectionPool_def)

lemma new_ring_connect:
  assumes "new_ring b xs"
  shows "\<exists>b' ys. connectWithOpts w b = Inr (newPod w, b') \<and> new_ring b' ys \<and> length ys = Suc (length xs)"
proof -
  let ?s = "bus_pool b" and ?a = "nat (pool_maxID (bus_pool b) + 1)"
  have r: "pool_ring ?s xs" "pool_ids ?s" using assms by (simp_all add: new_ring_def bus_ok_def)
  from pool_insert_ring[OF r, of "newPod w"] obtain s' where s':
    "pool_insert (newPod w) ?s = Inr s'" "pool_ids s'" "pool_pending s' = pool_pending ?s"
    "pool_ring s' (case xs of [] \<Rightarrow> [?a] | x # ys \<Rightarrow> x # ?a # ys)" by (auto simp: newPod_def)
  let ?ys = "case xs of [] \<Rightarrow> [?a] | x # ys \<Rightarrow> x # ?a # ys"
  have at: "conn_at s' ?a = newPodConnection (pool_maxID ?s + 1) (newPod w)"
    "\<And>a. a \<in> set xs \<Longrightarrow> conn_at s' a = conn_at ?s a"
    using pool_insert_conns[OF r s'(1)] by auto
  have "set ?ys = insert ?a (set xs)" "length ?ys = Suc (length xs)" by (auto split: list.split)
  moreover from this(1) have "\<forall>a \<in> set ?ys. \<exists>i w. conn_at s' a = newPodConnection i (newPod w)"
    using at assms by (auto simp: new_ring_def)
  ultimately have "new_ring (b\<lparr>bus_pool := s'\<rparr>) ?ys"
    using assms s' by (auto simp: new_ring_def bus_ok_def)
  moreover have "connectWithOpts w b = Inr (newPod w, b\<lparr>bus_pool := s'\<rparr>)"
    by (simp add: connectWithOpts_def bus_addPod_def s'(1))
  ultimately show ?thesis using \<open>length ?ys = Suc (length xs)\<close> by blast
qed

fun connect_all :: "bool list \<Rightarrow> messageBus \<Rightarrow> messageBus go" where
  "connect_all [] b = Inr b"
| "connect_all (w # ws) b = go_bind (connectWithOpts w b) (\<lambda>(pod, b'). connect_all ws b')"

lemma new_ring_connects:
  "new_ring b xs \<Longrightarrow> \<exists>b' ys. connect_all ws b = Inr b' \<and> new_ring b' ys \<and> length ys = length xs + length ws"
proof (induction ws arbitrary: b xs)
  case (Cons w ws)
  from new_ring_connect[OF Cons.prems, of w] obtain b' ys where
    "connectWithOpts w b = Inr (newPod w, b')" "new_ring b' ys" "length ys = Suc (length xs)" by blast
  with Cons.IH[of b' ys] show ?case by simp
qed auto

lemma new_ring_healthy:
  assumes "new_ring b xs"
  shows "fresh_msg m b xs" and "a \<in> set xs \<Longrightarrow> \<not> conn_removed (conn_at (bus_pool b) a)"
proof -
  have c: "\<exists>i w. conn_at (bus_pool b) a = newPodConnection i (newPod w)" if "a \<in> set xs" for a
    using assms that by (simp add: new_ring_def)
  then have "pc_failed (snd (conn_checkStatus (conn_at (bus_pool b) a))) = []" if "a \<in> set xs" for a
    using that new_conn_status by fastforce
  then show "fresh_msg m b xs"
    using assms by (simp add: fresh_msg_def new_ring_def NewMsgBuffer_def buffer_view_def buffer_uuids_def)
  assume "a \<in> set xs"
  with c new_conn_settled newPod_chans(1) conn_settled_not_removed
  show "\<not> conn_removed (conn_at (bus_pool b) a)" by metis
qed

text \<open>
  On a new bus with any number of pods connected to it, with or without replay, a message put on
  the bus goes, without a panic, to exactly one more connection than there are pods (the hub's), each
  once, and all of them are still in the ring afterwards.
\<close>

theorem new_bus_reaches_every_pod:
  "\<exists>b mb mb' log ids. Bus_New uuid mods = Inr b \<and> connect_all wants (b_bus b) = Inr mb
     \<and> bus_handle m mb = Some (Inr mb') \<and> pool_pending (bus_pool mb') = log
     \<and> delivered m log = ids \<and> distinct ids \<and> length ids = Suc (length wants) \<and> bus_ok mb' ids"
proof -
  from new_ring_connect[OF new_ring_new, of False] obtain b0 xs where b0:
    "connectWithOpts False newMessageBus = Inr (newPod False, b0)" "new_ring b0 xs" "length xs = 1" by auto
  obtain b where b: "Bus_New uuid mods = Inr b" "b_bus b = b0" by (simp add: Bus_New_def Let_def b0(1))
  from new_ring_connects[OF b0(2), of wants] obtain mb ys where mb:
    "connect_all wants b0 = Inr mb" "new_ring mb ys" "length ys = Suc (length wants)"
    using b0(3) by auto
  have ok: "bus_ok mb ys" "ys \<noteq> []" using mb(2,3) by (auto simp: new_ring_def)
  have "\<forall>a \<in> set ys. \<not> conn_removed (conn_at (bus_pool mb) a)" using new_ring_healthy(2)[OF mb(2)] by blast
  from bus_healthy_round[OF ok new_ring_healthy(1)[OF mb(2)] this, of m] mb(2) obtain mb' log where
    "bus_handle m mb = Some (Inr mb')" "pool_pending (bus_pool mb') = log"
    "delivered m log = rotate1 ys" "bus_ok mb' (rotate1 ys)"
    by (auto simp: new_ring_def)
  moreover have "distinct (rotate1 ys)" using ok(1) by (auto simp: bus_ok_def dest: ring_distinct)
  ultimately show ?thesis using b mb(1,3) by (intro exI[of _ b] exI[of _ mb] exI[of _ mb']) auto
qed

end
