(* ===== verification/Peer.thy ===== *)
theory Peer
  imports Bus "HOL-Library.Multiset"
begin

text \<open>
  One process at work: its bus loop (\<open>foundation/bus/bus/messagebus.go\<close>), the sends the loop starts
  (\<open>podconnection.go\<close>), the pods' receive loops and the goroutines these start (\<open>pod.go\<close>), as one step
  relation. The pods are those of the bus's ring, known by the address of their connection; the first is
  the hub's. The callbacks are those of the program's own pods, the hub's broadcast, the dispatcher's
  handler and \<open>ListenAndRun\<close>, none of which ever answers an error; no pod of the program is disconnected
  or asks for a replay. How long a callback takes, and whether it ever returns, is open.
\<close>

section \<open>Calm rings\<close>

text \<open>Every connection of the pool has nothing but successes in its feedback and no failed message.\<close>

definition calm :: "connectionPool \<Rightarrow> bool" where
  "calm s \<longleftrightarrow> (\<forall>a c. pool_conns s a = Some c \<longrightarrow>
     pc_failed c = [] \<and> set (pod_feedbackChan (pc_pod c)) \<subseteq> {podFeedbackMsgSuccess})"

text \<open>The pod of a connection without its feedback.\<close>

definition pod_core :: "connectionPool \<Rightarrow> nat \<Rightarrow> pod option" where
  "pod_core s a = map_option (\<lambda>c. (pc_pod c)\<lparr>pod_feedbackChan := []\<rparr>) (pool_conns s a)"

lemma drain_success:
  "set q \<subseteq> {podFeedbackMsgSuccess} \<Longrightarrow>
     drain_feedback q st failed = (st\<lparr>cs_HadSuccess := cs_HadSuccess st \<or> q \<noteq> []\<rparr>, failed)"
  by (induction q arbitrary: st) auto

lemma calm_checkStatus:
  assumes "calm s" "pool_conns s a = Some c"
  shows "conn_checkStatus c = (\<lparr>cs_HadSuccess = (pod_feedbackChan (pc_pod c) \<noteq> []), cs_WantsReplay = False,
    cs_WantsDisconnect = False, cs_Error = None\<rparr>, c\<lparr>pc_pod := (pc_pod c)\<lparr>pod_feedbackChan := []\<rparr>\<rparr>)"
proof -
  have f: "pc_failed c = []" "set (pod_feedbackChan (pc_pod c)) \<subseteq> {podFeedbackMsgSuccess}"
    using assms by (auto simp: calm_def)
  then have "c\<lparr>pc_failed := []\<rparr> = c" by (cases c) simp
  with f highWaterMark_pos show ?thesis by (simp add: conn_checkStatus_def drain_success)
qed

lemma calm_not_removed: "calm s \<Longrightarrow> pool_conns s a = Some c \<Longrightarrow> \<not> conn_removed c"
  by (simp add: conn_removed_def calm_checkStatus)

lemma calm_prep_sends: "calm s \<Longrightarrow> pool_conns s a = Some c \<Longrightarrow> prep_sends buffer a c = []"
  by (simp add: prep_sends_def calm_checkStatus) (simp add: calm_def)

lemma calm_conn_at:
  assumes "calm s" "pool_conns s a \<noteq> None"
  shows "\<not> conn_removed (conn_at s a)" "prep_sends buffer a (conn_at s a) = []"
  using assms calm_not_removed calm_prep_sends by (auto simp: conn_at_def)

definition pool_keeps :: "connectionPool \<Rightarrow> connectionPool \<Rightarrow> bool" where
  "pool_keeps s s' \<longleftrightarrow> (calm s \<longrightarrow> calm s' \<and> pod_core s' = pod_core s)"

lemma pool_keeps_refl [simp]: "pool_keeps s s" and pool_keeps_trans: "pool_keeps s t \<Longrightarrow> pool_keeps t u \<Longrightarrow> pool_keeps s u"
  by (auto simp: pool_keeps_def)

lemma pool_keeps_frame [simp]:
  "pool_keeps s (conn_send a m s)" "pool_keeps s (s\<lparr>pool_current := cur\<rparr>)"
  by (simp_all add: pool_keeps_def calm_def pod_core_def fun_eq_iff)

lemma pool_keeps_drained:
  assumes "pool_conns s a = Some c"
  shows "pool_keeps s (conn_store a (c\<lparr>pc_pod := (pc_pod c)\<lparr>pod_feedbackChan := []\<rparr>\<rparr>) s)"
  using assms by (auto simp: pool_keeps_def calm_def pod_core_def fun_eq_iff)

lemma pool_keeps_prepareNext:
  assumes "calm s" "pool_prepareNext buffer s = Some (Inr (e, s'))"
  shows "e = None \<and> pool_keeps s s'"
proof -
  from assms(2) obtain nxt c where c: "go_bind (pool_peek s) (conn_deref s) = Inr (nxt, c)"
    by (cases "go_bind (pool_peek s) (conn_deref s)") (auto simp: pool_prepareNext_def)
  then have at: "pool_conns s nxt = Some c"
    by (auto simp: conn_deref_def elim!: go_bind_InrE split: option.split_asm)
  let ?c = "c\<lparr>pc_pod := (pc_pod c)\<lparr>pod_feedbackChan := []\<rparr>\<rparr>"
  have failed: "pc_failed ?c = []" using assms(1) at by (simp add: calm_def)
  then have same: "?c\<lparr>pc_failed := []\<rparr> = ?c" by (cases c) simp
  have "e = None" "s' = conn_store nxt ?c s \<or> s' = conn_flushFailed nxt ?c (conn_store nxt ?c s)"
    using assms(2) unfolding pool_prepareNext_def c
    by (auto simp: calm_checkStatus[OF assms(1) at] Let_def split: if_split_asm)
  moreover have "conn_flushFailed nxt ?c (conn_store nxt ?c s) = conn_store nxt ?c s"
    unfolding conn_flushFailed_def failed same by (simp add: conn_store_def)
  ultimately show ?thesis using pool_keeps_drained[OF at] by auto
qed

lemma pool_keeps_prepare_loop: "prepare_loop buffer s = Some (Inr s') \<Longrightarrow> pool_keeps s s'"
proof (rule prepare_loop.raw_induct[where P = "\<lambda>b s r. \<forall>s'. r = Inr s' \<longrightarrow> pool_keeps s s'", THEN spec, THEN mp])
  fix loop buffer s r
  assume IH: "\<And>b s r. loop b s = Some r \<Longrightarrow> \<forall>s'. r = Inr s' \<longrightarrow> pool_keeps s s'"
    and eq: "prog_bind (pool_prepareNext buffer s) (\<lambda>(e, s1). case e of None \<Rightarrow> Some (Inr s1) | Some _ \<Rightarrow> loop buffer s1) = Some r"
  show "\<forall>s'. r = Inr s' \<longrightarrow> pool_keeps s s'"
  proof (intro allI impI)
    fix s' assume "r = Inr s'"
    with eq obtain e s1 where "pool_prepareNext buffer s = Some (Inr (e, s1))"
      "(case e of None \<Rightarrow> Some (Inr s1) | Some _ \<Rightarrow> loop buffer s1) = Some (Inr s')"
      by (auto elim!: prog_bind_InrE)
    then show "pool_keeps s s'" using pool_keeps_prepareNext[of s buffer e s1] by (auto simp: pool_keeps_def)
  qed
qed auto

lemma pool_keeps_traverse: "traverse_loop m buffer start conn s = Some (Inr s') \<Longrightarrow> pool_keeps s s'"
proof (rule traverse_loop.raw_induct[where P = "\<lambda>m b st conn s r. \<forall>s'. r = Inr s' \<longrightarrow> pool_keeps s s'", THEN spec, THEN mp])
  fix loop m buffer start conn s r
  assume IH: "\<And>m b st conn s r. loop m b st conn s = Some r \<Longrightarrow> \<forall>s'. r = Inr s' \<longrightarrow> pool_keeps s s'"
    and eq: "prog_bind (Some (pool_peek (conn_send conn (Some m) s))) (\<lambda>nextp.
     prog_bind (pool_prepareNext buffer (conn_send conn (Some m) s)) (\<lambda>(e, s2).
     prog_bind (Some (moved_start e start nextp s2)) (\<lambda>startID'.
     prog_bind (Some (pool_next s2)) (\<lambda>(cur, s3).
     prog_bind (Some (conn_deref s3 cur)) (\<lambda>(a, c).
       if startID' = pc_ID c then Some (Inr s3)
       else loop m buffer startID' a s3))))) = Some r"
  show "\<forall>s'. r = Inr s' \<longrightarrow> pool_keeps s s'"
  proof (intro allI impI)
    fix s' assume r: "r = Inr s'"
    let ?s1 = "conn_send conn (Some m) s"
    from eq r obtain e s2 st cur s3 a where h: "pool_prepareNext buffer ?s1 = Some (Inr (e, s2))"
      "pool_next s2 = Inr (cur, s3)" "s3 = s' \<or> loop m buffer st a s3 = Some (Inr s')"
      by (fastforce elim!: prog_bind_InrE split: if_split_asm)
    have "pool_keeps s3 s'" using h(3) IH[of m buffer st a s3 "Inr s'"] by auto
    moreover have "pool_keeps s2 s3" using h(2) by (auto simp: pool_next_def elim!: go_bind_InrE)
    moreover have "pool_keeps s s2"
    proof (cases "calm s")
      case True
      then have "calm ?s1" using pool_keeps_frame(1)[of s conn "Some m"] by (simp add: pool_keeps_def)
      with pool_keeps_prepareNext[OF _ h(1)] show ?thesis using pool_keeps_trans[OF pool_keeps_frame(1)] by blast
    qed (simp add: pool_keeps_def)
    ultimately show "pool_keeps s s'" by (blast intro: pool_keeps_trans)
  qed
qed auto

lemma walk_log_calm:
  assumes "\<forall>y \<in> set ys. \<not> conn_removed (f y) \<and> prep_sends buffer y (f y) = []"
  shows "walk_log buffer m f x ys = map (\<lambda>a. (a, Some m)) (x # ys)"
  using assms by (induction ys arbitrary: x) auto

text \<open>
  On a calm ring one message goes to every connection, each once, and nothing else is sent; the ring
  stays calm and the pods as they were.
\<close>

lemma calm_handle:
  assumes ok: "bus_ok b xs" and ne: "xs \<noteq> []" and calm: "calm (bus_pool b)"
  shows "\<exists>b'. bus_handle m b = Some (Inr b') \<and> bus_ok b' (rotate1 xs) \<and> bus_busChan b' = bus_busChan b
    \<and> pool_pending (bus_pool b') = pool_pending (bus_pool b) @ map (\<lambda>a. (a, Some m)) (rotate1 xs)
    \<and> calm (bus_pool b') \<and> pod_core (bus_pool b') = pod_core (bus_pool b)"
proof -
  let ?f = "conn_at (bus_pool b)"
  obtain x ys where xs: "xs = x # ys" using ne by (cases xs) auto
  obtain z zs where z: "rotate1 xs = z # zs" using ne by (cases "rotate1 xs") auto
  have all: "\<not> conn_removed (?f a) \<and> prep_sends (bus_buffer b) a (?f a) = []" if "a \<in> set (z # zs)" for a
  proof -
    have "a \<in> set xs" using that z by (metis set_rotate1)
    then have "pool_conns (bus_pool b) a \<noteq> None" using ok ring_nonNone by (auto simp: bus_ok_def)
    then show ?thesis using calm_conn_at[OF calm] by blast
  qed
  then have "ready_ring b (x # ys) = z # zs" using z xs by (simp add: ready_ring_def)
  from bus_handle_ready[OF ok[unfolded xs] this, of m] obtain b' where b': "bus_handle m b = Some (Inr b')"
    "bus_ok b' (z # walk (\<lambda>a. conn_removed (?f a)) zs)" "bus_busChan b' = bus_busChan b"
    "pool_pending (bus_pool b') = pool_pending (bus_pool b)
        @ prep_sends (bus_buffer b) z (?f z) @ walk_log (bus_buffer b) m ?f z zs" by blast
  have "walk (\<lambda>a. conn_removed (?f a)) zs = zs" using all by (simp add: walk_none)
  moreover have "walk_log (bus_buffer b) m ?f z zs = map (\<lambda>a. (a, Some m)) (z # zs)"
    using all by (intro walk_log_calm) auto
  moreover have "pool_keeps (bus_pool b) (bus_pool b')"
  proof -
    from b'(1) obtain s1 start s2 where h: "prepare_loop (bus_buffer b) (bus_pool b) = Some (Inr s1)"
      "pool_next s1 = Inr (start, s2)" "bus_traverse m (bus_buffer b) start s2 = Some (Inr (bus_pool b'))"
      by (auto simp: bus_handle_def elim!: prog_bind_InrE)
    have "pool_keeps s1 s2" using h(2) by (auto simp: pool_next_def elim!: go_bind_InrE)
    moreover have "pool_keeps s2 (bus_pool b')"
      using h(3) pool_keeps_traverse by (auto simp: bus_traverse_def elim!: prog_bind_InrE)
    ultimately show ?thesis using pool_keeps_prepare_loop[OF h(1)] by (blast intro: pool_keeps_trans)
  qed
  ultimately show ?thesis using b' all calm z by (auto simp: pool_keeps_def)
qed

section \<open>The process\<close>

text \<open>
  The goroutines that have a message for a pod and are not yet in its callback, the callbacks under way
  by pod, and two logs: what the pods sent, and what became of each message a goroutine looked at, with
  whether the callback was called.
\<close>

record peer =
  pr_bus :: messageBus
  pr_woken :: "(nat \<times> message option) multiset"
  pr_inside :: "nat multiset"
  pr_seen :: "(nat \<times> message \<times> bool) multiset"
  pr_put :: "(nat \<times> message) list"

definition peer_of :: "messageBus \<Rightarrow> peer" where
  "peer_of b = \<lparr>pr_bus = b, pr_woken = {#}, pr_inside = {#}, pr_seen = {#}, pr_put = []\<rparr>"

definition pod_at :: "messageBus \<Rightarrow> nat \<Rightarrow> pod option" where
  "pod_at b a = map_option pc_pod (pool_conns (bus_pool b) a)"

definition set_pod :: "nat \<Rightarrow> pod \<Rightarrow> messageBus \<Rightarrow> messageBus" where
  "set_pod a q b =
     (case pool_conns (bus_pool b) a of
        None \<Rightarrow> b
      | Some c \<Rightarrow> b\<lparr>bus_pool := conn_store a (c\<lparr>pc_pod := q\<rparr>) (bus_pool b)\<rparr>)"

text \<open>\<open>Send\<close> of the pod at an address: it waits while the bus channel is full.\<close>

definition peer_send :: "nat \<Rightarrow> message \<Rightarrow> peer \<Rightarrow> peer option" where
  "peer_send a m p =
     (case pod_at (pr_bus p) a of
        None \<Rightarrow> None
      | Some q \<Rightarrow>
          (case Pod_Send m q of
             (None, _) \<Rightarrow> Some p
           | (Some _, q') \<Rightarrow>
               (case chan_send defaultBusChanSize m (bus_busChan (pr_bus p)) of
                  None \<Rightarrow> None
                | Some ch \<Rightarrow>
                    Some (p\<lparr>pr_bus := (set_pod a q' (pr_bus p))\<lparr>bus_busChan := ch\<rparr>,
                            pr_put := pr_put p @ [(a, m)]\<rparr>))))"

definition peer_loop :: "peer \<Rightarrow> peer prog" where
  "peer_loop p = prog_bind (bus_step (pr_bus p)) (\<lambda>b. Some (Inr (p\<lparr>pr_bus := b\<rparr>)))"

definition peer_deliver :: "nat \<Rightarrow> peer \<Rightarrow> peer option" where
  "peer_deliver i p =
     map_option (\<lambda>s. p\<lparr>pr_bus := (pr_bus p)\<lparr>bus_pool := s\<rparr>\<rparr>) (conn_send_run i (bus_pool (pr_bus p)))"

text \<open>A turn of a receive loop; no channel of the program's pods is ever closed.\<close>

definition peer_receive :: "nat \<Rightarrow> peer \<Rightarrow> peer option" where
  "peer_receive a p =
     (case Option.bind (pod_at (pr_bus p) a) pod_receive of
        Some (Some m, q) \<Rightarrow> Some (p\<lparr>pr_bus := set_pod a q (pr_bus p), pr_woken := add_mset (a, m) (pr_woken p)\<rparr>)
      | Some (None, q) \<Rightarrow> Some (p\<lparr>pr_bus := set_pod a q (pr_bus p)\<rparr>)
      | None \<Rightarrow> None)"

text \<open>Whether the goroutine of a message calls the callback.\<close>

definition pod_calls :: "message option \<Rightarrow> pod \<Rightarrow> bool go" where
  "pod_calls m q =
     (if pod_onFunc q = None then Inr False
      else case m of None \<Rightarrow> Inl NilDereference | Some msg \<Rightarrow> Inr (filter_allow (pod_filter q) msg))"

definition peer_begin :: "nat \<times> message option \<Rightarrow> peer \<Rightarrow> peer prog" where
  "peer_begin w p =
     (case pod_at (pr_bus p) (fst w) of
        None \<Rightarrow> None
      | Some q \<Rightarrow>
          prog_bind (Some (pod_calls (snd w) q)) (\<lambda>called.
            Some (Inr (p\<lparr>pr_woken := pr_woken p - {#w#},
                         pr_inside := pr_inside p + (if called then {#fst w#} else {#}),
                         pr_seen := pr_seen p + (case snd w of None \<Rightarrow> {#} | Some m \<Rightarrow> {#(fst w, m, called)#})\<rparr>))))"

text \<open>A callback returns, without an error; it waits while the feedback channel is full.\<close>

definition peer_return :: "nat \<Rightarrow> peer \<Rightarrow> peer prog" where
  "peer_return a p =
     (case pod_at (pr_bus p) a of
        None \<Rightarrow> None
      | Some q \<Rightarrow> prog_bind (pod_feedback podFeedbackMsgSuccess q) (\<lambda>q'.
          Some (Inr (p\<lparr>pr_bus := set_pod a q' (pr_bus p), pr_inside := pr_inside p - {#a#}\<rparr>))))"

lemma pod_handle_calls:
  "pod_handle m q =
     (case pod_calls m q of
        Inl e \<Rightarrow> Some (Inl e)
      | Inr called \<Rightarrow>
          if \<not> called then Some (Inr q)
          else case the (pod_onFunc q) (the m) of
                 None \<Rightarrow> pod_feedback podFeedbackMsgSuccess q
               | Some _ \<Rightarrow> pod_feedback (FeedbackFailed (the m)) q)"
  by (auto simp: pod_handle_def pod_calls_def split: option.split)

text \<open>The process by itself, and with its pods' owners sending.\<close>

inductive peer_work :: "peer \<Rightarrow> peer \<Rightarrow> bool" where
  pw_loop: "peer_loop p = Some (Inr p') \<Longrightarrow> peer_work p p'"
| pw_deliver: "peer_deliver i p = Some p' \<Longrightarrow> peer_work p p'"
| pw_receive: "peer_receive a p = Some p' \<Longrightarrow> peer_work p p'"
| pw_begin: "w \<in># pr_woken p \<Longrightarrow> peer_begin w p = Some (Inr p') \<Longrightarrow> peer_work p p'"
| pw_return: "a \<in># pr_inside p \<Longrightarrow> peer_return a p = Some (Inr p') \<Longrightarrow> peer_work p p'"

inductive peer_step :: "peer \<Rightarrow> peer \<Rightarrow> bool" where
  ps_work: "peer_work p p' \<Longrightarrow> peer_step p p'"
| ps_send: "peer_send a m p = Some p' \<Longrightarrow> peer_step p p'"

text \<open>The callbacks called at a pod so far.\<close>

definition calls :: "nat \<Rightarrow> peer \<Rightarrow> message multiset" where
  "calls a p = image_mset (\<lambda>(_, m, _). m) (filter_mset (\<lambda>(b, _, called). b = a \<and> called) (pr_seen p))"

text \<open>What a pod's owner has asked for: by type only, since owners filter by nothing else.\<close>

definition wants :: "pod \<Rightarrow> message \<Rightarrow> bool" where
  "wants q m \<longleftrightarrow> pod_onFunc q \<noteq> None
     \<and> listed_or (mf_TypeInclusive (pod_filter q)) (mf_TypeMap (pod_filter q)) (msg_Type m)"

definition at_rest :: "peer \<Rightarrow> bool" where
  "at_rest p \<longleftrightarrow> bus_busChan (pr_bus p) = [] \<and> pool_pending (bus_pool (pr_bus p)) = [] \<and> pr_woken p = {#}
     \<and> (\<forall>a q. pod_at (pr_bus p) a = Some q \<longrightarrow> pod_messageChan q = [])"

section \<open>The view of a process\<close>

text \<open>What its pods are, feedback left aside.\<close>

abbreviation cores :: "peer \<Rightarrow> nat \<Rightarrow> pod option" where
  "cores p \<equiv> pod_core (bus_pool (pr_bus p))"

lemma pod_at_core: "pod_at b a = Some q \<Longrightarrow> pod_core (bus_pool b) a = Some (q\<lparr>pod_feedbackChan := []\<rparr>)"
  by (auto simp: pod_at_def pod_core_def)

lemma pod_core_at: "pod_core (bus_pool b) a = Some q \<Longrightarrow> \<exists>q'. pod_at b a = Some q' \<and> q = q'\<lparr>pod_feedbackChan := []\<rparr>"
  by (auto simp: pod_at_def pod_core_def)

lemma set_pod_frame:
  assumes "pod_at b a = Some q"
  shows "pod_core (bus_pool (set_pod a q' b)) = (pod_core (bus_pool b))(a \<mapsto> q'\<lparr>pod_feedbackChan := []\<rparr>)"
    "pool_pending (bus_pool (set_pod a q' b)) = pool_pending (bus_pool b)"
    "bus_busChan (set_pod a q' b) = bus_busChan b"
    "pod_chanClosed q' = pod_chanClosed q \<Longrightarrow> bus_ok b xs \<Longrightarrow> bus_ok (set_pod a q' b) xs"
    "calm (bus_pool b) \<Longrightarrow> set (pod_feedbackChan q') \<subseteq> {podFeedbackMsgSuccess} \<Longrightarrow> calm (bus_pool (set_pod a q' b))"
proof -
  from assms obtain c where c: "pool_conns (bus_pool b) a = Some c" "q = pc_pod c" by (auto simp: pod_at_def)
  show "pod_core (bus_pool (set_pod a q' b)) = (pod_core (bus_pool b))(a \<mapsto> q'\<lparr>pod_feedbackChan := []\<rparr>)"
    "pool_pending (bus_pool (set_pod a q' b)) = pool_pending (bus_pool b)"
    "bus_busChan (set_pod a q' b) = bus_busChan b"
    using c by (auto simp: set_pod_def pod_core_def fun_eq_iff)
  show "bus_ok (set_pod a q' b) xs" if "pod_chanClosed q' = pod_chanClosed q" "bus_ok b xs"
    using that c ring_conn_store[of "bus_pool b" xs a c "c\<lparr>pc_pod := q'\<rparr>"] ids_conn_store[of "bus_pool b" a c "c\<lparr>pc_pod := q'\<rparr>"]
    by (auto simp: set_pod_def bus_ok_def conn_ok_def)
  show "calm (bus_pool (set_pod a q' b))" if "calm (bus_pool b)" "set (pod_feedbackChan q') \<subseteq> {podFeedbackMsgSuccess}"
    using that c by (auto simp: set_pod_def calm_def)
qed

section \<open>The invariant\<close>

definition own_uuids :: "nat \<Rightarrow> (nat \<times> message) list \<Rightarrow> string set" where
  "own_uuids a put = msg_UUID ` {m. (a, m) \<in> set put}"

text \<open>A pod as its owner configured it, denying exactly what it has sent itself.\<close>

definition configured :: "(nat \<times> message) list \<Rightarrow> nat \<Rightarrow> pod \<Rightarrow> pod \<Rightarrow> bool" where
  "configured put a q0 q \<longleftrightarrow>
     pod_onFunc q = pod_onFunc q0 \<and> mf_TypeMap (pod_filter q) = mf_TypeMap (pod_filter q0)
     \<and> mf_TypeInclusive (pod_filter q) = mf_TypeInclusive (pod_filter q0)
     \<and> mf_UUIDInclusive (pod_filter q) \<and> \<not> pod_dead q \<and> \<not> pod_chanClosed q
     \<and> (\<forall>u. mf_UUIDMap (pod_filter q) u = (if u \<in> own_uuids a put then Some False else None))"

text \<open>The messages handed to a pod, wherever they are by now.\<close>

definition transit :: "nat \<Rightarrow> peer \<Rightarrow> message option multiset" where
  "transit a p =
     mset (map snd (filter (\<lambda>x. fst x = a) (pool_pending (bus_pool (pr_bus p)))))
     + mset (pod_messageChan (the (cores p a)))
     + image_mset snd (filter_mset (\<lambda>x. fst x = a) (pr_woken p))
     + image_mset (\<lambda>x. Some (fst (snd x))) (filter_mset (\<lambda>x. fst x = a) (pr_seen p))"

definition addresses :: "peer \<Rightarrow> nat set" where
  "addresses p = fst ` set (pool_pending (bus_pool (pr_bus p))) \<union> fst ` set_mset (pr_woken p)"

definition put_distinct :: "peer \<Rightarrow> bool" where
  "put_distinct p \<longleftrightarrow> distinct (map (\<lambda>x. msg_UUID (snd x)) (pr_put p))"

definition peer_inv :: "(nat \<Rightarrow> pod option) \<Rightarrow> peer \<Rightarrow> bool" where
  "peer_inv cfg p \<longleftrightarrow>
     (\<exists>xs. bus_ok (pr_bus p) xs \<and> xs \<noteq> [] \<and> dom (cores p) = set xs) \<and> calm (bus_pool (pr_bus p))
     \<and> (\<forall>a. rel_option (configured (pr_put p) a) (cfg a) (cores p a)) \<and> addresses p \<subseteq> dom (cores p)
     \<and> (\<exists>taken. map snd (pr_put p) = taken @ bus_busChan (pr_bus p)
          \<and> (\<forall>a \<in> dom (cores p). transit a p = image_mset Some (mset taken)))
     \<and> (put_distinct p \<longrightarrow> (\<forall>a m called. a \<in> dom (cores p) \<and> (a, m, called) \<in># pr_seen p \<longrightarrow>
          called = (wants (the (cfg a)) m \<and> (a, m) \<notin> set (pr_put p))))"

lemma peer_invE:
  assumes "peer_inv cfg p"
  obtains xs taken where "bus_ok (pr_bus p) xs" "xs \<noteq> []" "dom (cores p) = set xs" "calm (bus_pool (pr_bus p))"
    "\<forall>a. rel_option (configured (pr_put p) a) (cfg a) (cores p a)" "addresses p \<subseteq> set xs"
    "map snd (pr_put p) = taken @ bus_busChan (pr_bus p)"
    "\<forall>a \<in> set xs. transit a p = image_mset Some (mset taken)"
    "put_distinct p \<longrightarrow> (\<forall>a m called. a \<in> set xs \<and> (a, m, called) \<in># pr_seen p \<longrightarrow>
       called = (wants (the (cfg a)) m \<and> (a, m) \<notin> set (pr_put p)))"
  using assms unfolding peer_inv_def by (metis (no_types, lifting))

lemma peer_pod:
  assumes "peer_inv cfg p" "pod_at (pr_bus p) a = Some q"
  obtains q0 where "cfg a = Some q0" "configured (pr_put p) a q0 q" "a \<in> dom (cores p)"
    "set (pod_feedbackChan q) \<subseteq> {podFeedbackMsgSuccess}"
proof -
  from pod_at_core[OF assms(2)] have c: "cores p a = Some (q\<lparr>pod_feedbackChan := []\<rparr>)" .
  moreover from assms(1) have "rel_option (configured (pr_put p) a) (cfg a) (cores p a)" by (simp add: peer_inv_def)
  ultimately obtain q0 where "cfg a = Some q0" "configured (pr_put p) a q0 (q\<lparr>pod_feedbackChan := []\<rparr>)"
    by (auto simp: option_rel_Some2)
  moreover have "set (pod_feedbackChan q) \<subseteq> {podFeedbackMsgSuccess}"
    using assms by (auto simp: peer_inv_def calm_def pod_at_def)
  ultimately show thesis using c that[of q0] by (auto simp: configured_def)
qed

text \<open>A step that changes a pod's channels and the goroutines' places only.\<close>

lemma peer_inv_moved:
  assumes inv: "peer_inv cfg p" and ok: "\<And>xs. bus_ok (pr_bus p) xs \<Longrightarrow> bus_ok (pr_bus p') xs"
    and calm: "calm (bus_pool (pr_bus p'))" and chan: "bus_busChan (pr_bus p') = bus_busChan (pr_bus p)"
    and put: "pr_put p' = pr_put p" and seen: "pr_seen p' = pr_seen p"
    and core: "\<And>a. rel_option (\<lambda>q q'. q'\<lparr>pod_messageChan := []\<rparr> = q\<lparr>pod_messageChan := []\<rparr>) (cores p a) (cores p' a)"
    and addr: "addresses p' \<subseteq> dom (cores p)"
    and transit: "\<And>a. a \<in> dom (cores p) \<Longrightarrow> transit a p' = transit a p"
  shows "peer_inv cfg p'"
proof -
  have "cores p' a = None \<longleftrightarrow> cores p a = None" for a using core[of a] by (cases "cores p a"; cases "cores p' a") auto
  then have dom: "dom (cores p') = dom (cores p)" by (simp add: dom_def)
  have "configured (pr_put p) a q0 q'" if "configured (pr_put p) a q0 q" "q'\<lparr>pod_messageChan := []\<rparr> = q\<lparr>pod_messageChan := []\<rparr>" for a q0 q q'
    using that by (cases q; cases q') (simp add: configured_def)
  then have "rel_option (configured (pr_put p) a) (cfg a) (cores p' a)" for a
    using inv core[of a] unfolding peer_inv_def
    by (cases "cfg a"; cases "cores p a"; cases "cores p' a") (force dest: spec[of _ a])+
  with assms dom show ?thesis unfolding peer_inv_def put_distinct_def by auto
qed
section \<open>Every step keeps it\<close>

lemma bus_ok_chan [simp]: "bus_ok (b\<lparr>bus_busChan := q\<rparr>) xs = bus_ok b xs"
  by (simp add: bus_ok_def)

lemma peer_inv_loop:
  assumes inv: "peer_inv cfg p" and "bus_busChan (pr_bus p) \<noteq> []"
  shows "\<exists>p'. peer_loop p = Some (Inr p') \<and> peer_inv cfg p' \<and> pr_put p' = pr_put p \<and> pr_seen p' = pr_seen p
    \<and> pr_woken p' = pr_woken p \<and> pr_inside p' = pr_inside p \<and> cores p' = cores p
    \<and> bus_busChan (pr_bus p') = tl (bus_busChan (pr_bus p))
    \<and> length (pool_pending (bus_pool (pr_bus p'))) = length (pool_pending (bus_pool (pr_bus p))) + card (dom (cores p))"
proof -
  from inv obtain xs taken where i: "bus_ok (pr_bus p) xs" "xs \<noteq> []" "dom (cores p) = set xs" "calm (bus_pool (pr_bus p))"
    "\<forall>a. rel_option (configured (pr_put p) a) (cfg a) (cores p a)" "addresses p \<subseteq> set xs"
    "map snd (pr_put p) = taken @ bus_busChan (pr_bus p)"
    "\<forall>a \<in> set xs. transit a p = image_mset Some (mset taken)"
    "put_distinct p \<longrightarrow> (\<forall>a m called. a \<in> set xs \<and> (a, m, called) \<in># pr_seen p \<longrightarrow>
       called = (wants (the (cfg a)) m \<and> (a, m) \<notin> set (pr_put p)))" by (rule peer_invE) blast
  obtain m q where q: "bus_busChan (pr_bus p) = m # q" using assms(2) by (cases "bus_busChan (pr_bus p)") auto
  let ?b = "pr_bus p\<lparr>bus_busChan := q\<rparr>"
  have "bus_ok ?b xs" "calm (bus_pool ?b)" using i(1,4) by simp_all
  from calm_handle[OF this(1) i(2) this(2), of m] obtain b' where b': "bus_handle m ?b = Some (Inr b')"
    "bus_ok b' (rotate1 xs)" "bus_busChan b' = q" "calm (bus_pool b')" "pod_core (bus_pool b') = cores p"
    "pool_pending (bus_pool b') = pool_pending (bus_pool (pr_bus p)) @ map (\<lambda>a. (a, Some m)) (rotate1 xs)" by auto
  let ?p = "p\<lparr>pr_bus := b'\<rparr>"
  have d: "distinct xs" using i(1) by (auto simp: bus_ok_def dest: ring_distinct)
  have once: "filter (\<lambda>x. fst x = a) (map (\<lambda>a. (a, Some m)) (rotate1 xs)) = [(a, Some m)]" if "a \<in> set xs" for a
  proof -
    have "filter (\<lambda>b. b = a) ys = [a]" if "a \<in> set ys" "distinct ys" for ys
      using that by (induction ys) (auto simp: filter_empty_conv)
    from this[of "rotate1 xs"] that d show ?thesis by (simp add: filter_map comp_def)
  qed
  have "transit a ?p = image_mset Some (mset (taken @ [m]))" if "a \<in> set xs" for a
    using i(8) that once[OF that] by (simp add: transit_def b')
  moreover have addr: "addresses ?p \<subseteq> set xs" using i(6) by (auto simp: addresses_def b')
  ultimately have "peer_inv cfg ?p"
    unfolding peer_inv_def using b' i(2,3,5,7,9) q addr
    by (intro conjI exI[of _ "rotate1 xs"] exI[of _ "taken @ [m]"]) (auto simp: put_distinct_def)
  moreover have "peer_loop p = Some (Inr ?p)" using b'(1) q by (simp add: peer_loop_def bus_step_def)
  ultimately show ?thesis using b' d i(3) q by (auto simp: distinct_card)
qed

lemma remove_nth_filter:
  assumes "i < length xs"
  shows "mset (map snd (filter P xs)) = mset (map snd (filter P (take i xs @ drop (Suc i) xs)))
    + (if P (xs ! i) then {#snd (xs ! i)#} else {#})"
proof -
  have "xs = take i xs @ xs ! i # drop (Suc i) xs" using assms by (rule id_take_nth_drop)
  then have "filter P xs = filter P (take i xs @ xs ! i # drop (Suc i) xs)" by simp
  then show ?thesis by simp
qed

lemma peer_deliver_Some:
  assumes inv: "peer_inv cfg p" and "peer_deliver i p = Some p'"
  obtains a m and c :: podConnection where "i < length (pool_pending (bus_pool (pr_bus p)))" "pool_pending (bus_pool (pr_bus p)) ! i = (a, m)"
    "pod_at (pr_bus p) a = Some (pc_pod c)"
    "p' = p\<lparr>pr_bus := set_pod a ((pc_pod c)\<lparr>pod_messageChan := pod_messageChan (pc_pod c) @ [m]\<rparr>)
       (pr_bus p\<lparr>bus_pool := bus_pool (pr_bus p)\<lparr>pool_pending := take i (pool_pending (bus_pool (pr_bus p)))
          @ drop (Suc i) (pool_pending (bus_pool (pr_bus p)))\<rparr>\<rparr>)\<rparr>"
proof -
  let ?b = "pr_bus p" let ?s = "bus_pool ?b"
  obtain s' where s': "conn_send_run i ?s = Some s'" "p' = p\<lparr>pr_bus := ?b\<lparr>bus_pool := s'\<rparr>\<rparr>"
    using assms(2) by (auto simp: peer_deliver_def)
  obtain a m where am: "pool_pending ?s ! i = (a, m)" and i: "i < length (pool_pending ?s)"
    using s'(1) by (cases "pool_pending ?s ! i") (auto simp: conn_send_run_def split: if_split_asm)
  let ?s1 = "?s\<lparr>pool_pending := take i (pool_pending ?s) @ drop (Suc i) (pool_pending ?s)\<rparr>"
  obtain c where c: "pool_conns ?s a = Some c" using s'(1) am i by (cases "pool_conns ?s a") (auto simp: conn_send_run_def Let_def)
  then have at: "pod_at ?b a = Some (pc_pod c)" by (simp add: pod_at_def)
  from inv obtain xs where xs: "bus_ok ?b xs" "dom (cores p) = set xs" "calm ?s" by (rule peer_invE) blast
  have "a \<in> set xs" using xs(2) pod_at_core[OF at] by auto
  then have conn: "pc_connected c" using xs(1) c by (auto simp: bus_ok_def conn_ok_def dest: ring_conn)
  let ?q = "(pc_pod c)\<lparr>pod_messageChan := pod_messageChan (pc_pod c) @ [m]\<rparr>"
  have "s' = conn_store a (c\<lparr>pc_pod := ?q\<rparr>) ?s1"
    using s'(1) am i c conn by (auto simp: conn_send_run_def chan_send_def split: if_split_asm)
  then have "pr_bus p' = set_pod a ?q (?b\<lparr>bus_pool := ?s1\<rparr>)" using s'(2) c by (simp add: set_pod_def)
  with i am at s'(2) show thesis by (intro that[of a m c]) simp_all
qed

lemma peer_inv_deliver:
  assumes inv: "peer_inv cfg p" and "peer_deliver i p = Some p'"
  shows "peer_inv cfg p' \<and> pr_put p' = pr_put p"
proof -
  let ?b = "pr_bus p" let ?s = "bus_pool ?b"
  let ?s1 = "?s\<lparr>pool_pending := take i (pool_pending ?s) @ drop (Suc i) (pool_pending ?s)\<rparr>"
  from assms obtain a m and c :: podConnection where i: "i < length (pool_pending ?s)" and am: "pool_pending ?s ! i = (a, m)"
    and at: "pod_at ?b a = Some (pc_pod c)" and
    p': "p' = p\<lparr>pr_bus := set_pod a ((pc_pod c)\<lparr>pod_messageChan := pod_messageChan (pc_pod c) @ [m]\<rparr>) (?b\<lparr>bus_pool := ?s1\<rparr>)\<rparr>"
    by (rule peer_deliver_Some)
  let ?q = "(pc_pod c)\<lparr>pod_messageChan := pod_messageChan (pc_pod c) @ [m]\<rparr>"
  from inv have calm: "calm ?s" by (simp add: peer_inv_def)
  have b': "pr_bus p' = set_pod a ?q (?b\<lparr>bus_pool := ?s1\<rparr>)" by (simp add: p')
  have at1: "pod_at (?b\<lparr>bus_pool := ?s1\<rparr>) a = Some (pc_pod c)" using at by (simp add: pod_at_def)
  note f = set_pod_frame[OF at1, of ?q]
  have cores1: "pod_core ?s1 = cores p" by (simp add: pod_core_def fun_eq_iff)
  have fb: "set (pod_feedbackChan (pc_pod c)) \<subseteq> {podFeedbackMsgSuccess}" using peer_pod[OF inv at] by blast
  have "peer_inv cfg p'"
  proof (rule peer_inv_moved[OF inv])
    show "bus_ok (pr_bus p') ys" if "bus_ok ?b ys" for ys
      unfolding b' using that by (intro f(4)) (auto simp: bus_ok_def ring_same[of ?s1 ?s] ids_same[of ?s1 ?s])
    show "calm (bus_pool (pr_bus p'))" unfolding b' using calm fb by (intro f(5)) (auto simp: calm_def)
    show "bus_busChan (pr_bus p') = bus_busChan ?b" unfolding b' f(3) by simp
    show "rel_option (\<lambda>q q'. q'\<lparr>pod_messageChan := []\<rparr> = q\<lparr>pod_messageChan := []\<rparr>) (cores p d) (cores p' d)" for d
      unfolding b' f(1) using pod_at_core[OF at] by (cases "cores p d") (auto simp: cores1)
    have "set (pool_pending ?s1) \<subseteq> set (pool_pending ?s)"
      using set_take_subset[of i "pool_pending ?s"] set_drop_subset[of "Suc i" "pool_pending ?s"] by simp
    then have "addresses p' \<subseteq> addresses p" unfolding addresses_def b' f(2) by (auto simp: p' image_iff)
    moreover have "addresses p \<subseteq> dom (cores p)" using inv by (simp add: peer_inv_def)
    ultimately show "addresses p' \<subseteq> dom (cores p)" by (rule subset_trans)
    show "transit d p' = transit d p" for d
      using pod_at_core[OF at] remove_nth_filter[OF i, of "\<lambda>x. fst x = d"] am
      unfolding transit_def b' f(1,2) by (auto simp: cores1 p')
  qed (simp_all add: p')
  then show ?thesis by (simp add: p')
qed

lemma peer_inv_receive:
  assumes inv: "peer_inv cfg p" and "peer_receive a p = Some p'"
  shows "peer_inv cfg p' \<and> pr_put p' = pr_put p"
proof -
  let ?b = "pr_bus p"
  obtain q where at: "pod_at ?b a = Some q" using assms(2) by (cases "pod_at ?b a") (auto simp: peer_receive_def)
  from inv at obtain q0 where q: "configured (pr_put p) a q0 q" "set (pod_feedbackChan q) \<subseteq> {podFeedbackMsgSuccess}"
    by (rule peer_pod)
  from q(1) assms(2) at obtain m ms where m: "pod_messageChan q = m # ms"
    by (cases "pod_messageChan q") (auto simp: peer_receive_def pod_receive_def configured_def)
  let ?q = "q\<lparr>pod_messageChan := ms\<rparr>"
  have p': "p' = p\<lparr>pr_bus := set_pod a ?q ?b, pr_woken := add_mset (a, m) (pr_woken p)\<rparr>"
    using assms(2) at m by (simp add: peer_receive_def pod_receive_def)
  note f = set_pod_frame[OF at, of ?q] and core = pod_at_core[OF at]
  from inv have calm: "calm (bus_pool ?b)" by (simp add: peer_inv_def)
  have "peer_inv cfg p'"
  proof (rule peer_inv_moved[OF inv])
    show "rel_option (\<lambda>q q'. q'\<lparr>pod_messageChan := []\<rparr> = q\<lparr>pod_messageChan := []\<rparr>) (cores p d) (cores p' d)" for d
      using core by (cases "cores p d") (auto simp: p' f(1))
    have "addresses p \<subseteq> dom (cores p)" using inv by (simp add: peer_inv_def)
    then show "addresses p' \<subseteq> dom (cores p)" using core by (auto simp: p' addresses_def f(2))
    show "transit d p' = transit d p" for d
      using core m by (auto simp: p' transit_def f)
  qed (use f(4,5) calm q(2) in \<open>simp_all add: p' f(3)\<close>)
  then show ?thesis by (simp add: p')
qed

lemma peer_inv_return:
  assumes inv: "peer_inv cfg p" and "peer_return a p = Some r"
  shows "\<exists>p'. r = Inr p' \<and> peer_inv cfg p' \<and> pr_put p' = pr_put p"
proof -
  let ?b = "pr_bus p"
  obtain q where at: "pod_at ?b a = Some q" using assms(2) by (cases "pod_at ?b a") (auto simp: peer_return_def)
  from inv at obtain q0 where q: "configured (pr_put p) a q0 q" "set (pod_feedbackChan q) \<subseteq> {podFeedbackMsgSuccess}"
    by (rule peer_pod)
  let ?q = "q\<lparr>pod_feedbackChan := pod_feedbackChan q @ [podFeedbackMsgSuccess]\<rparr>"
  let ?p = "p\<lparr>pr_bus := set_pod a ?q ?b, pr_inside := pr_inside p - {#a#}\<rparr>"
  have r: "r = Inr ?p"
    using assms(2) at by (cases "pod_feedback podFeedbackMsgSuccess q") (auto simp: peer_return_def pod_feedback_Some_iff)
  note f = set_pod_frame[OF at, of ?q] and core = pod_at_core[OF at]
  from inv have calm: "calm (bus_pool ?b)" by (simp add: peer_inv_def)
  have "peer_inv cfg ?p"
  proof (rule peer_inv_moved[OF inv])
    show "rel_option (\<lambda>q q'. q'\<lparr>pod_messageChan := []\<rparr> = q\<lparr>pod_messageChan := []\<rparr>) (cores p d) (cores ?p d)" for d
      using core by (cases "cores p d") (auto simp: f(1))
    have "addresses p \<subseteq> dom (cores p)" using inv by (simp add: peer_inv_def)
    then show "addresses ?p \<subseteq> dom (cores p)" by (simp add: addresses_def f(2))
    show "transit d ?p = transit d p" for d
      using core by (auto simp: transit_def f)
  qed (use f(4,5) calm q(2) in \<open>simp_all add: f(3)\<close>)
  with r show ?thesis by simp
qed

lemma transit_put:
  assumes "peer_inv cfg p" "a \<in> dom (cores p)"
  shows "None \<notin># transit a p" "Some m \<in># transit a p \<Longrightarrow> m \<in> snd ` set (pr_put p)"
proof -
  from assms(1) obtain xs taken where i: "dom (cores p) = set xs" "map snd (pr_put p) = taken @ bus_busChan (pr_bus p)"
    "\<forall>a \<in> set xs. transit a p = image_mset Some (mset taken)" by (rule peer_invE) blast
  then have t: "transit a p = image_mset Some (mset taken)" using assms(2) by auto
  then show "None \<notin># transit a p" by auto
  have "set taken \<subseteq> snd ` set (pr_put p)" using i(2) by (metis Un_iff set_append set_map subsetI)
  then show "Some m \<in># transit a p \<Longrightarrow> m \<in> snd ` set (pr_put p)" using t by auto
qed

lemma own_uuids_iff:
  assumes "put_distinct p" "m \<in> snd ` set (pr_put p)"
  shows "msg_UUID m \<in> own_uuids a (pr_put p) \<longleftrightarrow> (a, m) \<in> set (pr_put p)"
proof
  assume "msg_UUID m \<in> own_uuids a (pr_put p)"
  then obtain m' where m': "(a, m') \<in> set (pr_put p)" "msg_UUID m' = msg_UUID m" by (auto simp: own_uuids_def)
  obtain s where s: "(s, m) \<in> set (pr_put p)" using assms(2) by auto
  have "inj_on (\<lambda>x. msg_UUID (snd x)) (set (pr_put p))" using assms(1) by (simp add: put_distinct_def distinct_map)
  from inj_onD[OF this, of "(a, m')" "(s, m)"] m' s show "(a, m) \<in> set (pr_put p)" by simp
qed (auto simp: own_uuids_def)

lemma configured_allow:
  "configured put a q0 q \<Longrightarrow> (pod_onFunc q \<noteq> None \<and> filter_allow (pod_filter q) m)
     = (wants q0 m \<and> msg_UUID m \<notin> own_uuids a put)"
  by (auto simp: configured_def wants_def filter_allow_iff listed_or_def split: if_split_asm option.split)

lemma peer_inv_begin:
  assumes inv: "peer_inv cfg p" and w: "w \<in># pr_woken p" "peer_begin w p = Some r"
  shows "\<exists>p'. r = Inr p' \<and> peer_inv cfg p' \<and> pr_put p' = pr_put p"
proof -
  let ?b = "pr_bus p"
  obtain a mo where wa: "w = (a, mo)" by force
  obtain W where W: "pr_woken p = add_mset (a, mo) W" using w(1) wa by (metis multi_member_split)
  obtain q where at: "pod_at ?b a = Some q" using w(2) by (cases "pod_at ?b a") (auto simp: peer_begin_def wa)
  from inv at obtain q0 where q: "cfg a = Some q0" "configured (pr_put p) a q0 q" "a \<in> dom (cores p)"
    by (rule peer_pod)
  have "mo \<in># transit a p" by (simp add: transit_def W)
  then obtain m where mo: "mo = Some m" and put: "m \<in> snd ` set (pr_put p)"
    using transit_put[OF inv q(3)] by (cases mo) auto
  obtain k where k: "(pod_onFunc q \<noteq> None \<and> filter_allow (pod_filter q) m) = k" by blast
  let ?p = "p\<lparr>pr_woken := W, pr_inside := pr_inside p + (if k then {#a#} else {#}),
              pr_seen := add_mset (a, m, k) (pr_seen p)\<rparr>"
  have r: "r = Inr ?p" using w(2) at W k by (cases "pod_onFunc q = None") (auto simp: peer_begin_def wa mo pod_calls_def)
  from inv obtain xs taken where i: "bus_ok (pr_bus p) xs" "xs \<noteq> []" "dom (cores p) = set xs" "calm (bus_pool (pr_bus p))"
    "\<forall>a. rel_option (configured (pr_put p) a) (cfg a) (cores p a)" "addresses p \<subseteq> set xs"
    "map snd (pr_put p) = taken @ bus_busChan (pr_bus p)"
    "\<forall>a \<in> set xs. transit a p = image_mset Some (mset taken)"
    "put_distinct p \<longrightarrow> (\<forall>a m called. a \<in> set xs \<and> (a, m, called) \<in># pr_seen p \<longrightarrow>
       called = (wants (the (cfg a)) m \<and> (a, m) \<notin> set (pr_put p)))" by (rule peer_invE)
  have "transit d ?p = transit d p" for d by (simp add: transit_def W mo)
  moreover have "k = (wants (the (cfg a)) m \<and> (a, m) \<notin> set (pr_put p))" if "put_distinct p"
    using configured_allow[OF q(2), of m] own_uuids_iff[OF that put, of a] q(1) k by simp
  then have "called = (wants (the (cfg d)) n \<and> (d, n) \<notin> set (pr_put p))"
    if "put_distinct p" "d \<in> set xs" "(d, n, called) \<in># pr_seen ?p" for d n called
    using that i(9) by (auto simp del: not_None_eq)
  moreover have addr: "addresses ?p \<subseteq> set xs" using i(6) by (simp add: addresses_def W)
  moreover have "put_distinct ?p = put_distinct p" by (simp add: put_distinct_def)
  ultimately have "peer_inv cfg ?p"
    unfolding peer_inv_def using i(1-8) addr
    by (intro conjI exI[of _ xs] exI[of _ taken] impI allI) simp_all
  with r show ?thesis by simp
qed

lemma peer_inv_send:
  assumes inv: "peer_inv cfg p" and "peer_send a m p = Some p'"
  shows "peer_inv cfg p' \<and> pr_put p' = pr_put p @ [(a, m)]"
proof -
  let ?b = "pr_bus p"
  obtain q where at: "pod_at ?b a = Some q" using assms(2) by (cases "pod_at ?b a") (auto simp: peer_send_def)
  from inv at obtain q0 where q: "cfg a = Some q0" "configured (pr_put p) a q0 q" "a \<in> dom (cores p)"
    "set (pod_feedbackChan q) \<subseteq> {podFeedbackMsgSuccess}" by (rule peer_pod)
  let ?q = "q\<lparr>pod_filter := FilterUUID (pod_filter q) (msg_UUID m) False\<rparr>"
  let ?p = "p\<lparr>pr_bus := (set_pod a ?q ?b)\<lparr>bus_busChan := bus_busChan ?b @ [m]\<rparr>, pr_put := pr_put p @ [(a, m)]\<rparr>"
  have p': "p' = ?p"
    using assms(2) at q(2) by (auto simp: peer_send_def Pod_Send_def configured_def chan_send_def split: if_split_asm)
  note f = set_pod_frame[OF at, of ?q] and core = pod_at_core[OF at]
  from inv obtain xs taken where i: "bus_ok (pr_bus p) xs" "xs \<noteq> []" "dom (cores p) = set xs" "calm (bus_pool (pr_bus p))"
    "\<forall>a. rel_option (configured (pr_put p) a) (cfg a) (cores p a)" "addresses p \<subseteq> set xs"
    "map snd (pr_put p) = taken @ bus_busChan (pr_bus p)"
    "\<forall>a \<in> set xs. transit a p = image_mset Some (mset taken)"
    "put_distinct p \<longrightarrow> (\<forall>a m called. a \<in> set xs \<and> (a, m, called) \<in># pr_seen p \<longrightarrow>
       called = (wants (the (cfg a)) m \<and> (a, m) \<notin> set (pr_put p)))" by (rule peer_invE)
  have dom: "dom (cores ?p) = dom (cores p)" using core by (auto simp: f(1))
  have transit: "transit d ?p = transit d p" for d using core by (auto simp: transit_def f)
  have own: "own_uuids d (pr_put ?p) = (if d = a then insert (msg_UUID m) else id) (own_uuids d (pr_put p))" for d
    by (auto simp: own_uuids_def)
  have cfg: "rel_option (configured (pr_put ?p) d) (cfg d) (cores ?p d)" for d
  proof (cases "d = a")
    case True
    have "configured (pr_put ?p) a q0 (?q\<lparr>pod_feedbackChan := []\<rparr>)"
      using q(2) own[of a] by (auto simp: configured_def FilterUUID_def)
    with True q(1) show ?thesis by (simp add: f(1))
  next
    case False
    then have "configured (pr_put ?p) d = configured (pr_put p) d" using own[of d] by (simp add: configured_def fun_eq_iff)
    with False i(5) show ?thesis by (simp add: f(1))
  qed
  have seen: "called = (wants (the (cfg d)) n \<and> (d, n) \<notin> set (pr_put ?p))"
    if "put_distinct ?p" "d \<in> set xs" "(d, n, called) \<in># pr_seen p" for d n called
  proof -
    have "Some n \<in># transit d p" using that(3) by (force simp: transit_def)
    then have "n \<in> snd ` set (pr_put p)" using transit_put(2)[OF inv] that(2) i(3) by blast
    then have "msg_UUID n \<noteq> msg_UUID m" using that(1) by (force simp: put_distinct_def)
    moreover have "put_distinct p" using that(1) by (simp add: put_distinct_def)
    ultimately show ?thesis using i(9) that(2,3) by auto
  qed
  have "peer_inv cfg ?p"
    unfolding peer_inv_def dom
    using i(1-4,6-8) cfg seen f(4)[of xs] f(5) q(4) transit
    by (intro conjI exI[of _ xs] exI[of _ taken]) (auto simp: f(3) addresses_def f(2))
  with p' show ?thesis by simp
qed

lemma peer_inv_work:
  "peer_work p p' \<Longrightarrow> peer_inv cfg p \<Longrightarrow> peer_inv cfg p' \<and> pr_put p' = pr_put p"
proof (induction rule: peer_work.induct)
  case (pw_loop p p')
  then have "bus_busChan (pr_bus p) \<noteq> []" by (auto simp: peer_loop_def bus_step_def)
  from peer_inv_loop[OF pw_loop(2) this] pw_loop(1) show ?case by auto
next
  case (pw_begin w p p')
  from peer_inv_begin[OF this(3,1,2)] show ?case by auto
next
  case (pw_return a p p')
  from peer_inv_return[OF this(3,2)] show ?case by auto
qed (auto dest: peer_inv_deliver peer_inv_receive)

lemma peer_inv_step: "peer_step p p' \<Longrightarrow> peer_inv cfg p \<Longrightarrow> peer_inv cfg p'"
  by (auto elim!: peer_step.cases dest: peer_inv_work peer_inv_send)

interpretation peers: step_system peer_step "peer_inv cfg" for cfg
  by unfold_locales (rule peer_inv_step)

section \<open>Work ends\<close>

definition chan_len :: "peer \<Rightarrow> nat \<Rightarrow> nat" where
  "chan_len p a = length (pod_messageChan (the (cores p a)))"

definition peer_weight :: "peer \<Rightarrow> nat" where
  "peer_weight p =
     Suc (4 * card (dom (cores p))) * length (bus_busChan (pr_bus p))
     + 4 * length (pool_pending (bus_pool (pr_bus p))) + 3 * (\<Sum>a \<in> dom (cores p). chan_len p a)
     + 2 * size (pr_woken p) + size (pr_inside p)"

lemma sum_upd:
  fixes f :: "'a \<Rightarrow> nat"
  assumes "finite D" "a \<in> D" "\<And>b. b \<in> D \<Longrightarrow> b \<noteq> a \<Longrightarrow> g b = f b"
  shows "sum g D + f a = sum f D + g a"
proof -
  have "sum g (D - {a}) = sum f (D - {a})" using assms(3) by (intro sum.cong) auto
  then show ?thesis using sum.remove[OF assms(1,2), of g] sum.remove[OF assms(1,2), of f] by simp
qed

lemma peer_dom_finite: "peer_inv cfg p \<Longrightarrow> finite (dom (cores p))"
  by (metis List.finite_set peer_invE)

lemma weight_set_pod:
  assumes "peer_inv cfg p" "pod_at b a = Some q" "pod_core (bus_pool b) = cores p" "pr_bus p' = set_pod a q' b"
  shows "dom (cores p') = dom (cores p)"
    "(\<Sum>d \<in> dom (cores p'). chan_len p' d) + length (pod_messageChan q)
       = (\<Sum>d \<in> dom (cores p). chan_len p d) + length (pod_messageChan q')"
proof -
  note f = set_pod_frame(1)[OF assms(2), of q'] and core = pod_at_core[OF assms(2)]
  have a: "a \<in> dom (cores p)" using core assms(3) by auto
  show dom: "dom (cores p') = dom (cores p)" using a by (auto simp: assms(3,4) f)
  have "sum (chan_len p') (dom (cores p)) + chan_len p a = sum (chan_len p) (dom (cores p)) + chan_len p' a"
    by (intro sum_upd[OF peer_dom_finite[OF assms(1)] a]) (simp add: chan_len_def assms(3,4) f)
  then show "(\<Sum>d \<in> dom (cores p'). chan_len p' d) + length (pod_messageChan q)
       = (\<Sum>d \<in> dom (cores p). chan_len p d) + length (pod_messageChan q')"
    using core by (simp add: dom) (simp add: chan_len_def assms(3,4) f)
qed

lemma weight_deliver:
  assumes inv: "peer_inv cfg p" and "peer_deliver i p = Some p'"
  shows "peer_weight p' < peer_weight p"
proof -
  let ?b = "pr_bus p" let ?s = "bus_pool ?b"
  from inv assms(2) obtain a m and c :: podConnection where am: "i < length (pool_pending ?s)" "pool_pending ?s ! i = (a, m)"
    "pod_at ?b a = Some (pc_pod c)"
    "p' = p\<lparr>pr_bus := set_pod a ((pc_pod c)\<lparr>pod_messageChan := pod_messageChan (pc_pod c) @ [m]\<rparr>)
       (?b\<lparr>bus_pool := ?s\<lparr>pool_pending := take i (pool_pending ?s) @ drop (Suc i) (pool_pending ?s)\<rparr>\<rparr>)\<rparr>"
    by (rule peer_deliver_Some)
  let ?b1 = "?b\<lparr>bus_pool := ?s\<lparr>pool_pending := take i (pool_pending ?s) @ drop (Suc i) (pool_pending ?s)\<rparr>\<rparr>"
  have at: "pod_at ?b1 a = Some (pc_pod c)" "pod_core (bus_pool ?b1) = cores p"
    using am(3) by (simp_all add: pod_at_def pod_core_def fun_eq_iff)
  note w = weight_set_pod[OF inv at, of p'] and f = set_pod_frame(2,3)[OF at(1)]
  have "Suc (length (pool_pending (bus_pool (pr_bus p')))) = length (pool_pending ?s)"
    "bus_busChan (pr_bus p') = bus_busChan ?b" "pr_woken p' = pr_woken p" "pr_inside p' = pr_inside p"
    using am(1) by (simp_all add: am(4) f)
  then show ?thesis using w[OF am(4)[THEN arg_cong[of _ _ pr_bus], simplified]] by (simp add: peer_weight_def)
qed

lemma weight_receive:
  assumes inv: "peer_inv cfg p" and "peer_receive a p = Some p'"
  shows "peer_weight p' < peer_weight p"
proof -
  obtain q where at: "pod_at (pr_bus p) a = Some q" using assms(2) by (cases "pod_at (pr_bus p) a") (auto simp: peer_receive_def)
  from inv at obtain q0 where q: "configured (pr_put p) a q0 q" by (rule peer_pod)
  from q assms(2) at obtain m ms where m: "pod_messageChan q = m # ms"
    by (cases "pod_messageChan q") (auto simp: peer_receive_def pod_receive_def configured_def)
  have p': "p' = p\<lparr>pr_bus := set_pod a (q\<lparr>pod_messageChan := ms\<rparr>) (pr_bus p), pr_woken := add_mset (a, m) (pr_woken p)\<rparr>"
    using assms(2) at m by (simp add: peer_receive_def pod_receive_def)
  have e: "pr_bus p' = set_pod a (q\<lparr>pod_messageChan := ms\<rparr>) (pr_bus p)" by (simp add: p')
  note w = weight_set_pod[OF inv at refl e]
  have "pool_pending (bus_pool (pr_bus p')) = pool_pending (bus_pool (pr_bus p))" "bus_busChan (pr_bus p') = bus_busChan (pr_bus p)"
    "size (pr_woken p') = Suc (size (pr_woken p))" "pr_inside p' = pr_inside p"
    by (simp_all add: p' set_pod_frame(2,3)[OF at])
  then show ?thesis using w m by (simp add: peer_weight_def)
qed

lemma weight_return:
  assumes inv: "peer_inv cfg p" and "a \<in># pr_inside p" "peer_return a p = Some (Inr p')"
  shows "peer_weight p' < peer_weight p"
proof -
  obtain q where at: "pod_at (pr_bus p) a = Some q" using assms(3) by (cases "pod_at (pr_bus p) a") (auto simp: peer_return_def)
  obtain q' where p': "p' = p\<lparr>pr_bus := set_pod a q' (pr_bus p), pr_inside := pr_inside p - {#a#}\<rparr>"
    "pod_messageChan q' = pod_messageChan q"
    using assms(3) at by (auto simp: peer_return_def pod_feedback_Some_iff elim!: prog_bind_InrE)
  have e: "pr_bus p' = set_pod a q' (pr_bus p)" by (simp add: p'(1))
  note w = weight_set_pod[OF inv at refl e]
  have "pool_pending (bus_pool (pr_bus p')) = pool_pending (bus_pool (pr_bus p))" "bus_busChan (pr_bus p') = bus_busChan (pr_bus p)"
    "pr_woken p' = pr_woken p" "size (pr_inside p') < size (pr_inside p)"
    using assms(2) by (simp_all add: p'(1) set_pod_frame(2,3)[OF at] size_Diff1_less)
  then show ?thesis using w p'(2) by (simp add: peer_weight_def)
qed

lemma weight_begin:
  assumes inv: "peer_inv cfg p" and "w \<in># pr_woken p" "peer_begin w p = Some (Inr p')"
  shows "peer_weight p' < peer_weight p"
proof -
  obtain W where W: "pr_woken p = add_mset w W" using assms(2) by (metis multi_member_split)
  have "pr_bus p' = pr_bus p" "pr_woken p' = W" "size (pr_inside p') \<le> Suc (size (pr_inside p))"
    using assms(3) W by (auto simp: peer_begin_def split: option.split_asm elim!: prog_bind_InrE)
  then show ?thesis by (simp add: peer_weight_def chan_len_def W)
qed

lemma peer_weight_work: "peer_work p p' \<Longrightarrow> peer_inv cfg p \<Longrightarrow> peer_weight p' < peer_weight p"
proof (induction rule: peer_work.induct)
  case (pw_loop p p')
  then have ne: "bus_busChan (pr_bus p) \<noteq> []" by (auto simp: peer_loop_def bus_step_def)
  then obtain m q where "bus_busChan (pr_bus p) = m # q" by (cases "bus_busChan (pr_bus p)") auto
  with peer_inv_loop[OF pw_loop(2) ne] pw_loop(1) show ?case
    by (auto simp: peer_weight_def chan_len_def algebra_simps)
qed (auto intro: weight_deliver weight_receive weight_begin weight_return)

interpretation working: ending_system peer_work "peer_inv cfg" peer_weight for cfg
  by unfold_locales (use peer_inv_work peer_weight_work in blast)+

lemma pool_weight_busy:
  assumes inv: "peer_inv cfg p" and "\<not> at_rest p"
  shows "\<exists>p'. peer_work p p' \<and> pr_inside p \<subseteq># pr_inside p'"
proof -
  from inv have addr: "addresses p \<subseteq> dom (cores p)" by (simp add: peer_inv_def)
  have at: "\<exists>q. pod_at (pr_bus p) a = Some q" if "a \<in> dom (cores p)" for a
    using that pod_core_at by (metis domD)
  show ?thesis
  proof (cases "bus_busChan (pr_bus p) = []")
    case False
    from peer_inv_loop[OF inv this] show ?thesis by (metis peer_work.pw_loop subset_mset.order_refl)
  next
    case True
    show ?thesis
    proof (cases "\<exists>a q. pod_at (pr_bus p) a = Some q \<and> pod_messageChan q \<noteq> []")
      case True
      then obtain a q m ms where "pod_at (pr_bus p) a = Some q" "pod_messageChan q = m # ms" by (metis neq_Nil_conv)
      then have "\<exists>p'. peer_receive a p = Some p' \<and> pr_inside p' = pr_inside p" by (simp add: peer_receive_def pod_receive_def)
      then show ?thesis by (metis peer_work.pw_receive subset_mset.order_refl)
    next
      case empty: False
      show ?thesis
      proof (cases "pr_woken p = {#}")
        case False
        then obtain w where w: "w \<in># pr_woken p" by blast
        then have "fst w \<in> dom (cores p)" using addr by (auto simp: addresses_def)
        with at obtain q where q: "pod_at (pr_bus p) (fst w) = Some q" by blast
        then obtain r where r: "peer_begin w p = Some r" by (cases "pod_calls (snd w) q") (auto simp: peer_begin_def)
        from peer_inv_begin[OF inv w r] obtain p' where p': "r = Inr p'" by blast
        have "pr_inside p \<subseteq># pr_inside p'"
          using r q unfolding p' by (auto simp: peer_begin_def elim!: prog_bind_InrE)
        then show ?thesis using peer_work.pw_begin[OF w] r p' by blast
      next
        case none: True
        with True empty assms(2) obtain a m ys where pend: "pool_pending (bus_pool (pr_bus p)) = (a, m) # ys"
          by (cases "pool_pending (bus_pool (pr_bus p))") (auto simp: at_rest_def)
        then have "a \<in> dom (cores p)" using addr by (auto simp: addresses_def)
        then obtain c where c: "pool_conns (bus_pool (pr_bus p)) a = Some c" by (auto simp: pod_core_def)
        then have "pod_messageChan (pc_pod c) = []" using empty by (auto simp: pod_at_def)
        then have "\<exists>p'. peer_deliver 0 p = Some p' \<and> pr_inside p' = pr_inside p"
          using pend c by (simp add: peer_deliver_def conn_send_run_def chan_send_def defaultPodChanSize_def Let_def)
        then show ?thesis by (metis peer_work.pw_deliver subset_mset.order_refl)
      qed
    qed
  qed
qed

text \<open>A process comes to rest, and no callback has to return for it.\<close>

lemma peer_rests:
  "peer_inv cfg p \<Longrightarrow> \<exists>p'. peer_work\<^sup>*\<^sup>* p p' \<and> at_rest p' \<and> pr_inside p \<subseteq># pr_inside p'"
proof (induction "peer_weight p" arbitrary: p rule: less_induct)
  case less
  show ?case
  proof (cases "at_rest p")
    case False
    from pool_weight_busy[OF less.prems this] obtain p1 where p1: "peer_work p p1" "pr_inside p \<subseteq># pr_inside p1" by blast
    have "peer_weight p1 < peer_weight p" "peer_inv cfg p1"
      using peer_weight_work[OF p1(1) less.prems] peer_inv_work[OF p1(1) less.prems] by blast+
    from less.hyps[OF this] p1 show ?thesis
      by (meson converse_rtranclp_into_rtranclp subset_mset.order_trans)
  qed blast
qed

section \<open>What each pod's callback is called with\<close>

definition seen_at :: "nat \<Rightarrow> peer \<Rightarrow> message multiset" where
  "seen_at a p = image_mset (\<lambda>(_, m, _). m) (filter_mset (\<lambda>x. fst x = a) (pr_seen p))"

lemma calls_seen:
  assumes "\<forall>m called. (a, m, called) \<in># M \<longrightarrow> called = D m"
  shows "image_mset (\<lambda>(_, m, _). m) (filter_mset (\<lambda>(b, _, called). b = a \<and> called) M)
    = filter_mset D (image_mset (\<lambda>(_, m, _). m) (filter_mset (\<lambda>x. fst x = a) M))"
  using assms
proof (induction M)
  case (add x M)
  obtain b m k where x: "x = (b, m, k)" by (cases x)
  have "b = a \<Longrightarrow> k = D m" using add.prems x by simp
  moreover have "\<forall>m called. (a, m, called) \<in># M \<longrightarrow> called = D m" using add.prems by simp
  ultimately show ?case using add.IH x by (cases "b = a") simp_all
qed simp

definition due :: "nat \<Rightarrow> pod \<Rightarrow> (nat \<times> message) list \<Rightarrow> message multiset" where
  "due a q put = mset (map snd (filter (\<lambda>(s, m). s \<noteq> a \<and> wants q m) put))"

lemma due_filter:
  assumes "distinct (map (\<lambda>x. msg_UUID (snd x)) put)"
  shows "filter_mset (\<lambda>m. wants q m \<and> (a, m) \<notin> set put) (mset (map snd put)) = due a q put"
proof -
  have inj: "s = s'" if "(s, m) \<in> set put" "(s', m) \<in> set put" for s s' m
  proof -
    have "inj_on (\<lambda>x. msg_UUID (snd x)) (set put)" using assms by (simp add: distinct_map)
    from inj_onD[OF this _ that] show ?thesis by simp
  qed
  have "filter (\<lambda>m. wants q m \<and> (a, m) \<notin> set put) (map snd put) = map snd (filter (\<lambda>(s, m). s \<noteq> a \<and> wants q m) put)"
    unfolding filter_map using inj by (intro arg_cong[of _ _ "map snd"] filter_cong) (auto simp: comp_def)
  then show ?thesis by (simp add: due_def mset_filter[symmetric] del: mset_map)
qed

lemma peer_calls:
  assumes inv: "peer_inv cfg p" and "put_distinct p" "cfg a = Some q"
  shows "calls a p \<subseteq># due a q (pr_put p)" "at_rest p \<Longrightarrow> calls a p = due a q (pr_put p)"
proof -
  from inv obtain xs taken where i: "dom (cores p) = set xs"
    "\<forall>a. rel_option (configured (pr_put p) a) (cfg a) (cores p a)"
    "map snd (pr_put p) = taken @ bus_busChan (pr_bus p)"
    "\<forall>a \<in> set xs. transit a p = image_mset Some (mset taken)"
    "put_distinct p \<longrightarrow> (\<forall>a m called. a \<in> set xs \<and> (a, m, called) \<in># pr_seen p \<longrightarrow>
       called = (wants (the (cfg a)) m \<and> (a, m) \<notin> set (pr_put p)))" by (rule peer_invE) blast
  from i(2) assms(3) obtain q' where q': "cores p a = Some q'" by (metis option_rel_Some1)
  then have a: "a \<in> set xs" using i(1) by auto
  let ?D = "\<lambda>m. wants q m \<and> (a, m) \<notin> set (pr_put p)"
  have calls: "calls a p = filter_mset ?D (seen_at a p)"
    unfolding calls_def seen_at_def using i(5) a assms(2,3) by (intro calls_seen allI impI) fastforce
  have due: "due a q (pr_put p) = filter_mset ?D (mset (map snd (pr_put p)))"
    using due_filter[of "pr_put p" q a] assms(2) by (simp add: put_distinct_def)
  have some: "image_mset (\<lambda>x. Some (fst (snd x))) (filter_mset (\<lambda>x. fst x = a) (pr_seen p)) = image_mset Some (seen_at a p)"
    by (simp add: seen_at_def multiset.map_comp comp_def split_beta)
  have t: "transit a p = image_mset Some (mset taken)" using i(4) a by blast
  then have "image_mset Some (seen_at a p) \<subseteq># image_mset Some (mset taken)" unfolding transit_def some by (metis mset_subset_eq_add_right)
  then have "seen_at a p \<subseteq># mset taken" by (auto dest!: image_mset_subseteq_mono[where f = the] simp: multiset.map_comp comp_def)
  also have "\<dots> \<subseteq># mset (map snd (pr_put p))" by (simp add: i(3))
  finally show "calls a p \<subseteq># due a q (pr_put p)" unfolding calls due by (rule multiset_filter_mono)
  assume rest: "at_rest p"
  obtain q'' where "pod_at (pr_bus p) a = Some q''" "q' = q''\<lparr>pod_feedbackChan := []\<rparr>" using pod_core_at[OF q'] by blast
  then have "transit a p = image_mset Some (seen_at a p)" using rest q' by (auto simp: transit_def some at_rest_def)
  then have "image_mset the (image_mset Some (seen_at a p)) = image_mset the (image_mset Some (mset taken))" using t by metis
  then have "seen_at a p = mset taken" by (simp add: multiset.map_comp comp_def)
  then show "calls a p = due a q (pr_put p)" using i(3) rest unfolding calls due by (simp add: at_rest_def)
qed
section \<open>New processes\<close>

text \<open>What pods' owners do when they set themselves up: an operation on the pod at an address.\<close>

definition own_pod :: "nat \<Rightarrow> (pod \<Rightarrow> pod prog) \<Rightarrow> messageBus \<Rightarrow> messageBus prog" where
  "own_pod a f b =
     (case pod_at b a of
        None \<Rightarrow> None
      | Some q \<Rightarrow> prog_bind (f q) (\<lambda>q'. Some (Inr (set_pod a q' b))))"

definition unused_pod :: "pod \<Rightarrow> bool" where
  "unused_pod q \<longleftrightarrow> pod_messageChan q = [] \<and> pod_feedbackChan q = [] \<and> \<not> pod_chanClosed q \<and> \<not> pod_dead q
     \<and> \<not> pod_WantsReplay q \<and> mf_UUIDMap (pod_filter q) = Map.empty \<and> mf_UUIDInclusive (pod_filter q)"

definition unused_bus :: "nat \<Rightarrow> messageBus \<Rightarrow> bool" where
  "unused_bus n b \<longleftrightarrow> (\<exists>xs. bus_ok b xs \<and> set xs = {1..n}) \<and> pool_maxID (bus_pool b) = int n
     \<and> bus_busChan b = [] \<and> pool_pending (bus_pool b) = []
     \<and> (\<forall>a. case pool_conns (bus_pool b) a of
               None \<Rightarrow> a \<notin> {1..n}
             | Some c \<Rightarrow> a \<in> {1..n} \<and> pc_failed c = [] \<and> unused_pod (pc_pod c))"

lemma unused_newPod [simp]: "unused_pod (newPod False)"
  by (simp add: unused_pod_def newPod_def newMessageFilter_def)

lemma unused_bus_new: "unused_bus 0 newMessageBus"
  using new_ring_new by (simp add: unused_bus_def new_ring_def) (simp add: newMessageBus_def newConnectionPool_def)

lemma unused_bus_connect:
  assumes "unused_bus n b"
  shows "\<exists>b'. connectWithOpts False b = Inr (newPod False, b') \<and> unused_bus (Suc n) b'
    \<and> pod_at b' = (pod_at b)(Suc n \<mapsto> newPod False)"
proof -
  let ?s = "bus_pool b"
  from assms obtain xs where xs: "bus_ok b xs" "set xs = {1..n}" by (auto simp: unused_bus_def)
  have max: "pool_maxID ?s = int n" using assms by (simp add: unused_bus_def)
  have r: "pool_ring ?s xs" "pool_ids ?s" using xs(1) by (simp_all add: bus_ok_def)
  have a: "nat (pool_maxID ?s + 1) = Suc n" by (simp add: max)
  from pool_insert_ring[OF r, of "newPod False", unfolded a] obtain s' where s':
    "pool_insert (newPod False) ?s = Inr s'" "pool_ids s'" "pool_pending s' = pool_pending ?s"
    "pool_ring s' (case xs of [] \<Rightarrow> [Suc n] | x # ys \<Rightarrow> x # Suc n # ys)" by (auto simp: newPod_def)
  have conns: "map_option (\<lambda>c. c\<lparr>pc_next := None\<rparr>) (pool_conns s' d)
      = (if d = Suc n then Some (newPodConnection (int (Suc n)) (newPod False)) else map_option (\<lambda>c. c\<lparr>pc_next := None\<rparr>) (pool_conns ?s d))"
    and maxID: "pool_maxID s' = int (Suc n)" for d
    using s'(1) a max
    by (auto simp: pool_insert_def Let_def conn_insertAfter_def conn_deref_def newPodConnection_def nat_add_distrib
        elim!: go_bind_InrE split: option.split_asm)
  let ?b = "b\<lparr>bus_pool := s'\<rparr>"
  have pods: "pod_at ?b = (pod_at b)(Suc n \<mapsto> newPod False)"
  proof
    fix d show "pod_at ?b d = ((pod_at b)(Suc n \<mapsto> newPod False)) d"
      using conns[of d] by (cases "pool_conns s' d"; cases "pool_conns ?s d")
        (auto simp: pod_at_def newPodConnection_def split: if_split_asm dest: arg_cong[of _ _ pc_pod])
  qed
  have "case pool_conns s' d of None \<Rightarrow> d \<notin> {1..Suc n}
      | Some c \<Rightarrow> d \<in> {1..Suc n} \<and> pc_failed c = [] \<and> unused_pod (pc_pod c)" for d
  proof -
    have "case pool_conns ?s d of None \<Rightarrow> d \<notin> {1..n}
      | Some c \<Rightarrow> d \<in> {1..n} \<and> pc_failed c = [] \<and> unused_pod (pc_pod c)" using assms by (simp add: unused_bus_def)
    with conns[of d] show ?thesis
      by (cases "pool_conns s' d"; cases "pool_conns ?s d")
        (auto simp: newPodConnection_def split: if_split_asm dest: arg_cong[of _ _ pc_pod] arg_cong[of _ _ pc_failed])
  qed
  moreover have "set (case xs of [] \<Rightarrow> [Suc n] | x # ys \<Rightarrow> x # Suc n # ys) = {1..Suc n}"
    using xs(2) by (cases xs) (auto simp: atLeastAtMostSuc_conv)
  ultimately have "unused_bus (Suc n) ?b"
    using assms xs(1) s'(2-4) maxID unfolding unused_bus_def bus_ok_def by (auto intro!: exI)
  moreover have "connectWithOpts False b = Inr (newPod False, ?b)"
    by (simp add: connectWithOpts_def bus_addPod_def s'(1))
  ultimately show ?thesis using pods by blast
qed

lemma unused_bus_own:
  assumes "unused_bus n b" "own_pod a f b = Some (Inr b')"
    and "\<forall>q q'. unused_pod q \<and> f q = Some (Inr q') \<longrightarrow> unused_pod q'"
  shows "unused_bus n b' \<and> (\<exists>q q'. pod_at b a = Some q \<and> f q = Some (Inr q') \<and> pod_at b' = (pod_at b)(a \<mapsto> q'))"
proof -
  obtain q q' where q: "pod_at b a = Some q" "f q = Some (Inr q')" "b' = set_pod a q' b"
    using assms(2) by (auto simp: own_pod_def elim!: prog_bind_InrE split: option.split_asm)
  obtain c where c: "pool_conns (bus_pool b) a = Some c" "q = pc_pod c" using q(1) by (auto simp: pod_at_def)
  have "case pool_conns (bus_pool b) a of None \<Rightarrow> a \<notin> {1..n}
      | Some c \<Rightarrow> a \<in> {1..n} \<and> pc_failed c = [] \<and> unused_pod (pc_pod c)" using assms(1) unfolding unused_bus_def by blast
  then have u: "unused_pod q" "unused_pod q'" "a \<in> {1..n}" "pc_failed c = []" using c assms(3) q(2) by auto
  have "pod_chanClosed q' = pod_chanClosed q" using u(1,2) by (simp add: unused_pod_def)
  then have "bus_ok b' xs" if "bus_ok b xs" for xs using set_pod_frame(4)[OF q(1) _ that] q(3) by simp
  moreover have "b' = b\<lparr>bus_pool := conn_store a (c\<lparr>pc_pod := q'\<rparr>) (bus_pool b)\<rparr>" using q(3) c by (simp add: set_pod_def)
  ultimately show ?thesis using assms(1) q(1,2) c u by (auto simp: unused_bus_def pod_at_def fun_eq_iff)
qed

lemma unused_Pod_On:
  "\<forall>q q'. unused_pod q \<and> Pod_On (Some f) q = Some (Inr q') \<longrightarrow> unused_pod q'"
  "\<forall>q q'. unused_pod q \<and> Pod_OnType t (Some f) q = Some (Inr q') \<longrightarrow> unused_pod q'"
  by (auto simp: unused_pod_def Pod_On_def Pod_OnType_def pod_setOnFunc_def Let_def newMessageFilter_def FilterType_def
      elim!: prog_bind_InrE split: if_split_asm)

lemma own_On:
  assumes "unused_bus n b" "pod_at b a = Some q"
  shows "\<exists>b' q'. own_pod a (Pod_On (Some f)) b = Some (Inr b') \<and> unused_bus n b' \<and> pod_at b' = (pod_at b)(a \<mapsto> q')
      \<and> (\<forall>m. wants q' m)"
    and "\<exists>b' q'. own_pod a (Pod_OnType t (Some f)) b = Some (Inr b') \<and> unused_bus n b' \<and> pod_at b' = (pod_at b)(a \<mapsto> q')
      \<and> (\<forall>m. wants q' m = (msg_Type m = t))"
proof -
  have "unused_pod q" using assms by (force simp: unused_bus_def pod_at_def split: option.split_asm dest: spec[of _ a])
  then have r: "\<not> pod_WantsReplay q" by (simp add: unused_pod_def)
  then obtain q1 q2 where on: "Pod_On (Some f) q = Some (Inr q1)" "Pod_OnType t (Some f) q = Some (Inr q2)"
    by (cases "pod_replayDone q") (simp_all add: Pod_On_def Pod_OnType_def pod_setOnFunc_def Let_def)
  have w: "wants q1 m" "wants q2 m = (msg_Type m = t)" for m
    using on r by (auto simp: Pod_On_def Pod_OnType_def pod_setOnFunc_def Let_def wants_def newMessageFilter_def FilterType_def
        split: if_split_asm elim!: prog_bind_InrE)
  have own: "\<exists>b'. own_pod a g b = Some (Inr b') \<and> unused_bus n b' \<and> pod_at b' = (pod_at b)(a \<mapsto> q')"
    if "g q = Some (Inr q')" "\<forall>q q'. unused_pod q \<and> g q = Some (Inr q') \<longrightarrow> unused_pod q'" for g q'
    using unused_bus_own[where f = g and a = a and b' = "set_pod a q' b", OF assms(1) _ that(2)] that(1) assms(2)
    by (auto simp: own_pod_def)
  show "\<exists>b' q'. own_pod a (Pod_On (Some f)) b = Some (Inr b') \<and> unused_bus n b' \<and> pod_at b' = (pod_at b)(a \<mapsto> q')
      \<and> (\<forall>m. wants q' m)"
    using own[OF on(1) unused_Pod_On(1)] w(1) by blast
  show "\<exists>b' q'. own_pod a (Pod_OnType t (Some f)) b = Some (Inr b') \<and> unused_bus n b' \<and> pod_at b' = (pod_at b)(a \<mapsto> q')
      \<and> (\<forall>m. wants q' m = (msg_Type m = t))"
    using own[OF on(2) unused_Pod_On(2)] w(2) by blast
qed

lemma unused_peer_inv:
  assumes "unused_bus n b" "0 < n"
  shows "peer_inv (pod_at b) (peer_of b)"
proof -
  from assms(1) obtain xs where xs: "bus_ok b xs" "set xs = {1..n}" by (auto simp: unused_bus_def)
  have all: "case pool_conns (bus_pool b) d of None \<Rightarrow> d \<notin> {1..n}
      | Some c \<Rightarrow> d \<in> {1..n} \<and> pc_failed c = [] \<and> unused_pod (pc_pod c)" for d
    using assms(1) unfolding unused_bus_def by blast
  have dom: "dom (pod_core (bus_pool b)) = {1..n}"
    using all by (force simp: pod_core_def split: option.split_asm)
  have "calm (bus_pool b)" unfolding calm_def using all by (force simp: unused_pod_def split: option.split_asm)
  moreover have "rel_option (configured [] d) (pod_at b d) (pod_core (bus_pool b) d)" for d
    using all[of d] by (cases "pool_conns (bus_pool b) d")
      (auto simp: pod_at_def pod_core_def configured_def own_uuids_def unused_pod_def)
  moreover have "transit d (peer_of b) = {#}" if "d \<in> {1..n}" for d
    using all[of d] that assms(1)
    by (auto simp: transit_def peer_of_def pod_core_def unused_bus_def unused_pod_def split: option.split_asm)
  moreover have "xs \<noteq> []" using xs(2) assms(2) by auto
  moreover have "bus_busChan b = []" "pool_pending (bus_pool b) = []" using assms(1) by (simp_all add: unused_bus_def)
  ultimately show ?thesis
    unfolding peer_inv_def using xs dom
    by (intro conjI exI[of _ xs] exI[of _ "[]"]) (simp_all add: peer_of_def addresses_def)
qed

section \<open>Properties\<close>

lemma peer_no_panic:
  assumes "peer_inv cfg p"
  shows "peer_loop p \<noteq> Some (Inl e)" "w \<in># pr_woken p \<Longrightarrow> peer_begin w p \<noteq> Some (Inl e)" "peer_return a p \<noteq> Some (Inl e)"
proof -
  show "peer_loop p \<noteq> Some (Inl e)"
    using peer_inv_loop[OF assms] by (cases "bus_busChan (pr_bus p)") (auto simp: peer_loop_def bus_step_def)
  show "w \<in># pr_woken p \<Longrightarrow> peer_begin w p \<noteq> Some (Inl e)" using peer_inv_begin[OF assms] by fastforce
  show "peer_return a p \<noteq> Some (Inl e)" using peer_inv_return[OF assms] by fastforce
qed

text \<open>A pod's filter holds an entry for every message it has ever sent; nothing takes one out.\<close>

lemma filter_grows:
  assumes "0 < n" "unused_bus n b" "peer_step\<^sup>*\<^sup>* (peer_of b) p" "put_distinct p" "pod_at (pr_bus p) a = Some q"
  shows "card (dom (mf_UUIDMap (pod_filter q))) = length (filter (\<lambda>x. fst x = a) (pr_put p))"
proof -
  let ?own = "filter (\<lambda>x. fst x = a) (pr_put p)"
  have "peer_inv (pod_at b) p" using assms(1) peers.inv_reach[OF assms(3) unused_peer_inv[OF assms(2)]] by blast
  then obtain q0 where "configured (pr_put p) a q0 q" using assms(5) by (rule peer_pod)
  then have "dom (mf_UUIDMap (pod_filter q)) = own_uuids a (pr_put p)" by (auto simp: configured_def split: if_split_asm)
  also have "\<dots> = set (map (\<lambda>x. msg_UUID (snd x)) ?own)" by (force simp: own_uuids_def image_iff)
  finally have "card (dom (mf_UUIDMap (pod_filter q))) = card (set (map (\<lambda>x. msg_UUID (snd x)) ?own))" by simp
  moreover have "distinct (map (\<lambda>x. msg_UUID (snd x)) ?own)"
    using assms(4) by (simp add: put_distinct_def distinct_map_filter)
  ultimately show ?thesis by (metis distinct_card length_map)
qed

text \<open>
  C8: The pods of a process, whatever their owners send and in whatever order the bus, its sends, the
  receive loops and the goroutines run: the callback of a pod is called at most once for each message
  sent by another pod that it wants, and for nothing else, least of all for what its own pod sent. Left
  to itself the process comes to rest, even when no callback ever returns, and then every callback was
  called for every such message.
\<close>

theorem pods_called_once:
  assumes "unused_bus n b" "peer_step\<^sup>*\<^sup>* (peer_of b) p" "put_distinct p" "pod_at b a = Some q"
  shows "calls a p \<subseteq># due a q (pr_put p)
    \<and> (at_rest p \<longrightarrow> calls a p = due a q (pr_put p))
    \<and> (\<exists>p'. peer_work\<^sup>*\<^sup>* p p' \<and> at_rest p' \<and> pr_inside p \<subseteq># pr_inside p' \<and> calls a p' = due a q (pr_put p))
    \<and> (\<forall>k p'. (peer_work ^^ k) p p' \<longrightarrow> k \<le> peer_weight p)"
proof -
  have "0 < n" using assms(1,4) by (auto simp: unused_bus_def pod_at_def split: option.split_asm dest: spec[of _ a])
  then have inv: "peer_inv (pod_at b) p" using peers.inv_reach[OF assms(2) unused_peer_inv[OF assms(1)]] by blast
  obtain p' where p': "peer_work\<^sup>*\<^sup>* p p'" "at_rest p'" "pr_inside p \<subseteq># pr_inside p'"
    using peer_rests[OF inv] by blast
  have "peer_inv (pod_at b) p'" using working.inv_reach[OF p'(1) inv] .
  moreover have "pr_put p' = pr_put p"
    using p'(1) inv by (induction rule: rtranclp_induct) (auto dest: peer_inv_work working.inv_reach)
  ultimately have "calls a p' = due a q (pr_put p)"
    using peer_calls(2)[of "pod_at b" p' a q] assms(3,4) p'(2) by (simp add: put_distinct_def)
  moreover have "k \<le> peer_weight p" if "(peer_work ^^ k) p u" for k u
    using working.run_length[OF that inv] by simp
  ultimately show ?thesis using peer_calls[OF inv assms(3,4)] p' by blast
qed

lemma pods_called_once_witness:
  "\<exists>b q p p'. unused_bus 2 b \<and> pod_at b 2 = Some q \<and> peer_send 1 (NewMsg ''u'' 0 ''t'' []) (peer_of b) = Some p
    \<and> peer_work\<^sup>*\<^sup>* p p' \<and> at_rest p' \<and> calls 2 p' = {#NewMsg ''u'' 0 ''t'' []#}"
proof -
  let ?m = "NewMsg ''u'' 0 ''t'' []"
  from unused_bus_connect[OF unused_bus_new] obtain b1 where b1: "unused_bus 1 b1" "pod_at b1 1 = Some (newPod False)" by auto
  from unused_bus_connect[OF b1(1)] obtain b2 where b2: "unused_bus 2 b2" "pod_at b2 = (pod_at b1)(2 \<mapsto> newPod False)"
    by (auto simp: numeral_2_eq_2)
  from own_On(2)[OF b2(1), of 2 _ "''t''" "\<lambda>_. None"] b1(2) b2(2) obtain b q where b: "unused_bus 2 b" "pod_at b 2 = Some q"
    "pod_at b 1 = Some (newPod False)" and q: "wants q ?m" by (auto simp: message_defs)
  have "bus_busChan b = []" using b(1) by (simp add: unused_bus_def)
  then obtain p where p: "peer_send 1 ?m (peer_of b) = Some p" "pr_put p = [(1, ?m)]"
    using b(3) by (auto simp: peer_send_def peer_of_def Pod_Send_def newPod_def chan_send_def defaultBusChanSize_def)
  then have s: "peer_step\<^sup>*\<^sup>* (peer_of b) p" "put_distinct p" by (auto intro: ps_send simp: put_distinct_def)
  from pods_called_once[OF b(1) s b(2)] p(2) q show ?thesis
    using b(1,2) p(1) by (auto simp: due_def)
qed

end
