(* ===== verification/Courier.thy ===== *)
theory Courier
  imports Peer Websocket
begin

text \<open>
  Processes that are meshed: each with its bus and pods (\<open>Peer\<close>) and its hub (\<open>Hub\<close>), whose broadcast is
  the callback of the first pod, and websocket connections (\<open>Websocket\<close>) between them. A connection is
  known by the number of the end that is written; \<open>ends\<close> tells which node writes it and which reads it.
  The mesh is settled: no node joins, leaves, withdraws or fails. Everything else is open: when a loop or
  goroutine runs, how broadcasts are interleaved, and in which order Go visits a hub's connections.
\<close>

section \<open>The system\<close>

text \<open>Where a message was made: sent by a pod of a node, or tunnelled over a connection.\<close>

datatype origin = Sent (org_node: string) (org_pod: nat) | Tunnelled nat

text \<open>
  The broadcasts under way, each with the peers it has still to serve; how many frames of each connection
  have been read; and a log of the messages made.
\<close>

record net =
  nt_peer :: "string \<Rightarrow> peer"
  nt_hub :: "string \<Rightarrow> hub"
  nt_running :: "(string \<times> message \<times> string list) multiset"
  nt_read :: "nat \<Rightarrow> nat"
  nt_made :: "(origin \<times> message) list"

text \<open>The messages written to a connection.\<close>

definition wire :: "(nat \<Rightarrow> string \<times> string) \<Rightarrow> net \<Rightarrow> nat \<Rightarrow> message list" where
  "wire ends s c = map snd (filter (\<lambda>x. fst x = c) (hub_sent (nt_hub s (fst (ends c)))))"

definition net_send :: "string \<Rightarrow> nat \<Rightarrow> message \<Rightarrow> net \<Rightarrow> net option" where
  "net_send n a m s =
     map_option (\<lambda>p. s\<lparr>nt_peer := (nt_peer s)(n := p), nt_made := nt_made s @ [(Sent n a, m)]\<rparr>)
       (peer_send a m (nt_peer s n))"

text \<open>A tunnel: the message is on the connection the hub chose, if it chose one.\<close>

definition net_tunnel :: "string \<Rightarrow> string \<Rightarrow> message \<Rightarrow> net \<Rightarrow> net go" where
  "net_tunnel n cap m s =
     go_bind (sendTunneledMessage (\<lambda>_. True) cap m (nt_hub s n)) (\<lambda>(e, h).
       Inr (s\<lparr>nt_hub := (nt_hub s)(n := h),
              nt_made := nt_made s @ map (\<lambda>x. (Tunnelled (fst x), snd x)) (drop (length (hub_sent (nt_hub s n))) (hub_sent h))\<rparr>))"

definition net_call :: "string \<Rightarrow> peer \<Rightarrow> message \<Rightarrow> string list \<Rightarrow> net \<Rightarrow> net" where
  "net_call n p m order s = s\<lparr>nt_peer := (nt_peer s)(n := p), nt_running := add_mset (n, m, order) (nt_running s)\<rparr>"

text \<open>The next connection of a broadcast.\<close>

definition net_broadcast :: "string \<times> message \<times> string list \<Rightarrow> net \<Rightarrow> net" where
  "net_broadcast r s =
     (case r of
        (n, m, []) \<Rightarrow> s\<lparr>nt_running := nt_running s - {#r#}\<rparr>
      | (n, m, u # us) \<Rightarrow>
          s\<lparr>nt_running := add_mset (n, m, us) (nt_running s - {#r#}),
            nt_hub := (nt_hub s)(n := messageHandler (\<lambda>_. True) m [u] (nt_hub s n))\<rparr>)"

text \<open>
  The reader of a connection: the next frame is read and decoded, and what the handler makes of it is
  sent by the hub's pod.
\<close>

definition net_reader :: "(message \<Rightarrow> bytes option) \<Rightarrow> (bytes \<Rightarrow> message option) \<Rightarrow> (nat \<Rightarrow> string \<times> string) \<Rightarrow> nat \<Rightarrow> net \<Rightarrow> net option" where
  "net_reader enc dec' ends c s =
     (if length (wire ends s c) \<le> nt_read s c then None
      else (let written = wc_out (snd (ws_SendMsg enc None (wire ends s c ! nt_read s c) (dialled [])))
            in case fst (ws_ReadMsg dec' '''' 0 (dialled written)) of
                 WsMessage m \<Rightarrow>
                   map_option (\<lambda>p. s\<lparr>nt_peer := (nt_peer s)(snd (ends c) := p), nt_read := (nt_read s)(c := Suc (nt_read s c))\<rparr>)
                     (peer_send 1 m (nt_peer s (snd (ends c))))
               | _ \<Rightarrow> None))"

definition conns :: "string set \<Rightarrow> net \<Rightarrow> nat set" where
  "conns nodes s = {c. \<exists>n \<in> nodes. \<exists>u ch. hub_meshConnections (nt_hub s n) u = Some ch \<and> ch_Conn ch = Some c}"

inductive net_work :: "(message \<Rightarrow> bytes option) \<Rightarrow> (bytes \<Rightarrow> message option) \<Rightarrow> string set \<Rightarrow> (nat \<Rightarrow> string \<times> string) \<Rightarrow>
    net \<Rightarrow> net \<Rightarrow> bool" for enc dec' nodes ends where
  nw_peer: "n \<in> nodes \<Longrightarrow> peer_work (nt_peer s n) p \<Longrightarrow> calls 1 p = calls 1 (nt_peer s n)
     \<Longrightarrow> net_work enc dec' nodes ends s (s\<lparr>nt_peer := (nt_peer s)(n := p)\<rparr>)"
| nw_call: "n \<in> nodes \<Longrightarrow> peer_work (nt_peer s n) p \<Longrightarrow> calls 1 p = add_mset m (calls 1 (nt_peer s n))
     \<Longrightarrow> distinct order \<Longrightarrow> set order = dom (hub_meshConnections (nt_hub s n))
     \<Longrightarrow> net_work enc dec' nodes ends s (net_call n p m order s)"
| nw_broadcast: "r \<in># nt_running s \<Longrightarrow> net_work enc dec' nodes ends s (net_broadcast r s)"
| nw_read: "c \<in> conns nodes s \<Longrightarrow> net_reader enc dec' ends c s = Some s' \<Longrightarrow> net_work enc dec' nodes ends s s'"

inductive net_step :: "(message \<Rightarrow> bytes option) \<Rightarrow> (bytes \<Rightarrow> message option) \<Rightarrow> string set \<Rightarrow> (nat \<Rightarrow> string \<times> string) \<Rightarrow>
    net \<Rightarrow> net \<Rightarrow> bool" for enc dec' nodes ends where
  ns_work: "net_work enc dec' nodes ends s s' \<Longrightarrow> net_step enc dec' nodes ends s s'"
| ns_send: "n \<in> nodes \<Longrightarrow> a \<noteq> 1 \<Longrightarrow> net_send n a m s = Some s' \<Longrightarrow> net_step enc dec' nodes ends s s'"
| ns_tunnel: "n \<in> nodes \<Longrightarrow> net_tunnel n cap m s = Inr s' \<Longrightarrow> net_step enc dec' nodes ends s s'"

section \<open>The wiring\<close>

text \<open>Every connection of a hub is live and leads to another node, under the identifier it is listed by.\<close>

definition wired :: "string set \<Rightarrow> (nat \<Rightarrow> string \<times> string) \<Rightarrow> net \<Rightarrow> bool" where
  "wired nodes ends s \<longleftrightarrow> finite nodes \<and> (\<forall>n \<in> nodes. finite (dom (hub_meshConnections (nt_hub s n)))
     \<and> (\<forall>u ch. hub_meshConnections (nt_hub s n) u = Some ch \<longrightarrow>
          u \<in> nodes \<and> u \<noteq> n \<and> \<not> PeerWithdrawn (ch_Signaler ch) \<and> (\<exists>c. ch_Conn ch = Some c \<and> ends c = (n, u))))"

definition linked :: "net \<Rightarrow> string \<Rightarrow> string \<Rightarrow> bool" where
  "linked s n u \<longleftrightarrow> hub_meshConnections (nt_hub s n) u \<noteq> None"

definition same_links :: "string set \<Rightarrow> net \<Rightarrow> net \<Rightarrow> bool" where
  "same_links nodes s s' \<longleftrightarrow> (\<forall>n \<in> nodes. hub_meshConnections (nt_hub s' n) = hub_meshConnections (nt_hub s n))"

lemma same_links_wired: "same_links nodes s s' \<Longrightarrow> wired nodes ends s' = wired nodes ends s"
  by (simp add: wired_def same_links_def)

lemma same_links_conns: "same_links nodes s s' \<Longrightarrow> conns nodes s' = conns nodes s"
  by (simp add: conns_def same_links_def)

lemma wiredD:
  assumes "wired nodes ends s" "n \<in> nodes" "hub_meshConnections (nt_hub s n) u = Some ch"
  shows "u \<in> nodes" "u \<noteq> n" "\<not> PeerWithdrawn (ch_Signaler ch)" "\<exists>c. ch_Conn ch = Some c \<and> ends c = (n, u)"
  using assms unfolding wired_def by simp_all

lemma wired_conn:
  assumes "wired nodes ends s" "c \<in> conns nodes s"
  obtains n u ch where "ends c = (n, u)" "n \<in> nodes" "u \<in> nodes" "u \<noteq> n"
    "hub_meshConnections (nt_hub s n) u = Some ch" "ch_Conn ch = Some c"
proof -
  from assms(2) obtain n u ch where n: "n \<in> nodes" "hub_meshConnections (nt_hub s n) u = Some ch" "ch_Conn ch = Some c"
    by (auto simp: conns_def)
  note w = wiredD[OF assms(1) n(1,2)]
  then have "ends c = (n, u)" using n(3) by simp
  from that[OF this n(1) w(1,2) n(2,3)] show thesis .
qed

lemma wired_inj:
  assumes "wired nodes ends s" "c \<in> conns nodes s" "c' \<in> conns nodes s" "ends c = ends c'"
  shows "c = c'"
proof -
  from assms(1,2) obtain n u ch where 1: "ends c = (n, u)" "hub_meshConnections (nt_hub s n) u = Some ch" "ch_Conn ch = Some c"
    by (rule wired_conn)
  from assms(1,3) obtain n' u' ch' where 2: "ends c' = (n', u')" "hub_meshConnections (nt_hub s n') u' = Some ch'" "ch_Conn ch' = Some c'"
    by (rule wired_conn)
  have "n' = n" "u' = u" using 1(1) 2(1) assms(4) by simp_all
  with 1(2,3) 2(2,3) show ?thesis by simp
qed

lemma conns_finite:
  assumes "wired nodes ends s"
  shows "finite (conns nodes s)"
proof -
  have "inj_on ends (conns nodes s)" using wired_inj[OF assms] by (auto simp: inj_on_def)
  moreover have "ends c \<in> nodes \<times> nodes" if "c \<in> conns nodes s" for c
    using assms that by (rule wired_conn) simp
  then have "ends ` conns nodes s \<subseteq> nodes \<times> nodes" by blast
  moreover have "finite nodes" using assms by (simp add: wired_def)
  ultimately show ?thesis by (metis finite_SigmaI finite_imageD finite_subset)
qed

text \<open>One connection of a broadcast, and a tunnel, in a settled mesh.\<close>

lemma broadcast_live:
  assumes "hub_meshConnections h u = Some ch" "\<not> PeerWithdrawn (ch_Signaler ch)" "ch_Conn ch = Some c"
  shows "messageHandler (\<lambda>_. True) m [u] h = h\<lparr>hub_sent := hub_sent h @ [(c, m)]\<rparr>"
  using assms by (simp add: handler_Send_def log_sent_def)

lemma tunnel_settled:
  assumes "\<forall>u ch. hub_meshConnections h u = Some ch \<longrightarrow> \<not> PeerWithdrawn (ch_Signaler ch)"
    and "tunnel_loop (\<lambda>_. True) cap m k h = Inr (e, h')"
  shows "hub_meshConnections h' = hub_meshConnections h \<and> (hub_sent h' = hub_sent h
    \<or> (\<exists>u ch c. hub_meshConnections h u = Some ch \<and> ch_Conn ch = Some c \<and> hub_sent h' = hub_sent h @ [(c, m)]))"
  using assms
proof (induction k arbitrary: h)
  case (Suc k)
  show ?case
  proof (cases "hub_balancers h cap")
    case (Some b)
    with Suc.prems(2) obtain u b' where b': "Balancer_Next b = Inr (u, b')" by (auto elim!: go_bind_InrE)
    let ?h1 = "h\<lparr>hub_balancers := (hub_balancers h)(cap \<mapsto> b')\<rparr>"
    show ?thesis
    proof (cases "u = '''' \<or> hub_meshConnections h u = None \<or> ch_Conn (the (hub_meshConnections h u)) = None")
      case True
      then have "tunnel_loop (\<lambda>_. True) cap m k ?h1 = Inr (e, h')"
        using Suc.prems(2) Some b' by (auto simp: Let_def split: option.split_asm if_split_asm)
      from Suc.IH[OF _ this] Suc.prems(1) show ?thesis by simp
    next
      case False
      then obtain ch c where ch: "hub_meshConnections h u = Some ch" "ch_Conn ch = Some c" "u \<noteq> ''''" by auto
      then have "h' = log_sent ch m ?h1"
        using Suc.prems Some b' by (simp add: Let_def handler_Send_def)
      then show ?thesis using ch by (auto simp: log_sent_def)
    qed
  qed (use Suc.prems in simp)
qed simp

lemma net_tunnel_cases:
  assumes "wired nodes ends s" "n \<in> nodes" "net_tunnel n cap m s = Inr s'"
  obtains h where "s' = s\<lparr>nt_hub := (nt_hub s)(n := h)\<rparr>" "hub_meshConnections h = hub_meshConnections (nt_hub s n)"
      "hub_sent h = hub_sent (nt_hub s n)"
  | h u ch c where "hub_meshConnections (nt_hub s n) u = Some ch" "ch_Conn ch = Some c" "ends c = (n, u)"
      "hub_meshConnections h = hub_meshConnections (nt_hub s n)" "hub_sent h = hub_sent (nt_hub s n) @ [(c, m)]"
      "s' = s\<lparr>nt_hub := (nt_hub s)(n := h), nt_made := nt_made s @ [(Tunnelled c, m)]\<rparr>"
proof -
  from assms(3) obtain e h where t: "sendTunneledMessage (\<lambda>_. True) cap m (nt_hub s n) = Inr (e, h)"
    "s' = s\<lparr>nt_hub := (nt_hub s)(n := h),
       nt_made := nt_made s @ map (\<lambda>x. (Tunnelled (fst x), snd x)) (drop (length (hub_sent (nt_hub s n))) (hub_sent h))\<rparr>"
    by (auto simp: net_tunnel_def elim!: go_bind_InrE)
  have live: "\<forall>u ch. hub_meshConnections (nt_hub s n) u = Some ch \<longrightarrow> \<not> PeerWithdrawn (ch_Signaler ch)"
    using assms(1,2) by (auto simp: wired_def)
  have "hub_meshConnections h = hub_meshConnections (nt_hub s n) \<and> (hub_sent h = hub_sent (nt_hub s n)
    \<or> (\<exists>u ch c. hub_meshConnections (nt_hub s n) u = Some ch \<and> ch_Conn ch = Some c \<and> hub_sent h = hub_sent (nt_hub s n) @ [(c, m)]))"
    using t(1) tunnel_settled[OF live] by (auto simp: sendTunneledMessage_def split: option.split_asm)
  then consider "hub_meshConnections h = hub_meshConnections (nt_hub s n)" "hub_sent h = hub_sent (nt_hub s n)"
    | u ch c where "hub_meshConnections h = hub_meshConnections (nt_hub s n)" "hub_meshConnections (nt_hub s n) u = Some ch"
      "ch_Conn ch = Some c" "hub_sent h = hub_sent (nt_hub s n) @ [(c, m)]" by blast
  then show thesis
  proof cases
    case 1
    then show ?thesis using t(2) by (intro that(1)[of h]) simp_all
  next
    case (2 u ch c)
    then have "ends c = (n, u)" using assms(1,2) by (force simp: wired_def)
    with 2 show ?thesis using t(2) by (intro that(2)[of u ch c h]) simp_all
  qed
qed

section \<open>The account\<close>

definition made_by :: "(origin \<Rightarrow> bool) \<Rightarrow> (origin \<times> message) list \<Rightarrow> message list" where
  "made_by P made = map snd (filter (\<lambda>x. P (fst x)) made)"

abbreviation sent_at :: "string \<Rightarrow> origin \<Rightarrow> bool" where
  "sent_at n orig \<equiv> is_Sent orig \<and> org_node orig = n"

abbreviation sends :: "(nat \<Rightarrow> string \<times> string) \<Rightarrow> nat \<Rightarrow> origin \<Rightarrow> bool" where
  "sends ends c orig \<equiv> orig = Tunnelled c \<or> sent_at (fst (ends c)) orig"

definition into :: "string set \<Rightarrow> (nat \<Rightarrow> string \<times> string) \<Rightarrow> net \<Rightarrow> string \<Rightarrow> nat set" where
  "into nodes ends s n = {c \<in> conns nodes s. snd (ends c) = n}"

definition waiting :: "(nat \<Rightarrow> string \<times> string) \<Rightarrow> net \<Rightarrow> nat \<Rightarrow> message multiset" where
  "waiting ends s c = image_mset (\<lambda>(_, m, _). m)
     (filter_mset (\<lambda>(n, _, us). n = fst (ends c) \<and> snd (ends c) \<in> set us) (nt_running s))"

text \<open>What the hub's pod of a node was made to send, and what the others sent.\<close>

definition got :: "net \<Rightarrow> string \<Rightarrow> message list" where
  "got s n = map snd (filter (\<lambda>x. fst x = 1) (pr_put (nt_peer s n)))"

definition own_puts :: "net \<Rightarrow> string \<Rightarrow> (nat \<times> message) list" where
  "own_puts s n = filter (\<lambda>x. fst x \<noteq> 1) (pr_put (nt_peer s n))"

text \<open>A broadcast with these peers still to serve.\<close>

definition serves :: "string set \<Rightarrow> net \<Rightarrow> string \<Rightarrow> string list \<Rightarrow> bool" where
  "serves nodes s n us \<longleftrightarrow> n \<in> nodes \<and> distinct us \<and> set us \<subseteq> dom (hub_meshConnections (nt_hub s n))"

lemma same_links_serves: "same_links nodes s s' \<Longrightarrow> serves nodes s' = serves nodes s"
  by (auto simp: serves_def same_links_def fun_eq_iff)

definition origin_ok :: "string set \<Rightarrow> net \<Rightarrow> origin \<Rightarrow> bool" where
  "origin_ok nodes s orig \<longleftrightarrow> (case orig of Sent w b \<Rightarrow> w \<in> nodes \<and> b \<noteq> 1 | Tunnelled c \<Rightarrow> c \<in> conns nodes s)"

lemma same_links_origin: "same_links nodes s s' \<Longrightarrow> origin_ok nodes s' = origin_ok nodes s"
  by (auto simp: origin_ok_def fun_eq_iff same_links_conns split: origin.split)

definition net_account :: "string set \<Rightarrow> (nat \<Rightarrow> string \<times> string) \<Rightarrow> (string \<Rightarrow> nat \<Rightarrow> pod option) \<Rightarrow> net \<Rightarrow> bool" where
  "net_account nodes ends cfg s \<longleftrightarrow> wired nodes ends s
     \<and> (\<forall>n \<in> nodes. peer_inv (cfg n) (nt_peer s n) \<and> cfg n 1 \<noteq> None
          \<and> own_puts s n = map (\<lambda>x. (org_pod (fst x), snd x)) (filter (\<lambda>x. sent_at n (fst x)) (nt_made s))
          \<and> mset (got s n) = (\<Sum>c \<in> into nodes ends s n. mset (take (nt_read s c) (wire ends s c))))
     \<and> (\<forall>c \<in> conns nodes s. nt_read s c \<le> length (wire ends s c)
          \<and> mset (wire ends s c) + waiting ends s c
              = calls 1 (nt_peer s (fst (ends c))) + mset (made_by (\<lambda>orig. orig = Tunnelled c) (nt_made s)))
     \<and> (\<forall>(n, m, us) \<in># nt_running s. serves nodes s n us) \<and> (\<forall>x \<in> set (nt_made s). origin_ok nodes s (fst x))"

definition made_distinct :: "net \<Rightarrow> bool" where
  "made_distinct s \<longleftrightarrow> distinct (map (\<lambda>x. msg_UUID (snd x)) (nt_made s))"

definition net_inv :: "string set \<Rightarrow> (nat \<Rightarrow> string \<times> string) \<Rightarrow> (string \<Rightarrow> nat \<Rightarrow> pod option) \<Rightarrow> net \<Rightarrow> bool" where
  "net_inv nodes ends cfg s \<longleftrightarrow> net_account nodes ends cfg s
     \<and> (made_distinct s \<longrightarrow> (\<forall>n \<in> nodes. put_distinct (nt_peer s n)))"

lemma accountD:
  assumes "net_account nodes ends cfg s"
  shows "wired nodes ends s"
    "n \<in> nodes \<Longrightarrow> peer_inv (cfg n) (nt_peer s n)" "n \<in> nodes \<Longrightarrow> cfg n 1 \<noteq> None"
    "n \<in> nodes \<Longrightarrow> own_puts s n = map (\<lambda>x. (org_pod (fst x), snd x)) (filter (\<lambda>x. sent_at n (fst x)) (nt_made s))"
    "n \<in> nodes \<Longrightarrow> mset (got s n) = (\<Sum>c \<in> into nodes ends s n. mset (take (nt_read s c) (wire ends s c)))"
    "c \<in> conns nodes s \<Longrightarrow> nt_read s c \<le> length (wire ends s c)"
    "c \<in> conns nodes s \<Longrightarrow> mset (wire ends s c) + waiting ends s c
              = calls 1 (nt_peer s (fst (ends c))) + mset (made_by (\<lambda>orig. orig = Tunnelled c) (nt_made s))"
    "(n, m, us) \<in># nt_running s \<Longrightarrow> serves nodes s n us"
    "x \<in> set (nt_made s) \<Longrightarrow> origin_ok nodes s (fst x)"
  using assms unfolding net_account_def by auto

lemma sum_subset_mset:
  assumes "finite C" "\<And>c. c \<in> C \<Longrightarrow> A c \<subseteq># B c"
  shows "(\<Sum>c \<in> C. A c) \<subseteq># (\<Sum>c \<in> C. B c)"
  using assms by (induction C) (auto intro: subset_mset.add_mono)

text \<open>Messages split by the connection they go over.\<close>

lemma sum_made_by:
  assumes "finite C" "\<And>c c' orig. c \<in> C \<Longrightarrow> c' \<in> C \<Longrightarrow> P c orig \<Longrightarrow> P c' orig \<Longrightarrow> c = c'"
  shows "(\<Sum>c \<in> C. mset (made_by (P c) made)) = mset (made_by (\<lambda>orig. \<exists>c \<in> C. P c orig) made)"
proof (induction made)
  case (Cons x made)
  obtain orig m where x: "x = (orig, m)" by force
  have "(\<Sum>c \<in> C. mset (made_by (P c) (x # made)))
      = (\<Sum>c \<in> C. if P c orig then {#m#} else {#}) + (\<Sum>c \<in> C. mset (made_by (P c) made))"
    unfolding sum.distrib[symmetric] by (rule sum.cong) (auto simp: made_by_def x)
  also have "(\<Sum>c \<in> C. if P c orig then {#m#} else {#}) = (if \<exists>c \<in> C. P c orig then {#m#} else {#})"
  proof (cases "\<exists>c \<in> C. P c orig")
    case True
    then obtain d where d: "d \<in> C" "P d orig" by blast
    then have "(\<Sum>c \<in> C. if P c orig then {#m#} else {#}) = (\<Sum>c \<in> C. if c = d then {#m#} else {#})"
      using assms(2) by (intro sum.cong) auto
    also have "\<dots> = {#m#}" using d(1) assms(1) by simp
    finally show ?thesis using True by simp
  qed auto
  finally show ?case using Cons.IH by (auto simp: made_by_def x)
qed (simp add: made_by_def)

lemma made_by_subset: "mset (made_by P made) \<subseteq># mset (map snd made)"
  unfolding made_by_def mset_map by (intro image_mset_subseteq_mono) simp

lemma made_by_disjoint:
  "\<forall>orig. \<not> (P orig \<and> Q orig) \<Longrightarrow> mset (made_by P made) + mset (made_by Q made) = mset (made_by (\<lambda>orig. P orig \<or> Q orig) made)"
  by (induction made) (auto simp: made_by_def)

lemma into_sends_unique:
  assumes "wired nodes ends s" "c \<in> into nodes ends s n" "c' \<in> into nodes ends s n" "sends ends c orig" "sends ends c' orig"
  shows "c = c'"
proof (cases orig)
  case (Sent w b)
  then have "ends c = ends c'" using assms(2-5) by (auto simp: into_def prod_eq_iff)
  then show ?thesis using wired_inj[OF assms(1)] assms(2,3) by (auto simp: into_def)
qed (use assms(4,5) in auto)

lemma into_finite: "wired nodes ends s \<Longrightarrow> finite (into nodes ends s n)"
  unfolding into_def using conns_finite by auto

lemma into_writer: "wired nodes ends s \<Longrightarrow> c \<in> into nodes ends s n \<Longrightarrow> fst (ends c) \<in> nodes \<and> fst (ends c) \<noteq> n"
  unfolding into_def by (auto elim: wired_conn)

lemma due_other: "due a q put \<subseteq># mset (map snd (filter (\<lambda>x. fst x \<noteq> a) put))"
proof -
  have "filter (\<lambda>(s, m). s \<noteq> a \<and> wants q m) put = filter (\<lambda>x. wants q (snd x)) (filter (\<lambda>x. fst x \<noteq> a) put)"
    unfolding filter_filter by (intro filter_cong) auto
  then have "mset (filter (\<lambda>(s, m). s \<noteq> a \<and> wants q m) put) \<subseteq># mset (filter (\<lambda>x. fst x \<noteq> a) put)"
    by (metis mset_filter multiset_filter_subset)
  then show ?thesis unfolding due_def mset_map by (rule image_mset_subseteq_mono)
qed

lemma own_made:
  "net_account nodes ends cfg s \<Longrightarrow> n \<in> nodes \<Longrightarrow> map snd (own_puts s n) = made_by (sent_at n) (nt_made s)"
  by (simp add: accountD(4) made_by_def comp_def)

text \<open>What is on a connection was made for it.\<close>

lemma wire_made:
  assumes acc: "net_account nodes ends cfg s" and c: "c \<in> conns nodes s" and "put_distinct (nt_peer s (fst (ends c)))"
  shows "mset (wire ends s c) \<subseteq># mset (made_by (sends ends c) (nt_made s))"
proof -
  let ?w = "fst (ends c)"
  have w: "?w \<in> nodes" using accountD(1)[OF acc] c by (auto elim: wired_conn)
  then obtain q where q: "cfg ?w 1 = Some q" using accountD(3)[OF acc] by blast
  have "calls 1 (nt_peer s ?w) \<subseteq># due 1 q (pr_put (nt_peer s ?w))"
    using peer_calls(1)[OF accountD(2)[OF acc w] assms(3) q] .
  also have "\<dots> \<subseteq># mset (map snd (own_puts s ?w))" unfolding own_puts_def by (rule due_other)
  finally have "calls 1 (nt_peer s ?w) \<subseteq># mset (made_by (sent_at ?w) (nt_made s))" using own_made[OF acc w] by simp
  moreover have "mset (wire ends s c) \<subseteq># calls 1 (nt_peer s ?w) + mset (made_by (\<lambda>orig. orig = Tunnelled c) (nt_made s))"
    using accountD(7)[OF acc c] by (metis mset_subset_eq_add_left)
  moreover have "mset (made_by (sent_at ?w) (nt_made s)) + mset (made_by (\<lambda>orig. orig = Tunnelled c) (nt_made s))
      = mset (made_by (sends ends c) (nt_made s))"
    using made_by_disjoint[of "sent_at ?w" "\<lambda>orig. orig = Tunnelled c" "nt_made s"] by (auto simp: disj_commute)
  ultimately show ?thesis by (metis (no_types, lifting) subset_mset.add_right_mono subset_mset.order_trans)
qed

lemma put_made:
  assumes acc: "net_account nodes ends cfg s" and n: "n \<in> nodes"
    and "\<And>w. w \<in> nodes \<Longrightarrow> w \<noteq> n \<Longrightarrow> put_distinct (nt_peer s w)"
  shows "mset (map snd (pr_put (nt_peer s n))) \<subseteq># mset (map snd (nt_made s))"
proof -
  let ?I = "into nodes ends s n" and ?made = "nt_made s"
  note wd = accountD(1)[OF acc]
  have "mset (take (nt_read s c) (wire ends s c)) \<subseteq># mset (made_by (sends ends c) ?made)" if "c \<in> ?I" for c
  proof -
    have "mset (take (nt_read s c) (wire ends s c)) \<subseteq># mset (wire ends s c)"
      by (metis append_take_drop_id mset_append mset_subset_eq_add_left)
    also have "\<dots> \<subseteq># mset (made_by (sends ends c) ?made)"
      using wire_made[OF acc] assms(3) into_writer[OF wd that] that by (simp add: into_def)
    finally show ?thesis .
  qed
  then have "mset (got s n) \<subseteq># (\<Sum>c \<in> ?I. mset (made_by (sends ends c) ?made))"
    unfolding accountD(5)[OF acc n] by (intro sum_subset_mset into_finite[OF wd])
  also have "\<dots> = mset (made_by (\<lambda>orig. \<exists>c \<in> ?I. sends ends c orig) ?made)"
    by (intro sum_made_by into_finite[OF wd] into_sends_unique[OF wd])
  finally have "mset (map snd (own_puts s n)) + mset (got s n)
      \<subseteq># mset (made_by (sent_at n) ?made) + mset (made_by (\<lambda>orig. \<exists>c \<in> ?I. sends ends c orig) ?made)"
    using own_made[OF acc n] by simp
  also have "\<dots> = mset (made_by (\<lambda>orig. sent_at n orig \<or> (\<exists>c \<in> ?I. sends ends c orig)) ?made)"
    using into_writer[OF wd] by (intro made_by_disjoint) (metis origin.disc(2))
  also have "\<dots> \<subseteq># mset (map snd ?made)" by (rule made_by_subset)
  also have "mset (map snd (own_puts s n)) + mset (got s n) = mset (map snd (pr_put (nt_peer s n)))"
    unfolding own_puts_def got_def by (simp add: image_mset_union[symmetric] multiset_partition[symmetric] add.commute mset_filter del: image_mset_union)
  finally show ?thesis .
qed

lemma distinct_subset_mset: "mset xs \<subseteq># mset ys \<Longrightarrow> distinct ys \<Longrightarrow> distinct xs"
  by (metis distinct_append ex_mset mset_append mset_eq_imp_distinct_iff subset_mset.add_diff_inverse mset_subset_eq_exists_conv)

lemma put_made_distinct:
  assumes "net_account nodes ends cfg s" "n \<in> nodes" "made_distinct s"
    and "\<And>w. w \<in> nodes \<Longrightarrow> w \<noteq> n \<Longrightarrow> put_distinct (nt_peer s w)"
  shows "put_distinct (nt_peer s n)"
proof -
  have "image_mset msg_UUID (mset (map snd (pr_put (nt_peer s n)))) \<subseteq># image_mset msg_UUID (mset (map snd (nt_made s)))"
    using put_made[OF assms(1,2,4)] by (rule image_mset_subseteq_mono)
  then have "mset (map (\<lambda>x. msg_UUID (snd x)) (pr_put (nt_peer s n))) \<subseteq># mset (map (\<lambda>x. msg_UUID (snd x)) (nt_made s))"
    by (simp add: multiset.map_comp comp_def)
  then show ?thesis using assms(3) unfolding put_distinct_def made_distinct_def by (rule distinct_subset_mset)
qed

section \<open>Every step keeps the account\<close>

lemma net_accountI:
  assumes "net_account nodes ends cfg s" "same_links nodes s s'"
    and "\<And>n. n \<in> nodes \<Longrightarrow> peer_inv (cfg n) (nt_peer s' n)"
    and "\<And>n. n \<in> nodes \<Longrightarrow> own_puts s' n = map (\<lambda>x. (org_pod (fst x), snd x)) (filter (\<lambda>x. sent_at n (fst x)) (nt_made s'))"
    and "\<And>n. n \<in> nodes \<Longrightarrow> mset (got s' n) = (\<Sum>c \<in> into nodes ends s n. mset (take (nt_read s' c) (wire ends s' c)))"
    and "\<And>c. c \<in> conns nodes s \<Longrightarrow> nt_read s' c \<le> length (wire ends s' c)"
    and "\<And>c. c \<in> conns nodes s \<Longrightarrow> mset (wire ends s' c) + waiting ends s' c
              = calls 1 (nt_peer s' (fst (ends c))) + mset (made_by (\<lambda>orig. orig = Tunnelled c) (nt_made s'))"
    and "\<And>n m us. (n, m, us) \<in># nt_running s' \<Longrightarrow> serves nodes s n us"
    and "\<And>x. x \<in> set (nt_made s') \<Longrightarrow> origin_ok nodes s (fst x)"
  shows "net_account nodes ends cfg s'"
proof -
  have l: "conns nodes s' = conns nodes s" "wired nodes ends s'" "into nodes ends s' n = into nodes ends s n" for n
    using same_links_conns[OF assms(2)] same_links_wired[OF assms(2), of ends] accountD(1)[OF assms(1)] by (simp_all add: into_def)
  have "(n, m, us) \<in># nt_running s' \<longrightarrow> serves nodes s' n us" for n m us
    using assms(8) same_links_serves[OF assms(2)] by simp
  moreover have "origin_ok nodes s' (fst x)" if "x \<in> set (nt_made s')" for x
    using assms(9)[OF that] same_links_origin[OF assms(2)] by simp
  ultimately show ?thesis unfolding net_account_def l using assms(3-7) accountD(3)[OF assms(1)] l(2) by auto
qed

lemma account_peer:
  assumes acc: "net_account nodes ends cfg s" and n: "n \<in> nodes" and w: "peer_work (nt_peer s n) p" "calls 1 p = calls 1 (nt_peer s n)"
  shows "net_account nodes ends cfg (s\<lparr>nt_peer := (nt_peer s)(n := p)\<rparr>)"
proof -
  from peer_inv_work[OF w(1) accountD(2)[OF acc n]] have p: "peer_inv (cfg n) p" "pr_put p = pr_put (nt_peer s n)" by auto
  show ?thesis
    by (rule net_accountI[OF acc])
      (use accountD[OF acc] p w(2) in \<open>auto simp: same_links_def own_puts_def got_def wire_def waiting_def\<close>)
qed

lemma account_call:
  assumes acc: "net_account nodes ends cfg s" and n: "n \<in> nodes"
    and w: "peer_work (nt_peer s n) p" "calls 1 p = add_mset m (calls 1 (nt_peer s n))"
    and o: "distinct order" "set order = dom (hub_meshConnections (nt_hub s n))"
  shows "net_account nodes ends cfg (net_call n p m order s)"
proof -
  from peer_inv_work[OF w(1) accountD(2)[OF acc n]] have p: "peer_inv (cfg n) p" "pr_put p = pr_put (nt_peer s n)" by auto
  let ?s = "s\<lparr>nt_peer := (nt_peer s)(n := p), nt_running := add_mset (n, m, order) (nt_running s)\<rparr>"
  have wire: "wire ends ?s c = wire ends s c" for c by (simp add: wire_def)
  have waiting: "mset (wire ends s c) + waiting ends ?s c
              = calls 1 (nt_peer ?s (fst (ends c))) + mset (made_by (\<lambda>orig. orig = Tunnelled c) (nt_made ?s))"
    if "c \<in> conns nodes s" for c
  proof -
    from accountD(1)[OF acc] that have "\<exists>u. snd (ends c) = u \<and> u \<in> dom (hub_meshConnections (nt_hub s (fst (ends c))))"
      by (rule wired_conn) auto
    then have "fst (ends c) = n \<longrightarrow> snd (ends c) \<in> set order" using o(2) by auto
    then show ?thesis using accountD(7)[OF acc that] w(2) by (auto simp: waiting_def)
  qed
  have serves: "serves nodes s n order" using n o by (simp add: serves_def)
  have "net_account nodes ends cfg ?s"
  proof (rule net_accountI[OF acc])
    show "mset (wire ends ?s c) + waiting ends ?s c
        = calls 1 (nt_peer ?s (fst (ends c))) + mset (made_by (\<lambda>orig. orig = Tunnelled c) (nt_made ?s))"
      if "c \<in> conns nodes s" for c using waiting[OF that] by (simp only: wire)
    show "mset (got ?s k) = (\<Sum>c \<in> into nodes ends s k. mset (take (nt_read ?s c) (wire ends ?s c)))" if "k \<in> nodes" for k
      using accountD(5)[OF acc that] p by (simp only: wire) (auto simp: got_def)
    show "nt_read ?s c \<le> length (wire ends ?s c)" if "c \<in> conns nodes s" for c
      using accountD(6)[OF acc that] by (simp only: wire) simp
  qed (use accountD(2,4,8,9)[OF acc] p serves in \<open>auto simp: same_links_def own_puts_def\<close>)
  then show ?thesis unfolding net_call_def .
qed

lemma account_broadcast:
  assumes acc: "net_account nodes ends cfg s" and r: "r \<in># nt_running s"
  shows "net_account nodes ends cfg (net_broadcast r s)"
proof -
  obtain n m us where rn: "r = (n, m, us)" by (cases r)
  obtain R where R: "nt_running s = add_mset (n, m, us) R" using r rn by (metis multi_member_split)
  have run: "n \<in> nodes \<and> distinct us \<and> set us \<subseteq> dom (hub_meshConnections (nt_hub s n))"
    using accountD(8)[OF acc, of n m us] R by (simp add: serves_def)
  show ?thesis
  proof (cases us)
    case Nil
    then have s': "net_broadcast r s = s\<lparr>nt_running := R\<rparr>" using rn R by (simp add: net_broadcast_def)
    show ?thesis unfolding s'
    proof (rule net_accountI[OF acc])
      show "serves nodes s k ws" if "(k, x, ws) \<in># nt_running (s\<lparr>nt_running := R\<rparr>)" for k x ws
        using that accountD(8)[OF acc, of k x ws] R by simp
    qed (use accountD(1-7,9)[OF acc] R Nil in \<open>auto simp: same_links_def own_puts_def got_def wire_def waiting_def\<close>)
  next
    case (Cons u vs)
    note wd = accountD(1)[OF acc]
    have n: "n \<in> nodes" using run by simp
    from run Cons obtain ch where ch: "hub_meshConnections (nt_hub s n) u = Some ch" by auto
    from wiredD[OF wd n ch] obtain d where d: "ch_Conn ch = Some d" "ends d = (n, u)" "\<not> PeerWithdrawn (ch_Signaler ch)" by blast
    have dc: "d \<in> conns nodes s" using n ch d(1) by (auto simp: conns_def)
    let ?h = "(nt_hub s n)\<lparr>hub_sent := hub_sent (nt_hub s n) @ [(d, m)]\<rparr>"
    let ?s = "s\<lparr>nt_running := add_mset (n, m, vs) R, nt_hub := (nt_hub s)(n := ?h)\<rparr>"
    have s': "net_broadcast r s = ?s"
      using rn R Cons broadcast_live[OF ch d(3,1), of m] by (simp add: net_broadcast_def)
    have wire: "wire ends ?s c = wire ends s c @ (if c = d then [m] else [])" if "c \<in> conns nodes s" for c
      using d(2) by (auto simp: wire_def)
    have waiting: "waiting ends s c = waiting ends ?s c + (if c = d then {#m#} else {#})" if c: "c \<in> conns nodes s" for c
    proof (cases "c = d")
      case True
      then show ?thesis using run Cons d(2) R by (auto simp: waiting_def)
    next
      case False
      then have "ends c \<noteq> (n, u)" using wired_inj[OF wd c dc] d(2) by auto
      then show ?thesis using False Cons R by (cases "ends c") (auto simp: waiting_def)
    qed
    have read: "nt_read s c \<le> length (wire ends s c)" if "c \<in> conns nodes s" for c using accountD(6)[OF acc that] .
    have took: "take (nt_read s c) (wire ends ?s c) = take (nt_read s c) (wire ends s c)" if "c \<in> conns nodes s" for c
      using read[OF that] wire[OF that] by simp
    have acct: "mset (wire ends ?s c) + waiting ends ?s c
        = calls 1 (nt_peer s (fst (ends c))) + mset (made_by (\<lambda>orig. orig = Tunnelled c) (nt_made s))" if "c \<in> conns nodes s" for c
      using accountD(7)[OF acc that] unfolding waiting[OF that] wire[OF that] by (cases "c = d") simp_all
    have "net_account nodes ends cfg ?s"
    proof (rule net_accountI[OF acc])
      show "mset (got ?s k) = (\<Sum>c \<in> into nodes ends s k. mset (take (nt_read ?s c) (wire ends ?s c)))" if "k \<in> nodes" for k
        using accountD(5)[OF acc that] took by (auto simp: got_def into_def intro!: sum.cong)
      show "nt_read ?s c \<le> length (wire ends ?s c)" if "c \<in> conns nodes s" for c
        using read[OF that] wire[OF that] by simp
      show "mset (wire ends ?s c) + waiting ends ?s c
              = calls 1 (nt_peer ?s (fst (ends c))) + mset (made_by (\<lambda>orig. orig = Tunnelled c) (nt_made ?s))"
        if "c \<in> conns nodes s" for c using acct[OF that] by simp
      show "serves nodes s k ws" if "(k, x, ws) \<in># nt_running ?s" for k x ws
        using that accountD(8)[OF acc, of k x ws] R run Cons by (auto simp: serves_def)
    qed (use accountD[OF acc] in \<open>auto simp: same_links_def own_puts_def\<close>)
    then show ?thesis unfolding s' .
  qed
qed
lemma peer_send_seen: "peer_send a m p = Some p' \<Longrightarrow> pr_seen p' = pr_seen p"
  by (auto simp: peer_send_def split: option.split_asm prod.split_asm)

lemma peer_send_calls: "peer_send a m p = Some p' \<Longrightarrow> calls b p' = calls b p"
  by (simp add: calls_def peer_send_seen)

lemma net_reader_Some:
  assumes "encoding enc dec'" "net_reader enc dec' ends c s = Some s'"
  obtains p where "nt_read s c < length (wire ends s c)"
    "peer_send 1 (wire ends s c ! nt_read s c) (nt_peer s (snd (ends c))) = Some p"
    "s' = s\<lparr>nt_peer := (nt_peer s)(snd (ends c) := p), nt_read := (nt_read s)(c := Suc (nt_read s c))\<rparr>"
proof -
  let ?m = "wire ends s c ! nt_read s c"
  from assms(1) obtain j where "enc ?m = Some j" "dec' j = Some ?m" by (rule encodingE)
  then have "fst (ws_ReadMsg dec' '''' 0 (dialled (wc_out (snd (ws_SendMsg enc None ?m (dialled [])))))) = WsMessage ?m"
    by (simp add: ws_defs)
  with assms(2) show thesis by (auto simp: net_reader_def Let_def split: if_split_asm intro: that)
qed

lemma account_read:
  assumes "encoding enc dec'" and acc: "net_account nodes ends cfg s" and c: "c \<in> conns nodes s"
    and "net_reader enc dec' ends c s = Some s'"
  shows "net_account nodes ends cfg s' \<and> nt_made s' = nt_made s
    \<and> (\<forall>n. n \<noteq> snd (ends c) \<longrightarrow> nt_peer s' n = nt_peer s n) \<and> snd (ends c) \<in> nodes"
proof -
  note wd = accountD(1)[OF acc]
  let ?r = "snd (ends c)" let ?m = "wire ends s c ! nt_read s c"
  from assms(1,4) obtain p where p: "nt_read s c < length (wire ends s c)" "peer_send 1 ?m (nt_peer s ?r) = Some p"
    "s' = s\<lparr>nt_peer := (nt_peer s)(?r := p), nt_read := (nt_read s)(c := Suc (nt_read s c))\<rparr>" by (rule net_reader_Some)
  from wd c have r: "?r \<in> nodes" by (rule wired_conn) simp
  from peer_inv_send[OF accountD(2)[OF acc r] p(2)] have put: "peer_inv (cfg ?r) p"
    "pr_put p = pr_put (nt_peer s ?r) @ [(1, ?m)]" by auto
  let ?s = "s\<lparr>nt_peer := (nt_peer s)(?r := p), nt_read := (nt_read s)(c := Suc (nt_read s c))\<rparr>"
  have wire: "wire ends ?s d = wire ends s d" for d by (simp add: wire_def)
  have calls: "calls 1 (nt_peer ?s n) = calls 1 (nt_peer s n)" for n
    using peer_send_calls[OF p(2), of 1] by simp
  have took: "mset (take (nt_read ?s d) (wire ends s d)) = mset (take (nt_read s d) (wire ends s d)) + (if d = c then {#?m#} else {#})" for d
    using p(1) by (simp add: take_Suc_conv_app_nth)
  have got: "mset (got ?s n) = (\<Sum>d \<in> into nodes ends s n. mset (take (nt_read ?s d) (wire ends s d)))" if n: "n \<in> nodes" for n
  proof -
    have "mset (got ?s n) = mset (got s n) + (if n = ?r then {#?m#} else {#})"
      using put(2) by (simp add: got_def)
    also have "(if n = ?r then {#?m#} else {#}) = (\<Sum>d \<in> into nodes ends s n. if d = c then {#?m#} else {#})"
      using into_finite[OF wd, of n] c by (auto simp: into_def)
    finally show ?thesis unfolding took sum.distrib accountD(5)[OF acc n] .
  qed
  have "net_account nodes ends cfg ?s"
  proof (rule net_accountI[OF acc])
    show "mset (got ?s n) = (\<Sum>d \<in> into nodes ends s n. mset (take (nt_read ?s d) (wire ends ?s d)))" if "n \<in> nodes" for n
      using got[OF that] by (simp only: wire)
    show "nt_read ?s d \<le> length (wire ends ?s d)" if "d \<in> conns nodes s" for d
      using accountD(6)[OF acc that] p(1) by (simp only: wire) auto
    show "mset (wire ends ?s d) + waiting ends ?s d
        = calls 1 (nt_peer ?s (fst (ends d))) + mset (made_by (\<lambda>orig. orig = Tunnelled d) (nt_made ?s))"
      if "d \<in> conns nodes s" for d
      using accountD(7)[OF acc that] by (simp only: wire calls) (simp add: waiting_def)
  qed (use accountD(2,4,8,9)[OF acc] put in \<open>auto simp: same_links_def own_puts_def\<close>)
  with p(3) r show ?thesis by simp
qed

lemma account_send:
  assumes acc: "net_account nodes ends cfg s" and n: "n \<in> nodes" "a \<noteq> 1" and "net_send n a m s = Some s'"
  shows "net_account nodes ends cfg s' \<and> (\<forall>k. k \<noteq> n \<longrightarrow> nt_peer s' k = nt_peer s k)
    \<and> nt_made s' = nt_made s @ [(Sent n a, m)]"
proof -
  from assms(4) obtain p where p: "peer_send a m (nt_peer s n) = Some p"
    "s' = s\<lparr>nt_peer := (nt_peer s)(n := p), nt_made := nt_made s @ [(Sent n a, m)]\<rparr>" by (auto simp: net_send_def)
  from peer_inv_send[OF accountD(2)[OF acc n(1)] p(1)] have put: "peer_inv (cfg n) p"
    "pr_put p = pr_put (nt_peer s n) @ [(a, m)]" by auto
  let ?s = "s\<lparr>nt_peer := (nt_peer s)(n := p), nt_made := nt_made s @ [(Sent n a, m)]\<rparr>"
  have wire: "wire ends ?s d = wire ends s d" for d by (simp add: wire_def)
  have calls: "calls 1 (nt_peer ?s k) = calls 1 (nt_peer s k)" for k using peer_send_calls[OF p(1), of 1] by simp
  have got: "got ?s k = got s k" for k using put(2) n(2) by (simp add: got_def)
  have "net_account nodes ends cfg ?s"
  proof (rule net_accountI[OF acc])
    show "own_puts ?s k = map (\<lambda>x. (org_pod (fst x), snd x)) (filter (\<lambda>x. sent_at k (fst x)) (nt_made ?s))" if "k \<in> nodes" for k
      using accountD(4)[OF acc that] put(2) n(2) by (auto simp: own_puts_def)
    show "mset (got ?s k) = (\<Sum>d \<in> into nodes ends s k. mset (take (nt_read ?s d) (wire ends ?s d)))" if "k \<in> nodes" for k
      using accountD(5)[OF acc that] by (simp only: wire got) simp
    show "nt_read ?s d \<le> length (wire ends ?s d)" if "d \<in> conns nodes s" for d
      using accountD(6)[OF acc that] by (simp only: wire) simp
    show "mset (wire ends ?s d) + waiting ends ?s d
        = calls 1 (nt_peer ?s (fst (ends d))) + mset (made_by (\<lambda>orig. orig = Tunnelled d) (nt_made ?s))"
      if "d \<in> conns nodes s" for d
      using accountD(7)[OF acc that] by (simp only: wire calls) (simp add: waiting_def made_by_def)
  qed (use accountD(2,8,9)[OF acc] put n in \<open>auto simp: same_links_def origin_ok_def\<close>)
  with p(2) show ?thesis by simp
qed

lemma account_tunnel:
  assumes acc: "net_account nodes ends cfg s" and n: "n \<in> nodes" and "net_tunnel n cap m s = Inr s'"
  shows "net_account nodes ends cfg s' \<and> nt_peer s' = nt_peer s \<and> (\<exists>x. nt_made s' = nt_made s @ x)"
  using accountD(1)[OF acc] n assms(3)
proof (cases rule: net_tunnel_cases)
  case (1 h)
  have wire: "wire ends s' d = wire ends s d" for d by (simp add: 1 wire_def)
  have "net_account nodes ends cfg s'"
    by (rule net_accountI[OF acc])
      (use accountD[OF acc] in \<open>simp_all only: wire, simp_all add: 1 same_links_def own_puts_def got_def waiting_def\<close>)
  then show ?thesis by (simp add: 1)
next
  case (2 h u ch d)
  have dc: "d \<in> conns nodes s" using n 2(1,2) by (auto simp: conns_def)
  have wire: "wire ends s' c = wire ends s c @ (if c = d then [m] else [])" if "c \<in> conns nodes s" for c
    using 2(3,5) by (auto simp: wire_def 2(6))
  have "net_account nodes ends cfg s'"
  proof (rule net_accountI[OF acc])
    show "same_links nodes s s'" using 2(4) by (simp add: same_links_def 2(6))
    show "mset (got s' k) = (\<Sum>c \<in> into nodes ends s k. mset (take (nt_read s' c) (wire ends s' c)))" if "k \<in> nodes" for k
      using accountD(5)[OF acc that] accountD(6)[OF acc] wire by (auto simp: got_def into_def 2(6) intro!: sum.cong)
    show "nt_read s' c \<le> length (wire ends s' c)" if "c \<in> conns nodes s" for c
      using accountD(6)[OF acc that] wire[OF that] by (simp add: 2(6))
    show "mset (wire ends s' c) + waiting ends s' c
        = calls 1 (nt_peer s' (fst (ends c))) + mset (made_by (\<lambda>orig. orig = Tunnelled c) (nt_made s'))"
      if "c \<in> conns nodes s" for c
      using accountD(7)[OF acc that] unfolding wire[OF that] by (cases "c = d") (simp_all add: 2(6) waiting_def made_by_def)
  qed (use accountD(2,4,8,9)[OF acc] dc in \<open>auto simp: 2(6) own_puts_def origin_ok_def\<close>)
  then show ?thesis by (simp add: 2(6))
qed
lemma net_inv_work:
  assumes "encoding enc dec'" "net_work enc dec' nodes ends s s'" "net_inv nodes ends cfg s"
  shows "net_inv nodes ends cfg s' \<and> nt_made s' = nt_made s"
  using assms(2,3)
proof (induction rule: net_work.induct)
  case (nw_peer n s p)
  then have acc: "net_account nodes ends cfg s" by (simp add: net_inv_def)
  from peer_inv_work[OF nw_peer(2) accountD(2)[OF acc nw_peer(1)]] account_peer[OF acc nw_peer(1-3)] nw_peer(4)
  show ?case by (auto simp: net_inv_def put_distinct_def made_distinct_def)
next
  case (nw_call n s p m order)
  then have acc: "net_account nodes ends cfg s" by (simp add: net_inv_def)
  from peer_inv_work[OF nw_call(2) accountD(2)[OF acc nw_call(1)]] account_call[OF acc nw_call(1-5)] nw_call(6)
  show ?case by (auto simp: net_inv_def put_distinct_def made_distinct_def net_call_def)
next
  case (nw_broadcast r s)
  then have acc: "net_account nodes ends cfg s" by (simp add: net_inv_def)
  have "nt_peer (net_broadcast r s) = nt_peer s" "nt_made (net_broadcast r s) = nt_made s"
    by (simp_all add: net_broadcast_def split: prod.split list.split)
  with account_broadcast[OF acc nw_broadcast(1)] nw_broadcast(2) show ?case
    by (simp add: net_inv_def made_distinct_def)
next
  case (nw_read c s s')
  then have acc: "net_account nodes ends cfg s" by (simp add: net_inv_def)
  note r = account_read[OF assms(1) acc nw_read(1,2)]
  have others: "put_distinct (nt_peer s' n)" if "n \<in> nodes" "n \<noteq> snd (ends c)" "made_distinct s'" for n
    using r nw_read(3) that by (simp add: net_inv_def made_distinct_def)
  then have "put_distinct (nt_peer s' n)" if "n \<in> nodes" "made_distinct s'" for n
    using put_made_distinct[OF conjunct1[OF r] that] that by (cases "n = snd (ends c)") blast+
  with r show ?case by (simp add: net_inv_def)
qed

lemma net_inv_step:
  assumes "encoding enc dec'" "net_step enc dec' nodes ends s s'" "net_inv nodes ends cfg s"
  shows "net_inv nodes ends cfg s'"
  using assms(2,3)
proof (induction rule: net_step.induct)
  case (ns_work s s')
  then show ?case using net_inv_work[OF assms(1)] by blast
next
  case (ns_send n a m s s')
  then have acc: "net_account nodes ends cfg s" by (simp add: net_inv_def)
  note r = account_send[OF acc ns_send(1-3)]
  have old: "made_distinct s' \<Longrightarrow> made_distinct s" using r by (simp add: made_distinct_def)
  have others: "put_distinct (nt_peer s' k)" if "k \<in> nodes" "k \<noteq> n" "made_distinct s'" for k
    using r ns_send(4) old that by (simp add: net_inv_def)
  then have "put_distinct (nt_peer s' k)" if "k \<in> nodes" "made_distinct s'" for k
    using put_made_distinct[OF conjunct1[OF r] that] that by (cases "k = n") blast+
  with r show ?case by (simp add: net_inv_def)
next
  case (ns_tunnel n cap m s s')
  then have acc: "net_account nodes ends cfg s" by (simp add: net_inv_def)
  from account_tunnel[OF acc ns_tunnel(1,2)] ns_tunnel(3) show ?case by (auto simp: net_inv_def made_distinct_def)
qed

section \<open>What arrives\<close>

text \<open>
  A message sent by a pod is for the other pods of its node, and, except their hubs', for the pods of the
  nodes its node has a connection to; a tunnelled message is for the pods of the node at the other end.
\<close>

definition reaches :: "(nat \<Rightarrow> string \<times> string) \<Rightarrow> net \<Rightarrow> origin \<Rightarrow> string \<Rightarrow> nat \<Rightarrow> bool" where
  "reaches ends s orig n a =
     (case orig of
        Sent w b \<Rightarrow> if w = n then b \<noteq> a else linked s w n \<and> a \<noteq> 1
      | Tunnelled c \<Rightarrow> snd (ends c) = n \<and> a \<noteq> 1)"

definition net_rest :: "string set \<Rightarrow> (nat \<Rightarrow> string \<times> string) \<Rightarrow> net \<Rightarrow> bool" where
  "net_rest nodes ends s \<longleftrightarrow> (\<forall>n \<in> nodes. at_rest (nt_peer s n)) \<and> nt_running s = {#}
     \<and> (\<forall>c \<in> conns nodes s. nt_read s c = length (wire ends s c))"

definition arrivals :: "(nat \<Rightarrow> string \<times> string) \<Rightarrow> net \<Rightarrow> string \<Rightarrow> nat \<Rightarrow> pod \<Rightarrow> message multiset" where
  "arrivals ends s n a q = mset (map snd (filter (\<lambda>(orig, m). reaches ends s orig n a \<and> wants q m) (nt_made s)))"

lemma due_split:
  assumes "a \<noteq> 1"
  shows "due a q put = mset (map snd (filter (\<lambda>x. fst x \<noteq> a \<and> wants q (snd x)) (filter (\<lambda>x. fst x \<noteq> 1) put)))
    + mset (filter (wants q) (map snd (filter (\<lambda>x. fst x = 1) put)))"
  using assms by (induction put) (auto simp: due_def simp del: mset_filter)

lemma rest_calls_hub:
  assumes inv: "net_inv nodes ends cfg s" and "made_distinct s" "net_rest nodes ends s" "n \<in> nodes"
    and "cfg n 1 = Some q" "\<forall>m. wants q m"
  shows "calls 1 (nt_peer s n) = mset (made_by (sent_at n) (nt_made s))"
proof -
  from inv have acc: "net_account nodes ends cfg s" by (simp add: net_inv_def)
  have "calls 1 (nt_peer s n) = due 1 q (pr_put (nt_peer s n))"
    using peer_calls(2)[OF accountD(2)[OF acc assms(4)] _ assms(5)] inv assms(2-4) by (auto simp: net_inv_def net_rest_def)
  also have "\<dots> = mset (map snd (own_puts s n))" using assms(6) by (simp add: due_def own_puts_def split_beta)
  finally show ?thesis using own_made[OF acc assms(4)] by simp
qed

lemma rest_got:
  assumes inv: "net_inv nodes ends cfg s" and md: "made_distinct s" and rest: "net_rest nodes ends s" and n: "n \<in> nodes"
    and hubs: "\<forall>n \<in> nodes. \<exists>q. cfg n 1 = Some q \<and> (\<forall>m. wants q m)"
  shows "mset (got s n) = mset (made_by (\<lambda>orig. \<exists>c \<in> into nodes ends s n. sends ends c orig) (nt_made s))"
proof -
  from inv have acc: "net_account nodes ends cfg s" by (simp add: net_inv_def)
  note wd = accountD(1)[OF acc]
  have "mset (take (nt_read s c) (wire ends s c)) = mset (made_by (sends ends c) (nt_made s))" if c: "c \<in> into nodes ends s n" for c
  proof -
    let ?w = "fst (ends c)"
    have cc: "c \<in> conns nodes s" and w: "?w \<in> nodes" using c into_writer[OF wd c] by (auto simp: into_def)
    obtain q where q: "cfg ?w 1 = Some q" "\<forall>m. wants q m" using hubs w by blast
    have "mset (wire ends s c) = mset (made_by (sent_at ?w) (nt_made s)) + mset (made_by (\<lambda>orig. orig = Tunnelled c) (nt_made s))"
      using accountD(7)[OF acc cc] rest_calls_hub[OF inv md rest w q] rest by (simp add: waiting_def net_rest_def)
    also have "\<dots> = mset (made_by (sends ends c) (nt_made s))"
      using made_by_disjoint[of "sent_at ?w" "\<lambda>orig. orig = Tunnelled c" "nt_made s"] by (auto simp: disj_commute)
    finally show ?thesis using rest cc by (simp add: net_rest_def)
  qed
  then have "mset (got s n) = (\<Sum>c \<in> into nodes ends s n. mset (made_by (sends ends c) (nt_made s)))"
    using accountD(5)[OF acc n] by (simp cong: sum.cong)
  also have "\<dots> = mset (made_by (\<lambda>orig. \<exists>c \<in> into nodes ends s n. sends ends c orig) (nt_made s))"
    by (intro sum_made_by into_finite[OF wd] into_sends_unique[OF wd])
  finally show ?thesis .
qed
lemma into_sends:
  assumes acc: "net_account nodes ends cfg s" and n: "n \<in> nodes" and x: "(orig, m) \<in> set (nt_made s)"
  shows "(\<exists>c \<in> into nodes ends s n. sends ends c orig) = (\<not> sent_at n orig \<and> (case orig of
     Sent w b \<Rightarrow> linked s w n | Tunnelled c \<Rightarrow> snd (ends c) = n))"
proof (cases orig)
  case (Sent w b)
  then have w: "w \<in> nodes" using accountD(9)[OF acc x] by (simp add: origin_ok_def)
  note wd = accountD(1)[OF acc]
  have "(\<exists>c \<in> into nodes ends s n. fst (ends c) = w) = (w \<noteq> n \<and> linked s w n)"
  proof
    assume "\<exists>c \<in> into nodes ends s n. fst (ends c) = w"
    then obtain c where c: "c \<in> conns nodes s" "snd (ends c) = n" "fst (ends c) = w" by (auto simp: into_def)
    from wd c(1) show "w \<noteq> n \<and> linked s w n" by (rule wired_conn) (use c(2,3) in \<open>auto simp: linked_def\<close>)
  next
    assume "w \<noteq> n \<and> linked s w n"
    then obtain ch where ch: "hub_meshConnections (nt_hub s w) n = Some ch" by (auto simp: linked_def)
    from wiredD(4)[OF wd w ch] obtain c where c: "ch_Conn ch = Some c" "ends c = (w, n)" by blast
    then have "c \<in> into nodes ends s n" using w ch by (auto simp: into_def conns_def)
    with c(2) show "\<exists>c \<in> into nodes ends s n. fst (ends c) = w" by force
  qed
  then show ?thesis using Sent by auto
next
  case (Tunnelled c)
  then show ?thesis using accountD(9)[OF acc x] by (auto simp: origin_ok_def into_def)
qed

lemma filter_two:
  assumes "\<forall>x \<in> set xs. C x = (A x \<or> B x)" "\<forall>x \<in> set xs. \<not> (A x \<and> B x)"
  shows "mset (map snd (filter A xs)) + mset (map snd (filter B xs)) = mset (map snd (filter C xs))"
  using assms by (induction xs) auto

text \<open>At rest, each callback was called for exactly what reaches its pod.\<close>

lemma rest_arrivals:
  assumes inv: "net_inv nodes ends cfg s" and md: "made_distinct s" and rest: "net_rest nodes ends s" and n: "n \<in> nodes"
    and hubs: "\<forall>n \<in> nodes. \<exists>q. cfg n 1 = Some q \<and> (\<forall>m. wants q m)" and q: "cfg n a = Some q"
  shows "calls a (nt_peer s n) = arrivals ends s n a q"
proof -
  from inv have acc: "net_account nodes ends cfg s" by (simp add: net_inv_def)
  have pod: "org_pod orig \<noteq> 1" if "(orig, m) \<in> set (nt_made s)" "is_Sent orig" for orig m
    using accountD(9)[OF acc that(1)] that(2) by (cases orig) (auto simp: origin_ok_def)
  show ?thesis
  proof (cases "a = 1")
    case True
    with hubs n q have w: "\<forall>m. wants q m" by fastforce
    have "calls a (nt_peer s n) = mset (made_by (sent_at n) (nt_made s))"
      using rest_calls_hub[OF inv md rest n _ w] q True by simp
    also have "made_by (sent_at n) (nt_made s) = map snd (filter (\<lambda>(orig, m). reaches ends s orig n a \<and> wants q m) (nt_made s))"
      unfolding made_by_def
    proof (intro arg_cong[of _ _ "map snd"] filter_cong refl)
      fix x assume x: "x \<in> set (nt_made s)"
      obtain orig m where xo: "x = (orig, m)" by force
      with pod[of orig m] x w True show "sent_at n (fst x) = (case x of (orig, m) \<Rightarrow> reaches ends s orig n a \<and> wants q m)"
        by (cases orig) (auto simp: reaches_def)
    qed
    finally show ?thesis by (simp add: arrivals_def)
  next
    case False
    let ?Q = "\<lambda>orig. \<exists>c \<in> into nodes ends s n. sends ends c orig"
    let ?put = "pr_put (nt_peer s n)" let ?made = "nt_made s"
    have "calls a (nt_peer s n) = due a q ?put"
      using peer_calls(2)[OF accountD(2)[OF acc n] _ q] inv md rest n by (auto simp: net_inv_def net_rest_def)
    also have "\<dots> = mset (map snd (filter (\<lambda>x. fst x \<noteq> a \<and> wants q (snd x)) (own_puts s n))) + mset (filter (wants q) (got s n))"
      unfolding due_split[OF False] own_puts_def got_def ..
    also have "map snd (filter (\<lambda>x. fst x \<noteq> a \<and> wants q (snd x)) (own_puts s n))
        = map snd (filter (\<lambda>x. sent_at n (fst x) \<and> org_pod (fst x) \<noteq> a \<and> wants q (snd x)) ?made)"
      unfolding accountD(4)[OF acc n] by (simp add: filter_map comp_def conj_ac)
    also have "mset (filter (wants q) (got s n)) = mset (filter (wants q) (made_by ?Q ?made))"
      unfolding mset_filter rest_got[OF inv md rest n hubs] ..
    also have "filter (wants q) (made_by ?Q ?made) = map snd (filter (\<lambda>x. ?Q (fst x) \<and> wants q (snd x)) ?made)"
      unfolding made_by_def by (simp add: filter_map comp_def conj_commute)
    also have "\<dots> = map snd (filter (\<lambda>x. reaches ends s (fst x) n a \<and> \<not> sent_at n (fst x) \<and> wants q (snd x)) ?made)"
    proof (intro arg_cong[of _ _ "map snd"] filter_cong refl)
      fix x assume x: "x \<in> set ?made"
      obtain orig m where "x = (orig, m)" by force
      with into_sends[OF acc n, of orig m] x False
      show "(?Q (fst x) \<and> wants q (snd x)) = (reaches ends s (fst x) n a \<and> \<not> sent_at n (fst x) \<and> wants q (snd x))"
        by (cases orig) (auto simp: reaches_def)
    qed
    also have "mset (map snd (filter (\<lambda>x. sent_at n (fst x) \<and> org_pod (fst x) \<noteq> a \<and> wants q (snd x)) ?made)) + mset \<dots>
        = arrivals ends s n a q"
      unfolding arrivals_def
    proof (intro filter_two ballI)
      fix x assume x: "x \<in> set ?made"
      obtain orig m where "x = (orig, m)" by force
      then show "(case x of (orig, m) \<Rightarrow> reaches ends s orig n a \<and> wants q m)
          = (sent_at n (fst x) \<and> org_pod (fst x) \<noteq> a \<and> wants q (snd x)
             \<or> reaches ends s (fst x) n a \<and> \<not> sent_at n (fst x) \<and> wants q (snd x))"
        by (cases orig) (auto simp: reaches_def)
    qed auto
    finally show ?thesis .
  qed
qed
lemma broadcast_links:
  assumes "net_account nodes ends cfg s" "r \<in># nt_running s"
  shows "same_links nodes s (net_broadcast r s)"
proof -
  obtain n m us where r: "r = (n, m, us)" by (cases r)
  show ?thesis
  proof (cases us)
    case (Cons u vs)
    from accountD(8)[OF assms(1), of n m us] assms(2) r have "serves nodes s n us" by simp
    with Cons obtain ch where ch: "n \<in> nodes" "hub_meshConnections (nt_hub s n) u = Some ch" by (auto simp: serves_def)
    from wiredD(3,4)[OF accountD(1)[OF assms(1)] ch] obtain c where "\<not> PeerWithdrawn (ch_Signaler ch)" "ch_Conn ch = Some c" by blast
    from broadcast_live[OF ch(2) this] show ?thesis by (simp add: r Cons net_broadcast_def same_links_def)
  qed (simp add: r net_broadcast_def same_links_def)
qed

lemma work_links:
  assumes "encoding enc dec'" "net_work enc dec' nodes ends s s'" "net_inv nodes ends cfg s"
  shows "same_links nodes s s'"
  using assms(2,3)
proof (induction rule: net_work.induct)
  case (nw_broadcast r s)
  then show ?case using broadcast_links[of nodes ends cfg s r] by (simp add: net_inv_def)
next
  case (nw_read c s s')
  from assms(1) nw_read(2) show ?case by (rule net_reader_Some) (simp add: same_links_def)
qed (simp_all add: same_links_def net_call_def)

lemma step_links:
  assumes "encoding enc dec'" "net_step enc dec' nodes ends s s'" "net_inv nodes ends cfg s"
  shows "same_links nodes s s'"
  using assms(2,3)
proof (induction rule: net_step.induct)
  case (ns_work s s')
  then show ?case using work_links[OF assms(1)] by blast
next
  case (ns_send n a m s s')
  then show ?case by (auto simp: net_send_def same_links_def)
next
  case (ns_tunnel n cap m s s')
  then have "wired nodes ends s" by (simp add: net_inv_def net_account_def)
  from this ns_tunnel(1,2) show ?case by (cases rule: net_tunnel_cases) (auto simp: same_links_def)
qed

interpretation nets: step_system "net_step enc dec' nodes ends"
  "\<lambda>s. encoding enc dec' \<and> net_inv nodes ends cfg s \<and> same_links nodes s0 s" for enc dec' nodes ends cfg s0
proof unfold_locales
  fix s s' assume s: "net_step enc dec' nodes ends s s'" "encoding enc dec' \<and> net_inv nodes ends cfg s \<and> same_links nodes s0 s"
  with net_inv_step[of enc dec' nodes ends s s'] step_links[of enc dec' nodes ends s s']
  show "encoding enc dec' \<and> net_inv nodes ends cfg s' \<and> same_links nodes s0 s'" by (auto simp: same_links_def)
qed

section \<open>The mesh comes to rest\<close>

definition node_cost :: "(string \<Rightarrow> nat \<Rightarrow> pod option) \<Rightarrow> string set \<Rightarrow> nat" where
  "node_cost cfg nodes = (\<Sum>n \<in> nodes. Suc (4 * card (dom (cfg n))))"

definition call_cost :: "string set \<Rightarrow> (string \<Rightarrow> nat \<Rightarrow> pod option) \<Rightarrow> net \<Rightarrow> nat" where
  "call_cost nodes cfg s = 2 + (\<Sum>n \<in> nodes. card (dom (hub_meshConnections (nt_hub s n)))) * (2 + node_cost cfg nodes)"

definition unread :: "(nat \<Rightarrow> string \<times> string) \<Rightarrow> net \<Rightarrow> nat \<Rightarrow> nat" where
  "unread ends s c = length (wire ends s c) - nt_read s c"

definition node_weight :: "string set \<Rightarrow> (string \<Rightarrow> nat \<Rightarrow> pod option) \<Rightarrow> net \<Rightarrow> string \<Rightarrow> nat" where
  "node_weight nodes cfg s n =
     peer_weight (nt_peer s n) + call_cost nodes cfg s * (length (own_puts s n) - size (calls 1 (nt_peer s n)))"

definition net_weight :: "string set \<Rightarrow> (nat \<Rightarrow> string \<times> string) \<Rightarrow> (string \<Rightarrow> nat \<Rightarrow> pod option) \<Rightarrow> net \<Rightarrow> nat" where
  "net_weight nodes ends cfg s =
     (\<Sum>n \<in> nodes. node_weight nodes cfg s n)
     + \<Sum>\<^sub># (image_mset (\<lambda>(_, _, us). Suc (length us * (2 + node_cost cfg nodes))) (nt_running s))
     + (\<Sum>c \<in> conns nodes s. unread ends s c) * Suc (node_cost cfg nodes)"

lemma peer_dom_cfg: "peer_inv cfg p \<Longrightarrow> dom (cores p) = dom cfg"
proof -
  assume "peer_inv cfg p"
  then have r: "rel_option (configured (pr_put p) a) (cfg a) (cores p a)" for a by (simp add: peer_inv_def)
  have "cores p a = None \<longleftrightarrow> cfg a = None" for a using r[of a] by (cases "cores p a"; cases "cfg a") auto
  then show ?thesis by (simp add: dom_def)
qed

lemma send_weight:
  assumes inv: "peer_inv cfg p" and "peer_send a m p = Some p'"
  shows "peer_weight p' = peer_weight p + Suc (4 * card (dom cfg))"
proof -
  obtain q where at: "pod_at (pr_bus p) a = Some q" using assms(2) by (cases "pod_at (pr_bus p) a") (auto simp: peer_send_def)
  from inv at obtain q0 where q: "configured (pr_put p) a q0 q" by (rule peer_pod)
  let ?q = "q\<lparr>pod_filter := FilterUUID (pod_filter q) (msg_UUID m) False\<rparr>"
  have p': "p' = p\<lparr>pr_bus := (set_pod a ?q (pr_bus p))\<lparr>bus_busChan := bus_busChan (pr_bus p) @ [m]\<rparr>, pr_put := pr_put p @ [(a, m)]\<rparr>"
    using assms(2) at q by (auto simp: peer_send_def Pod_Send_def configured_def chan_send_def split: if_split_asm)
  let ?p = "p\<lparr>pr_bus := set_pod a ?q (pr_bus p)\<rparr>"
  have "pr_bus ?p = set_pod a ?q (pr_bus p)" by simp
  note w = weight_set_pod[OF inv at refl this]
  have "chan_len p' = chan_len ?p" "dom (cores p') = dom (cores ?p)" by (simp_all add: p' chan_len_def fun_eq_iff)
  then have "dom (cores p') = dom (cores p)" "sum (chan_len p') (dom (cores p')) = sum (chan_len p) (dom (cores p))"
    using w by simp_all
  then show ?thesis unfolding peer_weight_def peer_dom_cfg[OF inv] by (simp add: p' set_pod_frame(2)[OF at])
qed

lemma calls_bound:
  assumes inv: "net_inv nodes ends cfg s" and md: "made_distinct s" and n: "n \<in> nodes"
  shows "size (calls 1 (nt_peer s n)) \<le> length (own_puts s n)"
proof -
  from inv have acc: "net_account nodes ends cfg s" by (simp add: net_inv_def)
  then obtain q where q: "cfg n 1 = Some q" using accountD(3) n by blast
  have "calls 1 (nt_peer s n) \<subseteq># due 1 q (pr_put (nt_peer s n))"
    using peer_calls(1)[OF accountD(2)[OF acc n] _ q] inv md n by (simp add: net_inv_def)
  also have "\<dots> \<subseteq># mset (map snd (own_puts s n))" unfolding own_puts_def by (rule due_other)
  finally show ?thesis by (metis length_map size_mset size_mset_mono)
qed
lemma net_weight_parts:
  assumes "net_account nodes ends cfg s" "same_links nodes s s'"
  shows "node_cost cfg nodes = node_cost cfg nodes" "call_cost nodes cfg s' = call_cost nodes cfg s"
    "conns nodes s' = conns nodes s" "finite nodes" "finite (conns nodes s)"
  using assms(2) accountD(1)[OF assms(1)] conns_finite
  by (auto simp: call_cost_def same_links_def wired_def same_links_conns[OF assms(2)] intro!: sum.cong)

lemma weight_peer_step:
  assumes inv: "net_inv nodes ends cfg s" and n: "n \<in> nodes" and w: "peer_work (nt_peer s n) p" "calls 1 p = calls 1 (nt_peer s n)"
  shows "net_weight nodes ends cfg (s\<lparr>nt_peer := (nt_peer s)(n := p)\<rparr>) < net_weight nodes ends cfg s"
proof -
  from inv have acc: "net_account nodes ends cfg s" by (simp add: net_inv_def)
  let ?s = "s\<lparr>nt_peer := (nt_peer s)(n := p)\<rparr>"
  have l: "same_links nodes s ?s" by (simp add: same_links_def)
  note k = net_weight_parts[OF acc l]
  have "own_puts ?s n = own_puts s n" using peer_inv_work[OF w(1) accountD(2)[OF acc n]] by (simp add: own_puts_def)
  then have "node_weight nodes cfg ?s n < node_weight nodes cfg s n"
    using peer_weight_work[OF w(1) accountD(2)[OF acc n]] w(2) by (simp add: node_weight_def k(2))
  moreover have "sum (node_weight nodes cfg ?s) nodes + node_weight nodes cfg s n = sum (node_weight nodes cfg s) nodes + node_weight nodes cfg ?s n"
    by (intro sum_upd k n) (simp add: node_weight_def k(2) own_puts_def)
  moreover have "unread ends ?s c = unread ends s c" for c by (simp add: unread_def wire_def)
  ultimately show ?thesis unfolding net_weight_def k(3) by simp
qed

lemma weight_call_step:
  assumes inv: "net_inv nodes ends cfg s" "net_inv nodes ends cfg (net_call n p m order s)" and md: "made_distinct s"
    and n: "n \<in> nodes" and w: "peer_work (nt_peer s n) p" "calls 1 p = add_mset m (calls 1 (nt_peer s n))"
    and o: "distinct order" "set order = dom (hub_meshConnections (nt_hub s n))"
  shows "net_weight nodes ends cfg (net_call n p m order s) < net_weight nodes ends cfg s"
proof -
  from inv have acc: "net_account nodes ends cfg s" by (simp add: net_inv_def)
  let ?s = "net_call n p m order s"
  have l: "same_links nodes s ?s" by (simp add: same_links_def net_call_def)
  note k = net_weight_parts[OF acc l]
  let ?B = "call_cost nodes cfg s" let ?own = "length (own_puts s n)" let ?called = "size (calls 1 (nt_peer s n))"
  have own: "own_puts ?s n = own_puts s n" using peer_inv_work[OF w(1) accountD(2)[OF acc n]] by (simp add: own_puts_def net_call_def)
  have "made_distinct ?s" using md by (simp add: made_distinct_def net_call_def)
  from calls_bound[OF inv(2) this n] own w(2) have "Suc ?called \<le> ?own" by (simp add: net_call_def)
  then have "?B + ?B * (?own - Suc ?called) = ?B * (?own - ?called)"
    by (metis Suc_diff_le diff_Suc_Suc mult_Suc_right)
  then have node: "node_weight nodes cfg ?s n + ?B < node_weight nodes cfg s n"
    using peer_weight_work[OF w(1) accountD(2)[OF acc n]] w(2) own
    by (simp add: node_weight_def k(2)) (simp add: net_call_def)
  have sum: "sum (node_weight nodes cfg ?s) nodes + node_weight nodes cfg s n = sum (node_weight nodes cfg s) nodes + node_weight nodes cfg ?s n"
    by (intro sum_upd k n) (simp add: node_weight_def k(2), simp add: own_puts_def net_call_def)
  have "length order = card (dom (hub_meshConnections (nt_hub s n)))" using o distinct_card by metis
  also have "\<dots> \<le> (\<Sum>n \<in> nodes. card (dom (hub_meshConnections (nt_hub s n))))" using k(4) n by (rule member_le_sum[rotated 2]) simp_all
  finally have "Suc (length order * (2 + node_cost cfg nodes)) < ?B"
    unfolding call_cost_def using mult_le_mono1[of "length order" _ "2 + node_cost cfg nodes"] by fastforce
  moreover have "unread ends ?s c = unread ends s c" for c by (simp add: unread_def wire_def net_call_def)
  moreover have "nt_running ?s = add_mset (n, m, order) (nt_running s)" by (simp add: net_call_def)
  ultimately show ?thesis using node sum unfolding net_weight_def k(3) by simp
qed

lemma weight_broadcast_step:
  assumes inv: "net_inv nodes ends cfg s" and r: "r \<in># nt_running s"
  shows "net_weight nodes ends cfg (net_broadcast r s) < net_weight nodes ends cfg s"
proof -
  from inv have acc: "net_account nodes ends cfg s" by (simp add: net_inv_def)
  let ?s = "net_broadcast r s"
  note l = broadcast_links[OF acc r]
  note k = net_weight_parts[OF acc l]
  obtain n m us where rn: "r = (n, m, us)" by (cases r)
  obtain R where R: "nt_running s = add_mset (n, m, us) R" using r rn by (metis multi_member_split)
  have peer: "nt_peer ?s = nt_peer s" by (simp add: net_broadcast_def split: prod.split list.split)
  have node: "node_weight nodes cfg ?s = node_weight nodes cfg s" by (simp add: node_weight_def k(2) peer own_puts_def fun_eq_iff)
  show ?thesis
  proof (cases us)
    case Nil
    then have "unread ends ?s c = unread ends s c" for c by (simp add: rn net_broadcast_def unread_def wire_def)
    then show ?thesis unfolding net_weight_def k(3) node using Nil R rn by (simp add: net_broadcast_def)
  next
    case (Cons u vs)
    from accountD(8)[OF acc, of n m us] R have "serves nodes s n us" by simp
    with Cons obtain ch where ch: "n \<in> nodes" "hub_meshConnections (nt_hub s n) u = Some ch" by (auto simp: serves_def)
    from wiredD(3,4)[OF accountD(1)[OF acc] ch] obtain d where d: "\<not> PeerWithdrawn (ch_Signaler ch)" "ch_Conn ch = Some d" "ends d = (n, u)" by blast
    have dc: "d \<in> conns nodes s" using ch d(2) by (auto simp: conns_def)
    have s': "?s = s\<lparr>nt_running := add_mset (n, m, vs) R,
        nt_hub := (nt_hub s)(n := (nt_hub s n)\<lparr>hub_sent := hub_sent (nt_hub s n) @ [(d, m)]\<rparr>)\<rparr>"
      using rn R Cons broadcast_live[OF ch(2) d(1,2), of m] by (simp add: net_broadcast_def)
    have "unread ends ?s d = Suc (unread ends s d)" using accountD(6)[OF acc dc] d(3) by (simp add: unread_def s') (simp add: wire_def Suc_diff_le)
    moreover have "sum (unread ends ?s) (conns nodes s) + unread ends s d = sum (unread ends s) (conns nodes s) + unread ends ?s d"
      by (intro sum_upd k dc) (simp add: unread_def s' wire_def)
    ultimately have "sum (unread ends ?s) (conns nodes s) = Suc (sum (unread ends s) (conns nodes s))" by simp
    moreover have "nt_running ?s = add_mset (n, m, vs) R" by (simp add: s')
    ultimately show ?thesis unfolding net_weight_def k(3) node R using Cons by simp
  qed
qed

lemma weight_read_step:
  assumes "encoding enc dec'" and inv: "net_inv nodes ends cfg s" and c: "c \<in> conns nodes s" "net_reader enc dec' ends c s = Some s'"
  shows "net_weight nodes ends cfg s' < net_weight nodes ends cfg s"
proof -
  from inv have acc: "net_account nodes ends cfg s" by (simp add: net_inv_def)
  let ?r = "snd (ends c)" let ?m = "wire ends s c ! nt_read s c"
  from assms(1) c(2) obtain p where p: "nt_read s c < length (wire ends s c)" "peer_send 1 ?m (nt_peer s ?r) = Some p"
    "s' = s\<lparr>nt_peer := (nt_peer s)(?r := p), nt_read := (nt_read s)(c := Suc (nt_read s c))\<rparr>" by (rule net_reader_Some)
  have l: "same_links nodes s s'" by (simp add: p(3) same_links_def)
  note k = net_weight_parts[OF acc l]
  from accountD(1)[OF acc] c(1) have r: "?r \<in> nodes" by (rule wired_conn) simp
  have own: "own_puts s' n = own_puts s n" for n
    using peer_inv_send[OF accountD(2)[OF acc r] p(2)] by (simp add: own_puts_def p(3))
  have "node_weight nodes cfg s' ?r = node_weight nodes cfg s ?r + Suc (4 * card (dom (cfg ?r)))"
    using send_weight[OF accountD(2)[OF acc r] p(2)] peer_send_calls[OF p(2), of 1]
    by (simp add: node_weight_def k(2) own) (simp add: p(3))
  moreover have "sum (node_weight nodes cfg s') nodes + node_weight nodes cfg s ?r = sum (node_weight nodes cfg s) nodes + node_weight nodes cfg s' ?r"
    by (intro sum_upd k r) (simp add: node_weight_def k(2) own, simp add: p(3))
  moreover have "Suc (4 * card (dom (cfg ?r))) \<le> node_cost cfg nodes"
    unfolding node_cost_def using k(4) r by (rule member_le_sum[rotated 2]) simp_all
  ultimately have "sum (node_weight nodes cfg s') nodes < sum (node_weight nodes cfg s) nodes + Suc (node_cost cfg nodes)" by simp
  moreover have "Suc (unread ends s' c) = unread ends s c" using p(1) by (simp add: unread_def p(3) wire_def)
  moreover have "sum (unread ends s') (conns nodes s) + unread ends s c = sum (unread ends s) (conns nodes s) + unread ends s' c"
    by (intro sum_upd k c) (simp add: unread_def p(3) wire_def)
  ultimately have less: "sum (node_weight nodes cfg s') nodes < sum (node_weight nodes cfg s) nodes + Suc (node_cost cfg nodes)"
    and one: "sum (unread ends s) (conns nodes s) = Suc (sum (unread ends s') (conns nodes s))" by simp_all
  show ?thesis unfolding net_weight_def k(3) one using less by (simp add: p(3))
qed
interpretation resting: ending_system "net_work enc dec' nodes ends"
  "\<lambda>s. encoding enc dec' \<and> net_inv nodes ends cfg s \<and> made_distinct s \<and> same_links nodes s0 s"
  "net_weight nodes ends cfg" for enc dec' nodes ends cfg s0
proof unfold_locales
  fix s s'
  assume w: "net_work enc dec' nodes ends s s'"
    and s: "encoding enc dec' \<and> net_inv nodes ends cfg s \<and> made_distinct s \<and> same_links nodes s0 s"
  then have i: "net_inv nodes ends cfg s'" "nt_made s' = nt_made s" "same_links nodes s s'"
    using net_inv_work[of enc dec' nodes ends s s' cfg] work_links[of enc dec' nodes ends s s' cfg] by blast+
  then show "encoding enc dec' \<and> net_inv nodes ends cfg s' \<and> made_distinct s' \<and> same_links nodes s0 s'"
    using s by (simp add: made_distinct_def same_links_def)
  show "net_weight nodes ends cfg s' < net_weight nodes ends cfg s"
    using w s i(1)
    by (induction rule: net_work.induct)
      (blast intro: weight_peer_step weight_call_step weight_broadcast_step weight_read_step)+
qed

lemma peer_work_calls:
  "peer_work p p' \<Longrightarrow> calls a p' = calls a p \<or> (\<exists>m. calls a p' = add_mset m (calls a p))"
proof (induction rule: peer_work.induct)
  case (pw_begin w p p')
  then show ?case
    by (auto simp: peer_begin_def calls_def elim!: prog_bind_InrE split: option.split_asm)
qed (auto simp: calls_def peer_loop_def peer_deliver_def peer_receive_def peer_return_def
    elim!: prog_bind_InrE split: option.split_asm prod.split_asm)

text \<open>While anything is under way, something can be done.\<close>

lemma net_busy:
  assumes "encoding enc dec'" and inv: "net_inv nodes ends cfg s" and busy: "\<not> net_rest nodes ends s"
  shows "\<exists>s'. net_work enc dec' nodes ends s s'"
proof -
  from inv have acc: "net_account nodes ends cfg s" by (simp add: net_inv_def)
  note wd = accountD(1)[OF acc]
  show ?thesis
  proof (cases "\<exists>n \<in> nodes. \<not> at_rest (nt_peer s n)")
    case True
    then obtain n p where n: "n \<in> nodes" "peer_work (nt_peer s n) p" using pool_weight_busy accountD(2)[OF acc] by blast
    have "finite (dom (hub_meshConnections (nt_hub s n)))" using wd n(1) by (simp add: wired_def)
    from finite_distinct_list[OF this]
    obtain order where order: "set order = dom (hub_meshConnections (nt_hub s n))" "distinct order" by (elim exE conjE)
    from peer_work_calls[OF n(2)] show ?thesis
    proof
      assume c: "calls 1 p = calls 1 (nt_peer s n)"
      show ?thesis by (rule exI, rule nw_peer[OF n c])
    next
      assume "\<exists>m. calls 1 p = add_mset m (calls 1 (nt_peer s n))"
      then obtain m where c: "calls 1 p = add_mset m (calls 1 (nt_peer s n))" ..
      show ?thesis by (rule exI, rule nw_call[OF n c order(2,1)])
    qed
  next
    case rest: False
    show ?thesis
    proof (cases "nt_running s = {#}")
      case False
      then show ?thesis using nw_broadcast by blast
    next
      case True
      with rest busy obtain c where c: "c \<in> conns nodes s" "nt_read s c \<noteq> length (wire ends s c)" by (auto simp: net_rest_def)
      then have lt: "nt_read s c < length (wire ends s c)" using accountD(6)[OF acc c(1)] by simp
      let ?r = "snd (ends c)" let ?m = "wire ends s c ! nt_read s c"
      from wd c(1) have r: "?r \<in> nodes" by (rule wired_conn) simp
      have "cfg ?r 1 \<noteq> None" using accountD(3)[OF acc r] .
      then have "cores (nt_peer s ?r) 1 \<noteq> None" using peer_dom_cfg[OF accountD(2)[OF acc r]] by (metis domIff)
      then obtain q where "pod_at (pr_bus (nt_peer s ?r)) 1 = Some q" using pod_core_at by fast
      moreover have "bus_busChan (pr_bus (nt_peer s ?r)) = []" using rest r by (auto simp: at_rest_def)
      ultimately have "\<exists>p. peer_send 1 ?m (nt_peer s ?r) = Some p"
        by (auto simp: peer_send_def Pod_Send_def chan_send_def defaultBusChanSize_def)
      moreover from assms(1) obtain j where "enc ?m = Some j" "dec' j = Some ?m" by (rule encodingE)
      ultimately have "\<exists>s'. net_reader enc dec' ends c s = Some s'"
        using lt by (auto simp: net_reader_def ws_defs Let_def)
      then show ?thesis using nw_read[OF c(1)] by blast
    qed
  qed
qed

text \<open>The calls so far: they only grow, by one at most, and never beyond what reaches the pod.\<close>

lemma peer_work_one_call:
  assumes "peer_work p p'"
  shows "(\<forall>a. calls a p' = calls a p)
    \<or> (\<exists>a m. calls a p' = add_mset m (calls a p) \<and> (\<forall>b. b \<noteq> a \<longrightarrow> calls b p' = calls b p))"
  using assms
proof (induction rule: peer_work.induct)
  case (pw_begin w p p')
  then obtain called where "pr_seen p' = pr_seen p + (case snd w of None \<Rightarrow> {#} | Some m \<Rightarrow> {#(fst w, m, called)#})"
    by (auto simp: peer_begin_def elim!: prog_bind_InrE split: option.split_asm)
  then show ?case by (cases "snd w"; cases called) (auto simp: calls_def)
qed (auto simp: calls_def peer_loop_def peer_deliver_def peer_receive_def peer_return_def
    elim!: prog_bind_InrE split: option.split_asm prod.split_asm)

lemma net_work_one_call:
  assumes "encoding enc dec'" "net_work enc dec' nodes ends s s'"
  shows "(\<forall>n a. calls a (nt_peer s' n) = calls a (nt_peer s n))
    \<or> (\<exists>n a m. n \<in> nodes \<and> calls a (nt_peer s' n) = add_mset m (calls a (nt_peer s n))
          \<and> (\<forall>k b. (k, b) \<noteq> (n, a) \<longrightarrow> calls b (nt_peer s' k) = calls b (nt_peer s k)))"
  using assms(2)
proof (induction rule: net_work.induct)
  case (nw_peer n s p)
  from peer_work_one_call[OF nw_peer(2)] show ?case
  proof (elim disjE exE conjE)
    fix a m assume "calls a p = add_mset m (calls a (nt_peer s n))" "\<forall>b. b \<noteq> a \<longrightarrow> calls b p = calls b (nt_peer s n)"
    with nw_peer(1) show ?thesis by (intro disjI2 exI[of _ n] exI[of _ a] exI[of _ m]) simp
  qed simp
next
  case (nw_call n s p m' order)
  from peer_work_one_call[OF nw_call(2)] show ?case
  proof (elim disjE exE conjE)
    fix a m assume "calls a p = add_mset m (calls a (nt_peer s n))" "\<forall>b. b \<noteq> a \<longrightarrow> calls b p = calls b (nt_peer s n)"
    with nw_call(1) show ?thesis by (intro disjI2 exI[of _ n] exI[of _ a] exI[of _ m]) (simp add: net_call_def)
  qed (simp add: net_call_def)
next
  case (nw_broadcast r s)
  show ?case by (simp add: net_broadcast_def split: prod.split list.split)
next
  case (nw_read c s s')
  from assms(1) nw_read(2) show ?case by (rule net_reader_Some) (auto dest: peer_send_calls)
qed

lemma net_work_calls_mono:
  assumes "encoding enc dec'" "(net_work enc dec' nodes ends)\<^sup>*\<^sup>* s s'"
  shows "calls a (nt_peer s n) \<subseteq># calls a (nt_peer s' n)"
  using assms(2)
proof (induction rule: rtranclp_induct)
  case (step t u)
  have "calls a (nt_peer t n) \<subseteq># calls a (nt_peer u n)"
    using net_work_one_call[OF assms(1) step(2)]
  proof (elim disjE exE conjE)
    fix k b m assume c: "calls b (nt_peer u k) = add_mset m (calls b (nt_peer t k))"
      "\<forall>k' b'. (k', b') \<noteq> (k, b) \<longrightarrow> calls b' (nt_peer u k') = calls b' (nt_peer t k')"
    show ?thesis by (cases "(n, a) = (k, b)") (use c in auto)
  qed simp
  with step(3) show ?case by (rule subset_mset.order_trans)
qed simp

lemma arrivals_same_links:
  assumes "net_account nodes ends cfg s" "same_links nodes s s'" "nt_made s' = nt_made s"
  shows "arrivals ends s' n a q = arrivals ends s n a q"
proof -
  have "reaches ends s' orig n a = reaches ends s orig n a" if "(orig, m) \<in> set (nt_made s)" for orig m
    using accountD(9)[OF assms(1) that] assms(2)
    by (cases orig) (auto simp: reaches_def origin_ok_def linked_def same_links_def)
  then show ?thesis
    unfolding arrivals_def assms(3) by (intro arg_cong[of _ _ "\<lambda>xs. mset (map snd xs)"] filter_cong) auto
qed

lemma net_settles:
  assumes enc: "encoding enc dec'" and inv: "net_inv nodes ends cfg s" and md: "made_distinct s"
    and hubs: "\<forall>n \<in> nodes. \<exists>q. cfg n 1 = Some q \<and> (\<forall>m. wants q m)"
  shows "\<exists>s'. (net_work enc dec' nodes ends)\<^sup>*\<^sup>* s s' \<and> net_rest nodes ends s'
    \<and> (\<forall>n a q. n \<in> nodes \<and> cfg n a = Some q \<longrightarrow> calls a (nt_peer s' n) = arrivals ends s n a q)"
proof -
  have r: "encoding enc dec' \<and> net_inv nodes ends cfg s \<and> made_distinct s \<and> same_links nodes s s"
    using enc inv md by (simp add: same_links_def)
  obtain s' where s': "(net_work enc dec' nodes ends)\<^sup>*\<^sup>* s s'"
    "net_inv nodes ends cfg s' \<and> made_distinct s' \<and> same_links nodes s s'" "\<forall>u. \<not> net_work enc dec' nodes ends s' u"
    using resting.run_to_end[OF r] by blast
  have rest: "net_rest nodes ends s'" using net_busy[OF enc] s'(2,3) by blast
  have made: "nt_made s' = nt_made s"
    using s'(1)
  proof (induction rule: rtranclp_induct)
    case (step t u)
    then have "net_inv nodes ends cfg t" using resting.inv_reach[OF step(1) r] by blast
    with step show ?case using net_inv_work[OF enc step(2)] by simp
  qed simp
  have "net_account nodes ends cfg s" using inv by (simp add: net_inv_def)
  then have "calls a (nt_peer s' n) = arrivals ends s n a q" if "n \<in> nodes" "cfg n a = Some q" for n a q
    using rest_arrivals[OF _ _ rest that(1) hubs that(2)] arrivals_same_links[OF _ _ made] s'(2) by metis
  with s'(1) rest show ?thesis by blast
qed

lemma calls_arrivals:
  fixes enc :: "message \<Rightarrow> bytes option"
  assumes "encoding enc dec'" "net_inv nodes ends cfg s" "made_distinct s"
    and "\<forall>n \<in> nodes. \<exists>q. cfg n 1 = Some q \<and> (\<forall>m. wants q m)" "n \<in> nodes" "cfg n a = Some q"
  shows "calls a (nt_peer s n) \<subseteq># arrivals ends s n a q"
proof -
  from net_settles[OF assms(1-4)] obtain s' where s': "(net_work enc dec' nodes ends)\<^sup>*\<^sup>* s s'"
    "calls a (nt_peer s' n) = arrivals ends s n a q" using assms(5,6) by blast
  from net_work_calls_mono[OF assms(1) s'(1), of a n] s'(2) show ?thesis by simp
qed

section \<open>Properties\<close>

definition net_start :: "(string \<Rightarrow> messageBus) \<Rightarrow> (string \<Rightarrow> hub) \<Rightarrow> net" where
  "net_start buses hubs = \<lparr>nt_peer = peer_of \<circ> buses, nt_hub = hubs, nt_running = {#}, nt_read = (\<lambda>_. 0), nt_made = []\<rparr>"

text \<open>
  A mesh whose nodes are set up: each with an unused bus, its hub's callback in the first pod, and
  connections on which nothing has been sent.
\<close>

definition mesh_ready :: "string set \<Rightarrow> (nat \<Rightarrow> string \<times> string) \<Rightarrow> (string \<Rightarrow> messageBus) \<Rightarrow> (string \<Rightarrow> hub) \<Rightarrow> bool" where
  "mesh_ready nodes ends buses hubs \<longleftrightarrow> wired nodes ends (net_start buses hubs)
     \<and> (\<forall>n \<in> nodes. (\<exists>k. unused_bus k (buses n)) \<and> (\<exists>q. pod_at (buses n) 1 = Some q \<and> (\<forall>m. wants q m)) \<and> hub_sent (hubs n) = [])"

lemma net_start_inv:
  assumes "mesh_ready nodes ends buses hubs"
  shows "net_inv nodes ends (\<lambda>n. pod_at (buses n)) (net_start buses hubs)"
proof -
  have "peer_inv (pod_at (buses n)) (peer_of (buses n)) \<and> pod_at (buses n) 1 \<noteq> None \<and> hub_sent (hubs n) = []" if "n \<in> nodes" for n
  proof -
    from assms that obtain k q where k: "unused_bus k (buses n)" "pod_at (buses n) 1 = Some q" "hub_sent (hubs n) = []"
      by (auto simp: mesh_ready_def)
    then have "0 < k" by (auto simp: unused_bus_def pod_at_def split: option.split_asm dest: spec[of _ 1])
    with k unused_peer_inv show ?thesis by simp
  qed
  moreover have "wired nodes ends (net_start buses hubs)" using assms by (simp add: mesh_ready_def)
  moreover from this have "fst (ends c) \<in> nodes" if "c \<in> conns nodes (net_start buses hubs)" for c
    using that by (rule wired_conn) simp
  ultimately show ?thesis
    unfolding net_inv_def net_account_def
    by (auto simp: net_start_def own_puts_def got_def wire_def waiting_def calls_def made_by_def put_distinct_def peer_of_def)
qed

text \<open>
  C3: Any number of meshed processes, in any interleaving: once nothing is under way, the callback of each pod of each
  node has been called exactly once for every message that was sent by another pod of the node, or by a
  pod of a node with a connection to it, or tunnelled to it, as far as the pod wants it, and for nothing
  else; a hub broadcasts what its own node's pods sent and never what came over a connection. And
  whenever no more messages are made, the mesh gets there, within a bounded number of steps.
\<close>

theorem mesh_delivers_once:
  assumes "encoding enc dec'" "mesh_ready nodes ends buses hubs"
    and "(net_step enc dec' nodes ends)\<^sup>*\<^sup>* (net_start buses hubs) s" "made_distinct s"
    and "n \<in> nodes" "pod_at (buses n) a = Some q"
  shows "(net_rest nodes ends s \<longrightarrow> calls a (nt_peer s n) = arrivals ends s n a q)
    \<and> (\<exists>s'. (net_work enc dec' nodes ends)\<^sup>*\<^sup>* s s' \<and> net_rest nodes ends s' \<and> calls a (nt_peer s' n) = arrivals ends s n a q)
    \<and> (\<forall>k s'. (net_work enc dec' nodes ends ^^ k) s s' \<longrightarrow> k \<le> net_weight nodes ends (\<lambda>n. pod_at (buses n)) s)"
proof -
  let ?cfg = "\<lambda>n. pod_at (buses n)"
  have hubs: "\<forall>n \<in> nodes. \<exists>q. ?cfg n 1 = Some q \<and> (\<forall>m. wants q m)" using assms(2) by (auto simp: mesh_ready_def)
  have "encoding enc dec' \<and> net_inv nodes ends ?cfg s \<and> same_links nodes (net_start buses hubs) s"
    using nets.inv_reach[OF assms(3)] net_start_inv[OF assms(2)] assms(1) by (auto simp: same_links_def)
  then have inv: "net_inv nodes ends ?cfg s"
    and r: "encoding enc dec' \<and> net_inv nodes ends ?cfg s \<and> made_distinct s \<and> same_links nodes s s"
    using assms(4) by (simp_all add: same_links_def)
  have bound: "k \<le> net_weight nodes ends ?cfg s" if "(net_work enc dec' nodes ends ^^ k) s s'" for k s'
    using resting.run_length[OF that r] by simp
  from net_settles[OF assms(1) inv assms(4) hubs] obtain s' where "(net_work enc dec' nodes ends)\<^sup>*\<^sup>* s s'"
    "net_rest nodes ends s'" "calls a (nt_peer s' n) = arrivals ends s n a q" using assms(5,6) by blast
  then show ?thesis using rest_arrivals[OF inv assms(4) _ assms(5) hubs assms(6)] bound by blast
qed

text \<open>Two nodes, each with the connection to the other that a handshake sets up, and a pod beside the hub's.\<close>

definition pair_ends :: "nat \<Rightarrow> string \<times> string" where
  "pair_ends c = (if c = 0 then (''a'', ''b'') else (''b'', ''a''))"

definition pair_hubs :: "string \<Rightarrow> hub" where
  "pair_hubs n =
     (if n = ''a'' then the (hub_addConnection 0 ''b'' '''' [] (initHub ''a'' '''' [] True False))
      else the (hub_addConnection 1 ''a'' '''' [] (initHub ''b'' '''' [] True False)))"

lemma pair_ready:
  "\<exists>b q. mesh_ready {''a'', ''b''} pair_ends (\<lambda>_. b) pair_hubs \<and> pod_at b 2 = Some q \<and> (\<forall>m. wants q m = (msg_Type m = t))"
proof -
  from unused_bus_connect[OF unused_bus_new] obtain b1 where b1: "unused_bus 1 b1" "pod_at b1 1 = Some (newPod False)" by auto
  from unused_bus_connect[OF b1(1)] obtain b2 where b2: "unused_bus 2 b2" "pod_at b2 = (pod_at b1)(2 \<mapsto> newPod False)"
    by (auto simp: numeral_2_eq_2)
  from own_On(1)[OF b2(1), of 1] b1(2) b2(2) obtain b3 q1 where b3: "unused_bus 2 b3" "pod_at b3 2 = Some (newPod False)"
    "pod_at b3 1 = Some q1" "\<forall>m. wants q1 m" by force
  from own_On(2)[OF b3(1,2), of t] obtain b q where b: "unused_bus 2 b" "pod_at b 2 = Some q" "pod_at b 1 = Some q1"
    "\<forall>m. wants q m = (msg_Type m = t)" using b3(3) by (metis fun_upd_apply n_not_Suc_n numeral_2_eq_2 One_nat_def)
  have "wired {''a'', ''b''} pair_ends (net_start (\<lambda>_. b) pair_hubs)"
    by (simp add: wired_def net_start_def pair_hubs_def pair_ends_def hub_addConnection_def initHub_def PeerWithdrawn_def NewSignaler_def)
  then have "mesh_ready {''a'', ''b''} pair_ends (\<lambda>_. b) pair_hubs"
    using b(1,3) b3(4) by (auto simp: mesh_ready_def pair_hubs_def hub_addConnection_def initHub_def)
  with b(2,4) show ?thesis by blast
qed

lemma mesh_delivers_once_witness:
  "\<exists>b s s'. net_send ''a'' 2 (NewMsg ''u'' 0 ''t'' []) (net_start (\<lambda>_. b) pair_hubs) = Some s
    \<and> (net_work (\<lambda>m. Some (enc_message m)) dec_message {''a'', ''b''} pair_ends)\<^sup>*\<^sup>* s s'
    \<and> net_rest {''a'', ''b''} pair_ends s' \<and> calls 2 (nt_peer s' ''b'') = {#NewMsg ''u'' 0 ''t'' []#}"
proof -
  let ?m = "NewMsg ''u'' 0 ''t'' []"
  from pair_ready[of "''t''"] obtain b q where b: "mesh_ready {''a'', ''b''} pair_ends (\<lambda>_. b) pair_hubs" "pod_at b 2 = Some q"
    and q: "wants q ?m" by (auto simp: message_defs)
  have u: "bus_busChan b = []" "\<not> pod_dead q" "\<not> pod_chanClosed q"
    using b(1,2) by (force simp: mesh_ready_def unused_bus_def unused_pod_def pod_at_def split: option.split_asm)+
  then obtain s where s: "net_send ''a'' 2 ?m (net_start (\<lambda>_. b) pair_hubs) = Some s" "nt_made s = [(Sent ''a'' 2, ?m)]"
    "nt_hub s = pair_hubs"
    using b(2) by (auto simp: net_send_def net_start_def peer_send_def peer_of_def Pod_Send_def chan_send_def defaultBusChanSize_def)
  then have r: "(net_step (\<lambda>m. Some (enc_message m)) dec_message {''a'', ''b''} pair_ends)\<^sup>*\<^sup>* (net_start (\<lambda>_. b) pair_hubs) s"
    "made_distinct s" by (auto intro!: r_into_rtranclp ns_send[of "''a''" _ 2 ?m] simp: made_distinct_def)
  have "arrivals pair_ends s ''b'' 2 q = {#?m#}"
    using s(2,3) q by (simp add: arrivals_def reaches_def linked_def pair_hubs_def hub_addConnection_def initHub_def)
  with mesh_delivers_once[OF message_encoding b(1) r, of "''b''" 2 q] b(2) s(1) show ?thesis by auto
qed

end
