(* ===== verification/Mesh.thy ===== *)
theory Mesh
  imports SatNode "HOL-Library.Multiset"
begin

text \<open>
  Requests in flight, as steps of one system: executions in E2 Core (\<open>e2core/server/dispatcher.go\<close>), the
  messages between it and the nodes, and the nodes (\<open>sat/sat/meshed.go\<close>). Any number of executions run
  at once; messages overtake each other, since the bus hands each to its pod in a goroutine of its own
  and a pod handles each in another. What E2 Core does with a result is \<open>awaitResult\<close> of \<open>Dispatch\<close>, what
  a node does with a job is \<open>handleFnResult\<close> of \<open>SatNode\<close>; the modules are a function of the request.
  With \<open>faults\<close> a tunnel or a send may fail, jobs and results may be lost, and waits may time out.
\<close>

section \<open>One execution, step by step\<close>

text \<open>
  Where an execution is: waiting for a result, in a loop without end, or with its outcome (a panic, an
  error, or neither) and on its way out, for which it has to remove its callback.
\<close>

datatype phase = Awaiting | Spinning | Outgoing "go_panic + exec_error option"

record execution =
  ex_seq :: sequence
  ex_phase :: phase

text \<open>The head of the loop in \<open>Execute\<close>.\<close>

definition loop_phase :: "sequence \<Rightarrow> phase" where
  "loop_phase seq =
     (case NextStep seq of
        None \<Rightarrow> Outgoing (Inr None)
      | Some i \<Rightarrow>
          if st_IsSingle (sq_steps seq ! i) then Awaiting
          else if st_IsGroup (sq_steps seq ! i) then Outgoing (Inr (Some ErrCannotHandle))
          else Spinning)"

text \<open>\<open>Execute\<close> up to its first wait: the execution and the message it tunnels.\<close>

definition begin_execution :: "bool \<Rightarrow> sequence \<Rightarrow> execution \<times> (string \<times> coord_request) option" where
  "begin_execution tunnel_ok seq =
     (case NextStep seq of
        None \<Rightarrow> (\<lparr>ex_seq = seq, ex_phase = Outgoing (Inr (Some NoSteps))\<rparr>, None)
      | Some i \<Rightarrow>
          if tunnel_ok
          then (\<lparr>ex_seq = seq, ex_phase = Awaiting\<rparr>, Some (st_FQMN (sq_steps seq ! i), sq_req seq))
          else (\<lparr>ex_seq = seq, ex_phase = Outgoing (Inr (Some TunnelFailed))\<rparr>, None))"

text \<open>From one wait to the next, or to the outcome, with the result a handler hands over.\<close>

definition take_result :: "execResult \<Rightarrow> execution \<Rightarrow> execution" where
  "take_result r ex =
     (if ex_phase ex \<noteq> Awaiting then ex
      else case awaitResult [Some r] (ex_seq ex) of
             Inl p \<Rightarrow> ex\<lparr>ex_phase := Outgoing (Inl p)\<rparr>
           | Inr (Some e, seq', _) \<Rightarrow> \<lparr>ex_seq = seq', ex_phase = Outgoing (Inr (Some e))\<rparr>
           | Inr (None, seq', _) \<Rightarrow> \<lparr>ex_seq = seq', ex_phase = loop_phase seq'\<rparr>)"

definition time_out :: "execution \<Rightarrow> execution" where
  "time_out ex = ex\<lparr>ex_phase := Outgoing (Inr (Some ErrDispatchTimeout))\<rparr>"

section \<open>The system\<close>

text \<open>
  The requests whose execution has not begun, the executions with a callback, the handlers inside a
  callback (each holds the read lock of the callbacks), the messages to nodes and to the dispatcher, and
  what the executions that are over returned.
\<close>

record mesh =
  me_pending :: "sequence multiset"
  me_execs :: "string \<rightharpoonup> execution"
  me_handlers :: "(string \<times> execResult) multiset"
  me_jobs :: "(string \<times> coord_request) multiset"
  me_results :: "(string \<times> execResult) multiset"
  me_done :: "string \<rightharpoonup> (go_panic + exec_error option) \<times> sequence"

definition mesh_init :: "sequence list \<Rightarrow> mesh" where
  "mesh_init seqs = \<lparr>me_pending = mset seqs, me_execs = Map.empty, me_handlers = {#}, me_jobs = {#},
                     me_results = {#}, me_done = Map.empty\<rparr>"

definition mset_option :: "'a option \<Rightarrow> 'a multiset" where
  "mset_option x = (case x of None \<Rightarrow> {#} | Some a \<Rightarrow> {#a#})"

text \<open>\<open>addCallback\<close> and \<open>removeCallback\<close> need the write lock, so no handler may be in a callback.\<close>

definition mesh_start :: "bool \<Rightarrow> sequence \<Rightarrow> mesh \<Rightarrow> mesh option" where
  "mesh_start tunnel_ok seq m =
     (if me_handlers m \<noteq> {#} then None
      else (let (ex, job) = begin_execution tunnel_ok seq
            in Some (m\<lparr>me_pending := me_pending m - {#seq#},
                       me_execs := (me_execs m)(ParentID seq \<mapsto> ex),
                       me_jobs := me_jobs m + mset_option job\<rparr>)))"

definition mesh_return :: "string \<Rightarrow> mesh \<Rightarrow> mesh option" where
  "mesh_return p m =
     (case me_execs m p of
        None \<Rightarrow> None
      | Some ex \<Rightarrow>
          (case ex_phase ex of
             Outgoing out \<Rightarrow>
               if me_handlers m \<noteq> {#} then None
               else Some (m\<lparr>me_execs := (me_execs m)(p := None), me_done := (me_done m)(p \<mapsto> (out, ex_seq ex))\<rparr>)
           | _ \<Rightarrow> None))"

text \<open>A node takes a job; a panic there leaves no message.\<close>

definition mesh_node :: "(string \<Rightarrow> step list option) \<Rightarrow> (step list \<Rightarrow> string option) \<Rightarrow> (string \<Rightarrow> coord_request \<Rightarrow> fn_outcome) \<Rightarrow>
    bool \<Rightarrow> bool \<Rightarrow> string \<times> coord_request \<Rightarrow> mesh \<Rightarrow> mesh" where
  "mesh_node decode encode runs send_ok tunnel_ok job m =
     (case job of (fqmn, req) \<Rightarrow>
        (let m' = m\<lparr>me_jobs := me_jobs m - {#job#}\<rparr>
         in case handleFnResult decode encode send_ok fqmn (Some req) (runs fqmn req) of
              Inl _ \<Rightarrow> m'
            | Inr s \<Rightarrow>
                m'\<lparr>me_jobs := me_jobs m' + (if tunnel_ok then mset_option (ss_next s) else {#}),
                   me_results := me_results m' + image_mset (Pair (rq_ID req)) (mset_option (ss_result s))\<rparr>))"

text \<open>The handler of a result: without a callback for its parent it is dropped.\<close>

definition mesh_receive :: "string \<times> execResult \<Rightarrow> mesh \<Rightarrow> mesh" where
  "mesh_receive res m =
     m\<lparr>me_results := me_results m - {#res#},
       me_handlers := me_handlers m + (if me_execs m (fst res) = None then {#} else {#res#})\<rparr>"

definition mesh_hand :: "string \<times> execResult \<Rightarrow> mesh \<Rightarrow> mesh option" where
  "mesh_hand res m =
     (case me_execs m (fst res) of
        None \<Rightarrow> None
      | Some ex \<Rightarrow>
          if ex_phase ex \<noteq> Awaiting then None
          else Some (m\<lparr>me_handlers := me_handlers m - {#res#},
                       me_execs := (me_execs m)(fst res \<mapsto> take_result (snd res) ex)\<rparr>))"

inductive mesh_step :: "(string \<Rightarrow> step list option) \<Rightarrow> (step list \<Rightarrow> string option) \<Rightarrow> (string \<Rightarrow> coord_request \<Rightarrow> fn_outcome) \<Rightarrow>
    bool \<Rightarrow> mesh \<Rightarrow> mesh \<Rightarrow> bool" for decode encode runs faults where
  ms_start: "seq \<in># me_pending m \<Longrightarrow> tunnel_ok \<or> faults \<Longrightarrow> mesh_start tunnel_ok seq m = Some m'
     \<Longrightarrow> mesh_step decode encode runs faults m m'"
| ms_node: "job \<in># me_jobs m \<Longrightarrow> send_ok \<or> faults \<Longrightarrow> tunnel_ok \<or> faults
     \<Longrightarrow> mesh_step decode encode runs faults m (mesh_node decode encode runs send_ok tunnel_ok job m)"
| ms_receive: "res \<in># me_results m \<Longrightarrow> mesh_step decode encode runs faults m (mesh_receive res m)"
| ms_hand: "res \<in># me_handlers m \<Longrightarrow> mesh_hand res m = Some m' \<Longrightarrow> mesh_step decode encode runs faults m m'"
| ms_return: "mesh_return p m = Some m' \<Longrightarrow> mesh_step decode encode runs faults m m'"
| ms_timeout: "faults \<Longrightarrow> me_execs m p = Some ex \<Longrightarrow> ex_phase ex = Awaiting
     \<Longrightarrow> mesh_step decode encode runs faults m (m\<lparr>me_execs := (me_execs m)(p \<mapsto> time_out ex)\<rparr>)"
| ms_lose_job: "faults \<Longrightarrow> job \<in># me_jobs m
     \<Longrightarrow> mesh_step decode encode runs faults m (m\<lparr>me_jobs := me_jobs m - {#job#}\<rparr>)"
| ms_lose_result: "faults \<Longrightarrow> res \<in># me_results m
     \<Longrightarrow> mesh_step decode encode runs faults m (m\<lparr>me_results := me_results m - {#res#}\<rparr>)"

inductive_cases mesh_stepE: "mesh_step decode encode runs faults m m'"

section \<open>What a request makes the nodes send\<close>

definition incomplete :: "(string \<Rightarrow> step list option) \<Rightarrow> coord_request \<Rightarrow> nat" where
  "incomplete decode req =
     (case decode (rq_SequenceJSON req) of None \<Rightarrow> 0 | Some ss \<Rightarrow> length (filter (\<lambda>s. \<not> st_Completed s) ss))"

fun chain_upto :: "(string \<Rightarrow> step list option) \<Rightarrow> (step list \<Rightarrow> string option) \<Rightarrow> (string \<Rightarrow> coord_request \<Rightarrow> fn_outcome) \<Rightarrow>
    nat \<Rightarrow> string \<Rightarrow> coord_request \<Rightarrow> execResult list" where
  "chain_upto decode encode runs 0 fqmn req = []"
| "chain_upto decode encode runs (Suc n) fqmn req =
     (case handleFnResult decode encode True fqmn (Some req) (runs fqmn req) of
        Inl _ \<Rightarrow> []
      | Inr s \<Rightarrow> (case ss_result s of None \<Rightarrow> [] | Some r \<Rightarrow> [r])
                @ (case ss_next s of None \<Rightarrow> [] | Some (fqmn', req') \<Rightarrow> chain_upto decode encode runs n fqmn' req'))"

text \<open>The results of the nodes from a job on, until a panic, when nothing is lost.\<close>

definition chain :: "(string \<Rightarrow> step list option) \<Rightarrow> (step list \<Rightarrow> string option) \<Rightarrow> (string \<Rightarrow> coord_request \<Rightarrow> fn_outcome) \<Rightarrow>
    string \<times> coord_request \<Rightarrow> execResult list" where
  "chain decode encode runs job = chain_upto decode encode runs (incomplete decode (snd job)) (fst job) (snd job)"

lemma next_index_complete:
  "next_index ss = Some i \<Longrightarrow>
     Suc (length (filter (\<lambda>s. \<not> st_Completed s) (ss[i := (ss ! i)\<lparr>st_Completed := True\<rparr>])))
       = length (filter (\<lambda>s. \<not> st_Completed s) ss)"
  by (induction ss arbitrary: i) (auto split: if_split_asm)

lemma next_index_None_iff: "next_index ss = None \<longleftrightarrow> filter (\<lambda>s. \<not> st_Completed s) ss = []"
  by (induction ss) auto

lemma handle_results_ID:
  "handle_results rs req = Inr (e, req') \<Longrightarrow> rq_ID req' = rq_ID req \<and> rq_SequenceJSON req' = rq_SequenceJSON req"
proof (induction rs arbitrary: req)
  case (Cons r rs)
  show ?case
  proof (cases "er_Code r \<noteq> 0 \<or> er_Message r \<noteq> '''' \<or> er_ExecErr r \<noteq> ''''")
    case False
    with Cons.prems obtain req1 where "handle_results rs req1 = Inr (e, req')"
      "rq_ID req1 = rq_ID req" "rq_SequenceJSON req1 = rq_SequenceJSON req"
      by (auto elim!: go_bind_InrE split: option.split_asm)
    from Cons.IH[OF this(1)] this(2,3) show ?thesis by simp
  qed (use Cons.prems in \<open>auto split: if_split_asm\<close>)
qed simp

lemma HandleStepResults_completes:
  assumes "HandleStepResults rs seq = Inr (None, seq')"
  obtains i where "next_index (sq_steps seq) = Some i" "rq_ID (sq_req seq') = rq_ID (sq_req seq)"
    "sq_steps seq' = (sq_steps seq)[i := (sq_steps seq ! i)\<lparr>st_Completed := True\<rparr>]"
proof -
  from assms obtain req' where h: "handle_results rs (sq_req seq) = Inr (None, req')"
    "(case NextStep seq of None \<Rightarrow> Inl NilDereference
      | Some i \<Rightarrow> Inr (None, seq\<lparr>sq_req := req', sq_steps := (sq_steps seq)[i := (sq_steps seq ! i)\<lparr>st_Completed := True\<rparr>]\<rparr>))
     = Inr (None, seq')"
    unfolding HandleStepResults_def by (auto elim!: go_bind_InrE split: option.split_asm)
  from handle_results_ID[OF h(1)] h(2) show thesis
    by (auto simp: NextStep_def split: option.split_asm intro: that)
qed

lemma FromJSON_Inr:
  "FromJSON decode encode (rq_SequenceJSON req) req = Inr seq \<Longrightarrow>
     decode (rq_SequenceJSON req) = Some (sq_steps seq) \<and> rq_ID (sq_req seq) = rq_ID req"
  by (auto simp: FromJSON_def newWithSteps_def split: option.split_asm)

text \<open>A node with nothing to complete is silent; the request it sends on has one step less to complete.\<close>

lemma handleFnResult_result:
  assumes "handleFnResult decode encode send_ok fqmn (Some req) out = Inr s" "ss_result s \<noteq> None \<or> ss_next s \<noteq> None"
  shows "0 < incomplete decode req"
  using assms FromJSON_Inr[of decode encode req]
  by (auto simp: handleFnResult_def incomplete_def NextStep_def next_index_None_iff Let_def split: sum.split_asm if_split_asm)

lemma handleFnResult_next:
  assumes "encoding encode decode" "handleFnResult decode encode send_ok fqmn (Some req) out = Inr s"
    and "ss_next s = Some (fqmn', req')"
  shows "Suc (incomplete decode req') = incomplete decode req" "rq_ID req' = rq_ID req"
proof -
  obtain seq where seq: "FromJSON decode encode (rq_SequenceJSON req) req = Inr seq"
    using assms(2,3) by (auto simp: handleFnResult_def Let_def split: sum.split_asm)
  from assms(2,3) seq obtain fnr seq' j where h: "HandleStepResults [fnr] seq = Inr (None, seq')"
    "StepsJSON encode seq' = Some j" "req' = (sq_req seq')\<lparr>rq_SequenceJSON := j\<rparr>"
    by (auto simp: handleFnResult_def Let_def sendNextStep_def
        split: if_split_asm option.split_asm fn_outcome.split_asm fn_error.split_asm elim!: go_bind_InrE)
  from h(1) obtain i where i: "next_index (sq_steps seq) = Some i" "rq_ID (sq_req seq') = rq_ID (sq_req seq)"
    "sq_steps seq' = (sq_steps seq)[i := (sq_steps seq ! i)\<lparr>st_Completed := True\<rparr>]"
    by (rule HandleStepResults_completes)
  have "decode j = Some (sq_steps seq')"
    using encoding_decodes[OF assms(1)] h(2) by (simp add: StepsJSON_def)
  then show "Suc (incomplete decode req') = incomplete decode req"
    using next_index_complete[OF i(1)] FromJSON_Inr[OF seq] h(3) i(3) by (simp add: incomplete_def)
  show "rq_ID req' = rq_ID req" using i(2) h(3) FromJSON_Inr[OF seq] by simp
qed

lemma chain_upto_enough:
  assumes "encoding encode decode" "incomplete decode req \<le> n"
  shows "chain_upto decode encode runs n fqmn req = chain_upto decode encode runs (incomplete decode req) fqmn req"
  using assms(2)
proof (induction n arbitrary: fqmn req)
  case (Suc n)
  have quiet: "chain_upto decode encode runs (Suc n) fqmn req = []" if "incomplete decode req = 0"
    using that handleFnResult_result[of decode encode True fqmn req "runs fqmn req"]
    by (auto split: sum.split option.split)
  show ?case
  proof (cases "incomplete decode req")
    case (Suc k)
    have "chain_upto decode encode runs n f r = chain_upto decode encode runs k f r"
      if "handleFnResult decode encode True fqmn (Some req) (runs fqmn req) = Inr s" "ss_next s = Some (f, r)" for s f r
      using handleFnResult_next[OF assms(1) that] Suc.IH[of r f] Suc Suc.prems by simp
    then show ?thesis using Suc by (auto split: sum.split option.split)
  qed (use quiet in simp)
qed simp

lemma chain_unfold:
  assumes "encoding encode decode"
  shows "chain decode encode runs (fqmn, req) =
    (case handleFnResult decode encode True fqmn (Some req) (runs fqmn req) of
       Inl _ \<Rightarrow> []
     | Inr s \<Rightarrow> (case ss_result s of None \<Rightarrow> [] | Some r \<Rightarrow> [r])
               @ (case ss_next s of None \<Rightarrow> [] | Some job \<Rightarrow> chain decode encode runs job))"
proof -
  have "chain decode encode runs (fqmn, req) = chain_upto decode encode runs (Suc (incomplete decode req)) fqmn req"
    using chain_upto_enough[OF assms, of req "Suc (incomplete decode req)" runs fqmn] by (simp add: chain_def)
  also have "\<dots> = (case handleFnResult decode encode True fqmn (Some req) (runs fqmn req) of
       Inl _ \<Rightarrow> []
     | Inr s \<Rightarrow> (case ss_result s of None \<Rightarrow> [] | Some r \<Rightarrow> [r])
               @ (case ss_next s of None \<Rightarrow> [] | Some job \<Rightarrow> chain decode encode runs job))"
  proof -
    have "chain_upto decode encode runs (incomplete decode req) f r = chain decode encode runs (f, r)"
      if "handleFnResult decode encode True fqmn (Some req) (runs fqmn req) = Inr s" "ss_next s = Some (f, r)" for s f r
      using handleFnResult_next[OF assms that] chain_upto_enough[OF assms, of r "incomplete decode req" runs f]
      by (simp add: chain_def)
    then show ?thesis by (auto split: sum.split option.split)
  qed
  finally show ?thesis .
qed

lemma chain_mesh_run:
  assumes "encoding encode decode" "mesh_run decode encode runs n fqmn req = Inr rs" "incomplete decode req \<le> n"
  shows "chain decode encode runs (fqmn, req) = rs"
  using assms(2,3)
proof (induction n arbitrary: fqmn req rs)
  case 0
  then show ?case by (simp add: chain_def)
next
  case (Suc n)
  from Suc.prems(1) obtain s rs' where s: "handleFnResult decode encode True fqmn (Some req) (runs fqmn req) = Inr s"
    "(case ss_next s of None \<Rightarrow> Inr [] | Some (f, r) \<Rightarrow> mesh_run decode encode runs n f r) = Inr rs'"
    "rs = (case ss_result s of None \<Rightarrow> rs' | Some r \<Rightarrow> r # rs')"
    by (auto elim!: go_bind_InrE)
  have "(case ss_next s of None \<Rightarrow> [] | Some job \<Rightarrow> chain decode encode runs job) = rs'"
    using s(2) Suc.IH Suc.prems(2) handleFnResult_next(1)[OF assms(1) s(1)]
    by (fastforce split: option.split_asm prod.split_asm)
  then show ?case using s by (simp add: chain_unfold[OF assms(1)] split: option.split)
qed

section \<open>An execution in steps is \<open>Execute\<close>\<close>

text \<open>What \<open>Execute\<close> returns from a given point on, with the events that are still to come.\<close>

definition run_from :: "execResult option list \<Rightarrow> execution \<Rightarrow> (exec_error option \<times> sequence) prog" where
  "run_from es ex =
     (case ex_phase ex of
        Awaiting \<Rightarrow> prog_bind (Some (awaitResult es (ex_seq ex))) (\<lambda>(err, seq', es').
          case err of Some e \<Rightarrow> Some (Inr (Some e, seq')) | None \<Rightarrow> execute_loop es' seq')
      | Spinning \<Rightarrow> None
      | Outgoing out \<Rightarrow> Some (map_sum id (\<lambda>e. (e, ex_seq ex)) out))"

lemma execute_loop_spins:
  "execute_loop es seq = Some y \<Longrightarrow> loop_phase seq \<noteq> Spinning"
proof (rule execute_loop.raw_induct[where P = "\<lambda>es seq y. loop_phase seq \<noteq> Spinning"])
  fix loop events seq y
  assume IH: "\<And>es seq y. loop es seq = Some y \<Longrightarrow> loop_phase seq \<noteq> Spinning"
    and "(case NextStep seq of
        None \<Rightarrow> Some (Inr (None, seq))
      | Some i \<Rightarrow>
          if st_IsSingle (sq_steps seq ! i) then
            prog_bind (Some (awaitResult events seq)) (\<lambda>(err, seq', es).
              case err of Some e \<Rightarrow> Some (Inr (Some e, seq')) | None \<Rightarrow> loop es seq')
          else if st_IsGroup (sq_steps seq ! i) then Some (Inr (Some ErrCannotHandle, seq))
          else loop events seq) = Some y"
  then show "loop_phase seq \<noteq> Spinning"
    using IH[of events seq] by (cases "NextStep seq") (auto simp: loop_phase_def split: if_split_asm)
qed simp

lemma execute_loop_phase: "execute_loop es seq = run_from es \<lparr>ex_seq = seq, ex_phase = loop_phase seq\<rparr>"
proof (cases "loop_phase seq = Spinning")
  case True
  then have "execute_loop es seq = None" using execute_loop_spins by (metis not_Some_eq)
  with True show ?thesis by (simp add: run_from_def)
next
  case False
  then show ?thesis
    by (subst execute_loop.simps) (auto simp: run_from_def loop_phase_def split: option.split)
qed

lemma Execute_begin: "Execute ok es seq = run_from es (fst (begin_execution ok seq))"
  by (auto simp: Execute_def begin_execution_def run_from_def dispatchSingle_def split: option.split)

lemma awaitResult_Cons:
  "awaitResult (Some r # es) seq =
     (case awaitResult [Some r] seq of Inl p \<Rightarrow> Inl p | Inr (err, seq', _) \<Rightarrow> Inr (err, seq', es))"
  by (auto simp: awaitResult_def go_bind_def split: sum.split)

lemma run_from_take: "run_from (Some r # es) ex = run_from es (take_result r ex)"
proof (cases "ex_phase ex = Awaiting")
  case True
  then show ?thesis
    unfolding run_from_def[of "Some r # es"] take_result_def awaitResult_Cons[of r es]
    by (auto simp: execute_loop_phase run_from_def split: sum.split option.split)
next
  case False
  then show ?thesis by (cases "ex_phase ex") (simp_all add: run_from_def take_result_def)
qed

lemma Execute_taken:
  "Execute ok (map Some rs @ es) seq = run_from es (fold take_result rs (fst (begin_execution ok seq)))"
proof -
  have "run_from (map Some rs @ es) ex = run_from es (fold take_result rs ex)" for ex
    by (induction rs arbitrary: ex) (simp_all add: run_from_take)
  then show ?thesis by (simp add: Execute_begin)
qed

text \<open>Results that are no errors, in whatever order: each completes one step, and only the last one ends the wait.\<close>

lemma take_good:
  assumes "good_result r" "ex_phase ex = Awaiting" "sq_steps (ex_seq ex) = done @ s # todo" "\<forall>x \<in> set done. st_Completed x"
    and "\<forall>x \<in> set (s # todo). \<not> st_Completed x \<and> st_IsSingle x"
    and "rq_State (sq_req (ex_seq ex)) = Some st" "rq_RespHeaders (sq_req (ex_seq ex)) = Some hs"
  shows "\<exists>seq' hs'. take_result r ex = \<lparr>ex_seq = seq', ex_phase = (if todo = [] then Outgoing (Inr None) else Awaiting)\<rparr>
    \<and> sq_steps seq' = done @ s\<lparr>st_Completed := True\<rparr> # todo
    \<and> rq_State (sq_req seq') = Some (result_state [r] st) \<and> rq_RespHeaders (sq_req seq') = Some hs'"
proof -
  have s: "\<not> st_Completed s" using assms(5) by simp
  from await_good[OF assms(1,3,4) s assms(6,7), of "[]"] obtain seq' hs' where a:
    "awaitResult [Some r] (ex_seq ex) = Inr (None, seq', [])"
    "sq_steps seq' = (done @ [s\<lparr>st_Completed := True\<rparr>]) @ todo"
    "rq_State (sq_req seq') = Some (result_state [r] st)" "rq_RespHeaders (sq_req seq') = Some hs'" by auto
  have "\<forall>x \<in> set (done @ [s\<lparr>st_Completed := True\<rparr>]). st_Completed x" using assms(4) by simp
  from next_index_prefix[OF this, of todo]
  have "NextStep seq' = map_option (\<lambda>i. Suc (length done + i)) (next_index todo)"
    unfolding NextStep_def a(2) by simp
  then have "loop_phase seq' = (if todo = [] then Outgoing (Inr None) else Awaiting)"
    using assms(5) unfolding loop_phase_def a(2) by (cases todo) (simp_all add: nth_append)
  then show ?thesis using a assms(2) by (simp add: take_result_def)
qed

lemma gather_results:
  assumes "\<forall>r \<in> set rs. good_result r" "length rs \<le> length (sq_steps seq)" "sq_steps seq \<noteq> []"
    and "\<forall>s \<in> set (sq_steps seq). \<not> st_Completed s \<and> st_IsSingle s"
    and "rq_State (sq_req seq) = Some st" "rq_RespHeaders (sq_req seq) = Some hs"
  defines "ex \<equiv> fold take_result rs (fst (begin_execution True seq))"
  shows "ex_phase ex = (if length rs < length (sq_steps seq) then Awaiting else Outgoing (Inr None))
    \<and> sq_steps (ex_seq ex) = map (\<lambda>s. s\<lparr>st_Completed := True\<rparr>) (take (length rs) (sq_steps seq)) @ drop (length rs) (sq_steps seq)
    \<and> rq_State (sq_req (ex_seq ex)) = Some (result_state rs st) \<and> (\<exists>hs'. rq_RespHeaders (sq_req (ex_seq ex)) = Some hs')"
  using assms(1,2) unfolding ex_def
proof (induction rs rule: rev_induct)
  case Nil
  have "NextStep seq = Some 0" using assms(3,4) by (cases "sq_steps seq") (auto simp: NextStep_def)
  with assms(3,5,6) show ?case by (simp add: begin_execution_def result_state_def)
next
  case (snoc r rs)
  let ?ex = "fold take_result rs (fst (begin_execution True seq))" and ?n = "length rs" and ?ss = "sq_steps seq"
  have IH: "ex_phase ?ex = Awaiting"
    "sq_steps (ex_seq ?ex) = map (\<lambda>s. s\<lparr>st_Completed := True\<rparr>) (take ?n ?ss) @ ?ss ! ?n # drop (Suc ?n) ?ss"
    "rq_State (sq_req (ex_seq ?ex)) = Some (result_state rs st)"
    using snoc by (simp_all add: Cons_nth_drop_Suc)
  obtain hs' where hs: "rq_RespHeaders (sq_req (ex_seq ?ex)) = Some hs'" using snoc by auto
  have "set (?ss ! ?n # drop (Suc ?n) ?ss) \<subseteq> set ?ss"
    using snoc.prems(2) by (metis Cons_nth_drop_Suc length_append_singleton less_eq_Suc_le set_drop_subset)
  then have todo: "\<forall>x \<in> set (?ss ! ?n # drop (Suc ?n) ?ss). \<not> st_Completed x \<and> st_IsSingle x"
    using assms(4) by blast
  have good: "good_result r" using snoc.prems(1) by simp
  have dn: "\<forall>x \<in> set (map (\<lambda>s. s\<lparr>st_Completed := True\<rparr>) (take ?n ?ss)). st_Completed x" by auto
  from take_good[OF good IH(1,2) dn todo IH(3) hs] snoc.prems(2) show ?case
    by (auto simp: take_Suc_conv_app_nth result_state_def fun_eq_iff)
qed

text \<open>The order of results for different modules does not matter to the state.\<close>

lemma result_state_apply:
  assumes "distinct (map er_FQMN rs)"
  shows "result_state rs st k = (case find (\<lambda>r. er_FQMN r = k) rs of None \<Rightarrow> st k | Some r \<Rightarrow> Some (rp_Output (the (er_Response r))))"
  using assms
proof (induction rs rule: rev_induct)
  case (snoc r rs)
  have "find (\<lambda>r'. er_FQMN r' = er_FQMN r) rs = None"
    using snoc.prems by (auto simp: find_None_iff image_iff)
  moreover have "find P (xs @ [x]) = (case find P xs of None \<Rightarrow> find P [x] | Some y \<Rightarrow> Some y)" for P xs and x :: execResult
    by (induction xs) auto
  ultimately show ?case using snoc by (auto simp: result_state_def split: option.split)
qed (simp add: result_state_def)

lemma find_distinct:
  assumes "distinct (map f xs)" "mset xs = mset ys"
  shows "find (\<lambda>x. f x = k) xs = find (\<lambda>x. f x = k) ys"
proof -
  have d: "distinct (map f ys)" using assms by (metis mset_map mset_eq_imp_distinct_iff)
  have "find (\<lambda>x. f x = k) zs = Some x \<longleftrightarrow> x \<in> set zs \<and> f x = k" if "distinct (map f zs)" for zs x
    using that by (induction zs) auto
  with d assms show ?thesis by (metis mset_eq_setD not_Some_eq)
qed

lemma result_state_perm:
  assumes "distinct (map er_FQMN rs)" "mset rs = mset rs'"
  shows "result_state rs st = result_state rs' st"
proof
  fix k
  have "distinct (map er_FQMN rs')" using assms by (metis mset_map mset_eq_imp_distinct_iff)
  with assms show "result_state rs st k = result_state rs' st k"
    by (simp add: result_state_apply find_distinct[OF assms])
qed

section \<open>Every result is accounted for\<close>

text \<open>The results that are on their way to an execution, or that the nodes will make of its jobs.\<close>

definition traffic :: "(string \<Rightarrow> step list option) \<Rightarrow> (step list \<Rightarrow> string option) \<Rightarrow> (string \<Rightarrow> coord_request \<Rightarrow> fn_outcome) \<Rightarrow>
    mesh \<Rightarrow> string \<Rightarrow> execResult multiset" where
  "traffic decode encode runs m p =
     image_mset snd (filter_mset (\<lambda>x. fst x = p) (me_handlers m))
     + image_mset snd (filter_mset (\<lambda>x. fst x = p) (me_results m))
     + \<Sum>\<^sub># (image_mset (\<lambda>j. mset (chain decode encode runs j)) (filter_mset (\<lambda>j. rq_ID (snd j) = p) (me_jobs m)))"

definition seq_results :: "(string \<Rightarrow> step list option) \<Rightarrow> (step list \<Rightarrow> string option) \<Rightarrow> (string \<Rightarrow> coord_request \<Rightarrow> fn_outcome) \<Rightarrow>
    sequence \<Rightarrow> execResult multiset" where
  "seq_results decode encode runs seq =
     (case snd (begin_execution True seq) of None \<Rightarrow> {#} | Some job \<Rightarrow> mset (chain decode encode runs job))"

text \<open>An execution that has taken these results, in this order; with faults it may have failed to tunnel or timed out.\<close>

definition took :: "bool \<Rightarrow> sequence \<Rightarrow> execResult list \<Rightarrow> execution \<Rightarrow> bool" where
  "took faults seq rs ex \<longleftrightarrow>
     ex = fold take_result rs (fst (begin_execution True seq))
     \<or> faults \<and> rs = [] \<and> ex = fst (begin_execution False seq) \<and> ex_phase ex \<noteq> Awaiting
     \<or> faults \<and> (\<exists>ex'. ex' = fold take_result rs (fst (begin_execution True seq)) \<and> ex_phase ex' = Awaiting \<and> ex = time_out ex')"

definition fits :: "bool \<Rightarrow> 'a multiset \<Rightarrow> 'a multiset \<Rightarrow> bool" where
  "fits faults A B \<longleftrightarrow> A \<subseteq># B \<and> (A = B \<or> faults)"

definition accounted :: "(string \<Rightarrow> step list option) \<Rightarrow> (step list \<Rightarrow> string option) \<Rightarrow> (string \<Rightarrow> coord_request \<Rightarrow> fn_outcome) \<Rightarrow>
    bool \<Rightarrow> sequence \<Rightarrow> mesh \<Rightarrow> bool" where
  "accounted decode encode runs faults seq m =
     (if seq \<in># me_pending m
      then me_execs m (ParentID seq) = None \<and> me_done m (ParentID seq) = None
           \<and> traffic decode encode runs m (ParentID seq) = {#}
      else (\<exists>ex rs. took faults seq rs ex \<and>
           (me_execs m (ParentID seq) = Some ex \<and> me_done m (ParentID seq) = None
              \<and> fits faults (mset rs + traffic decode encode runs m (ParentID seq)) (seq_results decode encode runs seq)
            \<or> (\<exists>out. me_execs m (ParentID seq) = None \<and> me_done m (ParentID seq) = Some (out, ex_seq ex)
              \<and> ex_phase ex = Outgoing out \<and> mset rs \<subseteq># seq_results decode encode runs seq))))"

definition mesh_inv :: "(string \<Rightarrow> step list option) \<Rightarrow> (step list \<Rightarrow> string option) \<Rightarrow> (string \<Rightarrow> coord_request \<Rightarrow> fn_outcome) \<Rightarrow>
    bool \<Rightarrow> sequence list \<Rightarrow> mesh \<Rightarrow> bool" where
  "mesh_inv decode encode runs faults seqs m \<longleftrightarrow>
     encoding encode decode \<and> distinct (map ParentID seqs) \<and> me_pending m \<subseteq># mset seqs
     \<and> (\<forall>seq \<in> set seqs. accounted decode encode runs faults seq m)
     \<and> dom (me_execs m) \<subseteq> ParentID ` set seqs
     \<and> (\<forall>x \<in># me_handlers m. me_execs m (fst x) \<noteq> None)"

lemma fits_mono: "fits faults A B \<Longrightarrow> A' \<subseteq># A \<Longrightarrow> A' = A \<or> faults \<Longrightarrow> fits faults A' B"
  by (auto simp: fits_def intro: subset_mset.order_trans)

lemma mesh_inv_init:
  "encoding encode decode \<Longrightarrow> distinct (map ParentID seqs) \<Longrightarrow> mesh_inv decode encode runs faults seqs (mesh_init seqs)"
  by (simp add: mesh_inv_def mesh_init_def accounted_def traffic_def)

text \<open>What does not concern a request keeps its account.\<close>

lemma accounted_other:
  assumes "accounted decode encode runs faults seq m"
    and "seq \<in># me_pending m' \<longleftrightarrow> seq \<in># me_pending m"
    and "me_execs m' (ParentID seq) = me_execs m (ParentID seq)" "me_done m' (ParentID seq) = me_done m (ParentID seq)"
    and "traffic decode encode runs m' (ParentID seq) \<subseteq># traffic decode encode runs m (ParentID seq)"
    and "traffic decode encode runs m' (ParentID seq) = traffic decode encode runs m (ParentID seq) \<or> faults
       \<or> me_execs m (ParentID seq) = None"
  shows "accounted decode encode runs faults seq m'"
proof (cases "seq \<in># me_pending m")
  case True
  with assms show ?thesis by (simp add: accounted_def)
next
  case False
  with assms(1) obtain ex rs where t: "took faults seq rs ex" and
    c: "me_execs m (ParentID seq) = Some ex \<and> me_done m (ParentID seq) = None
              \<and> fits faults (mset rs + traffic decode encode runs m (ParentID seq)) (seq_results decode encode runs seq)
            \<or> (\<exists>out. me_execs m (ParentID seq) = None \<and> me_done m (ParentID seq) = Some (out, ex_seq ex)
              \<and> ex_phase ex = Outgoing out \<and> mset rs \<subseteq># seq_results decode encode runs seq)"
    unfolding accounted_def by auto
  have "fits faults (mset rs + traffic decode encode runs m' (ParentID seq)) (seq_results decode encode runs seq)"
    if "fits faults (mset rs + traffic decode encode runs m (ParentID seq)) (seq_results decode encode runs seq)"
      "me_execs m (ParentID seq) = Some ex"
    using that assms(5,6) by (auto intro: fits_mono)
  with t c False assms(2-4) show ?thesis unfolding accounted_def by auto
qed

lemma traffic_node:
  fixes runs send_ok tunnel_ok
  assumes "encoding encode decode" "job \<in># me_jobs m"
  defines "m' \<equiv> mesh_node decode encode runs send_ok tunnel_ok job m"
  shows "traffic decode encode runs m' p \<subseteq># traffic decode encode runs m p"
    "send_ok \<and> tunnel_ok \<Longrightarrow> traffic decode encode runs m' p = traffic decode encode runs m p"
proof -
  obtain J where J: "me_jobs m = add_mset job J" using assms(2) by (metis multi_member_split)
  obtain fqmn req where job: "job = (fqmn, req)" by force
  let ?h = "\<lambda>ok. handleFnResult decode encode ok fqmn (Some req) (runs fqmn req)"
  let ?own = "\<lambda>s. mset_option (ss_result s) + (case ss_next s of None \<Rightarrow> {#} | Some j \<Rightarrow> mset (chain decode encode runs j))"
  have chain: "mset (chain decode encode runs job) = (case ?h True of Inl _ \<Rightarrow> {#} | Inr s \<Rightarrow> ?own s)"
    using chain_unfold[OF assms(1), of runs fqmn req]
    by (auto simp: job mset_option_def split: sum.split option.split)
  have silent: "?h False = Inr s \<Longrightarrow> ss_result s = None \<and> ss_next s = None" for s
    by (auto simp: handleFnResult_def Let_def split: sum.split_asm if_split_asm elim!: go_bind_InrE)
  have ID: "?h ok = Inr s \<Longrightarrow> ss_next s = Some (f, r) \<Longrightarrow> rq_ID r = rq_ID req" for ok s f r
    using handleFnResult_next(2)[OF assms(1)] by blast
  let ?base = "traffic decode encode runs (m\<lparr>me_jobs := J\<rparr>) p"
  let ?left = "\<lambda>s. mset_option (ss_result s)
     + (if tunnel_ok then case ss_next s of None \<Rightarrow> {#} | Some j \<Rightarrow> mset (chain decode encode runs j) else {#})"
  have before: "traffic decode encode runs m p
      = ?base + (if rq_ID req = p then mset (chain decode encode runs job) else {#})"
    by (simp add: traffic_def J job)
  have after: "traffic decode encode runs m' p = (case ?h send_ok of Inl _ \<Rightarrow> ?base
      | Inr s \<Rightarrow> ?base + (if rq_ID req = p then ?left s else {#}))"
  proof (cases "?h send_ok")
    case (Inr s)
    have next_job: "filter_mset (\<lambda>j. rq_ID (snd j) = p) (mset_option (ss_next s))
        = (if rq_ID req = p then mset_option (ss_next s) else {#})"
      using ID[OF Inr] by (cases "ss_next s") (auto simp: mset_option_def)
    show ?thesis
      unfolding m'_def mesh_node_def traffic_def J job prod.case Let_def Inr sum.case
      by (cases "ss_result s"; cases "ss_next s"; cases tunnel_ok)
        (use next_job in \<open>simp_all add: mset_option_def split: if_split_asm\<close>)
  qed (simp add: m'_def mesh_node_def traffic_def J job Let_def)
  have left: "?left s \<subseteq># (case ?h True of Inl _ \<Rightarrow> {#} | Inr s \<Rightarrow> ?own s)" if "?h send_ok = Inr s" for s
    using that silent by (cases send_ok) (auto simp: mset_option_def)
  show "traffic decode encode runs m' p \<subseteq># traffic decode encode runs m p"
    unfolding before after chain using left by (cases "?h send_ok") auto
  show "traffic decode encode runs m' p = traffic decode encode runs m p" if "send_ok \<and> tunnel_ok"
    unfolding before after chain using that by (cases "?h send_ok") auto
qed

text \<open>A step that moves or loses messages only, and one that concerns a single request.\<close>

lemma mesh_inv_quiet:
  assumes "mesh_inv decode encode runs faults seqs m"
    and "me_pending m' = me_pending m" "me_execs m' = me_execs m" "me_done m' = me_done m"
    and "\<And>p. traffic decode encode runs m' p \<subseteq># traffic decode encode runs m p"
    and "\<And>p. traffic decode encode runs m' p = traffic decode encode runs m p \<or> faults \<or> me_execs m p = None"
    and "\<forall>x \<in># me_handlers m'. me_execs m' (fst x) \<noteq> None"
  shows "mesh_inv decode encode runs faults seqs m'"
  using assms accounted_other[of decode encode runs faults _ m m'] unfolding mesh_inv_def by auto

lemma mesh_inv_single:
  assumes "mesh_inv decode encode runs faults seqs m" "seq \<in> set seqs"
    and "me_pending m' = me_pending m \<or> me_pending m' = me_pending m - {#seq#}"
    and "\<And>p. p \<noteq> ParentID seq \<Longrightarrow> me_execs m' p = me_execs m p \<and> me_done m' p = me_done m p
           \<and> traffic decode encode runs m' p = traffic decode encode runs m p"
    and "accounted decode encode runs faults seq m'"
    and "\<forall>x \<in># me_handlers m'. me_execs m' (fst x) \<noteq> None"
  shows "mesh_inv decode encode runs faults seqs m'"
proof -
  have ids: "ParentID seq' \<noteq> ParentID seq" if "seq' \<in> set seqs" "seq' \<noteq> seq" for seq'
    using assms(1,2) that unfolding mesh_inv_def by (auto simp: distinct_map dest: inj_onD)
  have "accounted decode encode runs faults seq' m'" if "seq' \<in> set seqs" for seq'
  proof (cases "seq' = seq")
    case False
    with ids that have p: "ParentID seq' \<noteq> ParentID seq" by simp
    have "seq' \<in># me_pending m' \<longleftrightarrow> seq' \<in># me_pending m"
      using assms(3) False by (auto simp: in_diff_count elim: in_diffD)
    with accounted_other[of decode encode runs faults seq' m m'] assms(4)[OF p] assms(1) that show ?thesis
      by (auto simp: mesh_inv_def)
  qed (use assms(5) in simp)
  moreover have "dom (me_execs m') \<subseteq> ParentID ` set seqs"
  proof
    fix p assume "p \<in> dom (me_execs m')"
    then show "p \<in> ParentID ` set seqs"
      using assms(1,2) assms(4)[of p] by (cases "p = ParentID seq") (auto simp: mesh_inv_def dom_def)
  qed
  moreover have "me_pending m' \<subseteq># mset seqs"
    using assms(1,3) subset_mset.order_trans[OF diff_subset_eq_self, of "me_pending m" "mset seqs" "{#seq#}"]
    by (auto simp: mesh_inv_def)
  ultimately show ?thesis using assms(1,6) unfolding mesh_inv_def by simp
qed

lemma begin_execution_ID: "snd (begin_execution ok seq) = Some (f, r) \<Longrightarrow> rq_ID r = ParentID seq"
  by (auto simp: begin_execution_def ParentID_def split: option.split_asm if_split_asm)

lemma inv_start:
  assumes "mesh_inv decode encode runs faults seqs m" "seq \<in># me_pending m" "tunnel_ok \<or> faults"
    and "mesh_start tunnel_ok seq m = Some m'"
  shows "mesh_inv decode encode runs faults seqs m'"
proof -
  obtain ex job where b: "begin_execution tunnel_ok seq = (ex, job)" by force
  from assms(4) have m': "m' = m\<lparr>me_pending := me_pending m - {#seq#}, me_execs := (me_execs m)(ParentID seq \<mapsto> ex),
      me_jobs := me_jobs m + mset_option job\<rparr>" and no: "me_handlers m = {#}"
    by (auto simp: mesh_start_def b split: if_split_asm)
  have seq: "seq \<in> set seqs" using assms(1,2) unfolding mesh_inv_def by (metis mset_subset_eqD set_mset_mset)
  have acc: "accounted decode encode runs faults seq m" using assms(1) seq unfolding mesh_inv_def by blast
  then have idle: "me_execs m (ParentID seq) = None" "me_done m (ParentID seq) = None"
    "traffic decode encode runs m (ParentID seq) = {#}" using assms(2) by (simp_all add: accounted_def)
  have "distinct seqs" using assms(1) unfolding mesh_inv_def by (simp add: distinct_map)
  then have "count (mset seqs) seq \<le> 1" by (simp add: distinct_count_atmost_1)
  moreover have "count (me_pending m) seq \<le> count (mset seqs) seq"
    using assms(1) unfolding mesh_inv_def by (simp add: mset_subset_eq_count)
  ultimately have gone: "seq \<notin># me_pending m'" using m' by (simp add: not_in_iff)
  have tr: "traffic decode encode runs m' p = traffic decode encode runs m p
      + (if p = ParentID seq then (case job of None \<Rightarrow> {#} | Some j \<Rightarrow> mset (chain decode encode runs j)) else {#})" for p
    using begin_execution_ID[of tunnel_ok seq] b m'
    by (cases job) (auto simp: traffic_def mset_option_def)
  have fits: "fits faults (case job of None \<Rightarrow> {#} | Some j \<Rightarrow> mset (chain decode encode runs j)) (seq_results decode encode runs seq)"
    using b assms(3) by (cases tunnel_ok) (auto simp: fits_def seq_results_def begin_execution_def split: option.split_asm)
  have "took faults seq [] ex"
    using b assms(3) by (cases tunnel_ok) (auto simp: took_def begin_execution_def split: option.split_asm)
  with fits gone idle tr[of "ParentID seq"] m' have "accounted decode encode runs faults seq m'"
    unfolding accounted_def by (intro if_not_P[THEN iffD2]) auto
  then show ?thesis
    by (intro mesh_inv_single[OF assms(1) seq]) (use m' tr no in auto)
qed

lemma begin_execution_running:
  "took faults seq rs ex \<Longrightarrow> ex_phase ex = Awaiting \<Longrightarrow> ex = fold take_result rs (fst (begin_execution True seq))"
  by (auto simp: took_def time_out_def)

text \<open>The account of a request whose execution is running.\<close>

lemma accounted_running:
  assumes "mesh_inv decode encode runs faults seqs m" "me_execs m p = Some ex"
  obtains seq rs where "seq \<in> set seqs" "p = ParentID seq" "seq \<notin># me_pending m" "took faults seq rs ex"
    "me_done m p = None"
    "fits faults (mset rs + traffic decode encode runs m p) (seq_results decode encode runs seq)"
proof -
  from assms obtain seq where seq: "seq \<in> set seqs" "p = ParentID seq" unfolding mesh_inv_def by blast
  then have "accounted decode encode runs faults seq m" using assms(1) unfolding mesh_inv_def by blast
  with assms(2) seq show thesis
    by (auto simp: accounted_def split: if_split_asm intro: that[of seq])
qed

lemma inv_hand:
  assumes "mesh_inv decode encode runs faults seqs m" "res \<in># me_handlers m" "mesh_hand res m = Some m'"
  shows "mesh_inv decode encode runs faults seqs m'"
proof -
  obtain p r where res: "res = (p, r)" by force
  obtain H where H: "me_handlers m = add_mset res H" using assms(2) by (metis multi_member_split)
  from assms(3) obtain ex where ex: "me_execs m p = Some ex" "ex_phase ex = Awaiting"
    and m': "m' = m\<lparr>me_handlers := H, me_execs := (me_execs m)(p \<mapsto> take_result r ex)\<rparr>"
    by (auto simp: mesh_hand_def res H split: option.split_asm if_split_asm)
  from accounted_running[OF assms(1) ex(1)] obtain seq rs where seq: "seq \<in> set seqs" "p = ParentID seq"
    "seq \<notin># me_pending m" "took faults seq rs ex" "me_done m p = None"
    "fits faults (mset rs + traffic decode encode runs m p) (seq_results decode encode runs seq)" .
  have tr: "traffic decode encode runs m q = traffic decode encode runs m' q + (if q = p then {#r#} else {#})" for q
    by (simp add: traffic_def m' H res)
  have "took faults seq (rs @ [r]) (take_result r ex)"
    using begin_execution_running[OF seq(4) ex(2)] by (simp add: took_def)
  moreover have "fits faults (mset (rs @ [r]) + traffic decode encode runs m' p) (seq_results decode encode runs seq)"
    using seq(6) tr[of p] by simp
  ultimately have "accounted decode encode runs faults seq m'"
    using seq(2,3,5) unfolding accounted_def by (auto simp: m')
  then show ?thesis
    by (intro mesh_inv_single[OF assms(1) seq(1)]) (use m' tr seq(2) assms(1) H in \<open>auto simp: mesh_inv_def\<close>)
qed

lemma inv_return:
  assumes "mesh_inv decode encode runs faults seqs m" "mesh_return p m = Some m'"
  shows "mesh_inv decode encode runs faults seqs m'"
proof -
  from assms(2) obtain ex out where ex: "me_execs m p = Some ex" "ex_phase ex = Outgoing out" "me_handlers m = {#}"
    and m': "m' = m\<lparr>me_execs := (me_execs m)(p := None), me_done := (me_done m)(p \<mapsto> (out, ex_seq ex))\<rparr>"
    by (auto simp: mesh_return_def split: option.split_asm phase.split_asm if_split_asm)
  from accounted_running[OF assms(1) ex(1)] obtain seq rs where seq: "seq \<in> set seqs" "p = ParentID seq"
    "seq \<notin># me_pending m" "took faults seq rs ex"
    "fits faults (mset rs + traffic decode encode runs m p) (seq_results decode encode runs seq)" by metis
  have "mset rs \<subseteq># seq_results decode encode runs seq"
    using seq(5) subset_mset.order_trans[OF mset_subset_eq_add_left] unfolding fits_def by blast
  with seq ex(2) have "accounted decode encode runs faults seq m'"
    unfolding accounted_def by (auto simp: m')
  then show ?thesis
    by (intro mesh_inv_single[OF assms(1) seq(1)]) (use m' seq(2) ex(3) in \<open>auto simp: traffic_def\<close>)
qed

lemma inv_timeout:
  assumes "mesh_inv decode encode runs True seqs m" "me_execs m p = Some ex" "ex_phase ex = Awaiting"
  shows "mesh_inv decode encode runs True seqs (m\<lparr>me_execs := (me_execs m)(p \<mapsto> time_out ex)\<rparr>)"
proof -
  let ?m = "m\<lparr>me_execs := (me_execs m)(p \<mapsto> time_out ex)\<rparr>"
  from accounted_running[OF assms(1,2)] obtain seq rs where seq: "seq \<in> set seqs" "p = ParentID seq"
    "seq \<notin># me_pending m" "took True seq rs ex" "me_done m p = None"
    "fits True (mset rs + traffic decode encode runs m p) (seq_results decode encode runs seq)" .
  have "took True seq rs (time_out ex)"
    using begin_execution_running[OF seq(4) assms(3)] assms(3) unfolding took_def by blast
  moreover have tr: "traffic decode encode runs ?m = traffic decode encode runs m"
    by (simp add: traffic_def fun_eq_iff)
  ultimately have "accounted decode encode runs True seq ?m"
    using seq unfolding accounted_def by auto
  then show ?thesis
    by (intro mesh_inv_single[OF assms(1) seq(1)]) (use seq(2) tr assms(1) in \<open>auto simp: mesh_inv_def\<close>)
qed

lemma inv_receive:
  assumes "mesh_inv decode encode runs faults seqs m" "res \<in># me_results m"
  shows "mesh_inv decode encode runs faults seqs (mesh_receive res m)"
proof -
  obtain R where R: "me_results m = add_mset res R" using assms(2) by (metis multi_member_split)
  show ?thesis
    by (rule mesh_inv_quiet[OF assms(1)])
      (use assms(1) in \<open>auto simp: mesh_receive_def traffic_def R mesh_inv_def\<close>)
qed

lemma mesh_inv_step:
  assumes "mesh_step decode encode runs faults m m'" "mesh_inv decode encode runs faults seqs m"
  shows "mesh_inv decode encode runs faults seqs m'"
  using assms(1)
proof cases
  case (ms_node job send_ok tunnel_ok)
  have "encoding encode decode" using assms(2) unfolding mesh_inv_def by blast
  note tr = traffic_node[OF this ms_node(2), where runs = runs and send_ok = send_ok and tunnel_ok = tunnel_ok]
  show ?thesis unfolding ms_node(1)
    by (intro mesh_inv_quiet[OF assms(2)])
      (use assms(2) ms_node(3,4) tr in \<open>auto simp: mesh_node_def mesh_inv_def Let_def split: prod.split sum.split\<close>)
next
  case (ms_lose_job job)
  then obtain J where "me_jobs m = add_mset job J" by (metis multi_member_split)
  then show ?thesis unfolding ms_lose_job(1)
    by (intro mesh_inv_quiet[OF assms(2)]) (use assms(2) ms_lose_job(2) in \<open>auto simp: traffic_def mesh_inv_def\<close>)
next
  case (ms_lose_result res)
  then obtain R where "me_results m = add_mset res R" by (metis multi_member_split)
  then show ?thesis unfolding ms_lose_result(1)
    by (intro mesh_inv_quiet[OF assms(2)]) (use assms(2) ms_lose_result(2) in \<open>auto simp: traffic_def mesh_inv_def\<close>)
next
  case (ms_start seq tunnel_ok)
  then show ?thesis by (rule inv_start[OF assms(2)])
next
  case (ms_receive res)
  then show ?thesis using inv_receive[OF assms(2)] by simp
next
  case (ms_hand res)
  then show ?thesis by (rule inv_hand[OF assms(2)])
next
  case (ms_return p)
  then show ?thesis by (rule inv_return[OF assms(2)])
next
  case (ms_timeout p ex)
  then show ?thesis using inv_timeout[of decode encode runs seqs m p ex] assms(2) by simp
qed

section \<open>Every run ends\<close>

definition phase_weight :: "execution option \<Rightarrow> nat" where
  "phase_weight x = (case x of None \<Rightarrow> 0 | Some ex \<Rightarrow> (case ex_phase ex of Outgoing _ \<Rightarrow> 1 | _ \<Rightarrow> 2))"

definition mesh_weight :: "(string \<Rightarrow> step list option) \<Rightarrow> sequence list \<Rightarrow> mesh \<Rightarrow> nat" where
  "mesh_weight decode seqs m =
     (\<Sum>seq\<in>#me_pending m. 3 * incomplete decode (sq_req seq) + 4)
     + (\<Sum>j\<in>#me_jobs m. 3 * incomplete decode (snd j) + 1)
     + 2 * size (me_results m) + size (me_handlers m)
     + (\<Sum>seq\<leftarrow>seqs. phase_weight (me_execs m (ParentID seq)))"

lemma phase_weight_simps [simp]:
  "phase_weight None = 0" "phase_weight (Some ex) \<le> 2" "0 < phase_weight (Some ex)"
  "ex_phase ex = Outgoing out \<Longrightarrow> phase_weight (Some ex) = 1"
  "ex_phase ex = Awaiting \<Longrightarrow> phase_weight (Some ex) = 2"
  by (auto simp: phase_weight_def split: option.split phase.split)

lemma phases_update:
  assumes "distinct (map ParentID seqs)" "seq \<in> set seqs"
  shows "(\<Sum>s\<leftarrow>seqs. phase_weight ((execs(ParentID seq := v)) (ParentID s))) + phase_weight (execs (ParentID seq))
      = (\<Sum>s\<leftarrow>seqs. phase_weight (execs (ParentID s))) + phase_weight v"
  using assms
proof (induction seqs)
  case (Cons a seqs)
  have *: "(\<Sum>s\<leftarrow>seqs. phase_weight ((execs(q := v)) (ParentID s))) = (\<Sum>s\<leftarrow>seqs. phase_weight (execs (ParentID s)))"
    if "q \<notin> ParentID ` set seqs" for q
    using that by (intro arg_cong[where f = sum_list] map_cong) auto
  show ?case
  proof (cases "a = seq")
    case True
    with Cons.prems *[of "ParentID seq"] show ?thesis by simp
  next
    case False
    with Cons.prems have "seq \<in> set seqs" "ParentID a \<noteq> ParentID seq" by force+
    with Cons show ?thesis by simp
  qed
qed simp

lemma begin_execution_weight:
  "begin_execution ok seq = (ex, job) \<Longrightarrow> job = None \<or> job = Some (st_FQMN (sq_steps seq ! the (NextStep seq)), sq_req seq)"
  by (auto simp: begin_execution_def split: option.split_asm if_split_asm)

lemma node_weight:
  assumes "encoding encode decode" "job \<in># me_jobs m"
  shows "mesh_weight decode seqs (mesh_node decode encode runs send_ok tunnel_ok job m) < mesh_weight decode seqs m"
proof -
  obtain J where J: "me_jobs m = add_mset job J" using assms(2) by (metis multi_member_split)
  obtain fqmn req where job: "job = (fqmn, req)" by force
  show ?thesis
  proof (cases "handleFnResult decode encode send_ok fqmn (Some req) (runs fqmn req)")
    case (Inl p)
    then show ?thesis by (simp add: mesh_node_def mesh_weight_def J job)
  next
    case (Inr s)
    note handleFnResult_result[OF Inr] handleFnResult_next(1)[OF assms(1) Inr]
    with Inr show ?thesis
      by (cases "ss_result s"; cases "ss_next s"; cases tunnel_ok)
        (fastforce simp: mesh_node_def mesh_weight_def J job mset_option_def)+
  qed
qed

lemma mesh_weight_step:
  assumes "mesh_step decode encode runs faults m m'" "mesh_inv decode encode runs faults seqs m"
  shows "mesh_weight decode seqs m' < mesh_weight decode seqs m"
proof -
  have enc: "encoding encode decode" and ids: "distinct (map ParentID seqs)" using assms(2) unfolding mesh_inv_def by blast+
  have running: "\<exists>seq \<in> set seqs. p = ParentID seq" if "me_execs m p = Some ex" for p ex
    using assms(2) that unfolding mesh_inv_def by blast
  show ?thesis
    using assms(1)
  proof cases
    case (ms_start seq tunnel_ok)
    obtain ex job where b: "begin_execution tunnel_ok seq = (ex, job)" by force
    have seq: "seq \<in> set seqs" using assms(2) ms_start(1) unfolding mesh_inv_def by (metis mset_subset_eqD set_mset_mset)
    have "accounted decode encode runs faults seq m" using assms(2) seq unfolding mesh_inv_def by blast
    with ms_start(1) have idle: "me_execs m (ParentID seq) = None" by (simp add: accounted_def)
    obtain P where P: "me_pending m = add_mset seq P" using ms_start(1) by (metis multi_member_split)
    have "phase_weight (Some ex) < 3" by (rule le_less_trans[OF phase_weight_simps(2)]) simp
    with ms_start(3) show ?thesis
      using begin_execution_weight[OF b] phases_update[OF ids seq, of "me_execs m" "Some ex"] idle
      by (auto simp: mesh_start_def b P mesh_weight_def mset_option_def split: if_split_asm)
  next
    case (ms_node job send_ok tunnel_ok)
    then show ?thesis using node_weight[OF enc] by simp
  next
    case (ms_receive res)
    then obtain R where "me_results m = add_mset res R" by (metis multi_member_split)
    then show ?thesis by (simp add: ms_receive mesh_receive_def mesh_weight_def)
  next
    case (ms_hand res)
    then obtain H where H: "me_handlers m = add_mset res H" by (metis multi_member_split)
    from ms_hand(2) obtain ex where ex: "me_execs m (fst res) = Some ex" "ex_phase ex = Awaiting"
      "m' = m\<lparr>me_handlers := H, me_execs := (me_execs m)(fst res \<mapsto> take_result (snd res) ex)\<rparr>"
      by (auto simp: mesh_hand_def H split: option.split_asm if_split_asm)
    from running[OF ex(1)] obtain seq where seq: "seq \<in> set seqs" "fst res = ParentID seq" by blast
    have "phase_weight (Some (take_result (snd res) ex)) < 3" by (rule le_less_trans[OF phase_weight_simps(2)]) simp
    with phases_update[OF ids seq(1), of "me_execs m" "Some (take_result (snd res) ex)"] ex seq(2)
    show ?thesis by (simp add: mesh_weight_def H)
  next
    case (ms_return p)
    then obtain ex out where ex: "me_execs m p = Some ex" "ex_phase ex = Outgoing out"
      "m' = m\<lparr>me_execs := (me_execs m)(p := None), me_done := (me_done m)(p \<mapsto> (out, ex_seq ex))\<rparr>"
      by (auto simp: mesh_return_def split: option.split_asm phase.split_asm if_split_asm)
    from running[OF ex(1)] obtain seq where seq: "seq \<in> set seqs" "p = ParentID seq" by blast
    from phases_update[OF ids seq(1), of "me_execs m" None] ex seq(2)
    show ?thesis by (simp add: mesh_weight_def)
  next
    case (ms_timeout p ex)
    from running[OF ms_timeout(3)] obtain seq where seq: "seq \<in> set seqs" "p = ParentID seq" by blast
    have "ex_phase (time_out ex) = Outgoing (Inr (Some ErrDispatchTimeout))" by (simp add: time_out_def)
    with phases_update[OF ids seq(1), of "me_execs m" "Some (time_out ex)"] ms_timeout(3,4) seq(2)
    show ?thesis by (simp add: ms_timeout(1) mesh_weight_def)
  next
    case (ms_lose_job job)
    then obtain J where "me_jobs m = add_mset job J" by (metis multi_member_split)
    then show ?thesis by (simp add: ms_lose_job(1) mesh_weight_def)
  next
    case (ms_lose_result res)
    then obtain R where "me_results m = add_mset res R" by (metis multi_member_split)
    then show ?thesis by (simp add: ms_lose_result(1) mesh_weight_def)
  qed
qed

interpretation meshes: ending_system "mesh_step decode encode runs faults" "mesh_inv decode encode runs faults seqs"
    "mesh_weight decode seqs" for decode encode runs faults seqs
  by unfold_locales (use mesh_inv_step mesh_weight_step in blast)+

section \<open>Requests that complete\<close>

text \<open>
  Nothing can happen any more, but that results wait to be taken in while an execution that ends or
  begins waits for the write lock: such a writer holds up new readers.
\<close>

definition mesh_ended :: "mesh \<Rightarrow> bool" where
  "mesh_ended m \<longleftrightarrow> me_jobs m = {#} \<and> (me_handlers m = {#} \<longrightarrow> me_pending m = {#} \<and> me_results m = {#})
     \<and> (\<forall>res \<in># me_handlers m. mesh_hand res m = None) \<and> (\<forall>p. mesh_return p m = None)"

lemma not_ended_steps:
  assumes "\<not> mesh_ended m"
  shows "\<exists>m'. mesh_step decode encode runs faults m m'"
proof (rule ccontr)
  assume no: "\<nexists>m'. mesh_step decode encode runs faults m m'"
  have "me_jobs m = {#}" using no ms_node[where send_ok = True and tunnel_ok = True] by (metis multiset_nonemptyE)
  moreover have "me_results m = {#}" using no ms_receive by (metis multiset_nonemptyE)
  moreover have "\<forall>res \<in># me_handlers m. mesh_hand res m = None" using no ms_hand by (metis not_Some_eq)
  moreover have "\<forall>p. mesh_return p m = None" using no ms_return by (metis not_Some_eq)
  moreover have "me_pending m = {#}" if none: "me_handlers m = {#}"
  proof (rule ccontr)
    assume "me_pending m \<noteq> {#}"
    then obtain seq where "seq \<in># me_pending m" by (metis multiset_nonemptyE)
    moreover obtain m' where "mesh_start True seq m = Some m'"
      using none by (cases "begin_execution True seq") (simp add: mesh_start_def)
    ultimately show False using no ms_start[where tunnel_ok = True] by blast
  qed
  ultimately show False using assms unfolding mesh_ended_def by blast
qed

text \<open>A request of single steps for different modules, none of them done.\<close>

definition single_request :: "(step list \<Rightarrow> string option) \<Rightarrow> sequence \<Rightarrow> bool" where
  "single_request encode seq \<longleftrightarrow> sq_steps seq \<noteq> [] \<and> (\<forall>s \<in> set (sq_steps seq). \<not> st_Completed s \<and> st_IsSingle s)
     \<and> distinct (map st_FQMN (sq_steps seq)) \<and> encode (sq_steps seq) = Some (rq_SequenceJSON (sq_req seq))
     \<and> rq_State (sq_req seq) \<noteq> None \<and> rq_RespHeaders (sq_req seq) \<noteq> None"

lemma New_single_request:
  assumes "New encode steps req = Inr seq" "steps \<noteq> []" "\<forall>s \<in> set steps. st_IsSingle s" "distinct (map st_FQMN steps)"
    and "rq_State req \<noteq> None" "rq_RespHeaders req \<noteq> None"
  shows "single_request encode seq"
  using assms by (auto simp: single_request_def New_def newWithSteps_def createUncompletedSteps_def comp_def split: option.split_asm)

lemma single_request_results:
  assumes "encoding encode decode" "\<And>fqmn req. \<exists>resp. runs fqmn req = FnResponse resp" "single_request encode seq"
  obtains rs where
    "mesh_run decode encode runs (length (sq_steps seq)) (st_FQMN (hd (sq_steps seq))) (sq_req seq) = Inr rs"
    "seq_results decode encode runs seq = mset rs" "map er_FQMN rs = map st_FQMN (sq_steps seq)"
    "\<forall>r \<in> set rs. good_result r" "incomplete decode (sq_req seq) = length (sq_steps seq)"
proof -
  have q: "sq_steps seq \<noteq> []" "\<forall>s \<in> set (sq_steps seq). \<not> st_Completed s"
    "encode ([] @ sq_steps seq) = Some (rq_SequenceJSON (sq_req seq))"
    using assms(3) by (simp_all add: single_request_def)
  obtain st hs where "rq_State (sq_req seq) = Some st" "rq_RespHeaders (sq_req seq) = Some hs"
    using assms(3) by (auto simp: single_request_def)
  from mesh_run_good[of encode decode runs, OF assms(1,2) q(3) _ q(2,1) _ this, of "length (sq_steps seq)"] obtain rs where
    rs: "mesh_run decode encode runs (length (sq_steps seq)) (st_FQMN (hd (sq_steps seq))) (sq_req seq) = Inr rs"
    "map er_FQMN rs = map st_FQMN (sq_steps seq)" "\<forall>r \<in> set rs. good_result r"
    by auto
  have inc: "incomplete decode (sq_req seq) = length (sq_steps seq)"
    using encoding_decodes[OF assms(1), of "sq_steps seq"] q(2,3) by (simp add: incomplete_def filter_id_conv)
  have "NextStep seq = Some 0" using q(1,2) by (cases "sq_steps seq") (auto simp: NextStep_def)
  then have "seq_results decode encode runs seq = mset rs"
    using chain_mesh_run[OF assms(1) rs(1)] inc q(1) by (simp add: seq_results_def begin_execution_def hd_conv_nth)
  with rs inc that show thesis by blast
qed

text \<open>An execution that has taken some of its results, in any order.\<close>

lemma single_request_took:
  assumes "single_request encode seq" "took False seq rs' ex" "mset rs' \<subseteq># mset rs"
    and "map er_FQMN rs = map st_FQMN (sq_steps seq)" "\<forall>r \<in> set rs. good_result r"
  shows "mset rs' \<noteq> mset rs \<Longrightarrow> ex_phase ex = Awaiting"
    and "mset rs' = mset rs \<Longrightarrow> ex_phase ex = Outgoing (Inr None)
      \<and> rq_State (sq_req (ex_seq ex)) = Some (result_state rs (the (rq_State (sq_req seq))))"
    and "ex_phase ex \<noteq> Awaiting \<Longrightarrow> mset rs' = mset rs"
proof -
  obtain st hs where st: "rq_State (sq_req seq) = Some st" "rq_RespHeaders (sq_req seq) = Some hs"
    using assms(1) by (auto simp: single_request_def)
  have len: "length rs = length (sq_steps seq)" using assms(4) by (metis length_map)
  have le: "length rs' \<le> length (sq_steps seq)" using size_mset_mono[OF assms(3)] len by simp
  have good: "\<forall>r \<in> set rs'. good_result r" using assms(5) set_mset_mono[OF assms(3)] by auto
  have ex: "ex = fold take_result rs' (fst (begin_execution True seq))" using assms(2) by (simp add: took_def)
  have g: "ex_phase ex = (if length rs' < length (sq_steps seq) then Awaiting else Outgoing (Inr None))"
    "rq_State (sq_req (ex_seq ex)) = Some (result_state rs' st)"
    using gather_results[OF good le _ _ st] assms(1) unfolding ex single_request_def by blast+
  have less: "mset rs' \<noteq> mset rs \<Longrightarrow> length rs' < length rs"
    using assms(3) mset_subset_size[of "mset rs'" "mset rs"] by (simp add: subset_mset.less_le)
  then show "mset rs' \<noteq> mset rs \<Longrightarrow> ex_phase ex = Awaiting" using g(1) len by simp
  show "ex_phase ex = Outgoing (Inr None)
      \<and> rq_State (sq_req (ex_seq ex)) = Some (result_state rs (the (rq_State (sq_req seq))))" if eq: "mset rs' = mset rs"
  proof -
    have "distinct (map er_FQMN rs)" using assms(1,4) by (simp add: single_request_def)
    from result_state_perm[OF this eq[symmetric]] have "result_state rs st = result_state rs' st" .
    moreover have "length rs' = length rs" using eq by (rule mset_eq_length)
    ultimately show ?thesis using g st(1) len by simp
  qed
  show "ex_phase ex \<noteq> Awaiting \<Longrightarrow> mset rs' = mset rs" using less g(1) len by (metis)
qed

section \<open>Properties\<close>

lemma ended_completes:
  assumes "encoding encode decode" "\<And>fqmn req. \<exists>resp. runs fqmn req = FnResponse resp"
    and "\<And>seq. seq \<in> set seqs \<Longrightarrow> single_request encode seq" "mesh_inv decode encode runs False seqs m" "mesh_ended m"
    and "seq \<in> set seqs"
  shows "\<exists>rs seq'. mesh_run decode encode runs (length (sq_steps seq)) (st_FQMN (hd (sq_steps seq))) (sq_req seq) = Inr rs
    \<and> me_done m (ParentID seq) = Some (Inr None, seq')
    \<and> rq_State (sq_req seq') = Some (result_state rs (the (rq_State (sq_req seq))))"
proof -
  have running: "ex_phase ex = (if traffic decode encode runs m p = {#} then Outgoing (Inr None) else Awaiting)"
    if "me_execs m p = Some ex" for p ex
  proof -
    from accounted_running[OF assms(4) that] obtain seq rs' where a: "seq \<in> set seqs" "took False seq rs' ex"
      "fits False (mset rs' + traffic decode encode runs m p) (seq_results decode encode runs seq)" by blast
    from single_request_results[where runs = runs, OF assms(1,2) assms(3)[OF a(1)]] obtain rs where
      "mesh_run decode encode runs (length (sq_steps seq)) (st_FQMN (hd (sq_steps seq))) (sq_req seq) = Inr rs"
      and rs: "seq_results decode encode runs seq = mset rs" "map er_FQMN rs = map st_FQMN (sq_steps seq)"
        "\<forall>r \<in> set rs. good_result r" "incomplete decode (sq_req seq) = length (sq_steps seq)" .
    have all: "mset rs' + traffic decode encode runs m p = mset rs" using a(3) rs(1) by (simp add: fits_def)
    then have sub: "mset rs' \<subseteq># mset rs" by (metis mset_subset_eq_add_left)
    note single_request_took(1,2)[OF assms(3)[OF a(1)] a(2) sub rs(2,3)]
    then have "mset rs' = mset rs \<Longrightarrow> ex_phase ex = Outgoing (Inr None)" "mset rs' \<noteq> mset rs \<Longrightarrow> ex_phase ex = Awaiting"
      by blast+
    moreover have "mset rs' = mset rs \<longleftrightarrow> traffic decode encode runs m p = {#}"
      unfolding all[symmetric] by simp
    ultimately show ?thesis by simp
  qed
  have none: "me_handlers m = {#}"
  proof (rule ccontr)
    assume "me_handlers m \<noteq> {#}"
    then obtain p r H where h: "me_handlers m = add_mset (p, r) H" by (metis multiset_cases surj_pair)
    with assms(4) obtain ex where ex: "me_execs m p = Some ex" unfolding mesh_inv_def by fastforce
    moreover have "traffic decode encode runs m p \<noteq> {#}" by (simp add: traffic_def h)
    ultimately have "ex_phase ex = Awaiting" using running by simp
    with ex have "mesh_hand (p, r) m \<noteq> None" by (simp add: mesh_hand_def)
    with assms(5) h show False by (simp add: mesh_ended_def)
  qed
  with assms(5) have quiet: "me_jobs m = {#}" "me_pending m = {#}" "me_results m = {#}" "\<forall>p. mesh_return p m = None"
    unfolding mesh_ended_def by simp_all
  have tr: "traffic decode encode runs m p = {#}" for p using none quiet by (simp add: traffic_def)
  have "me_execs m p = None" for p
  proof (cases "me_execs m p")
    case (Some ex)
    then have "mesh_return p m \<noteq> None" using running[OF Some] tr none by (simp add: mesh_return_def)
    with quiet(4) show ?thesis by simp
  qed
  moreover have "accounted decode encode runs False seq m" using assms(4,6) unfolding mesh_inv_def by blast
  ultimately obtain ex rs' out where d: "took False seq rs' ex" "me_done m (ParentID seq) = Some (out, ex_seq ex)"
    "ex_phase ex = Outgoing out" "mset rs' \<subseteq># seq_results decode encode runs seq"
    using quiet(2) by (auto simp: accounted_def)
  from single_request_results[where runs = runs, OF assms(1,2) assms(3)[OF assms(6)]] obtain rs where
    rs: "mesh_run decode encode runs (length (sq_steps seq)) (st_FQMN (hd (sq_steps seq))) (sq_req seq) = Inr rs"
      "seq_results decode encode runs seq = mset rs" "map er_FQMN rs = map st_FQMN (sq_steps seq)"
      "\<forall>r \<in> set rs. good_result r" "incomplete decode (sq_req seq) = length (sq_steps seq)" .
  note t = single_request_took[OF assms(3)[OF assms(6)] d(1) _ rs(3,4)]
  have sub: "mset rs' \<subseteq># mset rs" using d(4) rs(2) by simp
  have "mset rs' = mset rs" using t(3)[OF sub] d(3) by simp
  from t(2)[OF sub this] rs(1) d(2,3) show ?thesis by auto
qed

lemma mesh_weight_init:
  fixes runs :: "string \<Rightarrow> coord_request \<Rightarrow> fn_outcome"
  assumes "encoding encode decode" "\<And>fqmn req. \<exists>resp. runs fqmn req = FnResponse resp"
    and "\<And>seq. seq \<in> set seqs \<Longrightarrow> single_request encode seq"
  shows "mesh_weight decode seqs (mesh_init seqs) = (\<Sum>seq\<leftarrow>seqs. 3 * length (sq_steps seq) + 4)"
proof -
  have "3 * incomplete decode (sq_req seq) + 4 = 3 * length (sq_steps seq) + 4" if "seq \<in> set seqs" for seq
    using single_request_results[where runs = runs, OF assms(1,2) assms(3)[OF that]] by metis
  then have "map (\<lambda>seq. 3 * incomplete decode (sq_req seq) + 4) seqs = map (\<lambda>seq. 3 * length (sq_steps seq) + 4) seqs"
    by (intro map_cong) auto
  then have "(\<Sum>seq\<in>#mset seqs. 3 * incomplete decode (sq_req seq) + 4) = (\<Sum>seq\<leftarrow>seqs. 3 * length (sq_steps seq) + 4)"
    by (metis mset_map sum_mset_sum_list)
  moreover have "(\<Sum>seq\<leftarrow>seqs. phase_weight None) = 0" by (induction seqs) simp_all
  ultimately show ?thesis by (simp add: mesh_weight_def mesh_init_def)
qed

text \<open>
  C2: Any number of requests at once, each of single steps for different modules, whose modules answer,
  when nothing fails: however the executions, the messages and the nodes take turns, and whichever
  message overtakes which, a run takes at most three steps for each step of a request and four for each
  request; it can go on until it has ended; and then every request has been answered without an error,
  with exactly the outputs in its state that its own modules give when they run one after the other.
\<close>

theorem all_requests_complete:
  assumes "encoding encode decode" "\<And>fqmn req. \<exists>resp. runs fqmn req = FnResponse resp"
    and "distinct (map ParentID seqs)" "\<forall>seq \<in> set seqs. single_request encode seq"
    and "(mesh_step decode encode runs False ^^ n) (mesh_init seqs) m"
  shows "n \<le> (\<Sum>seq\<leftarrow>seqs. 3 * length (sq_steps seq) + 4)
    \<and> (\<not> mesh_ended m \<longrightarrow> (\<exists>m'. mesh_step decode encode runs False m m'))
    \<and> (mesh_ended m \<longrightarrow> (\<forall>seq \<in> set seqs. \<exists>rs seq'.
      mesh_run decode encode runs (length (sq_steps seq)) (st_FQMN (hd (sq_steps seq))) (sq_req seq) = Inr rs
      \<and> me_done m (ParentID seq) = Some (Inr None, seq')
      \<and> rq_State (sq_req seq') = Some (result_state rs (the (rq_State (sq_req seq))))))"
proof (intro conjI impI ballI)
  note init = mesh_inv_init[OF assms(1,3), of runs False]
  have single: "single_request encode seq" if "seq \<in> set seqs" for seq using assms(4) that by blast
  have "mesh_weight decode seqs (mesh_init seqs) = (\<Sum>seq\<leftarrow>seqs. 3 * length (sq_steps seq) + 4)"
    by (rule mesh_weight_init[where runs = runs, OF assms(1,2) single])
  with meshes.run_length[OF assms(5) init] show "n \<le> (\<Sum>seq\<leftarrow>seqs. 3 * length (sq_steps seq) + 4)" by linarith
  show "\<not> mesh_ended m \<Longrightarrow> \<exists>m'. mesh_step decode encode runs False m m'" by (rule not_ended_steps)
  fix seq
  assume "mesh_ended m" "seq \<in> set seqs"
  then show "\<exists>rs seq'. mesh_run decode encode runs (length (sq_steps seq)) (st_FQMN (hd (sq_steps seq))) (sq_req seq) = Inr rs
      \<and> me_done m (ParentID seq) = Some (Inr None, seq')
      \<and> rq_State (sq_req seq') = Some (result_state rs (the (rq_State (sq_req seq))))"
    using ended_completes[where runs = runs, OF assms(1,2) single meshes.inv_reach[OF relpowp_imp_rtranclp[OF assms(5)] init], of seq]
    by blast
qed

text \<open>A request for two modules under a given identifier, for the examples.\<close>

definition example_seq :: "string \<Rightarrow> sequence" where
  "example_seq p = \<lparr>sq_steps = example_steps, sq_req = example_req\<lparr>rq_ID := p, rq_SequenceJSON := enc_steps example_steps\<rparr>\<rparr>"

lemma example_seq_single: "single_request (\<lambda>ss. Some (enc_steps ss)) (example_seq p)" "ParentID (example_seq p) = p"
  by (auto simp: single_request_def example_seq_def example_steps_def example_req_def ParentID_def)

lemma all_requests_complete_witness:
  "\<exists>m. (mesh_step (\<lambda>s. dec_steps (length s) s) (\<lambda>ss. Some (enc_steps ss)) example_modules False)\<^sup>*\<^sup>*
        (mesh_init [example_seq ''p'', example_seq ''q'']) m
    \<and> (\<forall>p \<in> {''p'', ''q''}. \<exists>seq'. me_done m p = Some (Inr None, seq'))"
proof -
  let ?step = "mesh_step (\<lambda>s. dec_steps (length s) s) (\<lambda>ss. Some (enc_steps ss)) example_modules False"
    and ?seqs = "[example_seq ''p'', example_seq ''q'']"
  have d: "distinct (map ParentID ?seqs)" by (simp add: example_seq_single)
  have single: "\<forall>seq \<in> set ?seqs. single_request (\<lambda>ss. Some (enc_steps ss)) seq"
    using example_seq_single(1) by simp
  have answers: "\<exists>resp. example_modules fqmn r = FnResponse resp" for fqmn r by (simp add: example_modules_def)
  from meshes.run_to_end[OF mesh_inv_init[OF example_encoding d]] obtain m where
    m: "?step\<^sup>*\<^sup>* (mesh_init ?seqs) m" "\<forall>m'. \<not> ?step m m'" by blast
  from rtranclp_imp_relpowp[OF m(1)] obtain n where n: "(?step ^^ n) (mesh_init ?seqs) m" ..
  note all = all_requests_complete[where runs = example_modules, OF example_encoding answers d single n]
  have ended: "mesh_ended m"
  proof (rule ccontr)
    assume "\<not> mesh_ended m"
    from all[THEN conjunct2, THEN conjunct1, THEN mp, OF this] m(2) show False by simp
  qed
  from all[THEN conjunct2, THEN conjunct2, THEN mp, OF ended]
  have "\<exists>seq'. me_done m (ParentID seq) = Some (Inr None, seq')" if "seq \<in> set ?seqs" for seq using that by fast
  from this[of "example_seq ''p''"] this[of "example_seq ''q''"] m(1) show ?thesis
    by (intro exI[of _ m]) (simp add: example_seq_single(2))
qed

text \<open>
  C5: Whatever fails, is lost or times out, and whatever the modules do: what an execution returned is
  what \<open>Execute\<close> returns for its own sequence given results that its own modules made of its own request,
  each at most once, in the order they were handed over; a wait without a result times out.
\<close>

theorem answers_are_Execute:
  assumes "encoding encode decode" "distinct (map ParentID seqs)"
    and "(mesh_step decode encode runs faults)\<^sup>*\<^sup>* (mesh_init seqs) m"
    and "seq \<in> set seqs" "me_done m (ParentID seq) = Some (out, seq')"
  shows "\<exists>ok rs. mset rs \<subseteq># seq_results decode encode runs seq
    \<and> Execute ok (map Some rs) seq = Some (map_sum id (\<lambda>err. (err, seq')) out)"
proof -
  from meshes.inv_reach[OF assms(3) mesh_inv_init[OF assms(1,2)]]
  have "accounted decode encode runs faults seq m" using assms(4) unfolding mesh_inv_def by blast
  with assms(5) obtain ex rs where a: "took faults seq rs ex" "ex_seq ex = seq'" "ex_phase ex = Outgoing out"
    "mset rs \<subseteq># seq_results decode encode runs seq"
    by (auto simp: accounted_def split: if_split_asm)
  note E = Execute_taken[of _ _ "[]", simplified]
  from a(1) consider "ex = fold take_result rs (fst (begin_execution True seq))"
    | "rs = []" "ex = fst (begin_execution False seq)"
    | ex' where "ex' = fold take_result rs (fst (begin_execution True seq))" "ex_phase ex' = Awaiting" "ex = time_out ex'"
    unfolding took_def by blast
  then show ?thesis
  proof cases
    case 1
    with a E[of True rs seq] show ?thesis by (intro exI[of _ True] exI[of _ rs]) (simp add: run_from_def)
  next
    case 2
    with a E[of False rs seq] show ?thesis by (intro exI[of _ False] exI[of _ rs]) (simp add: run_from_def)
  next
    case 3
    with a E[of True rs seq] show ?thesis
      by (intro exI[of _ True] exI[of _ rs]) (auto simp: run_from_def awaitResult_def time_out_def)
  qed
qed

lemma answers_are_Execute_witness:
  "\<exists>ok rs. mset rs \<subseteq># seq_results (\<lambda>s. dec_steps (length s) s) (\<lambda>ss. Some (enc_steps ss)) example_modules (example_seq ''p'')
    \<and> Execute ok (map Some rs) (example_seq ''p'') = Some (Inr (Some TunnelFailed, example_seq ''p''))"
proof -
  let ?step = "mesh_step (\<lambda>s. dec_steps (length s) s) (\<lambda>ss. Some (enc_steps ss)) example_modules True"
    and ?init = "mesh_init [example_seq ''p'']"
  let ?m1 = "?init\<lparr>me_pending := {#}, me_execs := [''p'' \<mapsto> \<lparr>ex_seq = example_seq ''p'', ex_phase = Outgoing (Inr (Some TunnelFailed))\<rparr>]\<rparr>"
  let ?m2 = "?init\<lparr>me_pending := {#}, me_done := [''p'' \<mapsto> (Inr (Some TunnelFailed), example_seq ''p'')]\<rparr>"
  have "NextStep (example_seq ''p'') = Some 0" by (simp add: NextStep_def example_seq_def example_steps_def)
  then have "?step ?init ?m1"
    by (intro ms_start[of "example_seq ''p''" _ False])
      (simp_all add: mesh_init_def mesh_start_def begin_execution_def mset_option_def example_seq_single)
  moreover have "?step ?m1 ?m2"
    by (rule ms_return[of "''p''"]) (simp add: mesh_return_def mesh_init_def)
  ultimately have run: "?step\<^sup>*\<^sup>* ?init ?m2" by (meson r_into_rtranclp rtranclp.rtrancl_into_rtrancl)
  have d: "distinct (map ParentID [example_seq ''p''])" by simp
  from answers_are_Execute[OF example_encoding d run, of "example_seq ''p''" "Inr (Some TunnelFailed)" "example_seq ''p''"]
  show ?thesis by (simp add: example_seq_single(2))
qed

section \<open>An error that overtakes a result\<close>

text \<open>A handler in the callback of an execution that has its outcome holds the read lock for good.\<close>

definition mesh_blocked :: "mesh \<Rightarrow> bool" where
  "mesh_blocked m \<longleftrightarrow> (\<exists>x \<in># me_handlers m. \<exists>ex out. me_execs m (fst x) = Some ex \<and> ex_phase ex = Outgoing out)"

lemma mesh_blocked_step:
  assumes "mesh_step decode encode runs faults m m'" "mesh_blocked m"
  shows "mesh_blocked m' \<and> me_pending m' = me_pending m \<and> me_done m' = me_done m"
proof -
  from assms(2) obtain x ex out where x: "x \<in># me_handlers m" "me_execs m (fst x) = Some ex" "ex_phase ex = Outgoing out"
    unfolding mesh_blocked_def by blast
  then have no: "me_handlers m \<noteq> {#}" by auto
  from assms(1) show ?thesis
  proof cases
    case (ms_start seq tunnel_ok)
    with no show ?thesis by (simp add: mesh_start_def)
  next
    case (ms_return p)
    with no show ?thesis by (auto simp: mesh_return_def split: option.split_asm phase.split_asm)
  next
    case (ms_node job send_ok tunnel_ok)
    with x show ?thesis
      by (auto simp: mesh_blocked_def mesh_node_def Let_def split: prod.split sum.split)
  next
    case (ms_receive res)
    with x show ?thesis by (auto simp: mesh_blocked_def mesh_receive_def)
  next
    case (ms_hand res)
    then obtain ex' where h: "me_execs m (fst res) = Some ex'" "ex_phase ex' = Awaiting"
      "m' = m\<lparr>me_handlers := me_handlers m - {#res#}, me_execs := (me_execs m)(fst res \<mapsto> take_result (snd res) ex')\<rparr>"
      by (auto simp: mesh_hand_def split: option.split_asm if_split_asm)
    with x have "fst x \<noteq> fst res" by auto
    then have "x \<in># me_handlers m - {#res#}" using x(1) by (auto simp: in_diff_count)
    with h x \<open>fst x \<noteq> fst res\<close> show ?thesis by (auto simp: mesh_blocked_def)
  next
    case (ms_timeout p ex')
    with x have "fst x \<noteq> p" by auto
    with ms_timeout x show ?thesis by (auto simp: mesh_blocked_def)
  qed (use assms(2) in \<open>auto simp: mesh_blocked_def\<close>)
qed

interpretation stuck: step_system "mesh_step decode encode runs faults"
    "\<lambda>m. mesh_blocked m \<and> me_pending m = P \<and> me_done m = D" for decode encode runs faults P D
  by unfold_locales (use mesh_blocked_step in metis)

lemma take_error:
  "step_error e = Some f \<Longrightarrow> ex_phase ex = Awaiting \<Longrightarrow>
     take_result (error_result fqmn e) ex = ex\<lparr>ex_phase := Outgoing (Inr (Some (StepFailed f)))\<rparr>"
  by (simp add: take_result_def awaitResult_def HandleStepResults_failed)

text \<open>The nodes of the first two steps, of which the second fails, and the messages they leave behind.\<close>

lemma two_nodes_answer:
  assumes "encoding encode decode" "single_request encode seq" "sq_steps seq = a # b # rest"
    and "\<exists>resp. runs (st_FQMN a) (sq_req seq) = FnResponse resp" "\<forall>r. runs (st_FQMN b) r = FnFailed e" "step_error e = Some f"
    and "me_jobs m = {#(st_FQMN a, sq_req seq)#}"
  shows "\<exists>r. (mesh_step decode encode runs False)\<^sup>*\<^sup>* m
    (m\<lparr>me_jobs := {#}, me_results := me_results m + {#(ParentID seq, r), (ParentID seq, error_result (st_FQMN b) e)#}\<rparr>)"
proof -
  let ?step = "mesh_step decode encode runs False" and ?p = "ParentID seq"
  from assms(4) obtain resp where resp: "runs (st_FQMN a) (sq_req seq) = FnResponse resp" ..
  have fresh: "\<not> st_Completed a" "\<not> st_Completed b" "\<forall>x \<in> set (b # rest). \<not> st_Completed x" "\<forall>x \<in> set (a # b # rest). \<not> st_Completed x"
    and enc: "encode ([] @ a # b # rest) = Some (rq_SequenceJSON (sq_req seq))"
    using assms(2,3) by (auto simp: single_request_def)
  obtain st hs where "rq_State (sq_req seq) = Some st" "rq_RespHeaders (sq_req seq) = Some hs"
    using assms(2) by (auto simp: single_request_def)
  from handleFnResult_good[OF assms(1) enc _ fresh(4) this, of resp] obtain req' where first:
    "handleFnResult decode encode True (st_FQMN a) (Some (sq_req seq)) (FnResponse resp) =
      Inr \<lparr>ss_result = Some (response_result (st_FQMN a) resp), ss_next = Some (st_FQMN b, req')\<rparr>"
    "encode ([a\<lparr>st_Completed := True\<rparr>] @ b # rest) = Some (rq_SequenceJSON req')" by auto
  have ID: "rq_ID req' = ?p"
    using handleFnResult_next(2)[OF assms(1) first(1)] by (simp add: ParentID_def)
  have second: "handleFnResult decode encode True (st_FQMN b) (Some req') (FnFailed e) =
      Inr \<lparr>ss_result = Some (error_result (st_FQMN b) e), ss_next = None\<rparr>"
    by (rule handleFnResult_failed[OF assms(1) first(2) _ fresh(2) assms(6)]) simp
  let ?r = "response_result (st_FQMN a) resp"
  have s1: "?step m (mesh_node decode encode runs True True (st_FQMN a, sq_req seq) m)"
    by (rule ms_node) (simp_all add: assms(7))
  have e1: "mesh_node decode encode runs True True (st_FQMN a, sq_req seq) m
      = m\<lparr>me_jobs := {#(st_FQMN b, req')#}, me_results := me_results m + {#(?p, ?r)#}\<rparr>" (is "_ = ?m1")
    by (simp add: mesh_node_def resp first(1) assms(7) mset_option_def ParentID_def)
  have s2: "?step ?m1 (mesh_node decode encode runs True True (st_FQMN b, req') ?m1)"
    by (rule ms_node) simp_all
  have e2: "mesh_node decode encode runs True True (st_FQMN b, req') ?m1
      = m\<lparr>me_jobs := {#}, me_results := me_results m + {#(?p, ?r), (?p, error_result (st_FQMN b) e)#}\<rparr>"
    by (simp add: mesh_node_def assms(5) second mset_option_def ID)
  have "?step\<^sup>*\<^sup>* m ?m1" using s1 unfolding e1 by (rule r_into_rtranclp)
  also have "?step ?m1 (m\<lparr>me_jobs := {#}, me_results := me_results m + {#(?p, ?r), (?p, error_result (st_FQMN b) e)#}\<rparr>)"
    using s2 unfolding e2 .
  finally (rtranclp.rtrancl_into_rtrancl) show ?thesis by (rule exI[of _ ?r])
qed

text \<open>
  C16: An error that overtakes an earlier result blocks E2 Core for good. A request whose second module
  fails, with any other requests waiting: without any fault of the system there is a run after which, in
  every continuation, no request is answered any more and none is begun.
\<close>

theorem overtaking_error_blocks:
  assumes "encoding encode decode" "single_request encode seq" "sq_steps seq = a # b # rest"
    and "\<exists>resp. runs (st_FQMN a) (sq_req seq) = FnResponse resp" "\<forall>r. runs (st_FQMN b) r = FnFailed e" "step_error e = Some f"
  shows "\<exists>m. (mesh_step decode encode runs False)\<^sup>*\<^sup>* (mesh_init (seq # seqs)) m
    \<and> (\<forall>m'. (mesh_step decode encode runs faults)\<^sup>*\<^sup>* m m' \<longrightarrow> me_done m' = Map.empty \<and> me_pending m' = mset seqs)"
proof -
  let ?step = "mesh_step decode encode runs False" and ?p = "ParentID seq" and ?m0 = "mesh_init (seq # seqs)"
  let ?ex = "\<lparr>ex_seq = seq, ex_phase = Awaiting\<rparr>" and ?out = "\<lparr>ex_seq = seq, ex_phase = Outgoing (Inr (Some (StepFailed f)))\<rparr>"
  let ?e = "error_result (st_FQMN b) e"
  have "NextStep seq = Some 0" using assms(2,3) by (simp add: NextStep_def single_request_def)
  then have b: "begin_execution True seq = (?ex, Some (st_FQMN a, sq_req seq))"
    by (simp add: begin_execution_def assms(3))
  let ?m1 = "?m0\<lparr>me_pending := mset seqs, me_execs := [?p \<mapsto> ?ex], me_jobs := {#(st_FQMN a, sq_req seq)#}\<rparr>"
  have "?step ?m0 ?m1"
    by (rule ms_start[of seq _ True]) (simp_all add: mesh_init_def mesh_start_def b mset_option_def)
  moreover obtain r where "?step\<^sup>*\<^sup>* ?m1 (?m1\<lparr>me_jobs := {#}, me_results := {#(?p, r), (?p, ?e)#}\<rparr>)"
    using two_nodes_answer[OF assms, of ?m1] by (auto simp: mesh_init_def)
  moreover let ?m3 = "?m1\<lparr>me_jobs := {#}, me_results := {#(?p, r), (?p, ?e)#}\<rparr>"
    and ?m4 = "?m1\<lparr>me_jobs := {#}, me_results := {#(?p, r)#}, me_handlers := {#(?p, ?e)#}\<rparr>"
    and ?m5 = "?m1\<lparr>me_jobs := {#}, me_results := {#(?p, r)#}, me_execs := [?p \<mapsto> ?out]\<rparr>"
    and ?m6 = "?m1\<lparr>me_jobs := {#}, me_execs := [?p \<mapsto> ?out], me_handlers := {#(?p, r)#}\<rparr>"
  have "?step ?m3 ?m4"
    using ms_receive[of "(?p, ?e)" ?m3 decode encode runs False] by (simp add: mesh_receive_def mesh_init_def)
  moreover have "?step ?m4 ?m5"
    by (rule ms_hand[of "(?p, ?e)"]) (simp_all add: mesh_hand_def mesh_init_def take_error[OF assms(6)])
  moreover have "?step ?m5 ?m6"
    using ms_receive[of "(?p, r)" ?m5 decode encode runs False] by (simp add: mesh_receive_def mesh_init_def)
  ultimately have run: "?step\<^sup>*\<^sup>* ?m0 ?m6"
    by (meson converse_rtranclp_into_rtranclp rtranclp.rtrancl_into_rtrancl)
  have "mesh_blocked ?m6 \<and> me_pending ?m6 = mset seqs \<and> me_done ?m6 = Map.empty"
    by (simp add: mesh_blocked_def mesh_init_def)
  with stuck.inv_reach[of decode encode runs faults ?m6 _ "mset seqs" Map.empty] run show ?thesis by blast
qed

lemma overtaking_error_blocks_witness:
  "\<exists>m. (mesh_step (\<lambda>s. dec_steps (length s) s) (\<lambda>ss. Some (enc_steps ss)) failing_modules False)\<^sup>*\<^sup>*
        (mesh_init [example_seq ''p'', example_seq ''q'']) m
    \<and> (\<forall>m'. (mesh_step (\<lambda>s. dec_steps (length s) s) (\<lambda>ss. Some (enc_steps ss)) failing_modules True)\<^sup>*\<^sup>* m m'
          \<longrightarrow> me_done m' = Map.empty \<and> me_pending m' = {#example_seq ''q''#})"
proof -
  have "sq_steps (example_seq ''p'') = example_steps ! 0 # example_steps ! 1 # []" by (simp add: example_seq_def example_steps_def)
  moreover have "\<exists>resp. failing_modules (st_FQMN (example_steps ! 0)) (sq_req (example_seq ''p'')) = FnResponse resp"
    by (simp add: example_steps_def failing_modules_def example_modules_def)
  moreover have "\<forall>r. failing_modules (st_FQMN (example_steps ! 1)) r = FnFailed (FnRunErr 500 ''boom'')"
    by (simp add: example_steps_def failing_modules_def)
  moreover have "step_error (FnRunErr 500 ''boom'') = Some (SeqRunErr 500 ''boom'')" by (simp add: step_error_def)
  ultimately show ?thesis
    using overtaking_error_blocks[OF example_encoding example_seq_single(1), of "''p''" _ _ _ failing_modules _ _ "[example_seq ''q'']" True]
    by simp
qed

end
