(* ===== verification/SatConfig.thy ===== *)
theory SatConfig
  imports SatBackend Syncer Message Paths
begin

text \<open>
  How a Sat node is configured: the decoders of \<open>sat/sat/options\<close>, \<open>sat/sat/config.go\<close>, \<open>from_url.go\<close>
  and \<open>access.go\<close>, and the environment the orchestrator's process start (\<open>satbackend/exec\<close>) leaves to
  it. The resolved options, the control plane's client, files, downloads and the parsers of names, URLs
  and YAML are arguments.
\<close>

section \<open>Options\<close>

definition port_EnvDecode :: "nat \<Rightarrow> string \<Rightarrow> string" where
  "port_EnvDecode r s = (if s \<noteq> '''' then s else dec (r mod 10000 + 1000))"

definition procUUID_EnvDecode :: "(string \<Rightarrow> string option) \<Rightarrow> string \<Rightarrow> string \<Rightarrow> string + string" where
  "procUUID_EnvDecode parse fresh s =
     (if s = '''' then Inr fresh
      else case parse s of None \<Rightarrow> Inl ''SAT_UUID is set, but is not valid UUID'' | Some u \<Rightarrow> Inr u)"

record sat_options =
  so_EnvToken :: string
  so_Port :: string
  so_ProcUUID :: string
  so_ControlPlane :: "string option"
  so_Ident :: "string option"
  so_Version :: "string option"
  so_Connections :: string

definition Resolve :: "((string \<Rightarrow> string option) \<Rightarrow> string + sat_options) \<Rightarrow> (string \<Rightarrow> string option) option \<Rightarrow>
    (string \<Rightarrow> string option) \<Rightarrow> string + sat_options" where
  "Resolve process lookuper os =
     (case process (case lookuper of None \<Rightarrow> os | Some l \<Rightarrow> l) of
        Inl e \<Rightarrow> Inl (''sat options parsing: '' @ e)
      | Inr opts \<Rightarrow> Inr opts)"

text \<open>No credential for an empty token.\<close>

record auth_token =
  tk_scheme :: string
  tk_value :: string

definition NewAuthToken :: "string \<Rightarrow> auth_token option" where
  "NewAuthToken token = (if token \<noteq> '''' then Some \<lparr>tk_scheme = ''Bearer'', tk_value = token\<rparr> else None)"

section \<open>Modules from URLs and files\<close>

record url =
  url_Scheme :: string
  url_Host :: string
  url_Path :: string

definition isURL :: "(string \<Rightarrow> url option) \<Rightarrow> string \<Rightarrow> bool" where
  "isURL parse val =
     (case parse val of
        None \<Rightarrow> False
      | Some u \<Rightarrow> url_Host u \<noteq> '''' \<and> url_Scheme u = ''https'' \<and> has_suffix (url_Path u) ''.wasm'')"

text \<open>A download answers a status and a body, or fails; the file takes the last element of the path.\<close>

definition downloadFromURL :: "(string \<Rightarrow> url option) \<Rightarrow> (string \<Rightarrow> string + int \<times> bytes) \<Rightarrow> string \<Rightarrow>
    (string \<Rightarrow> bytes \<Rightarrow> string option) \<Rightarrow> string \<Rightarrow> string + string" where
  "downloadFromURL parse get blocks_dir write URL =
     (case parse URL of
        None \<Rightarrow> Inl ''failed to url.Parse''
      | Some u \<Rightarrow>
          (case get URL of
             Inl e \<Rightarrow> Inl (''failed to Do request: '' @ e)
           | Inr (status, body) \<Rightarrow>
               if status \<noteq> 200 then Inl ''failed to download with status code''
               else let filename = blocks_dir @ ''/'' @ path_base (url_Path u)
                    in case write filename body of Some e \<Rightarrow> Inl e | None \<Rightarrow> Inr filename))"

record sat_module = module +
  sm_WasmData :: "bytes option"

definition module_yml_path :: "string \<Rightarrow> string" where
  "module_yml_path moduleArg = replace_all (path_base moduleArg) ''.module.yml'' moduleArg"

text \<open>Files that exist give their bytes or a read error.\<close>

definition findModuleDotYaml :: "(string \<Rightarrow> (string + bytes) option) \<Rightarrow> (bytes \<Rightarrow> string + sat_module) \<Rightarrow> string \<Rightarrow>
    string + sat_module option" where
  "findModuleDotYaml files yaml moduleArg =
     (case files (module_yml_path moduleArg) of
        None \<Rightarrow> Inr None
      | Some (Inl e) \<Rightarrow> Inl (''failed to ReadFile: '' @ e)
      | Some (Inr b) \<Rightarrow> (case yaml b of Inl e \<Rightarrow> Inl (''failed to Unmarshal: '' @ e) | Inr m \<Rightarrow> Inr (Some m)))"

section \<open>The configuration\<close>

record fqmn =
  fq_Tenant :: string
  fq_Namespace :: string

record 'caps sat_config =
  sc_ModuleArg :: string
  sc_JobType :: string
  sc_PrettyName :: string
  sc_Module :: "sat_module option"
  sc_Tenant :: string
  sc_CapConfig :: 'caps
  sc_Connections :: "string list"
  sc_Port :: int
  sc_ControlPlaneUrl :: string
  sc_EnvToken :: string
  sc_ProcUUID :: string

text \<open>What the configuration reads from outside.\<close>

record 'caps sat_world =
  wd_default_caps :: 'caps
  wd_client_start :: "string option"
  wd_parse_url :: "string \<Rightarrow> url option"
  wd_get :: "string \<Rightarrow> string + int \<times> bytes"
  wd_blocks_dir :: string
  wd_write :: "string \<Rightarrow> bytes \<Rightarrow> string option"
  wd_parse_fqmn :: "string \<Rightarrow> fqmn option"
  wd_GetModule :: "string \<Rightarrow> string + sat_module"
  wd_ResolveCaps :: "string \<Rightarrow> string \<Rightarrow> string + 'caps"
  wd_files :: "string \<Rightarrow> (string + bytes) option"
  wd_yaml :: "bytes \<Rightarrow> string + sat_module"
  wd_parse_connections :: "string \<Rightarrow> string + string list"

text \<open>
  The module argument is a URL, a fully qualified name, or a path: the argument to go on with, the
  module, the name and the capabilities. On the last branch the code completes the name of a module
  found on disk, but through the variable of the module it has not set yet, which is nil.
\<close>

definition resolve_module :: "'caps sat_world \<Rightarrow> sat_options \<Rightarrow> string \<Rightarrow>
    (string + string \<times> sat_module option \<times> fqmn \<times> 'caps) go" where
  "resolve_module w opts moduleArg =
     (let zero = \<lparr>fq_Tenant = '''', fq_Namespace = ''''\<rparr>; caps = wd_default_caps w
      in if isURL (wd_parse_url w) moduleArg then
           Inr (case downloadFromURL (wd_parse_url w) (wd_get w) (wd_blocks_dir w) (wd_write w) moduleArg of
                  Inl e \<Rightarrow> Inl (''failed to downloadFromURL: '' @ e)
                | Inr tmpFile \<Rightarrow> Inr (tmpFile, None, zero, caps))
         else case wd_parse_fqmn w moduleArg of
           Some f \<Rightarrow>
             if so_ControlPlane opts = None then Inr (Inr (moduleArg, None, f, caps))
             else Inr (case wd_GetModule w moduleArg of
                         Inl e \<Rightarrow> Inl (''failed to GetModule: '' @ e)
                       | Inr m \<Rightarrow>
                           (case wd_ResolveCaps w (fq_Tenant f) (fq_Namespace f) of
                              Inl e \<Rightarrow> Inl (''failed to capabilities.Render: '' @ e)
                            | Inr rendered \<Rightarrow> Inr (moduleArg, Some m, f, rendered)))
         | None \<Rightarrow>
             (case findModuleDotYaml (wd_files w) (wd_yaml w) moduleArg of
                Inl e \<Rightarrow> Inr (Inl (''failed to findModuleDotYaml: '' @ e))
              | Inr disk \<Rightarrow>
                  if disk \<noteq> None \<and> so_Ident opts \<noteq> None \<and> so_Version opts \<noteq> None then Inl NilDereference
                  else Inr (Inr (moduleArg, disk, zero, caps))))"

definition ConfigFromModuleArg :: "'caps sat_world \<Rightarrow> string + sat_options \<Rightarrow> string \<Rightarrow> (string + 'caps sat_config) go" where
  "ConfigFromModuleArg w resolved moduleArg =
     (case resolved of
        Inl e \<Rightarrow> Inr (Inl (''ConfigFromModuleArg options.Resolve: '' @ e))
      | Inr opts \<Rightarrow>
          if so_ControlPlane opts \<noteq> None \<and> wd_client_start w \<noteq> None
          then Inr (Inl (''failed to systemSource.Start: '' @ the (wd_client_start w)))
          else go_bind (resolve_module w opts moduleArg) (\<lambda>r.
            case r of
              Inl e \<Rightarrow> Inr (Inl e)
            | Inr (arg, m, f, caps) \<Rightarrow>
                (let base = trim_suffix (path_base arg) ''.wasm''
                 in go_bind (case m of
                               None \<Rightarrow> Inr (base, base)
                             | Some mo \<Rightarrow>
                                 if mo_FQMN mo = '''' then Inr (base, base)
                                 else go_bind (go_slice_to (so_ProcUUID opts) 6) (\<lambda>short.
                                        Inr (mo_FQMN mo, mo_FQMN mo @ ''-'' @ short))) (\<lambda>(jobType, prettyName).
                    case (if so_Connections opts = '''' then Inr [] else wd_parse_connections w (so_Connections opts)) of
                      Inl e \<Rightarrow> Inr (Inl (''failed to Unmarshal connections JSON: '' @ e))
                    | Inr conns \<Rightarrow>
                        Inr (Inr \<lparr>sc_ModuleArg = arg, sc_JobType = jobType, sc_PrettyName = prettyName, sc_Module = m,
                                  sc_Tenant = fq_Tenant f, sc_CapConfig = caps, sc_Connections = conns,
                                  sc_Port = fst (Atoi (so_Port opts)),
                                  sc_ControlPlaneUrl = (case so_ControlPlane opts of None \<Rightarrow> '''' | Some a \<Rightarrow> a),
                                  sc_EnvToken = '''', sc_ProcUUID = so_ProcUUID opts\<rparr>)))))"

definition ConfigFromArgs :: "'caps sat_world \<Rightarrow> string + sat_options \<Rightarrow> string list \<Rightarrow> (string + 'caps sat_config) go" where
  "ConfigFromArgs w resolved args =
     (case args of
        [] \<Rightarrow> Inr (Inl ''missing argument: module (path, URL or FQMN)'')
      | a # _ \<Rightarrow> ConfigFromModuleArg w resolved a)"

section \<open>The environment of a launched node\<close>

definition to_upper :: "string \<Rightarrow> string" where
  "to_upper s = map (\<lambda>c. if 97 \<le> (of_char c :: nat) \<and> (of_char c :: nat) \<le> 122 then char_of ((of_char c :: nat) - 32) else c) s"

text \<open>\<open>exec.Run\<close>: the command line, and the only variables the new process has.\<close>

definition exec_Run :: "string \<Rightarrow> string list \<Rightarrow> string list \<Rightarrow> (string list \<times> string list) go" where
  "exec_Run procUUID cmd env =
     go_bind (go_index cmd 0) (\<lambda>c. Inr (cmd, env @ [to_upper c @ ''_UUID='' @ procUUID]))"

definition launch_process :: "string \<Rightarrow> string \<Rightarrow> nat \<Rightarrow> string \<Rightarrow> string \<Rightarrow> (string list \<times> string list) go" where
  "launch_process procUUID fqmn r controlPlane connectionsEnv =
     (let (cmd, port) = modStartCommand fqmn r
      in exec_Run procUUID cmd [''SAT_HTTP_PORT='' @ port, ''SAT_CONTROL_PLANE='' @ controlPlane,
           ''SAT_CONNECTIONS='' @ connectionsEnv])"

definition variable_name :: "string \<Rightarrow> string" where
  "variable_name entry = takeWhile (\<lambda>c. c \<noteq> CHR ''='') entry"

text \<open>The value a process finds for a name.\<close>

definition getenv :: "string list \<Rightarrow> string \<Rightarrow> string option" where
  "getenv env name =
     map_option (\<lambda>e. drop (Suc (length name)) e) (find (\<lambda>e. variable_name e = name) env)"

section \<open>Properties\<close>

text \<open>
  The file looked for beside a module is \<open>.module.yml\<close> in the module's directory, as long as the
  module's file name occurs nowhere in the directory's path.
\<close>

theorem module_yml_beside_module:
  assumes "name \<noteq> []" "CHR ''/'' \<notin> set name" "\<not> sublist name dir"
  shows "module_yml_path (dir @ CHR ''/'' # name) = dir @ ''/.module.yml''"
  using assms by (simp add: module_yml_path_def path_base_last replace_all_last)

lemma module_yml_beside_module_witness: "module_yml_path ''/srv/hello.wasm'' = ''/srv/.module.yml''"
  using module_yml_beside_module[of "''hello.wasm''" "''/srv''"] by (simp add: sublist_code)

text \<open>Where it does occur there, every occurrence is replaced, and the file looked for is elsewhere.\<close>

lemma module_yml_elsewhere: "module_yml_path ''hello/hello'' = ''.module.yml/.module.yml''"
  by (simp add: module_yml_path_def path_base_def replace_all.simps)

text \<open>
  A node configured from a module on disk: with both an identity and a version for the module in the
  options, reading its configuration panics; otherwise, when the file decodes and the identifier of the
  process has its length, the job type is the module's full name, or the file's name without \<open>.wasm\<close>
  when it has none, and no tenant and no token are configured.
\<close>

theorem disk_module_config:
  assumes "\<not> isURL (wd_parse_url w) arg" "wd_parse_fqmn w arg = None"
    and "findModuleDotYaml (wd_files w) (wd_yaml w) arg = Inr (Some m)"
    and "so_ControlPlane opts = None" "so_Connections opts = ''''" "6 \<le> length (so_ProcUUID opts)"
  shows "if so_Ident opts \<noteq> None \<and> so_Version opts \<noteq> None
    then ConfigFromModuleArg w (Inr opts) arg = Inl NilDereference
    else \<exists>c. ConfigFromModuleArg w (Inr opts) arg = Inr (Inr c) \<and> sc_Module c = Some m
      \<and> sc_JobType c = (if mo_FQMN m = '''' then trim_suffix (path_base arg) ''.wasm'' else mo_FQMN m)
      \<and> sc_Tenant c = '''' \<and> sc_EnvToken c = '''' \<and> sc_ControlPlaneUrl c = ''''
      \<and> sc_Port c = fst (Atoi (so_Port opts)) \<and> sc_ProcUUID c = so_ProcUUID opts"
proof -
  have s: "go_slice_to (so_ProcUUID opts) 6 = Inr (take 6 (so_ProcUUID opts))"
    using assms(6) by (simp add: go_slice_to_def)
  show ?thesis
  proof (cases "so_Ident opts \<noteq> None \<and> so_Version opts \<noteq> None")
    case True
    then show ?thesis using assms(1-4) by (simp add: ConfigFromModuleArg_def resolve_module_def Let_def)
  next
    case False
    then have "resolve_module w opts arg = Inr (Inr (arg, Some m, \<lparr>fq_Tenant = '''', fq_Namespace = ''''\<rparr>, wd_default_caps w))"
      using assms(1-3) by (auto simp: resolve_module_def Let_def)
    with False assms(4,5) s show ?thesis by (auto simp: ConfigFromModuleArg_def Let_def)
  qed
qed

text \<open>A module of a tenant's on disk, and options as they are without any environment.\<close>

definition example_disk_module :: sat_module where
  "example_disk_module = \<lparr>mo_Ref = ''1'', mo_Name = ''hello'', mo_Namespace = ''n'', mo_FQMN = ''fqmn://t/n/hello@1'', sm_WasmData = None\<rparr>"

definition example_world :: "nat sat_world" where
  "example_world = \<lparr>wd_default_caps = 0, wd_client_start = None, wd_parse_url = (\<lambda>_. None), wd_get = (\<lambda>_. Inl ''''),
     wd_blocks_dir = ''/tmp'', wd_write = (\<lambda>_ _. None), wd_parse_fqmn = (\<lambda>_. None), wd_GetModule = (\<lambda>_. Inl ''''),
     wd_ResolveCaps = (\<lambda>_ _. Inr 0),
     wd_files = (\<lambda>f. if f = ''/srv/.module.yml'' then Some (Inr ''hello'') else None),
     wd_yaml = (\<lambda>_. Inr example_disk_module), wd_parse_connections = (\<lambda>_. Inl '''')\<rparr>"

definition example_options :: "string option \<Rightarrow> sat_options" where
  "example_options version = \<lparr>so_EnvToken = '''', so_Port = ''8080'', so_ProcUUID = ''01234567'', so_ControlPlane = None,
     so_Ident = Some ''ident'', so_Version = version, so_Connections = ''''\<rparr>"

lemma disk_module_config_witness:
  "ConfigFromModuleArg example_world (Inr (example_options (Some ''v1''))) ''/srv/hello.wasm'' = Inl NilDereference
   \<and> (\<exists>c. ConfigFromModuleArg example_world (Inr (example_options None)) ''/srv/hello.wasm'' = Inr (Inr c)
        \<and> sc_JobType c = ''fqmn://t/n/hello@1'')"
proof -
  have p: "module_yml_path ''/srv/hello.wasm'' = ''/srv/.module.yml''"
    by (simp add: module_yml_path_def path_base_def replace_all.simps)
  have h: "\<not> isURL (wd_parse_url example_world) ''/srv/hello.wasm''" "wd_parse_fqmn example_world ''/srv/hello.wasm'' = None"
    "findModuleDotYaml (wd_files example_world) (wd_yaml example_world) ''/srv/hello.wasm'' = Inr (Some example_disk_module)"
    by (simp_all add: example_world_def isURL_def findModuleDotYaml_def p)
  have o: "so_ControlPlane (example_options v) = None" "so_Connections (example_options v) = ''''"
    "6 \<le> length (so_ProcUUID (example_options v))" "so_Ident (example_options v) \<noteq> None" "so_Version (example_options v) = v" for v
    by (simp_all add: example_options_def)
  show ?thesis
    using disk_module_config[OF h o(1-3), of "Some ''v1''"] disk_module_config[OF h o(1-3), of None] o(4,5)
    by (auto simp: example_disk_module_def)
qed



end
