(* ===== verification/Lifecycle.thy ===== *)
theory Lifecycle
  imports SatConfig Websocket Bus
begin

text \<open>
  A Sat process from start to end: its process file (\<open>sat/sat/process/info.go\<close>, and the copy of
  E2 Core's backend) and the monitor of it (\<open>sat/monitor.go\<close>), the node's construction, start and
  shutdown (\<open>sat/sat/sat.go\<close>), and the signaler for background tasks (\<open>foundation/signaler\<close>).
\<close>

section \<open>Process files\<close>

record info =
  in_Port :: int
  in_FQMN :: string
  in_PID :: int

definition NewInfo :: "int \<Rightarrow> int \<Rightarrow> string \<Rightarrow> info" where
  "NewInfo pid port fqmn = \<lparr>in_Port = port, in_FQMN = fqmn, in_PID = pid\<rparr>"

type_synonym files = "string \<rightharpoonup> bytes"

text \<open>The directory: what the user's configuration directory is, and what making ours answers.\<close>

definition processInfoDir :: "string + string \<Rightarrow> (string \<Rightarrow> string option) \<Rightarrow> string + string" where
  "processInfoDir config mkdir =
     (case config of
        Inl e \<Rightarrow> Inl (''failed to UserConfigDir: '' @ e)
      | Inr c \<Rightarrow>
          (let dir = filepath_Join [c, ''suborbital'', ''proc'']
           in case mkdir dir of Some e \<Rightarrow> Inl (''failed to MkdirAll: '' @ e) | None \<Rightarrow> Inr dir))"

definition info_path :: "string \<Rightarrow> string \<Rightarrow> string" where
  "info_path dir uuid = filepath_Join [dir, uuid @ ''.json'']"

definition info_Find :: "(bytes \<Rightarrow> info option) \<Rightarrow> string + string \<Rightarrow> string \<Rightarrow> files \<Rightarrow> string + info" where
  "info_Find unmarshal dir uuid fs =
     (case dir of
        Inl e \<Rightarrow> Inl (''failed to processInfoDir: '' @ e)
      | Inr d \<Rightarrow>
          (case fs (info_path d uuid) of
             None \<Rightarrow> Inl ''failed to ReadFile''
           | Some b \<Rightarrow> (case unmarshal b of None \<Rightarrow> Inl ''failed to Unmarshal'' | Some i \<Rightarrow> Inr i)))"

definition info_Write :: "(info \<Rightarrow> bytes option) \<Rightarrow> string + string \<Rightarrow> string option \<Rightarrow> string \<Rightarrow> info \<Rightarrow> files \<Rightarrow>
    string option \<times> files" where
  "info_Write marshal dir write_error uuid p fs =
     (case dir of
        Inl e \<Rightarrow> (Some (''failed to processInfoDir: '' @ e), fs)
      | Inr d \<Rightarrow>
          (case marshal p of
             None \<Rightarrow> (Some ''failed to Marshal'', fs)
           | Some b \<Rightarrow>
               (case write_error of
                  Some e \<Rightarrow> (Some (''failed to WriteFile: '' @ e), fs)
                | None \<Rightarrow> (None, fs(info_path d uuid \<mapsto> b)))))"

text \<open>A missing file is an error for Sat's \<open>Delete\<close> and none for that of E2 Core's backend.\<close>

definition sat_Delete :: "string + string \<Rightarrow> string option \<Rightarrow> string \<Rightarrow> files \<Rightarrow> string option \<times> files" where
  "sat_Delete dir remove_error uuid fs =
     (case dir of
        Inl e \<Rightarrow> (Some (''failed to processInfoDir: '' @ e), fs)
      | Inr d \<Rightarrow>
          if fs (info_path d uuid) = None then (Some (''os.Stat failed on path '' @ info_path d uuid), fs)
          else case remove_error of
                 Some e \<Rightarrow> (Some (''failed to Remove: '' @ e), fs)
               | None \<Rightarrow> (None, fs(info_path d uuid := None)))"

definition backend_Delete :: "string + string \<Rightarrow> string option \<Rightarrow> string \<Rightarrow> files \<Rightarrow> string option \<times> files" where
  "backend_Delete dir remove_error uuid fs =
     (case dir of
        Inl e \<Rightarrow> (Some (''failed to processInfoDir: '' @ e), fs)
      | Inr d \<Rightarrow>
          if fs (info_path d uuid) = None then (None, fs)
          else case remove_error of
                 Some e \<Rightarrow> (Some (''failed to Remove: '' @ e), fs)
               | None \<Rightarrow> (None, fs(info_path d uuid := None)))"

text \<open>
  The backend's package is a copy of Sat's and nothing imports it: the functions other than \<open>Delete\<close> have
  the same text.
\<close>

definition backend_NewInfo :: "int \<Rightarrow> int \<Rightarrow> string \<Rightarrow> info" where
  "backend_NewInfo pid port fqmn = \<lparr>in_Port = port, in_FQMN = fqmn, in_PID = pid\<rparr>"

definition backend_processInfoDir :: "string + string \<Rightarrow> (string \<Rightarrow> string option) \<Rightarrow> string + string" where
  "backend_processInfoDir config mkdir =
     (case config of
        Inl e \<Rightarrow> Inl (''failed to UserConfigDir: '' @ e)
      | Inr c \<Rightarrow>
          (let dir = filepath_Join [c, ''suborbital'', ''proc'']
           in case mkdir dir of Some e \<Rightarrow> Inl (''failed to MkdirAll: '' @ e) | None \<Rightarrow> Inr dir))"

definition backend_Find :: "(bytes \<Rightarrow> info option) \<Rightarrow> string + string \<Rightarrow> string \<Rightarrow> files \<Rightarrow> string + info" where
  "backend_Find unmarshal dir uuid fs =
     (case dir of
        Inl e \<Rightarrow> Inl (''failed to processInfoDir: '' @ e)
      | Inr d \<Rightarrow>
          (case fs (info_path d uuid) of
             None \<Rightarrow> Inl ''failed to ReadFile''
           | Some b \<Rightarrow> (case unmarshal b of None \<Rightarrow> Inl ''failed to Unmarshal'' | Some i \<Rightarrow> Inr i)))"

definition backend_Write :: "(info \<Rightarrow> bytes option) \<Rightarrow> string + string \<Rightarrow> string option \<Rightarrow> string \<Rightarrow> info \<Rightarrow> files \<Rightarrow>
    string option \<times> files" where
  "backend_Write marshal dir write_error uuid p fs =
     (case dir of
        Inl e \<Rightarrow> (Some (''failed to processInfoDir: '' @ e), fs)
      | Inr d \<Rightarrow>
          (case marshal p of
             None \<Rightarrow> (Some ''failed to Marshal'', fs)
           | Some b \<Rightarrow>
               (case write_error of
                  Some e \<Rightarrow> (Some (''failed to WriteFile: '' @ e), fs)
                | None \<Rightarrow> (None, fs(info_path d uuid \<mapsto> b)))))"

lemma info_roundtrip:
  assumes "encoding marshal unmarshal" "info_Write marshal (Inr d) None uuid p fs = (e, fs')"
  shows "e = None \<and> info_Find unmarshal (Inr d) uuid fs' = Inr p"
proof -
  from assms(1) obtain j where "marshal p = Some j" "unmarshal j = Some p" by (rule encodingE)
  with assms(2) show ?thesis by (auto simp: info_Write_def info_Find_def)
qed

text \<open>What a node writes the backend's copy finds, and the two agree on what is left once both have deleted.\<close>

lemma node_info_found:
  assumes "encoding marshal unmarshal" "info_Write marshal (Inr d) None uuid p fs = (e, fs')"
  shows "backend_Find unmarshal (Inr d) uuid fs' = Inr p"
    and "snd (backend_Delete (Inr d) None uuid fs') = snd (sat_Delete (Inr d) None uuid fs')"
    and "backend_Find unmarshal (Inr d) uuid (snd (sat_Delete (Inr d) None uuid fs')) = Inl ''failed to ReadFile''"
proof -
  from assms(1) obtain j where "marshal p = Some j" "unmarshal j = Some p" by (rule encodingE)
  with assms(2) show "backend_Find unmarshal (Inr d) uuid fs' = Inr p"
    "snd (backend_Delete (Inr d) None uuid fs') = snd (sat_Delete (Inr d) None uuid fs')"
    "backend_Find unmarshal (Inr d) uuid (snd (sat_Delete (Inr d) None uuid fs')) = Inl ''failed to ReadFile''"
    by (auto simp: info_Write_def backend_Find_def backend_Delete_def sat_Delete_def)
qed

section \<open>The monitor\<close>

text \<open>
  One turn of the monitor's loop finds a stop request or not, its context expired or not, and its file
  there or not. The \<open>break\<close> on an expired context only leaves the \<open>select\<close>. The outcome counts the
  seconds slept.
\<close>

record monitor_turn =
  mt_stop :: bool
  mt_expired :: bool
  mt_file :: bool

datatype monitor_outcome = MonitorRuns nat | MonitorStopped | MonitorDeleted

fun monitor_Start :: "nat \<Rightarrow> monitor_turn list \<Rightarrow> monitor_outcome" where
  "monitor_Start slept [] = MonitorRuns slept"
| "monitor_Start slept (t # ts) =
     (if mt_stop t then MonitorStopped
      else if mt_expired t then monitor_Start slept ts
      else if \<not> mt_file t then MonitorDeleted
      else monitor_Start (Suc slept) ts)"

definition NewMonitor :: "(info \<Rightarrow> bytes option) \<Rightarrow> string + string \<Rightarrow> string option \<Rightarrow> int \<Rightarrow> 'caps sat_config \<Rightarrow> files \<Rightarrow>
    string option \<times> files" where
  "NewMonitor marshal dir write_error pid conf fs =
     (case info_Write marshal dir write_error (sc_ProcUUID conf) (NewInfo pid (sc_Port conf) (sc_JobType conf)) fs of
        (Some e, fs') \<Rightarrow> (Some (''failed to Write process info: '' @ e), fs')
      | (None, fs') \<Rightarrow> (None, fs'))"

lemma monitor_prefix:
  "list_all (\<lambda>t. \<not> mt_stop t \<and> (mt_expired t \<or> mt_file t)) ts \<Longrightarrow>
     monitor_Start n (ts @ us) = monitor_Start (n + length (filter (\<lambda>t. \<not> mt_expired t) ts)) us"
  by (induction ts arbitrary: n) auto

text \<open>
  The monitor ends the process when its file is deleted only while its context lasts: from the turn
  the context has expired it never looks at the file again and never sleeps, however many turns it
  makes, until it is asked to stop.
\<close>

theorem monitor_blind_after_timeout:
  assumes "list_all (\<lambda>t. \<not> mt_stop t \<and> \<not> mt_expired t \<and> mt_file t) early"
    and "list_all (\<lambda>t. \<not> mt_stop t \<and> mt_expired t) late"
  shows "monitor_Start 0 (early @ late) = MonitorRuns (length early)
    \<and> monitor_Start 0 (early @ t # late) =
        (if mt_stop t then MonitorStopped else if mt_expired t then MonitorRuns (length early)
         else if \<not> mt_file t then MonitorDeleted else MonitorRuns (Suc (length early)))"
proof -
  have e: "monitor_Start 0 (early @ us) = monitor_Start (length early) us" for us
    using monitor_prefix[of early 0 us] assms(1)
    by (simp add: list_all_iff filter_id_conv[THEN iffD2])
  have l: "monitor_Start n late = MonitorRuns n" for n
    using monitor_prefix[of late n "[]"] assms(2) by (simp add: list_all_iff filter_empty_conv)
  show ?thesis unfolding e by (simp add: l)
qed

lemma monitor_blind_after_timeout_witness:
  "monitor_Start 0 (replicate 5 \<lparr>mt_stop = False, mt_expired = False, mt_file = True\<rparr>
      @ replicate 1000 \<lparr>mt_stop = False, mt_expired = True, mt_file = False\<rparr>) = MonitorRuns 5"
  using monitor_blind_after_timeout[of "replicate 5 \<lparr>mt_stop = False, mt_expired = False, mt_file = True\<rparr>"
      "replicate 1000 \<lparr>mt_stop = False, mt_expired = True, mt_file = False\<rparr>"]
  by (simp add: list_all_iff)

section \<open>The node\<close>

text \<open>A node with its bus, once set up, the pod it sends on and the pod that listens for its jobs.\<close>

record sat_node =
  sn_mesh :: bool
  sn_bus :: "bus option"
  sn_pod :: "pod option"
  sn_listener :: "pod option"
  sn_server_up :: bool
  sn_files :: files

definition refFromFilename :: "(string \<Rightarrow> string + bytes) \<Rightarrow> string \<Rightarrow> string + bytes" where
  "refFromFilename read filename =
     (case read filename of Inl e \<Rightarrow> Inl (''failed to os.Open: '' @ e) | Inr b \<Rightarrow> Inr b)"

text \<open>The module's bytes and the node: in the mesh when a control plane is configured, else a server.\<close>

definition sat_New :: "(string \<Rightarrow> string + bytes) \<Rightarrow> ('caps \<Rightarrow> string option) \<Rightarrow> files \<Rightarrow> 'caps sat_config \<Rightarrow>
    string + bytes \<times> sat_node" where
  "sat_New read api_error fs config =
     (case (case Option.bind (sc_Module config) sm_WasmData of
              Some b \<Rightarrow> if b \<noteq> [] then Inr b else refFromFilename read (sc_ModuleArg config)
            | None \<Rightarrow> refFromFilename read (sc_ModuleArg config)) of
        Inl e \<Rightarrow> Inl (''faild to refFromFilename: '' @ e)
      | Inr b \<Rightarrow>
          (case api_error (sc_CapConfig config) of
             Some e \<Rightarrow> Inl (''failed to NewWithConfig: '' @ e)
           | None \<Rightarrow> Inr (b, \<lparr>sn_mesh = (sc_ControlPlaneUrl config \<noteq> ''''), sn_bus = None, sn_pod = None,
                             sn_listener = None, sn_server_up = False, sn_files = fs\<rparr>)))"

definition sat_modifiers :: "'caps sat_config \<Rightarrow> OptionsModifier list" where
  "sat_modifiers config =
     [UseBelongsTo (sc_Tenant config), UseInterests [sc_JobType config], UseMeshTransport, UseDiscovery,
      UseEndpoint (dec (nat (sc_Port config))) ''/meta/message'']"

text \<open>Every job message is answered by the mesh handler, so the listening pod's callback never fails.\<close>

definition setupBus :: "string \<Rightarrow> 'caps sat_config \<Rightarrow> sat_node \<Rightarrow> sat_node prog" where
  "setupBus nodeUUID config s =
     prog_bind (Some (Bus_New nodeUUID (sat_modifiers config))) (\<lambda>b.
     prog_bind (Some (Bus_Connect b)) (\<lambda>(pod, b1).
     prog_bind (Some (Bus_Connect b1)) (\<lambda>(listener, b2).
     prog_bind (Pod_OnType (sc_JobType config) (Some (\<lambda>_. None)) listener) (\<lambda>l.
       Some (Inr (s\<lparr>sn_bus := Some b2, sn_pod := Some pod, sn_listener := Some l\<rparr>))))))"

text \<open>\<open>Start\<close> answers when the HTTP server ended: nothing when it was closed on purpose.\<close>

definition sat_Start_result :: "bool \<Rightarrow> string \<Rightarrow> string option" where
  "sat_Start_result server_closed err = (if server_closed then None else Some (''failed to start server: '' @ err))"

definition sat_Shutdown :: "string list \<Rightarrow> (hub \<Rightarrow> hub) list \<Rightarrow> string + string \<Rightarrow> string option \<Rightarrow> string option \<Rightarrow>
    string \<Rightarrow> sat_node \<Rightarrow> (string option \<times> sat_node) prog" where
  "sat_Shutdown order envs dir remove_error server_error procUUID s =
     prog_bind
       (if \<not> sn_mesh s then Some (Inr s)
        else case sn_bus s of
               None \<Rightarrow> Some (Inl NilDereference)
             | Some b \<Rightarrow>
                 map_option (\<lambda>(withdrawn, b'). Inr (s\<lparr>sn_bus := Some (Bus_Stop order b')\<rparr>)) (Bus_Withdraw order envs b))
       (\<lambda>s1. let s2 = s1\<lparr>sn_files := snd (sat_Delete dir remove_error procUUID (sn_files s1))\<rparr>
             in case server_error of
                  Some e \<Rightarrow> Some (Inr (Some (''failed to echo.Shutdown(): '' @ e), s2))
                | None \<Rightarrow> Some (Inr (None, s2\<lparr>sn_server_up := False\<rparr>)))"

text \<open>
  Shutting a node down: before its bus is set up, a node of the mesh panics; otherwise, when the
  withdraw from the mesh ends, complete or not, the process file is deleted (if it is there and can be)
  and the server is stopped, whatever went wrong on the way; only the server's own error is answered.
\<close>

theorem sat_shutdown_branches:
  assumes "\<And>b. sn_bus s = Some b \<Longrightarrow> Bus_Withdraw order envs b \<noteq> None"
  shows "if sn_mesh s \<and> sn_bus s = None
    then sat_Shutdown order envs dir remove_error server_error procUUID s = Some (Inl NilDereference)
    else \<exists>e s'. sat_Shutdown order envs dir remove_error server_error procUUID s = Some (Inr (e, s'))
      \<and> (e = None \<longleftrightarrow> server_error = None) \<and> (server_error = None \<longrightarrow> \<not> sn_server_up s')
      \<and> (\<forall>d. dir = Inr d \<and> remove_error = None \<longrightarrow> sn_files s' (info_path d procUUID) = None)"
proof -
  have d: "\<forall>d. dir = Inr d \<and> remove_error = None \<longrightarrow> snd (sat_Delete dir remove_error procUUID fs) (info_path d procUUID) = None"
    for fs by (auto simp: sat_Delete_def)
  show ?thesis
  proof (cases "sn_mesh s")
    case True
    then show ?thesis
      using assms d by (cases "sn_bus s") (auto simp: sat_Shutdown_def Let_def split: option.splits)
  next
    case False
    then show ?thesis using d by (auto simp: sat_Shutdown_def Let_def split: option.splits)
  qed
qed

lemma sat_shutdown_branches_witness:
  "\<exists>e s'. sat_Shutdown [] [] (Inl ''no directory'') None None ''u''
     \<lparr>sn_mesh = False, sn_bus = None, sn_pod = None, sn_listener = None, sn_server_up = True, sn_files = Map.empty\<rparr>
     = Some (Inr (e, s')) \<and> e = None \<and> \<not> sn_server_up s'"
  using sat_shutdown_branches[of "\<lparr>sn_mesh = False, sn_bus = None, sn_pod = None, sn_listener = None,
      sn_server_up = True, sn_files = Map.empty\<rparr>" "[]" "[]" "Inl ''no directory''" None None "''u''"]
  by auto

section \<open>A node joins and serves\<close>

text \<open>The options of the bus of E2 Core's own server, \<open>e2core/server/server.go\<close>.\<close>

definition server_modifiers :: "OptionsModifier list" where
  "server_modifiers = [UseMeshTransport, UseDiscovery]"

lemma Bus_New_hub:
  "Bus_New uuid mods = Inr b \<Longrightarrow> b_hub b = initHub uuid (bo_BelongsTo (newOptionsWithModifiers mods))
     (bo_Interests (newOptionsWithModifiers mods)) (bo_MeshTransport (newOptionsWithModifiers mods))
     (bo_BridgeTransport (newOptionsWithModifiers mods))"
  by (auto simp: Bus_New_def Let_def elim!: go_bind_InrE split: prod.split_asm)

lemma server_hub: "Bus_New uuid server_modifiers = Inr b \<Longrightarrow> b_hub b = initHub uuid ''*'' [] True False"
  by (simp add: Bus_New_hub newOptionsWithModifiers_def server_modifiers_def UseMeshTransport_def UseDiscovery_def
      defaultOptions_def)

lemma Bus_Connect_hub: "Bus_Connect b = Inr (p, b') \<Longrightarrow> b_hub b' = b_hub b"
  by (auto simp: Bus_Connect_def elim!: go_bind_InrE)

lemma node_hub:
  assumes "setupBus uuid config s = Some (Inr s')"
  shows "\<exists>b. sn_bus s' = Some b \<and> b_hub b = initHub uuid (sc_Tenant config) [sc_JobType config] True False"
proof -
  from assms obtain b p1 b1 p2 b2 where
    "Bus_New uuid (sat_modifiers config) = Inr b" "Bus_Connect b = Inr (p1, b1)" "Bus_Connect b1 = Inr (p2, b2)"
    "sn_bus s' = Some b2"
    by (auto simp: setupBus_def elim!: prog_bind_InrE)
  moreover from this(1) have "b_hub b = initHub uuid (sc_Tenant config) [sc_JobType config] True False"
    by (simp add: Bus_New_hub newOptionsWithModifiers_def sat_modifiers_def UseMeshTransport_def UseDiscovery_def
        UseBelongsTo_def UseInterests_def UseEndpoint_def Let_def defaultOptions_def)
  ultimately show ?thesis by (auto dest!: Bus_Connect_hub)
qed

text \<open>
  C9: A node set up for a module, and the bus of E2 Core's server, which connects to it over a websocket
  when it discovers it: both accept the connection, whatever tenant the node is configured for, and from
  then on the server tunnels a message for the module's name over this connection.
\<close>

theorem node_joins_and_serves:
  assumes "encoding enc dec_hs" "encoding enc_ack dec_ack"
    and "Bus_New server_uuid server_modifiers = Inr srv" "setupBus node_uuid config s = Some (Inr node)"
    and "server_uuid \<noteq> ''''" "node_uuid \<noteq> ''''" "uuid \<in> {'''', node_uuid}"
    and "ws_exchange enc dec_hs enc_ack dec_ack (handshake_callback (b_hub (the (sn_bus node))))
        (hub_handshake (b_hub srv)) = (out, inc)"
    and "send_ok node_uuid"
  shows "\<exists>h h' k. setupOutgoingConnection (\<lambda>_ _. map_sum (\<lambda>_. ''handshake'') (\<lambda>k. k) out) conn uuid (b_hub srv) = Some h
    \<and> handleIncomingConnection (case inc of Inl _ \<Rightarrow> None | Inr hs \<Rightarrow> Some hs) (isl inc) conn' (b_hub (the (sn_bus node))) = Some k
    \<and> connectionExists node_uuid h \<and> connectionExists server_uuid k
    \<and> sendTunneledMessage send_ok (sc_JobType config) m h = Inr (None, h') \<and> hub_sent h' = [(conn, m)]"
proof -
  obtain b where b: "sn_bus node = Some b"
    "b_hub b = initHub node_uuid (sc_Tenant config) [sc_JobType config] True False"
    using node_hub[OF assms(4)] by blast
  note a = server_hub[OF assms(3)]
  let ?a = "initHub server_uuid ''*'' [] True False"
  let ?b = "initHub node_uuid (sc_Tenant config) [sc_JobType config] True False"
  have e: "out = Inr (handshake_callback ?b (hub_handshake ?a))" "inc = Inr (hub_handshake ?a)"
    using ws_exchange_agrees[OF assms(1,2), of "handshake_callback ?b" "hub_handshake ?a"] assms(8)
    by (simp_all add: a b)
  have i: "hub_inv ?a" "hub_inv ?b" by (simp_all add: hub_inv_init)
  have n: "hub_readers ?a = 0" "hub_readers ?b = 0"
    "\<not> connectionExists node_uuid ?a" "\<not> connectionExists server_uuid ?b"
    by (simp_all add: initHub_def connectionExists_def)
  from setupNew_peers[OF i(1) n(1,3) assms(6), of conn "sc_Tenant config" "[sc_JobType config]"] obtain h where h:
    "setupNewConnection conn node_uuid (sc_Tenant config) [sc_JobType config] ?a = Some h" "hub_inv h"
    "connectionExists node_uuid h"
    "hub_meshConnections h node_uuid = Some \<lparr>ch_UUID = node_uuid, ch_Conn = Some conn, ch_Signaler = NewSignaler,
       ch_ErrChan = [], ch_BelongsTo = sc_Tenant config, ch_Interests = [sc_JobType config]\<rparr>"
    "hub_sent h = hub_sent ?a" by blast
  from setupNew_peers[OF i(2) n(2,4) assms(5), of conn' "''*''" "[]"] obtain k where k:
    "setupNewConnection conn' server_uuid ''*'' [] ?b = Some k" "connectionExists server_uuid k" by blast
  have out: "setupOutgoingConnection (\<lambda>_ _. map_sum (\<lambda>_. ''handshake'') (\<lambda>k. k) out) conn uuid ?a = Some h"
    using h(1) assms(6,7) e by (auto simp: setupOutgoingConnection_def handshake_callback_def hub_handshake_def initHub_def)
  have inc: "handleIncomingConnection (case inc of Inl _ \<Rightarrow> None | Inr hs \<Rightarrow> Some hs) (isl inc) conn' ?b = Some k"
    using k(1) assms(5) e by (simp add: handleIncomingConnection_def handshake_callback_def hub_handshake_def initHub_def)
  have bal: "hub_balancers h (sc_JobType config) = Some (Balancer_Add NewBalancer node_uuid)"
    and only: "hub_meshConnections h v = Some ch \<Longrightarrow> v = node_uuid" for v ch
    using h(1) n(3) by (auto simp: setupNewConnection_def hub_addConnection_def add_interest_def Let_def initHub_def
        split: if_split_asm)
  have uuids: "bal_uuids (Balancer_Add NewBalancer node_uuid) = [node_uuid]"
    by (simp add: Balancer_Add_def NewBalancer_def)
  have "peer_live send_ok h node_uuid"
    using h(4) assms(9) by (simp add: peer_live_def PeerWithdrawn_def NewSignaler_def)
  from tunnel_live[OF h(2) bal _ _ this, of m] uuids obtain h' v ch c where
    "sendTunneledMessage send_ok (sc_JobType config) m h = Inr (None, h')" "hub_meshConnections h v = Some ch"
    "ch_Conn ch = Some c" "hub_sent h' = hub_sent h @ [(c, m)]"
    by (auto simp: tunnelRetryCount_def)
  moreover from this(2) have "v = node_uuid" by (rule only)
  ultimately have "sendTunneledMessage send_ok (sc_JobType config) m h = Inr (None, h')" "hub_sent h' = [(conn, m)]"
    using h(4,5) by (auto simp: initHub_def)
  with out inc h(3) k(2) show ?thesis by (auto simp: a b)
qed

lemma Bus_New_ring: "\<exists>b xs. Bus_New uuid mods = Inr b \<and> new_ring (b_bus b) xs"
proof -
  from new_ring_connect[OF new_ring_new, of False] obtain b0 xs where
    "connectWithOpts False newMessageBus = Inr (newPod False, b0)" "new_ring b0 xs" by blast
  then show ?thesis by (simp add: Bus_New_def Let_def) blast
qed

lemma Bus_Connect_ring:
  "new_ring (b_bus b) xs \<Longrightarrow> \<exists>b' ys. Bus_Connect b = Inr (newPod False, b') \<and> new_ring (b_bus b') ys"
  using new_ring_connect[of "b_bus b" xs False] by (auto simp: Bus_Connect_def)

lemma setupBus_total: "\<exists>node. setupBus uuid config s = Some (Inr node)"
proof -
  obtain b xs where b: "Bus_New uuid (sat_modifiers config) = Inr b" "new_ring (b_bus b) xs" using Bus_New_ring by blast
  obtain b1 ys where b1: "Bus_Connect b = Inr (newPod False, b1)" "new_ring (b_bus b1) ys"
    using Bus_Connect_ring[OF b(2)] by blast
  obtain b2 where b2: "Bus_Connect b1 = Inr (newPod False, b2)" using Bus_Connect_ring[OF b1(2)] by blast
  have "\<exists>l. Pod_OnType (sc_JobType config) (Some (\<lambda>_. None)) (newPod False) = Some (Inr l)"
    by (simp add: Pod_OnType_def pod_setOnFunc_def newPod_def Let_def)
  with b(1) b1(1) b2 show ?thesis by (auto simp: setupBus_def)
qed

definition example_config :: "unit sat_config" where
  "example_config = \<lparr>sc_ModuleArg = ''m'', sc_JobType = ''fqmn://t/n/m@v'', sc_PrettyName = ''m'', sc_Module = None,
     sc_Tenant = ''t'', sc_CapConfig = (), sc_Connections = [], sc_Port = 10001, sc_ControlPlaneUrl = ''cp'',
     sc_EnvToken = '''', sc_ProcUUID = ''123456''\<rparr>"

lemma node_joins_and_serves_witness:
  "\<exists>(srv :: bus) (node :: sat_node) h h' k out inc. setupOutgoingConnection out 7 '''' (b_hub srv) = Some h
    \<and> handleIncomingConnection inc False 8 (b_hub (the (sn_bus node))) = Some k
    \<and> sendTunneledMessage (\<lambda>_. True) ''fqmn://t/n/m@v'' (NewMsg ''u'' 0 ''t'' []) h = Inr (None, h')
    \<and> hub_sent h' = [(7, NewMsg ''u'' 0 ''t'' [])]"
proof -
  obtain srv where srv: "Bus_New ''s'' server_modifiers = Inr srv" using Bus_New_ring by blast
  obtain node where node: "setupBus ''n'' example_config \<lparr>sn_mesh = True, sn_bus = None, sn_pod = None,
      sn_listener = None, sn_server_up = False, sn_files = Map.empty\<rparr> = Some (Inr node)"
    using setupBus_total by blast
  have ne: "''s'' \<noteq> ''''" "''n'' \<noteq> ''''" "'''' \<in> {'''', ''n''}" by simp_all
  note x = ws_exchange_agrees[OF handshake_encoding ack_encoding,
      of "handshake_callback (b_hub (the (sn_bus node)))" "hub_handshake (b_hub srv)"]
  have j: "sc_JobType example_config = ''fqmn://t/n/m@v''" by (simp add: example_config_def)
  from node_joins_and_serves[OF handshake_encoding ack_encoding srv node ne x, of "\<lambda>_. True" 7 8 "NewMsg ''u'' 0 ''t'' []"]
  obtain h h' k where
    "setupOutgoingConnection (\<lambda>_ _. map_sum (\<lambda>_. ''handshake'') (\<lambda>k. k)
        (Inr (handshake_callback (b_hub (the (sn_bus node))) (hub_handshake (b_hub srv))) :: hs_error + handshakeAck))
       7 '''' (b_hub srv) = Some h"
    "handleIncomingConnection (Some (hub_handshake (b_hub srv))) False 8 (b_hub (the (sn_bus node))) = Some k"
    "sendTunneledMessage (\<lambda>_. True) ''fqmn://t/n/m@v'' (NewMsg ''u'' 0 ''t'' []) h = Inr (None, h')"
    "hub_sent h' = [(7, NewMsg ''u'' 0 ''t'' [])]"
    by (auto simp: j)
  then show ?thesis by blast
qed

end
