(* ===== verification/Settings.thy ===== *)
theory Settings
  imports Paths
begin

text \<open>
  The options of E2 Core, \<open>e2core/options/options.go\<close>, how the start command makes them from flags and
  the environment and what it does with them, \<open>e2core/command/start.go\<close>, and the choice of a tracer,
  \<open>e2core/server/init.go\<close> and \<open>sat/sat/tracing.go\<close>. What the environment says is an argument: the
  record the envconfig library fills, or its error.
\<close>

section \<open>Options\<close>

record honeycomb_config =
  hc_Endpoint :: string
  hc_APIKey :: string
  hc_Dataset :: string

record tracer_config =
  tr_TracerType :: string
  tr_ServiceName :: string
  tr_Collector :: "string option"
  tr_Honeycomb :: "honeycomb_config option"

definition no_tracer :: tracer_config where
  "no_tracer = \<lparr>tr_TracerType = '''', tr_ServiceName = '''', tr_Collector = None, tr_Honeycomb = None\<rparr>"

record options =
  op_Features :: "string list"
  op_BundlePath :: string
  op_RunSchedules :: "bool option"
  op_ControlPlane :: string
  op_AuthCacheTTL :: int
  op_UpstreamAddress :: string
  op_EnvironmentToken :: string
  op_StaticPeers :: string
  op_AppName :: string
  op_Domain :: string
  op_HTTPPort :: int
  op_TLSPort :: int
  op_TracerConfig :: tracer_config

definition zero_options :: options where
  "zero_options =
     \<lparr>op_Features = [], op_BundlePath = '''', op_RunSchedules = None, op_ControlPlane = '''', op_AuthCacheTTL = 0,
      op_UpstreamAddress = '''', op_EnvironmentToken = '''', op_StaticPeers = '''', op_AppName = '''',
      op_Domain = '''', op_HTTPPort = 0, op_TLSPort = 0, op_TracerConfig = no_tracer\<rparr>"

definition DefaultControlPlane :: string where
  "DefaultControlPlane = ''localhost:9090''"

type_synonym modifier = "options \<Rightarrow> options"

definition UseBundlePath :: "string \<Rightarrow> modifier" where
  "UseBundlePath path opts = opts\<lparr>op_BundlePath := path\<rparr>"

definition AppName :: "string \<Rightarrow> modifier" where
  "AppName name opts = opts\<lparr>op_AppName := name\<rparr>"

definition Domain_opt :: "string \<Rightarrow> modifier" where
  "Domain_opt domain opts = opts\<lparr>op_Domain := domain\<rparr>"

definition HTTPPort :: "int \<Rightarrow> modifier" where
  "HTTPPort port opts = opts\<lparr>op_HTTPPort := port\<rparr>"

definition TLSPort :: "int \<Rightarrow> modifier" where
  "TLSPort port opts = opts\<lparr>op_TLSPort := port\<rparr>"

text \<open>\<open>finalize\<close>: the environment's values over the modifiers' for some options, under them for others.\<close>

definition finalize :: "options \<Rightarrow> options \<Rightarrow> options" where
  "finalize env opts =
     (let o1 = opts\<lparr>op_ControlPlane := trim_suffix (op_ControlPlane env) ''/'', op_AuthCacheTTL := op_AuthCacheTTL env\<rparr>;
          o2 = (if op_RunSchedules o1 = None \<and> op_RunSchedules env \<noteq> None
                then o1\<lparr>op_RunSchedules := op_RunSchedules env\<rparr> else o1);
          o3 = (if op_AppName o2 = '''' then o2\<lparr>op_AppName := op_AppName env\<rparr> else o2);
          o4 = (if op_Domain o3 = '''' then o3\<lparr>op_Domain := op_Domain env\<rparr> else o3);
          o5 = (if op_HTTPPort o4 = 0 then o4\<lparr>op_HTTPPort := op_HTTPPort env\<rparr> else o4);
          o6 = (if op_TLSPort o5 = 0 then o5\<lparr>op_TLSPort := op_TLSPort env\<rparr> else o5)
      in o6\<lparr>op_Features := op_Features env, op_StaticPeers := op_StaticPeers env,
            op_EnvironmentToken := op_EnvironmentToken env, op_TracerConfig := op_TracerConfig env\<rparr>)"

definition NewWithModifiers :: "string + options \<Rightarrow> modifier list \<Rightarrow> string + options" where
  "NewWithModifiers env mods =
     (case env of
        Inl e \<Rightarrow> Inl (''opts.finalize: envconfig.Process: '' @ e)
      | Inr envOpts \<Rightarrow> Inr (finalize envOpts (fold (\<lambda>m opts. m opts) mods zero_options)))"

section \<open>The start command\<close>

text \<open>The flags as given on the command line, and their defaults.\<close>

record flags =
  fl_domain :: "string option"
  fl_http_port :: "int option"
  fl_tls_port :: "int option"

definition no_flags :: flags where
  "no_flags = \<lparr>fl_domain = None, fl_http_port = None, fl_tls_port = None\<rparr>"

definition flag_value :: "'a \<Rightarrow> 'a option \<Rightarrow> 'a" where
  "flag_value d given = (case given of None \<Rightarrow> d | Some v \<Rightarrow> v)"

definition modsFromFlags :: "flags \<Rightarrow> modifier list" where
  "modsFromFlags fs = [Domain_opt (flag_value '''' (fl_domain fs)), HTTPPort (flag_value 8080 (fl_http_port fs)),
     TLSPort (flag_value 443 (fl_tls_port fs))]"

definition start_options :: "string + options \<Rightarrow> flags \<Rightarrow> string list \<Rightarrow> string + options" where
  "start_options env fs args =
     (let path = (case args of [] \<Rightarrow> ''./modules.wasm.zip'' | a # _ \<Rightarrow> a)
      in NewWithModifiers env (modsFromFlags fs @ [UseBundlePath path]))"

text \<open>Where the syncer reads from, and whether this process serves the source itself.\<close>

datatype source_choice = BundleSource string | HTTPSource string string

definition setupSyncer :: "options \<Rightarrow> source_choice" where
  "setupSyncer opts =
     (if op_ControlPlane opts \<noteq> '''' then HTTPSource (op_ControlPlane opts) (op_EnvironmentToken opts)
      else BundleSource (op_BundlePath opts))"

definition setupSourceServer :: "options \<Rightarrow> string option \<times> options" where
  "setupSourceServer opts =
     (if op_ControlPlane opts = DefaultControlPlane \<or> op_ControlPlane opts = ''''
      then (Some (op_BundlePath opts), opts\<lparr>op_ControlPlane := DefaultControlPlane\<rparr>)
      else (None, opts))"

text \<open>
  The running command's three parts; the signal for shutdown stops the server, then the source server,
  then the backend. \<open>nil_shutdown\<close> is what shutting down a nil source server does.
\<close>

record e2core_parts =
  e2_source :: source_choice
  e2_sourceSrv :: "string option"
  e2_opts :: options
  e2_server_up :: bool
  e2_backend_up :: bool

definition e2core_setup :: "options \<Rightarrow> e2core_parts" where
  "e2core_setup opts =
     (let source = setupSyncer opts; (srv, opts') = setupSourceServer opts
      in \<lparr>e2_source = source, e2_sourceSrv = srv, e2_opts = opts', e2_server_up = True, e2_backend_up = True\<rparr>)"

definition sourceserver_Start :: "string option \<Rightarrow> string option \<Rightarrow> string option" where
  "sourceserver_Start srv start_error = (case srv of None \<Rightarrow> None | Some _ \<Rightarrow> start_error)"

definition e2core_shutdown :: "unit go \<Rightarrow> string option \<Rightarrow> string option \<Rightarrow> e2core_parts \<Rightarrow> (string option \<times> e2core_parts) go" where
  "e2core_shutdown nil_shutdown srv_error source_error parts =
     (case srv_error of
        Some e \<Rightarrow> Inr (Some (''srv.Shutdown: '' @ e), parts)
      | None \<Rightarrow>
          (let p1 = parts\<lparr>e2_server_up := False\<rparr>
           in go_bind (case e2_sourceSrv parts of
                         None \<Rightarrow> go_bind nil_shutdown (\<lambda>_. Inr None)
                       | Some _ \<Rightarrow> Inr source_error) (\<lambda>err.
                case err of
                  Some e \<Rightarrow> Inr (Some (''sourceSrv.Shutdown: '' @ e), p1)
                | None \<Rightarrow> Inr (None, p1\<lparr>e2_backend_up := False\<rparr>))))"

section \<open>Tracers\<close>

text \<open>
  The kind of tracer that is set up, \<open>Inl\<close> for an error; connecting to an endpoint and making the
  provider may fail. E2 Core's server reads the section of the chosen kind without looking whether it
  is there, and takes no notice of a collector's provider that could not be made (\<open>None\<close>); Sat looks.
\<close>

datatype tracer = NoopTracer | HoneycombTracer string string string | OtelTracer string

definition made :: "(tracer \<Rightarrow> string option) \<Rightarrow> string \<Rightarrow> tracer \<Rightarrow> string + tracer" where
  "made provide wrap t = (case provide t of Some e \<Rightarrow> Inl (wrap @ e) | None \<Rightarrow> Inr t)"

definition e2core_setupTracing :: "(string \<Rightarrow> string option) \<Rightarrow> (tracer \<Rightarrow> string option) \<Rightarrow> tracer_config \<Rightarrow>
    (string + tracer option) go" where
  "e2core_setupTracing connect provide config =
     (if tr_TracerType config = ''honeycomb'' then
        (case tr_Honeycomb config of
           None \<Rightarrow> Inl NilDereference
         | Some hc \<Rightarrow>
             Inr (case connect (hc_Endpoint hc) of
                    Some e \<Rightarrow> Inl (''observability.GrpcConnection to '' @ hc_Endpoint hc @ '': '' @ e)
                  | None \<Rightarrow> map_sum (\<lambda>e. e) Some (made provide ''observability.HoneycombTracer: ''
                              (HoneycombTracer (hc_Endpoint hc) (hc_APIKey hc) (hc_Dataset hc)))))
      else if tr_TracerType config = ''collector'' then
        (case tr_Collector config of
           None \<Rightarrow> Inl NilDereference
         | Some endpoint \<Rightarrow>
             Inr (case connect endpoint of
                    Some e \<Rightarrow> Inl (''observability.GrpcConnection: '' @ e)
                  | None \<Rightarrow> Inr (if provide (OtelTracer endpoint) = None then Some (OtelTracer endpoint) else None)))
      else Inr (map_sum (\<lambda>e. e) Some (made provide ''observability.NoopTracer: '' NoopTracer)))"

definition SetupTracing :: "(string \<Rightarrow> string option) \<Rightarrow> (tracer \<Rightarrow> string option) \<Rightarrow> tracer_config \<Rightarrow> string + tracer" where
  "SetupTracing connect provide config =
     (if tr_TracerType config = ''honeycomb'' then
        (case tr_Honeycomb config of
           None \<Rightarrow> Inl ''missing honeycomb tracing config values''
         | Some hc \<Rightarrow>
             (case connect (hc_Endpoint hc) of
                Some e \<Rightarrow> Inl (''honeycomb GrpcConnection: '' @ e)
              | None \<Rightarrow> made provide ''observability.HoneycombTracer: ''
                          (HoneycombTracer (hc_Endpoint hc) (hc_APIKey hc) (hc_Dataset hc))))
      else if tr_TracerType config = ''collector'' then
        (case tr_Collector config of
           None \<Rightarrow> Inl ''missing collector tracing config values''
         | Some endpoint \<Rightarrow>
             (case connect endpoint of
                Some e \<Rightarrow> Inl (''collector GrpcConnection: '' @ e)
              | None \<Rightarrow> made provide ''observability.OtelTracer: '' (OtelTracer endpoint)))
      else made provide ''noop Tracer: '' NoopTracer)"

section \<open>Lemmas\<close>

lemmas modifier_defs = UseBundlePath_def AppName_def Domain_opt_def HTTPPort_def TLSPort_def

lemma finalize_simps [simp]:
  "op_HTTPPort (finalize env o1) = (if op_HTTPPort o1 = 0 then op_HTTPPort env else op_HTTPPort o1)"
  "op_TLSPort (finalize env o1) = (if op_TLSPort o1 = 0 then op_TLSPort env else op_TLSPort o1)"
  "op_Domain (finalize env o1) = (if op_Domain o1 = '''' then op_Domain env else op_Domain o1)"
  "op_AppName (finalize env o1) = (if op_AppName o1 = '''' then op_AppName env else op_AppName o1)"
  "op_RunSchedules (finalize env o1) = (case op_RunSchedules o1 of None \<Rightarrow> op_RunSchedules env | Some b \<Rightarrow> Some b)"
  "op_BundlePath (finalize env o1) = op_BundlePath o1"
  "op_UpstreamAddress (finalize env o1) = op_UpstreamAddress o1"
  "op_ControlPlane (finalize env o1) = trim_suffix (op_ControlPlane env) ''/''"
  "op_EnvironmentToken (finalize env o1) = op_EnvironmentToken env"
  by (auto simp: finalize_def Let_def split: option.splits)

definition flag_options :: "flags \<Rightarrow> string list \<Rightarrow> options" where
  "flag_options fs args = zero_options\<lparr>op_Domain := flag_value '''' (fl_domain fs),
     op_HTTPPort := flag_value 8080 (fl_http_port fs), op_TLSPort := flag_value 443 (fl_tls_port fs),
     op_BundlePath := (case args of [] \<Rightarrow> ''./modules.wasm.zip'' | a # _ \<Rightarrow> a)\<rparr>"

lemma start_options_finalize: "start_options (Inr env) fs args = Inr (finalize env (flag_options fs args))"
  by (simp add: start_options_def NewWithModifiers_def modsFromFlags_def modifier_defs flag_options_def)

text \<open>
  The start command's options, whatever the environment says: the ports are the flags', with 8080
  and 443 where a flag is missing, so that the environment's ports count only for a flag given as zero;
  the bundle path is the command line's; an upstream address is never set.
\<close>

theorem start_options_precedence:
  assumes "start_options (Inr env) fs args = Inr opts"
  shows "op_HTTPPort opts = (case fl_http_port fs of None \<Rightarrow> 8080 | Some p \<Rightarrow> if p = 0 then op_HTTPPort env else p)
    \<and> op_TLSPort opts = (case fl_tls_port fs of None \<Rightarrow> 443 | Some p \<Rightarrow> if p = 0 then op_TLSPort env else p)
    \<and> op_Domain opts = (if fl_domain fs \<in> {None, Some ''''} then op_Domain env else the (fl_domain fs))
    \<and> op_BundlePath opts = (if args = [] then ''./modules.wasm.zip'' else hd args)
    \<and> op_UpstreamAddress opts = '''' \<and> op_AppName opts = op_AppName env
    \<and> op_ControlPlane opts = trim_suffix (op_ControlPlane env) ''/''"
proof -
  have o: "opts = finalize env (flag_options fs args)" using assms start_options_finalize by simp
  show ?thesis unfolding o finalize_simps
    by (cases "fl_http_port fs"; cases "fl_tls_port fs"; cases "fl_domain fs"; cases args)
      (simp_all add: flag_options_def zero_options_def flag_value_def)
qed

definition example_env :: options where
  "example_env = zero_options\<lparr>op_HTTPPort := 9000, op_TLSPort := 9443, op_ControlPlane := ''https://cp/''\<rparr>"

lemma start_options_precedence_witness:
  "\<exists>opts. start_options (Inr example_env) no_flags [] = Inr opts \<and> op_HTTPPort opts = 8080 \<and> op_HTTPPort example_env = 9000"
proof -
  obtain opts where o: "start_options (Inr example_env) no_flags [] = Inr opts"
    by (simp add: start_options_def NewWithModifiers_def Let_def)
  from start_options_precedence[OF this] o show ?thesis by (simp add: no_flags_def example_env_def)
qed



text \<open>A tracer chosen without its section of the configuration: a panic in E2 Core's server, an error in Sat.\<close>

lemma tracer_without_section:
  assumes "tr_TracerType config = ''honeycomb'' \<and> tr_Honeycomb config = None
      \<or> tr_TracerType config = ''collector'' \<and> tr_Collector config = None"
  shows "e2core_setupTracing connect provide config = Inl NilDereference"
    and "\<exists>e. SetupTracing connect provide config = Inl e"
  using assms by (auto simp: e2core_setupTracing_def SetupTracing_def)

end
