(* ===== verification/Core.thy ===== *)
theory Core
  imports WorkerPool Results Schedules Paths
begin

text \<open>
  The scheduler's core and facade, \<open>foundation/scheduler/core.go\<close> and \<open>scheduler.go\<close>, over workers,
  results and schedules; the autoscaler's loop and metrics (\<open>scaler.go\<close>, \<open>ratetracker.go\<close>); and the
  engine that registers a module with it, \<open>sat/engine2/engine.go\<close>.
\<close>

section \<open>Rates and metrics\<close>

text \<open>Times are nanoseconds. A rate over no time at all is not a number, \<open>None\<close>.\<close>

record rate_tracker =
  rk_count :: int
  rk_last :: int

definition newRateTracker :: "int \<Rightarrow> rate_tracker" where
  "newRateTracker now = \<lparr>rk_count = 0, rk_last = now\<rparr>"

definition rate_add :: "rate_tracker \<Rightarrow> rate_tracker" where
  "rate_add r = r\<lparr>rk_count := rk_count r + 1\<rparr>"

definition rate_average :: "int \<Rightarrow> rate_tracker \<Rightarrow> rat option \<times> rate_tracker" where
  "rate_average now r =
     (if now = rk_last r then None else Some (rat_of_int (rk_count r) / (rat_of_int (now - rk_last r) / 10 ^ 9)),
      r\<lparr>rk_count := 0, rk_last := now\<rparr>)"

record worker_metrics =
  wm_TargetThreadCount :: int
  wm_ThreadCount :: int
  wm_JobCount :: int
  wm_JobRate :: rat

definition worker_metrics_of :: "rat \<Rightarrow> worker \<Rightarrow> worker_metrics" where
  "worker_metrics_of rate w =
     \<lparr>wm_TargetThreadCount = wk_targetThreadCount w, wm_ThreadCount = int (length (wk_threads w)),
      wm_JobCount = int (length (wk_workChan w)), wm_JobRate = rate\<rparr>"

record scaler_metrics =
  sm_TotalThreadCount :: int
  sm_TotalJobCount :: int
  sm_Workers :: "string \<rightharpoonup> worker_metrics"

text \<open>The metrics of all workers, visited in the given order.\<close>

fun metrics_pass :: "(string \<Rightarrow> rat) \<Rightarrow> string list \<Rightarrow> scaler \<Rightarrow> scaler_metrics \<Rightarrow> scaler_metrics" where
  "metrics_pass rates [] s m = m"
| "metrics_pass rates (n # ns) s m =
     (case findWorker n s of
        None \<Rightarrow> metrics_pass rates ns s m
      | Some w \<Rightarrow>
          (let k = worker_metrics_of (rates n) w
           in metrics_pass rates ns s
                \<lparr>sm_TotalThreadCount = sm_TotalThreadCount m + wm_ThreadCount k,
                 sm_TotalJobCount = sm_TotalJobCount m + wm_JobCount k, sm_Workers = (sm_Workers m)(n \<mapsto> k)\<rparr>))"

definition scaler_metrics_of :: "(string \<Rightarrow> rat) \<Rightarrow> string list \<Rightarrow> scaler \<Rightarrow> scaler_metrics" where
  "scaler_metrics_of rates order s =
     metrics_pass rates order s \<lparr>sm_TotalThreadCount = 0, sm_TotalJobCount = 0, sm_Workers = Map.empty\<rparr>"

section \<open>The autoscaler's loop\<close>

text \<open>
  One worker's turn: the decision, and the reconciliation to it, whose error is ignored; \<open>None\<close> when
  the runnable's given answers are used up.
\<close>

definition autoscale_worker :: "rat \<Rightarrow> bool list \<Rightarrow> worker \<Rightarrow> worker option" where
  "autoscale_worker rate outs w =
     (let m = worker_metrics_of rate w
      in case scale_decision (wm_JobCount m) (wm_ThreadCount m) (wm_JobRate m) (wk_options w) of
           None \<Rightarrow> Some w
         | Some n \<Rightarrow> map_option (\<lambda>(_, w', _). w') (setThreadCount outs n w))"

fun autoscale_pass :: "(string \<Rightarrow> rat) \<Rightarrow> (string \<Rightarrow> bool list) \<Rightarrow> string list \<Rightarrow> scaler \<Rightarrow> scaler option" where
  "autoscale_pass rates outs [] s = Some s"
| "autoscale_pass rates outs (n # ns) s =
     (case findWorker n s of
        None \<Rightarrow> autoscale_pass rates outs ns s
      | Some w \<Rightarrow>
          (case autoscale_worker (rates n) (outs n) w of
             None \<Rightarrow> None
           | Some w' \<Rightarrow> autoscale_pass rates outs ns (s\<lparr>sc_workers := (sc_workers s)(n \<mapsto> w')\<rparr>)))"

fun autoscale_turns :: "(rat \<times> bool list) list \<Rightarrow> worker \<Rightarrow> worker option" where
  "autoscale_turns [] w = Some w"
| "autoscale_turns ((rate, outs) # ts) w = Option.bind (autoscale_worker rate outs w) (autoscale_turns ts)"

section \<open>The core and the facade\<close>

text \<open>
  The core with the results of the jobs it was given, the jobs by their results, and the jobs whose
  goroutine has yet to hand them to the worker found for them.
\<close>

record core =
  co_scaler :: scaler
  co_watcher :: watcher
  co_results :: results
  co_jobs :: "nat \<rightharpoonup> job"
  co_handing :: "(string \<times> nat) list"

definition newCore :: core where
  "newCore = \<lparr>co_scaler = newScaler, co_watcher = newWatcher,
     co_results = \<lparr>rs_heap = [], rs_groups = [], rs_forwards = []\<rparr>, co_jobs = Map.empty, co_handing = []\<rparr>"

definition Core_do :: "job \<Rightarrow> core \<Rightarrow> (nat \<times> core) option" where
  "Core_do j c =
     (let p = length (rs_heap (co_results c));
          c1 = c\<lparr>co_results := (co_results c)\<lparr>rs_heap := rs_heap (co_results c) @ [newResult (job_uuid j)]\<rparr>\<rparr>
      in case findWorker (job_jobType j) (co_scaler c) of
           None \<Rightarrow>
             map_option (\<lambda>rs. (p, c1\<lparr>co_results := rs\<rparr>))
               (sendErr p (Some (''failed to getWorker for jobType '' @ job_jobType j)) (co_results c1))
         | Some w \<Rightarrow> Some (p, c1\<lparr>co_jobs := (co_jobs c)(p \<mapsto> j), co_handing := co_handing c @ [(job_jobType j, p)]\<rparr>))"

definition Core_register :: "string \<Rightarrow> worker_option list \<Rightarrow> core \<Rightarrow> core" where
  "Core_register jobType options c = c\<lparr>co_scaler := core_register jobType options (co_scaler c)\<rparr>"

definition Core_deRegister :: "bool list \<Rightarrow> string \<Rightarrow> core \<Rightarrow> (string option \<times> core) option" where
  "Core_deRegister outs jobType c =
     map_option (\<lambda>(ok, s, _). (if ok then None else Some ''failed to removeWorker'', c\<lparr>co_scaler := s\<rparr>))
       (removeWorker outs jobType (co_scaler c))"

definition Core_watch :: "string \<Rightarrow> schedule \<Rightarrow> core \<Rightarrow> core" where
  "Core_watch uuid sched c = c\<lparr>co_watcher := watch uuid sched (co_watcher c)\<rparr>"

text \<open>The facade; a registration answers the function that runs a job of its type.\<close>

definition Scheduler_New :: core where
  "Scheduler_New = newCore"

definition Scheduler_Job :: "string \<Rightarrow> string \<Rightarrow> any_data \<Rightarrow> job" where
  "Scheduler_Job uuid jobType d = NewJob uuid jobType d"

definition Scheduler_Do :: "job \<Rightarrow> core \<Rightarrow> (nat \<times> core) option" where
  "Scheduler_Do j c = Core_do j c"

definition Scheduler_Register :: "string \<Rightarrow> worker_option list \<Rightarrow> core \<Rightarrow>
    (string \<Rightarrow> any_data \<Rightarrow> core \<Rightarrow> (nat \<times> core) option) \<times> core" where
  "Scheduler_Register jobType options c =
     ((\<lambda>uuid d c'. Scheduler_Do (NewJob uuid jobType d) c'), Core_register jobType options c)"

definition Scheduler_DeRegister :: "bool list \<Rightarrow> string \<Rightarrow> core \<Rightarrow> (string option \<times> core) option" where
  "Scheduler_DeRegister outs jobType c = Core_deRegister outs jobType c"

definition Scheduler_Schedule :: "string \<Rightarrow> schedule \<Rightarrow> core \<Rightarrow> core" where
  "Scheduler_Schedule uuid sched c = Core_watch uuid sched c"

definition IsRegistered :: "string \<Rightarrow> core \<Rightarrow> bool" where
  "IsRegistered jobType c \<longleftrightarrow> hasWorker jobType (co_scaler c)"

definition Scheduler_Metrics :: "(string \<Rightarrow> rat) \<Rightarrow> string list \<Rightarrow> core \<Rightarrow> scaler_metrics" where
  "Scheduler_Metrics rates order c = scaler_metrics_of rates order (co_scaler c)"

section \<open>The engine\<close>

definition engine_options :: "int \<Rightarrow> worker_option list" where
  "engine_options numCPU = [Autoscale numCPU 24, MaxRetries 0, RetrySeconds 0, PreWarm]"

definition Engine_New :: "int \<Rightarrow> string \<Rightarrow> core" where
  "Engine_New numCPU name = snd (Scheduler_Register name (engine_options numCPU) newCore)"

definition WasmRefFromFile :: "(string \<Rightarrow> string + bytes) \<Rightarrow> string \<Rightarrow> string + (string \<times> bytes)" where
  "WasmRefFromFile read filename =
     (case read filename of
        Inl e \<Rightarrow> Inl (''failed to Open: '' @ e)
      | Inr b \<Rightarrow> Inr (trim_suffix (path_base filename) ''.wasm'', b))"

section \<open>Lemmas\<close>

lemma Core_do_unregistered:
  assumes "\<not> IsRegistered (job_jobType j) c"
  shows "\<exists>p c'. Core_do j c = Some (p, c')
    \<and> map_option fst (Result_Then True p (co_results c'))
        = Some (DNil, Some (''failed to getWorker for jobType '' @ job_jobType j))"
  using assms
  by (auto simp: IsRegistered_def hasWorker_def Core_do_def Let_def sendErr_def newResult_def set_result_def
      chan_send_def Result_Then_def)

lemma Engine_registered: "IsRegistered name (Engine_New numCPU name)"
  by (simp add: IsRegistered_def hasWorker_def Engine_New_def Scheduler_Register_def Core_register_def
      core_register_def addWorker_def findWorker_def Let_def)

lemma Engine_autoscales: "sc_autoscaling (co_scaler (Engine_New numCPU name))"
  by (simp add: Engine_New_def Scheduler_Register_def Core_register_def core_register_def addWorker_def
      engine_options_def Autoscale_def MaxRetries_def RetrySeconds_def PreWarm_def defaultOpts_def
      startAutoscaler_def newCore_def newScaler_def)

section \<open>An idle worker shrinks to its pool size\<close>

lemma reconcile_options:
  "reconcile_loop outs att w = Some (ok, w', outs') \<Longrightarrow> wk_options w' = wk_options w"
proof (induction outs arbitrary: att w)
  case Nil
  then show ?case by (subst (asm) reconcile_loop.simps) (auto split: if_splits)
next
  case (Cons out outs)
  from Cons.prems show ?case
    by (subst (asm) reconcile_loop.simps)
      (auto simp: addThread_def removeThread_def Let_def split: if_splits dest!: Cons.IH)
qed

lemma reconcile_succeeds:
  assumes "0 \<le> n" "n \<le> int (length (wk_threads w))" "length (wk_threads w) \<le> k"
    and "0 \<le> wo_numRetries (wk_options w)"
  shows "\<exists>w' outs'. setThreadCount (replicate k True) n w = Some (True, w', outs')
    \<and> int (length (wk_threads w')) = n \<and> wk_workChan w' = wk_workChan w \<and> wk_options w' = wk_options w"
proof -
  let ?w = "w\<lparr>wk_targetThreadCount := n\<rparr>"
  have "\<exists>w' outs'. reconcile_loop (replicate k True) 0 ?w = Some (True, w', outs')"
    using assms by (intro reconcile_retries) (auto simp: filter_replicate)
  then obtain w' outs' where r: "reconcile_loop (replicate k True) 0 ?w = Some (True, w', outs')" by blast
  from reconcile_ok_size[OF r] reconcile_options[OF r] r show ?thesis
    by (simp add: setThreadCount_def reconcilePoolSize_def)
qed

lemma idle_turn:
  assumes "wk_workChan w = []" "1 \<le> wo_poolSize (wk_options w)" "0 \<le> wo_numRetries (wk_options w)"
    and "wo_poolSize (wk_options w) \<le> int (length (wk_threads w))" "length (wk_threads w) \<le> k"
  shows "\<exists>w'. autoscale_worker 0 (replicate k True) w = Some w' \<and> wk_workChan w' = [] \<and> wk_options w' = wk_options w
    \<and> int (length (wk_threads w')) =
        (if int (length (wk_threads w)) div 2 > wo_poolSize (wk_options w) then int (length (wk_threads w)) div 2
         else wo_poolSize (wk_options w))"
proof -
  let ?t = "int (length (wk_threads w))" and ?p = "wo_poolSize (wk_options w)"
  show ?thesis
  proof (cases "0 < ?t div 2")
    case True
    let ?n = "if ?t div 2 > ?p then ?t div 2 else ?p"
    have d: "scale_decision 0 ?t 0 (wk_options w) = Some ?n"
      using True by (simp add: scale_decision_def)
    have "0 \<le> ?n" "?n \<le> ?t" using assms(2,4) by auto
    from reconcile_succeeds[OF this assms(5,3)] d assms(1) show ?thesis
      by (auto simp: autoscale_worker_def worker_metrics_of_def Let_def)
  next
    case False
    then have "?t \<le> 1" by linarith
    moreover have "scale_decision 0 ?t 0 (wk_options w) = None"
      using False by (simp add: scale_decision_def)
    ultimately show ?thesis using assms by (auto simp: autoscale_worker_def worker_metrics_of_def Let_def)
  qed
qed

text \<open>
  C35: A worker without jobs whose runnable never objects returns to its pool size: with the autoscaler
  running, as many turns as its thread count has halvings down to the pool size are enough, and further
  turns leave it there.
\<close>

theorem idle_worker_shrinks:
  assumes "wk_workChan w = []" "1 \<le> wo_poolSize (wk_options w)" "0 \<le> wo_numRetries (wk_options w)"
    and "wo_poolSize (wk_options w) \<le> int (length (wk_threads w))" "length (wk_threads w) \<le> k"
    and "int (length (wk_threads w)) \<le> wo_poolSize (wk_options w) * 2 ^ n"
  shows "\<exists>w'. autoscale_turns (replicate n (0, replicate k True)) w = Some w'
    \<and> int (length (wk_threads w')) = wo_poolSize (wk_options w) \<and> wk_options w' = wk_options w"
  using assms
proof (induction n arbitrary: w)
  case (Suc n)
  from idle_turn[OF Suc.prems(1-5)] obtain w1 where w1: "autoscale_worker 0 (replicate k True) w = Some w1"
    "wk_workChan w1 = []" "wk_options w1 = wk_options w"
    "int (length (wk_threads w1)) =
        (if int (length (wk_threads w)) div 2 > wo_poolSize (wk_options w) then int (length (wk_threads w)) div 2
         else wo_poolSize (wk_options w))" by blast
  have "int (length (wk_threads w)) div 2 \<le> wo_poolSize (wk_options w) * 2 ^ n"
    using Suc.prems(6) by simp
  moreover have "wo_poolSize (wk_options w) \<le> wo_poolSize (wk_options w) * 2 ^ n"
    using Suc.prems(2) by (simp add: mult_le_cancel_left1)
  ultimately have "int (length (wk_threads w1)) \<le> wo_poolSize (wk_options w1) * 2 ^ n"
    using w1(3,4) by auto
  moreover have "length (wk_threads w1) \<le> k" "wo_poolSize (wk_options w1) \<le> int (length (wk_threads w1))"
    using w1(3,4) Suc.prems(4,5) by (auto split: if_split_asm)
  ultimately obtain w' where "autoscale_turns (replicate n (0, replicate k True)) w1 = Some w'"
    "int (length (wk_threads w')) = wo_poolSize (wk_options w)" "wk_options w' = wk_options w"
    using Suc.IH[of w1] w1(2,3) Suc.prems(2,3) by auto
  then show ?case using w1(1) by simp
qed simp

lemma idle_worker_shrinks_witness:
  "\<exists>w'. autoscale_turns (replicate 5 (0, replicate 24 True))
       ((newWorker (fold (\<lambda>f x. f x) (engine_options 8) (defaultOpts ''j'')))\<lparr>wk_threads := replicate 24 newWorkThread\<rparr>)
     = Some w' \<and> int (length (wk_threads w')) = 1"
  using idle_worker_shrinks[of "(newWorker (fold (\<lambda>f x. f x) (engine_options 8) (defaultOpts ''j'')))
      \<lparr>wk_threads := replicate 24 newWorkThread\<rparr>" 24 5]
  by (simp add: newWorker_def engine_options_def Autoscale_def MaxRetries_def RetrySeconds_def PreWarm_def
      defaultOpts_def) blast


section \<open>The order of the workers does not matter\<close>

lemma metrics_pass_closed:
  "distinct ns \<Longrightarrow> metrics_pass rates ns s m =
     \<lparr>sm_TotalThreadCount = sm_TotalThreadCount m
        + (\<Sum>n \<in> {n \<in> set ns. findWorker n s \<noteq> None}. int (length (wk_threads (the (findWorker n s))))),
      sm_TotalJobCount = sm_TotalJobCount m
        + (\<Sum>n \<in> {n \<in> set ns. findWorker n s \<noteq> None}. int (length (wk_workChan (the (findWorker n s))))),
      sm_Workers = (\<lambda>n. if n \<in> set ns \<and> findWorker n s \<noteq> None
                        then Some (worker_metrics_of (rates n) (the (findWorker n s))) else sm_Workers m n)\<rparr>"
proof (induction ns arbitrary: m)
  case (Cons a ns)
  have "{n \<in> set (a # ns). findWorker n s \<noteq> None} =
      (if findWorker a s = None then {} else {a}) \<union> {n \<in> set ns. findWorker n s \<noteq> None}" by auto
  with Cons show ?case
    by (cases "findWorker a s") (auto simp: Let_def worker_metrics_of_def fun_eq_iff)
qed simp

lemma autoscale_pass_closed:
  "distinct ns \<Longrightarrow> autoscale_pass rates outs ns s =
     (if \<exists>n \<in> set ns. \<exists>w. findWorker n s = Some w \<and> autoscale_worker (rates n) (outs n) w = None then None
      else Some (s\<lparr>sc_workers := (\<lambda>n. if n \<in> set ns then Option.bind (findWorker n s) (autoscale_worker (rates n) (outs n))
                                     else findWorker n s)\<rparr>))"
proof (induction ns arbitrary: s)
  case Nil
  then show ?case by (simp add: findWorker_def)
next
  case (Cons a ns)
  show ?case
  proof (cases "findWorker a s")
    case None
    with Cons show ?thesis by (auto simp: fun_eq_iff)
  next
    case (Some w)
    show ?thesis
    proof (cases "autoscale_worker (rates a) (outs a) w")
      case None
      with Some show ?thesis by auto
    next
      case w': (Some w')
      let ?s = "s\<lparr>sc_workers := (sc_workers s)(a \<mapsto> w')\<rparr>"
      have f: "findWorker n ?s = (if n = a then Some w' else findWorker n s)" for n
        by (simp add: findWorker_def)
      have "autoscale_pass rates outs (a # ns) s = autoscale_pass rates outs ns ?s" using Some w' by simp
      also have "\<dots> = (if \<exists>n \<in> set ns. \<exists>w. findWorker n ?s = Some w \<and> autoscale_worker (rates n) (outs n) w = None then None
         else Some (?s\<lparr>sc_workers := (\<lambda>n. if n \<in> set ns then Option.bind (findWorker n ?s) (autoscale_worker (rates n) (outs n))
                                     else findWorker n ?s)\<rparr>))"
        using Cons by simp
      finally show ?thesis unfolding f using Cons.prems Some w'
        by (auto simp: fun_eq_iff cong: if_cong)
    qed
  qed
qed


definition example_scaler :: scaler where
  "example_scaler = newScaler\<lparr>sc_workers := [''a'' \<mapsto> (newWorker (defaultOpts ''a''))\<lparr>wk_threads := replicate 4 newWorkThread\<rparr>,
     ''b'' \<mapsto> (newWorker (defaultOpts ''b''))\<lparr>wk_threads := [newWorkThread]\<rparr>]\<rparr>"


end
