(* ===== verification/Process.thy ===== *)
theory Process
  imports Lifecycle SatNode Settings Core
begin

text \<open>
  The two programs as a whole: E2 Core's server (\<open>e2core/server/server.go\<close>), its start command
  (\<open>command/start.go\<close>) and the start of its syncer and backend; a node's command
  (\<open>command/mod_start.go\<close>) and its own program (\<open>sat/main.go\<close>), with the metrics it resolves
  (\<open>sat/sat/metrics\<close>) and the call of an embedded module (\<open>embedded.go\<close>). What HTTP servers, signals
  and the observability library do are arguments.
\<close>

section \<open>Metrics\<close>

record metrics_config =
  mc_Type :: string
  mc_OtelMetrics :: "string option"

datatype metrics = NoopMetrics | OtelMetrics "string list"

text \<open>The instruments in the order they are made; \<open>instrument\<close> says which of them fails.\<close>

fun make_instruments :: "(string \<Rightarrow> string option) \<Rightarrow> string list \<Rightarrow> string + string list" where
  "make_instruments instrument [] = Inr []"
| "make_instruments instrument (n # ns) =
     (case instrument n of
        Some e \<Rightarrow> Inl (''sync int 64 provider '' @ n @ '': '' @ e)
      | None \<Rightarrow> map_sum (\<lambda>e. e) (\<lambda>is. n # is) (make_instruments instrument ns))"

definition configureMetrics :: "(string \<Rightarrow> string option) \<Rightarrow> string + metrics" where
  "configureMetrics instrument =
     map_sum (\<lambda>e. e) OtelMetrics
       (make_instruments instrument [''function_executions'', ''failed_function_executions'', ''function_time''])"

definition setupOtelMetrics :: "(string \<Rightarrow> string option) \<Rightarrow> string option \<Rightarrow> (string \<Rightarrow> string option) \<Rightarrow> metrics_config \<Rightarrow>
    string + metrics" where
  "setupOtelMetrics connect meter instrument config =
     (case mc_OtelMetrics config of
        None \<Rightarrow> Inl ''resolving otel metrics is missing configuration values''
      | Some endpoint \<Rightarrow>
          (case connect endpoint of
             Some e \<Rightarrow> Inl (''otel metrics grpc connection: '' @ e)
           | None \<Rightarrow>
               (case meter of
                  Some e \<Rightarrow> Inl (''observability.OtelMeter: '' @ e)
                | None \<Rightarrow> configureMetrics instrument)))"

definition ResolveMetrics :: "(string \<Rightarrow> string option) \<Rightarrow> string option \<Rightarrow> (string \<Rightarrow> string option) \<Rightarrow> metrics_config \<Rightarrow>
    string + metrics" where
  "ResolveMetrics connect meter instrument config =
     (if mc_Type config = ''otel'' then setupOtelMetrics connect meter instrument config else Inr NoopMetrics)"

section \<open>E2 Core\<close>

definition MsgTypeSuborbitalResult :: string where
  "MsgTypeSuborbitalResult = ''suborbital.result''"

text \<open>The server with its bus, the pod on which results arrive, and the dispatcher's table.\<close>

record e2core_server =
  sv_bus :: bus
  sv_pod :: pod
  sv_dispatcher :: dispatcher

definition server_New :: "(string + tracer option) go \<Rightarrow> string \<Rightarrow> (string + e2core_server) prog" where
  "server_New tracing nodeUUID =
     prog_bind (Some tracing) (\<lambda>t.
       case t of
         Inl e \<Rightarrow> Some (Inr (Inl (''setupTracing: '' @ e)))
       | Inr _ \<Rightarrow>
           prog_bind (Some (Bus_New nodeUUID server_modifiers)) (\<lambda>b.
           prog_bind (Some (Bus_Connect b)) (\<lambda>(pod, b').
           prog_bind (Pod_OnType MsgTypeSuborbitalResult (Some (\<lambda>_. None)) pod) (\<lambda>pod'.
             Some (Inr (Inr \<lparr>sv_bus = b', sv_pod = pod', sv_dispatcher = newDispatcher\<rparr>))))))"

text \<open>A parameter the middleware has set on the request hides the one of the path.\<close>

definition ReadParam :: "(string \<rightharpoonup> string) \<Rightarrow> (string \<rightharpoonup> string) \<Rightarrow> string \<Rightarrow> string" where
  "ReadParam set_values params name =
     (case set_values name of
        Some v \<Rightarrow> v
      | None \<Rightarrow> (case params name of Some v \<Rightarrow> v | None \<Rightarrow> ''''))"

text \<open>The syncer runs once before it is scheduled, and is not scheduled when that run fails.\<close>

definition Syncer_Start :: "string option \<Rightarrow> source \<Rightarrow> nat \<Rightarrow> syncJob \<Rightarrow> string option \<times> syncJob \<times> schedule option" where
  "Syncer_Start start_error src jobFunc sj =
     (case start_error of
        Some e \<Rightarrow> (Some (''failed to systemSource.Start: '' @ e), sj, None)
      | None \<Rightarrow>
          (case sync_Run src sj of
             (Some e, sj') \<Rightarrow> (Some (''failed to Do sync job: '' @ e), sj', None)
           | (None, sj') \<Rightarrow> (None, sj', Some (SEvery (Every 1 jobFunc)))))"

text \<open>
  The backend's loop: its turns, each given as what it makes of the orchestrator, then a shutdown;
  \<open>None\<close> when no shutdown comes. Asking for it waits for ever when the loop was never entered.
\<close>

definition orchestrator_Start :: "string option \<Rightarrow> (orchestrator \<Rightarrow> orchestrator go) list \<Rightarrow> bool \<Rightarrow>
    (orchestrator \<Rightarrow> orchestrator prog) \<Rightarrow> orchestrator \<Rightarrow> (string option \<times> orchestrator) prog" where
  "orchestrator_Start syncer_error turns shutdown terminate oc =
     (case syncer_error of
        Some e \<Rightarrow> Some (Inr (Some (''failed to syncer.Start: '' @ e), oc))
      | None \<Rightarrow>
          prog_bind (Some (fold (\<lambda>t r. go_bind r t) turns (Inr oc))) (\<lambda>oc1.
            if shutdown then prog_bind (terminate oc1) (\<lambda>oc2. Some (Inr (None, oc2))) else None))"

definition orchestrator_Shutdown :: "bool \<Rightarrow> unit option" where
  "orchestrator_Shutdown looping = (if looping then Some () else None)"

text \<open>
  The start command after its set-up: the first error of a part ends it as it is, a signal shuts the
  parts down in their order.
\<close>

datatype part_event = PartFailed string string | ShutdownSignal

fun start_select :: "(e2core_parts \<Rightarrow> (string option \<times> e2core_parts) go) \<Rightarrow> e2core_parts \<Rightarrow> part_event list \<Rightarrow>
    (string option \<times> e2core_parts) prog" where
  "start_select shutdown parts [] = None"
| "start_select shutdown parts (PartFailed part e # _) = Some (Inr (Some (''server error: '' @ part @ '': '' @ e), parts))"
| "start_select shutdown parts (ShutdownSignal # _) = Some (shutdown parts)"

definition start_command :: "string + options \<Rightarrow> flags \<Rightarrow> string list \<Rightarrow> (string \<Rightarrow> string option) \<Rightarrow> string option \<Rightarrow>
    (e2core_parts \<Rightarrow> (string option \<times> e2core_parts) go) \<Rightarrow> part_event list \<Rightarrow> (string option \<times> e2core_parts option) prog" where
  "start_command env fs args bundle_error server_error shutdown events =
     (case start_options env fs args of
        Inl e \<Rightarrow> Some (Inr (Some (''options.NewWithModifiers: '' @ e), None))
      | Inr opts \<Rightarrow>
          (let parts = e2core_setup opts
           in case Option.bind (e2_sourceSrv parts) bundle_error of
                Some e \<Rightarrow> Some (Inr (Some (''failed to setupSourceServer: failed to sourceserver.FromBundle: '' @ e), None))
              | None \<Rightarrow>
                  (case server_error of
                     Some e \<Rightarrow> Some (Inr (Some (''server.New: '' @ e), None))
                   | None \<Rightarrow> map_option (map_sum (\<lambda>p. p) (\<lambda>(e, p). (e, Some p))) (start_select shutdown parts events))))"

section \<open>A node's programs\<close>

text \<open>A node's construction from its configuration: tracing, metrics, then the node; the first error ends it.\<close>

definition node_setup :: "string + tracer \<Rightarrow> string + metrics \<Rightarrow> ('caps sat_config \<Rightarrow> string + bytes \<times> sat_node) \<Rightarrow> string \<Rightarrow>
    'caps sat_config \<Rightarrow> string + sat_node" where
  "node_setup tracing mtx new wrap config =
     (case tracing of
        Inl e \<Rightarrow> Inl (''setup tracing: '' @ e)
      | Inr _ \<Rightarrow>
          (case mtx of
             Inl e \<Rightarrow> Inl (''metrics.ResolveMetrics: '' @ e)
           | Inr _ \<Rightarrow> (case new config of Inl e \<Rightarrow> Inl (wrap @ e) | Inr (b, node) \<Rightarrow> Inr node)))"

text \<open>What a running node can see: its server ends, its monitor ends, or it gets a signal.\<close>

datatype node_event = ServerEnded "string option" | MonitorEnded "string option" | SignalReceived

text \<open>\<open>mod start\<close> has no monitor and reports a server that ended only when it ended with an error.\<close>

fun mod_start_select :: "(sat_node \<Rightarrow> (string option \<times> sat_node) prog) \<Rightarrow> sat_node \<Rightarrow> node_event list \<Rightarrow>
    (string option \<times> sat_node) prog" where
  "mod_start_select shutdown s [] = None"
| "mod_start_select shutdown s (ServerEnded (Some e) # _) = Some (Inr (Some (''server error: srv.Start: '' @ e), s))"
| "mod_start_select shutdown s (SignalReceived # _) =
     prog_bind (shutdown s) (\<lambda>(e, s'). Some (Inr (map_option (\<lambda>e. ''srv.Shutdown: '' @ e) e, s')))"
| "mod_start_select shutdown s (_ # es) = mod_start_select shutdown s es"

definition ModStart :: "(string \<Rightarrow> (string + 'caps sat_config) go) \<Rightarrow> string list \<Rightarrow> int \<Rightarrow> ('caps sat_config \<Rightarrow> string + sat_node) \<Rightarrow>
    (sat_node \<Rightarrow> (string option \<times> sat_node) prog) \<Rightarrow> node_event list \<Rightarrow> (string option \<times> sat_node option) prog" where
  "ModStart read_config args httpPort setup shutdown events =
     (let path = (case args of [] \<Rightarrow> '''' | a # _ \<Rightarrow> a)
      in prog_bind (Some (read_config path)) (\<lambda>r.
           case r of
             Inl e \<Rightarrow> Some (Inr (Some (''failed to ConfigFromModuleArg: '' @ e), None))
           | Inr config \<Rightarrow>
               (case setup (if httpPort > 0 then config\<lparr>sc_Port := httpPort\<rparr> else config) of
                  Inl e \<Rightarrow> Some (Inr (Some e, None))
                | Inr s \<Rightarrow> map_option (map_sum (\<lambda>p. p) (\<lambda>(e, s). (e, Some s))) (mod_start_select shutdown s events))))"

section \<open>Servers and their metrics\<close>

definition server_Start :: "(int \<Rightarrow> string option) \<Rightarrow> options \<Rightarrow> string option" where
  "server_Start serve opts = map_option (\<lambda>e. ''failed to server.Start: '' @ e) (serve (op_HTTPPort opts))"

definition server_Shutdown :: "string option \<Rightarrow> string option" where
  "server_Shutdown stopped = map_option (\<lambda>e. ''http.Server.StopCtx: '' @ e) stopped"

definition healthHandler :: "((string \<times> bool) list \<Rightarrow> bytes option) \<Rightarrow> (int \<times> bytes) option" where
  "healthHandler marshal = map_option (Pair 200) (marshal [(''healthy'', True)])"

text \<open>
  A node answers its metrics as JSON; the backend reads the answer of a port, whatever its status, into a
  structure of the same fields.
\<close>

record worker_metrics_response =
  mr_Scheduler :: scaler_metrics

definition workerMetricsHandler :: "(worker_metrics_response \<Rightarrow> bytes option) \<Rightarrow> (string \<Rightarrow> rat) \<Rightarrow> string list \<Rightarrow> core \<Rightarrow>
    (int \<times> bytes) option" where
  "workerMetricsHandler marshal rates order c =
     map_option (Pair 200) (marshal \<lparr>mr_Scheduler = Scheduler_Metrics rates order c\<rparr>)"

definition getReport :: "(string \<Rightarrow> string + int \<times> bytes) \<Rightarrow> (bytes \<Rightarrow> worker_metrics_response option) \<Rightarrow> string \<Rightarrow>
    string + worker_metrics_response" where
  "getReport http_get unmarshal port =
     (case http_get (''http://localhost:'' @ port @ ''/meta/metrics'') of
        Inl e \<Rightarrow> Inl (''failed to Do metrics request: '' @ e)
      | Inr (status, body) \<Rightarrow>
          (case unmarshal body of
             None \<Rightarrow> Inl ''failed to Unmarshal metrics response''
           | Some m \<Rightarrow> Inr m))"

text \<open>What a report counts for a port, and what it counts when the port is a node's.\<close>

definition port_threads :: "(string \<Rightarrow> string + int \<times> bytes) \<Rightarrow> (bytes \<Rightarrow> worker_metrics_response option) \<Rightarrow> string \<Rightarrow> int option" where
  "port_threads http_get unmarshal port =
     (case getReport http_get unmarshal port of
        Inl _ \<Rightarrow> None
      | Inr m \<Rightarrow> Some (sm_TotalThreadCount (mr_Scheduler m)))"

lemma metrics_total: "distinct order \<Longrightarrow> set order \<subseteq> {n. findWorker n s \<noteq> None} \<Longrightarrow>
  sm_TotalThreadCount (metrics_pass rates order s m)
    = sm_TotalThreadCount m + (\<Sum>n \<leftarrow> order. int (length (wk_threads (the (findWorker n s)))))"
  by (induction order arbitrary: m) (auto simp: worker_metrics_of_def)

lemma node_metrics_reported:
  assumes "encoding marshal unmarshal" "distinct order" "set order \<subseteq> {n. findWorker n (co_scaler c) \<noteq> None}"
    and "workerMetricsHandler marshal rates order c = Some answer"
    and "http_get (''http://localhost:'' @ port @ ''/meta/metrics'') = Inr answer"
  shows "port_threads http_get unmarshal port
    = Some (\<Sum>n \<leftarrow> order. int (length (wk_threads (the (findWorker n (co_scaler c))))))"
proof -
  let ?m = "\<lparr>mr_Scheduler = Scheduler_Metrics rates order c\<rparr>"
  from assms(1) obtain j where j: "marshal ?m = Some j" "unmarshal j = Some ?m" by (rule encodingE)
  then have "answer = (200, j)" using assms(4) by (simp add: workerMetricsHandler_def)
  with j(2) assms(5) show ?thesis
    by (simp add: port_threads_def getReport_def Scheduler_Metrics_def scaler_metrics_of_def metrics_total[OF assms(2,3)])
qed

section \<open>A node's own program\<close>

text \<open>
  Sat's own program: the first of server and monitor to end ends it, with or without an error. On a
  signal it first asks the monitor to stop, over a channel without a buffer, which waits for ever when
  the monitor has ended already.
\<close>

fun sat_main_select :: "bool \<Rightarrow> (sat_node \<Rightarrow> (string option \<times> sat_node) prog) \<Rightarrow> sat_node \<Rightarrow> node_event list \<Rightarrow>
    (string option \<times> sat_node) prog" where
  "sat_main_select monitor_ended shutdown s [] = None"
| "sat_main_select monitor_ended shutdown s (ServerEnded r # _) =
     Some (Inr (map_option (\<lambda>e. ''server error: sat start: '' @ e) r, s))"
| "sat_main_select monitor_ended shutdown s (MonitorEnded r # _) =
     Some (Inr (map_option (\<lambda>e. ''server error: monitor start: '' @ e) r, s))"
| "sat_main_select monitor_ended shutdown s (SignalReceived # _) =
     (if monitor_ended then None
      else prog_bind (shutdown s) (\<lambda>(e, s'). Some (Inr (map_option (\<lambda>e. ''sat shutdown: '' @ e) e, s'))))"

definition sat_main_start :: "('caps sat_config \<Rightarrow> string + sat_node) \<Rightarrow> ('caps sat_config \<Rightarrow> files \<Rightarrow> string option \<times> files) \<Rightarrow> bool \<Rightarrow>
    (sat_node \<Rightarrow> (string option \<times> sat_node) prog) \<Rightarrow> 'caps sat_config \<Rightarrow> node_event list \<Rightarrow> (string option \<times> sat_node option) prog" where
  "sat_main_start setup new_monitor monitor_ended shutdown config events =
     (case setup config of
        Inl e \<Rightarrow> Some (Inr (Some e, None))
      | Inr s \<Rightarrow>
          (case new_monitor config (sn_files s) of
             (Some e, _) \<Rightarrow> Some (Inr (Some (''failed to createProcFile: '' @ e), None))
           | (None, fs) \<Rightarrow>
               map_option (map_sum (\<lambda>p. p) (\<lambda>(e, s). (e, Some s)))
                 (sat_main_select monitor_ended shutdown (s\<lparr>sn_files := fs\<rparr>) events)))"

text \<open>The exit code of the program; \<open>log.Fatal\<close> exits with 1.\<close>

definition sat_main :: "string + 'c \<Rightarrow> ('c \<Rightarrow> (string option \<times> 'n) prog) \<Rightarrow> int prog" where
  "sat_main conf start =
     (case conf of
        Inl e \<Rightarrow> Some (Inr 1)
      | Inr c \<Rightarrow> prog_bind (start c) (\<lambda>(e, _). Some (Inr (if e = None then 0 else 1))))"

text \<open>A call of an embedded module: the request made for it, and what is made of the job's result.\<close>

definition exec_request :: "string \<Rightarrow> coord_request" where
  "exec_request uuid = \<lparr>rq_ID = uuid, rq_State = Some Map.empty, rq_RespHeaders = Some Map.empty, rq_SequenceJSON = ''''\<rparr>"

definition sat_Exec :: "(fn_error \<Rightarrow> string) \<Rightarrow> (coord_request \<Rightarrow> bytes \<Rightarrow> fn_outcome) \<Rightarrow> string \<Rightarrow> bytes \<Rightarrow> string + response" where
  "sat_Exec error_text run uuid input =
     (case run (exec_request uuid) input of
        FnFailed e \<Rightarrow> Inl (''failed to exec: '' @ error_text e)
      | FnResponse resp \<Rightarrow> Inr resp
      | _ \<Rightarrow> Inl ''response is not a coordinated response'')"

section \<open>Lemmas\<close>

lemma server_New_total: "\<exists>srv. server_New (Inr (Inr t)) uuid = Some (Inr (Inr srv))"
proof -
  obtain b xs where b: "Bus_New uuid server_modifiers = Inr b" "new_ring (b_bus b) xs" using Bus_New_ring by blast
  obtain b1 where b1: "Bus_Connect b = Inr (newPod False, b1)" using Bus_Connect_ring[OF b(2)] by blast
  have "\<exists>p. Pod_OnType MsgTypeSuborbitalResult (Some (\<lambda>_. None)) (newPod False) = Some (Inr p)"
    by (simp add: Pod_OnType_def pod_setOnFunc_def newPod_def Let_def)
  with b(1) b1 show ?thesis by (auto simp: server_New_def)
qed

text \<open>
  A node whose process file is gone while its monitor looks ends with an error; a signal that is taken
  after the monitor ended stops nothing, the program waits for ever.
\<close>

lemma deleted_file_ends_node:
  "setup config = Inr s \<Longrightarrow> new_monitor config (sn_files s) = (None, fs) \<Longrightarrow>
     sat_main_start setup new_monitor True shutdown config (MonitorEnded (Some ''proc file deleted'') # events)
       = Some (Inr (Some ''server error: monitor start: proc file deleted'', Some (s\<lparr>sn_files := fs\<rparr>)))"
  by (simp add: sat_main_start_def)

lemma signal_after_monitor_blocks:
  "setup config = Inr s \<Longrightarrow> new_monitor config (sn_files s) = (None, fs) \<Longrightarrow>
     sat_main_start setup new_monitor True shutdown config (SignalReceived # events) = None"
  by (simp add: sat_main_start_def)

text \<open>A part that fails ends E2 Core without a shutdown of the others.\<close>

lemma failed_part_no_shutdown:
  "start_options env fs args = Inr opts \<Longrightarrow> \<forall>p. bundle_error p = None \<Longrightarrow>
     start_command env fs args bundle_error None shutdown (PartFailed part e # events)
       = Some (Inr (Some (''server error: '' @ part @ '': '' @ e), Some (e2core_setup opts)))"
  by (cases "e2_sourceSrv (e2core_setup opts)") (simp_all add: start_command_def Let_def)

lemma syncer_fails_unscheduled:
  "src_State src = Inl e \<Longrightarrow> Syncer_Start None src f sj = (Some (''failed to Do sync job: failed to systemSource.State: '' @ e), sj, None)"
  by (simp add: Syncer_Start_def sync_Run_def)

end
