(* ===== verification/Service.thy ===== *)
theory Service
  imports Mesh Courier Process "HOL-Library.List_Lexorder" "HOL-Library.Char_ord"
begin

text \<open>
  Requests over the network: the executions and nodes of \<open>Mesh\<close> with the meshed processes of \<open>Courier\<close>
  under them. A job is a message the dispatcher (\<open>dispatchSingle\<close>) or a node (\<open>sendNextStep\<close>) tunnels to
  a connection its hub chooses, and that calls the callback of the listening pod there; a result is a
  message a node's pod sends (\<open>sendFnResult\<close>), that the node's hub broadcasts and that calls the
  dispatcher's callback. The bags of messages under way in \<open>Mesh\<close> are what is on its way in the network.
\<close>

section \<open>The cluster\<close>

text \<open>
  The nodes with their connections, buses and hubs as they are set up; E2 Core's node and the pod of its
  dispatcher; for each other node the module it runs, the pod that listens for it, and the pod its results
  are sent from; the encodings; and what the modules make of a request.
\<close>

record cluster =
  cl_nodes :: "string set"
  cl_ends :: "nat \<Rightarrow> string \<times> string"
  cl_buses :: "string \<Rightarrow> messageBus"
  cl_hubs :: "string \<Rightarrow> hub"
  cl_home :: string
  cl_pod :: nat
  cl_job :: "string \<Rightarrow> string"
  cl_listen :: "string \<Rightarrow> nat"
  cl_answer :: "string \<Rightarrow> nat"
  cl_wire :: "message \<Rightarrow> bytes option"
  cl_unwire :: "bytes \<Rightarrow> message option"
  cl_result :: "execResult \<Rightarrow> bytes option"
  cl_unresult :: "bytes \<Rightarrow> execResult option"
  cl_request :: "coord_request \<Rightarrow> bytes option"
  cl_unrequest :: "bytes \<Rightarrow> coord_request option"
  cl_steps :: "step list \<Rightarrow> string option"
  cl_unsteps :: "string \<Rightarrow> step list option"
  cl_runs :: "string \<Rightarrow> coord_request \<Rightarrow> fn_outcome"

abbreviation cl_work :: "cluster \<Rightarrow> net \<Rightarrow> net \<Rightarrow> bool" where
  "cl_work cl \<equiv> net_work (cl_wire cl) (cl_unwire cl) (cl_nodes cl) (cl_ends cl)"

abbreviation cl_cfg :: "cluster \<Rightarrow> string \<Rightarrow> nat \<Rightarrow> pod option" where
  "cl_cfg cl \<equiv> (\<lambda>n. pod_at (cl_buses cl n))"

abbreviation cl_start :: "cluster \<Rightarrow> net" where
  "cl_start cl \<equiv> net_start (cl_buses cl) (cl_hubs cl)"

definition sats :: "cluster \<Rightarrow> string set" where
  "sats cl = cl_nodes cl - {cl_home cl}"

definition listening :: "cluster \<Rightarrow> string \<Rightarrow> nat \<Rightarrow> bool" where
  "listening cl n a \<longleftrightarrow> n = cl_home cl \<and> a = cl_pod cl \<or> n \<in> sats cl \<and> a = cl_listen cl n"

section \<open>Messages\<close>

definition result_message :: "(execResult \<Rightarrow> bytes option) \<Rightarrow> string \<Rightarrow> int \<Rightarrow> string \<Rightarrow> execResult \<Rightarrow> message option" where
  "result_message marshal uuid now reqID r =
     map_option (\<lambda>fnrJSON. NewMsgWithParentID uuid now MsgTypeSuborbitalResult reqID fnrJSON) (marshal r)"

definition job_message :: "(coord_request \<Rightarrow> bytes option) \<Rightarrow> string \<Rightarrow> int \<Rightarrow> string \<times> coord_request \<Rightarrow> message option" where
  "job_message marshal uuid now job =
     map_option (\<lambda>reqJSON. NewMsgWithParentID uuid now (fst job) (rq_ID (snd job)) reqJSON) (marshal (snd job))"

text \<open>A result sent from a node: whether it was, once there is room in the bus channel.\<close>

definition sendFnResult :: "cluster \<Rightarrow> string \<Rightarrow> string \<Rightarrow> int \<Rightarrow> string \<Rightarrow> execResult \<Rightarrow> net \<Rightarrow> (bool \<times> net) option" where
  "sendFnResult cl n uuid now reqID r s =
     (case result_message (cl_result cl) uuid now reqID r of
        None \<Rightarrow> Some (False, s)
      | Some m \<Rightarrow> map_option (Pair True) (net_send n (cl_answer cl n) m s))"

text \<open>A job tunnelled from a node's hub: whether a peer was found for it.\<close>

definition tunnel_job :: "cluster \<Rightarrow> string \<Rightarrow> string \<Rightarrow> int \<Rightarrow> string \<times> coord_request \<Rightarrow> net \<Rightarrow> (bool \<times> net) go" where
  "tunnel_job cl n uuid now job s =
     (case job_message (cl_request cl) uuid now job of
        None \<Rightarrow> Inr (False, s)
      | Some m \<Rightarrow>
          go_bind (sendTunneledMessage (\<lambda>_. True) (fst job) m (nt_hub s n)) (\<lambda>(e, _).
          go_bind (net_tunnel n (fst job) m s) (\<lambda>s'. Inr (e = None, s'))))"

section \<open>The system\<close>

text \<open>
  The dispatcher's side is the state of \<open>Mesh\<close> without messages under way; a job a node has taken is
  running there.
\<close>

record flow =
  fl_mesh :: mesh
  fl_running :: "(string \<times> string \<times> coord_request) multiset"
  fl_net :: net

definition flow_start :: "cluster \<Rightarrow> sequence list \<Rightarrow> flow" where
  "flow_start cl seqs = \<lparr>fl_mesh = mesh_init seqs, fl_running = {#}, fl_net = cl_start cl\<rparr>"

text \<open>An execution begins: its callback is added and its first job tunnelled.\<close>

definition flow_begin :: "cluster \<Rightarrow> string \<Rightarrow> int \<Rightarrow> sequence \<Rightarrow> flow \<Rightarrow> flow option" where
  "flow_begin cl uuid now seq f =
     (case snd (begin_execution True seq) of
        None \<Rightarrow> map_option (\<lambda>m. f\<lparr>fl_mesh := m\<rparr>) (mesh_start True seq (fl_mesh f))
      | Some job \<Rightarrow>
          (case tunnel_job cl (cl_home cl) uuid now job (fl_net f) of
             Inl _ \<Rightarrow> None
           | Inr (ok, s) \<Rightarrow>
               map_option (\<lambda>m. f\<lparr>fl_mesh := m\<lparr>me_jobs := me_jobs (fl_mesh f)\<rparr>, fl_net := s\<rparr>) (mesh_start ok seq (fl_mesh f))))"

text \<open>The dispatcher's callback gets a message; a node's listening pod gets one.\<close>

definition flow_hear :: "cluster \<Rightarrow> message \<Rightarrow> flow \<Rightarrow> flow" where
  "flow_hear cl m f =
     (case cl_unresult cl (msg_Data m) of
        None \<Rightarrow> f
      | Some r \<Rightarrow> f\<lparr>fl_mesh := mesh_receive (msg_ParentID m, r) (fl_mesh f)\<rparr>)"

definition flow_take :: "cluster \<Rightarrow> string \<Rightarrow> message \<Rightarrow> flow \<Rightarrow> flow" where
  "flow_take cl n m f =
     (case cl_unrequest cl (msg_Data m) of
        None \<Rightarrow> f
      | Some req \<Rightarrow> f\<lparr>fl_running := add_mset (n, msg_Type m, req) (fl_running f)\<rparr>)"

text \<open>A node has run a job: it sends the result, and tunnels the request on unless sending failed.\<close>

definition flow_run :: "cluster \<Rightarrow> string \<Rightarrow> string \<Rightarrow> int \<Rightarrow> string \<times> string \<times> coord_request \<Rightarrow> flow \<Rightarrow> flow option" where
  "flow_run cl uuid uuid' now job f =
     (case job of (n, fqmn, req) \<Rightarrow>
        (let f1 = f\<lparr>fl_running := fl_running f - {#job#}\<rparr>
         in case handleFnResult (cl_unsteps cl) (cl_steps cl) True fqmn (Some req) (cl_runs cl fqmn req) of
              Inl _ \<Rightarrow> Some f1
            | Inr out \<Rightarrow>
                (case (case ss_result out of
                         None \<Rightarrow> Some (True, fl_net f)
                       | Some r \<Rightarrow> sendFnResult cl n uuid now (rq_ID req) r (fl_net f)) of
                   None \<Rightarrow> None
                 | Some (ok, s) \<Rightarrow>
                     (case ss_next out of
                        Some next_job \<Rightarrow>
                          if \<not> ok then Some (f1\<lparr>fl_net := s\<rparr>)
                          else (case tunnel_job cl n uuid' now next_job s of
                                  Inl _ \<Rightarrow> None
                                | Inr (_, s') \<Rightarrow> Some (f1\<lparr>fl_net := s'\<rparr>))
                      | None \<Rightarrow> Some (f1\<lparr>fl_net := s\<rparr>)))))"

text \<open>Identifiers of messages are new ones.\<close>

definition fresh_uuid :: "string \<Rightarrow> flow \<Rightarrow> bool" where
  "fresh_uuid u f \<longleftrightarrow> u \<notin> (\<lambda>x. msg_UUID (snd x)) ` set (nt_made (fl_net f))"

inductive flow_step :: "cluster \<Rightarrow> flow \<Rightarrow> flow \<Rightarrow> bool" for cl where
  fs_begin: "seq \<in># me_pending (fl_mesh f) \<Longrightarrow> fresh_uuid u f \<Longrightarrow> flow_begin cl u now seq f = Some f' \<Longrightarrow> flow_step cl f f'"
| fs_net: "cl_work cl (fl_net f) s \<Longrightarrow> \<forall>n a. listening cl n a \<longrightarrow> calls a (nt_peer s n) = calls a (nt_peer (fl_net f) n)
     \<Longrightarrow> flow_step cl f (f\<lparr>fl_net := s\<rparr>)"
| fs_hear: "cl_work cl (fl_net f) s
     \<Longrightarrow> calls (cl_pod cl) (nt_peer s (cl_home cl)) = add_mset m (calls (cl_pod cl) (nt_peer (fl_net f) (cl_home cl)))
     \<Longrightarrow> flow_step cl f ((flow_hear cl m f)\<lparr>fl_net := s\<rparr>)"
| fs_take: "cl_work cl (fl_net f) s \<Longrightarrow> n \<in> sats cl
     \<Longrightarrow> calls (cl_listen cl n) (nt_peer s n) = add_mset m (calls (cl_listen cl n) (nt_peer (fl_net f) n))
     \<Longrightarrow> flow_step cl f ((flow_take cl n m f)\<lparr>fl_net := s\<rparr>)"
| fs_run: "job \<in># fl_running f \<Longrightarrow> fresh_uuid u f \<Longrightarrow> fresh_uuid u' f \<Longrightarrow> u \<noteq> u' \<Longrightarrow> flow_run cl u u' now job f = Some f'
     \<Longrightarrow> flow_step cl f f'"
| fs_hand: "res \<in># me_handlers (fl_mesh f) \<Longrightarrow> mesh_hand res (fl_mesh f) = Some m \<Longrightarrow> flow_step cl f (f\<lparr>fl_mesh := m\<rparr>)"
| fs_return: "mesh_return p (fl_mesh f) = Some m \<Longrightarrow> flow_step cl f (f\<lparr>fl_mesh := m\<rparr>)"

section \<open>Clusters that are set up\<close>

text \<open>Requests hold finite maps; their encoding is only relied on for such.\<close>

definition finite_request :: "coord_request \<Rightarrow> bool" where
  "finite_request req \<longleftrightarrow> (\<forall>m. rq_State req = Some m \<longrightarrow> finite (dom m)) \<and> (\<forall>m. rq_RespHeaders req = Some m \<longrightarrow> finite (dom m))"

definition request_encoding :: "(coord_request \<Rightarrow> bytes option) \<Rightarrow> (bytes \<Rightarrow> coord_request option) \<Rightarrow> bool" where
  "request_encoding enc dec' \<longleftrightarrow> (\<forall>req. finite_request req \<longrightarrow> (\<exists>j. enc req = Some j \<and> dec' j = Some req))"

text \<open>
  Every hub can tunnel the modules its node does not run itself, and what it would choose runs them.
\<close>

definition routes :: "cluster \<Rightarrow> string set \<Rightarrow> net \<Rightarrow> bool" where
  "routes cl modules s \<longleftrightarrow> (\<forall>n \<in> cl_nodes cl. \<forall>fqmn \<in> modules. n = cl_home cl \<or> fqmn \<noteq> cl_job cl n \<longrightarrow>
     (\<exists>b. hub_balancers (nt_hub s n) fqmn = Some b \<and> balancer_inv b \<and> bal_uuids b \<noteq> []
        \<and> (\<forall>u \<in> set (bal_uuids b). linked s n u \<and> u \<in> sats cl \<and> cl_job cl u = fqmn)))"

definition cluster_ready :: "cluster \<Rightarrow> string set \<Rightarrow> bool" where
  "cluster_ready cl modules \<longleftrightarrow> mesh_ready (cl_nodes cl) (cl_ends cl) (cl_buses cl) (cl_hubs cl) \<and> '''' \<notin> cl_nodes cl
     \<and> encoding (cl_wire cl) (cl_unwire cl) \<and> encoding (cl_result cl) (cl_unresult cl)
     \<and> request_encoding (cl_request cl) (cl_unrequest cl) \<and> encoding (cl_steps cl) (cl_unsteps cl)
     \<and> cl_home cl \<in> cl_nodes cl \<and> cl_pod cl \<noteq> 1
     \<and> (\<exists>q. pod_at (cl_buses cl (cl_home cl)) (cl_pod cl) = Some q \<and> (\<forall>m. wants q m = (msg_Type m = MsgTypeSuborbitalResult)))
     \<and> (\<forall>n \<in> sats cl. cl_listen cl n \<noteq> 1 \<and> cl_answer cl n \<noteq> 1 \<and> cl_job cl n \<noteq> MsgTypeSuborbitalResult
          \<and> pod_at (cl_buses cl n) (cl_answer cl n) \<noteq> None \<and> linked (cl_start cl) n (cl_home cl)
          \<and> (\<exists>q. pod_at (cl_buses cl n) (cl_listen cl n) = Some q \<and> (\<forall>m. wants q m = (msg_Type m = cl_job cl n))))
     \<and> routes cl modules (cl_start cl)"

section \<open>Jobs\<close>

text \<open>A job names the module of the first step of its sequence that is not done.\<close>

definition job_ok :: "cluster \<Rightarrow> string set \<Rightarrow> string \<times> coord_request \<Rightarrow> bool" where
  "job_ok cl modules job \<longleftrightarrow> finite_request (snd job)
     \<and> (\<exists>ss i. cl_unsteps cl (rq_SequenceJSON (snd job)) = Some ss \<and> next_index ss = Some i \<and> st_FQMN (ss ! i) = fst job
          \<and> distinct (map st_FQMN ss) \<and> st_FQMN ` set ss \<subseteq> modules)"

lemma next_index_Some:
  "next_index ss = Some i \<Longrightarrow> i < length ss \<and> \<not> st_Completed (ss ! i)"
  by (induction ss arbitrary: i) (auto split: if_split_asm)

lemma job_ok_module: "job_ok cl modules (fqmn, req) \<Longrightarrow> fqmn \<in> modules"
  by (auto simp: job_ok_def dest!: next_index_Some)

lemma assign_all_finite:
  "assign_all kvs m = Inr m' \<Longrightarrow> \<forall>f. m = Some f \<longrightarrow> finite (dom f) \<Longrightarrow> \<forall>f. m' = Some f \<longrightarrow> finite (dom f)"
  by (induction kvs arbitrary: m) (fastforce simp: map_assign_def elim!: go_bind_InrE split: option.split_asm)+

lemma handle_results_finite:
  "handle_results rs req = Inr (e, req') \<Longrightarrow> finite_request req \<Longrightarrow> finite_request req'"
proof (induction rs arbitrary: req)
  case (Cons r rs)
  show ?case
  proof (cases "er_Code r \<noteq> 0 \<or> er_Message r \<noteq> '''' \<or> er_ExecErr r \<noteq> ''''")
    case False
    with Cons.prems(1) obtain rp where rp: "er_Response r = Some rp" by (auto split: option.split_asm)
    with False Cons.prems(1) obtain st hs where h: "map_assign (er_FQMN r) (rp_Output rp) (rq_State req) = Inr st"
      "(case rp_RespHeaders rp of None \<Rightarrow> Inr (rq_RespHeaders req) | Some kvs \<Rightarrow> assign_all kvs (rq_RespHeaders req)) = Inr hs"
      "handle_results rs (req\<lparr>rq_State := st, rq_RespHeaders := hs\<rparr>) = Inr (e, req')"
      by (auto elim!: go_bind_InrE)
    have "\<forall>f. st = Some f \<longrightarrow> finite (dom f)"
      using h(1) Cons.prems(2) by (auto simp: map_assign_def finite_request_def split: option.split_asm)
    moreover have "\<forall>f. hs = Some f \<longrightarrow> finite (dom f)"
      using h(2) Cons.prems(2) by (auto simp: finite_request_def dest: assign_all_finite split: option.split_asm)
    ultimately show ?thesis using Cons.IH[OF h(3)] by (simp add: finite_request_def)
  qed (use Cons.prems in \<open>auto split: if_split_asm\<close>)
qed simp

text \<open>The job a node sends on is one, for another module.\<close>

lemma next_job_ok:
  assumes enc: "encoding (cl_steps cl) (cl_unsteps cl)" and job: "job_ok cl modules (fqmn, req)"
    and h: "handleFnResult (cl_unsteps cl) (cl_steps cl) send_ok fqmn (Some req) out = Inr s" "ss_next s = Some next_job"
  shows "job_ok cl modules next_job \<and> fst next_job \<noteq> fqmn \<and> ss_result s \<noteq> None"
proof -
  obtain seq where seq: "FromJSON (cl_unsteps cl) (cl_steps cl) (rq_SequenceJSON req) req = Inr seq"
    using h by (auto simp: handleFnResult_def Let_def split: sum.split_asm)
  from h seq obtain fnr seq' j k where n: "HandleStepResults [fnr] seq = Inr (None, seq')"
    "StepsJSON (cl_steps cl) seq' = Some j" "NextStep seq' = Some k"
    "next_job = (st_FQMN (sq_steps seq' ! k), (sq_req seq')\<lparr>rq_SequenceJSON := j\<rparr>)" "ss_result s \<noteq> None"
    by (auto simp: handleFnResult_def Let_def sendNextStep_def
        split: if_split_asm option.split_asm fn_outcome.split_asm fn_error.split_asm elim!: go_bind_InrE)
  from n(1) obtain i where i: "next_index (sq_steps seq) = Some i"
    "sq_steps seq' = (sq_steps seq)[i := (sq_steps seq ! i)\<lparr>st_Completed := True\<rparr>]"
    by (rule HandleStepResults_completes)
  have un: "cl_unsteps cl (rq_SequenceJSON req) = Some (sq_steps seq)" using FromJSON_Inr[OF seq] by simp
  with job i(1) have old: "finite_request req" "st_FQMN (sq_steps seq ! i) = fqmn" "distinct (map st_FQMN (sq_steps seq))"
    "st_FQMN ` set (sq_steps seq) \<subseteq> modules" by (auto simp: job_ok_def)
  have names: "map st_FQMN (sq_steps seq') = map st_FQMN (sq_steps seq)"
    unfolding i(2) map_update by (rule list_update_same_conv[THEN iffD2]) (use next_index_Some[OF i(1)] in auto)
  have len: "length (sq_steps seq') = length (sq_steps seq)" by (simp add: i(2))
  have k: "next_index (sq_steps seq') = Some k" using n(3) by (simp add: NextStep_def)
  note kS = next_index_Some[OF k] and iS = next_index_Some[OF i(1)]
  have "k \<noteq> i" using kS iS by (auto simp: i(2))
  then have "map st_FQMN (sq_steps seq') ! k \<noteq> map st_FQMN (sq_steps seq) ! i"
    using names old(3) kS iS len by (metis length_map nth_eq_iff_index_eq)
  then have ne: "fst next_job \<noteq> fqmn" using n(4) old(2) kS iS by simp
  have "finite_request (sq_req seq)" using seq old(1)
    by (auto simp: FromJSON_def newWithSteps_def finite_request_def split: option.split_asm)
  moreover obtain e' req' where "handle_results [fnr] (sq_req seq) = Inr (e', req')" "sq_req seq' = req'"
    using n(1) unfolding HandleStepResults_def by (force elim!: go_bind_InrE split: option.split_asm)
  ultimately have "finite_request (sq_req seq')" using handle_results_finite by blast
  then have fin: "finite_request (snd next_job)" by (simp add: n(4) finite_request_def)
  have "cl_unsteps cl j = Some (sq_steps seq')" using encoding_decodes[OF enc] n(2) by (simp add: StepsJSON_def)
  moreover have "st_FQMN ` set (sq_steps seq') = st_FQMN ` set (sq_steps seq)" using names by (metis list.set_map)
  ultimately have "job_ok cl modules next_job"
    unfolding job_ok_def using fin k names old(3,4) n(4) by auto
  with ne n(5) show ?thesis by blast
qed

lemma first_job_ok:
  assumes "encoding (cl_steps cl) (cl_unsteps cl)" "single_request (cl_steps cl) seq" "finite_request (sq_req seq)"
    and "st_FQMN ` set (sq_steps seq) \<subseteq> modules"
  shows "\<exists>job. snd (begin_execution True seq) = Some job \<and> job_ok cl modules job \<and> rq_ID (snd job) = ParentID seq"
proof -
  obtain s ss where s: "sq_steps seq = s # ss" "\<not> st_Completed s" using assms(2) by (cases "sq_steps seq") (auto simp: single_request_def)
  have "cl_unsteps cl (rq_SequenceJSON (sq_req seq)) = Some (sq_steps seq)"
    using encoding_decodes[OF assms(1)] assms(2) by (simp add: single_request_def)
  then show ?thesis using assms(2-4) s
    by (auto simp: begin_execution_def NextStep_def job_ok_def single_request_def ParentID_def)
qed

section \<open>The network of a cluster\<close>

definition listens_to :: "cluster \<Rightarrow> string \<Rightarrow> string" where
  "listens_to cl n = (if n = cl_home cl then MsgTypeSuborbitalResult else cl_job cl n)"

definition made_ok :: "cluster \<Rightarrow> string set \<Rightarrow> origin \<times> message \<Rightarrow> bool" where
  "made_ok cl modules x \<longleftrightarrow>
     (case fst x of
        Sent n a \<Rightarrow> n \<in> sats cl \<and> a = cl_answer cl n \<and> msg_Type (snd x) = MsgTypeSuborbitalResult \<and> cl_unresult cl (msg_Data (snd x)) \<noteq> None
      | Tunnelled c \<Rightarrow> snd (cl_ends cl c) \<in> sats cl \<and> msg_Type (snd x) = cl_job cl (snd (cl_ends cl c))
          \<and> (\<exists>req. cl_unrequest cl (msg_Data (snd x)) = Some req \<and> job_ok cl modules (msg_Type (snd x), req)))"

definition net_ok :: "cluster \<Rightarrow> string set \<Rightarrow> net \<Rightarrow> bool" where
  "net_ok cl modules s \<longleftrightarrow> net_inv (cl_nodes cl) (cl_ends cl) (cl_cfg cl) s \<and> made_distinct s
     \<and> same_links (cl_nodes cl) (cl_start cl) s \<and> routes cl modules s \<and> (\<forall>x \<in> set (nt_made s). made_ok cl modules x)"

text \<open>The messages that have still to call the callback of a pod.\<close>

definition unheard :: "cluster \<Rightarrow> net \<Rightarrow> string \<Rightarrow> nat \<Rightarrow> message multiset" where
  "unheard cl s n a = arrivals (cl_ends cl) s n a (the (pod_at (cl_buses cl n) a)) - calls a (nt_peer s n)"

lemma readyD:
  assumes "cluster_ready cl modules"
  shows "mesh_ready (cl_nodes cl) (cl_ends cl) (cl_buses cl) (cl_hubs cl)" "encoding (cl_wire cl) (cl_unwire cl)"
    "encoding (cl_result cl) (cl_unresult cl)" "request_encoding (cl_request cl) (cl_unrequest cl)"
    "encoding (cl_steps cl) (cl_unsteps cl)" "cl_home cl \<in> cl_nodes cl" "routes cl modules (cl_start cl)"
    "'''' \<notin> cl_nodes cl" "finite (cl_nodes cl)"
    "n \<in> sats cl \<Longrightarrow> cl_answer cl n \<noteq> 1 \<and> pod_at (cl_buses cl n) (cl_answer cl n) \<noteq> None \<and> linked (cl_start cl) n (cl_home cl)
       \<and> cl_job cl n \<noteq> MsgTypeSuborbitalResult"
  using assms by (auto simp: cluster_ready_def mesh_ready_def wired_def)

lemma ready_hubs:
  assumes "cluster_ready cl modules"
  shows "\<forall>n \<in> cl_nodes cl. \<exists>q. cl_cfg cl n 1 = Some q \<and> (\<forall>m. wants q m)"
  using readyD(1)[OF assms] by (auto simp: mesh_ready_def)

lemma listening_pod:
  assumes "cluster_ready cl modules" "listening cl n a"
  obtains q where "n \<in> cl_nodes cl" "a \<noteq> 1" "pod_at (cl_buses cl n) a = Some q" "\<forall>m. wants q m = (msg_Type m = listens_to cl n)"
  using assms unfolding cluster_ready_def listening_def listens_to_def sats_def by fastforce

lemma net_okD:
  assumes "net_ok cl modules s"
  shows "net_inv (cl_nodes cl) (cl_ends cl) (cl_cfg cl) s" "net_account (cl_nodes cl) (cl_ends cl) (cl_cfg cl) s" "made_distinct s"
    "same_links (cl_nodes cl) (cl_start cl) s" "routes cl modules s" "x \<in> set (nt_made s) \<Longrightarrow> made_ok cl modules x"
  using assms by (simp_all add: net_ok_def net_inv_def)

lemma same_links_routes:
  assumes "same_links (cl_nodes cl) s s'" "\<forall>n \<in> cl_nodes cl. hub_balancers (nt_hub s' n) = hub_balancers (nt_hub s n)"
  shows "routes cl modules s' = routes cl modules s"
  using assms unfolding routes_def linked_def same_links_def by (intro ball_cong) auto

lemma net_work_balancers:
  assumes "encoding enc dec'" "net_work enc dec' nodes ends s s'" "net_account nodes ends cfg s"
  shows "hub_balancers (nt_hub s' n) = hub_balancers (nt_hub s n)"
  using assms(2,3)
proof (induction rule: net_work.induct)
  case (nw_broadcast r s)
  obtain k m us where r: "r = (k, m, us)" by (cases r)
  show ?case
  proof (cases us)
    case (Cons u vs)
    from accountD(8)[OF nw_broadcast(2), of k m us] nw_broadcast(1) r have "serves nodes s k us" by simp
    with Cons obtain ch where ch: "k \<in> nodes" "hub_meshConnections (nt_hub s k) u = Some ch" by (auto simp: serves_def)
    from wiredD(3,4)[OF accountD(1)[OF nw_broadcast(2)] ch] obtain c where "\<not> PeerWithdrawn (ch_Signaler ch)" "ch_Conn ch = Some c" by blast
    from broadcast_live[OF ch(2) this] show ?thesis by (simp add: r Cons net_broadcast_def)
  qed (simp add: r net_broadcast_def)
next
  case (nw_read c s s')
  from assms(1) nw_read(2) show ?case by (rule net_reader_Some) simp
qed (simp_all add: net_call_def)

lemma net_ok_work:
  assumes "cluster_ready cl modules" "net_ok cl modules s" "cl_work cl s s'"
  shows "net_ok cl modules s'" "same_links (cl_nodes cl) s s'" "nt_made s' = nt_made s"
    "net_weight (cl_nodes cl) (cl_ends cl) (cl_cfg cl) s' < net_weight (cl_nodes cl) (cl_ends cl) (cl_cfg cl) s"
proof -
  note enc = readyD(2)[OF assms(1)] and ok = net_okD[OF assms(2)]
  show l: "same_links (cl_nodes cl) s s'" using work_links[OF enc assms(3) ok(1)] .
  have i: "net_inv (cl_nodes cl) (cl_ends cl) (cl_cfg cl) s'" and m: "nt_made s' = nt_made s" using net_inv_work[OF enc assms(3) ok(1)] by blast+
  then show "nt_made s' = nt_made s" by simp
  have "routes cl modules s'" using same_links_routes[OF l] net_work_balancers[OF enc assms(3) ok(2)] ok(5) by blast
  then show "net_ok cl modules s'" using i m l ok unfolding net_ok_def by (auto simp: made_distinct_def same_links_def)
  show "net_weight (cl_nodes cl) (cl_ends cl) (cl_cfg cl) s' < net_weight (cl_nodes cl) (cl_ends cl) (cl_cfg cl) s"
    by (rule resting.weight_step[OF assms(3), where ?s0.0 = s]) (use enc ok in \<open>simp add: same_links_def\<close>)
qed

lemma unheard_sub:
  assumes "cluster_ready cl modules" "net_ok cl modules s" "listening cl n a"
  shows "calls a (nt_peer s n) \<subseteq># arrivals (cl_ends cl) s n a (the (pod_at (cl_buses cl n) a))"
proof -
  from assms(1,3) obtain q where "n \<in> cl_nodes cl" "pod_at (cl_buses cl n) a = Some q" by (rule listening_pod)
  then show ?thesis
    using calls_arrivals[OF readyD(2)[OF assms(1)] net_okD(1,3)[OF assms(2)] ready_hubs[OF assms(1)]] by simp
qed

lemma unheard_work:
  assumes "cluster_ready cl modules" "net_ok cl modules s" "cl_work cl s s'" "listening cl n a"
  shows "calls a (nt_peer s' n) = calls a (nt_peer s n) \<Longrightarrow> unheard cl s' n a = unheard cl s n a"
    "calls a (nt_peer s' n) = add_mset m (calls a (nt_peer s n)) \<Longrightarrow> unheard cl s n a = add_mset m (unheard cl s' n a)"
proof -
  have arr: "arrivals (cl_ends cl) s' n a q = arrivals (cl_ends cl) s n a q" for q
    using arrivals_same_links[OF net_okD(2)[OF assms(2)] net_ok_work(2,3)[OF assms(1-3)]] .
  then show "calls a (nt_peer s' n) = calls a (nt_peer s n) \<Longrightarrow> unheard cl s' n a = unheard cl s n a" by (simp add: unheard_def)
  assume c: "calls a (nt_peer s' n) = add_mset m (calls a (nt_peer s n))"
  from unheard_sub[OF assms(1) net_ok_work(1)[OF assms(1-3)] assms(4)]
  obtain D where D: "arrivals (cl_ends cl) s n a (the (pod_at (cl_buses cl n) a)) = add_mset m (calls a (nt_peer s n)) + D"
    unfolding arr c by (auto simp: mset_subset_eq_exists_conv)
  then show "unheard cl s n a = add_mset m (unheard cl s' n a)" by (simp add: unheard_def arr c)
qed

lemma arrivals_made:
  assumes "net_account nodes ends cfg s" "same_links nodes s s'" "nt_made s' = nt_made s @ [(orig, m)]"
  shows "arrivals ends s' n a q = arrivals ends s n a q + (if reaches ends s' orig n a \<and> wants q m then {#m#} else {#})"
proof -
  have "arrivals ends s n a q = arrivals ends (s'\<lparr>nt_made := nt_made s\<rparr>) n a q"
    by (rule arrivals_same_links[symmetric, OF assms(1)]) (use assms(2) in \<open>simp_all add: same_links_def\<close>)
  moreover have "reaches ends (s'\<lparr>nt_made := nt_made s\<rparr>) = reaches ends s'"
    by (auto simp: reaches_def linked_def fun_eq_iff split: origin.split)
  ultimately show ?thesis by (simp add: arrivals_def assms(3))
qed

lemma unheard_made:
  assumes "cluster_ready cl modules" "net_ok cl modules s" "same_links (cl_nodes cl) s s'" "nt_made s' = nt_made s @ [(orig, m)]"
    and "calls a (nt_peer s' n) = calls a (nt_peer s n)" "listening cl n a"
  shows "unheard cl s' n a = unheard cl s n a
    + (if reaches (cl_ends cl) s' orig n a \<and> msg_Type m = listens_to cl n then {#m#} else {#})"
proof -
  from assms(1,6) obtain q where q: "pod_at (cl_buses cl n) a = Some q" "\<forall>m. wants q m = (msg_Type m = listens_to cl n)"
    by (rule listening_pod)
  from unheard_sub[OF assms(1,2,6)] show ?thesis
    unfolding unheard_def arrivals_made[OF net_okD(2)[OF assms(2)] assms(3,4)] assms(5) using q
    by (simp add: subset_mset.add_diff_assoc2)
qed

text \<open>What is still to be heard decodes.\<close>

lemma unheard_decodes:
  assumes "cluster_ready cl modules" "net_ok cl modules s" "m \<in># unheard cl s n a"
  shows "listening cl n a \<Longrightarrow> n = cl_home cl \<Longrightarrow> cl_unresult cl (msg_Data m) \<noteq> None"
    "n \<in> sats cl \<Longrightarrow> a = cl_listen cl n \<Longrightarrow> \<exists>req. cl_unrequest cl (msg_Data m) = Some req \<and> job_ok cl modules (msg_Type m, req)"
proof -
  have "m \<in># arrivals (cl_ends cl) s n a (the (pod_at (cl_buses cl n) a))" using assms(3) unfolding unheard_def by (rule in_diffD)
  then obtain orig where o: "(orig, m) \<in> set (nt_made s)" "wants (the (pod_at (cl_buses cl n) a)) m" by (auto simp: arrivals_def)
  note mk = net_okD(6)[OF assms(2) o(1)]
  { assume l: "listening cl n a"
    from assms(1) l have "msg_Type m = listens_to cl n" by (rule listening_pod) (use o(2) in simp)
  } note ty = this
  show "cl_unresult cl (msg_Data m) \<noteq> None" if "listening cl n a" "n = cl_home cl"
    using mk ty[OF that(1)] that(2) readyD(10)[OF assms(1)] by (fastforce simp: made_ok_def listens_to_def split: origin.split_asm)
  show "\<exists>req. cl_unrequest cl (msg_Data m) = Some req \<and> job_ok cl modules (msg_Type m, req)" if "n \<in> sats cl" "a = cl_listen cl n"
  proof -
    have "listening cl n a" "n \<noteq> cl_home cl" using that by (auto simp: listening_def sats_def)
    with mk ty readyD(10)[OF assms(1) that(1)] show ?thesis by (auto simp: made_ok_def listens_to_def split: origin.split_asm)
  qed
qed

section \<open>Messages on their way\<close>

definition results_on_way :: "cluster \<Rightarrow> net \<Rightarrow> (string \<times> execResult) multiset" where
  "results_on_way cl s = image_mset (\<lambda>m. (msg_ParentID m, the (cl_unresult cl (msg_Data m)))) (unheard cl s (cl_home cl) (cl_pod cl))"

definition jobs_on_way :: "cluster \<Rightarrow> net \<Rightarrow> (string \<times> coord_request) multiset" where
  "jobs_on_way cl s = (\<Sum>n \<in> sats cl. image_mset (\<lambda>m. (msg_Type m, the (cl_unrequest cl (msg_Data m)))) (unheard cl s n (cl_listen cl n)))"

lemma sum_add_mset:
  assumes "finite A" "x \<in> A" "\<And>y. y \<in> A \<Longrightarrow> y \<noteq> x \<Longrightarrow> g' y = g y" "g' x = add_mset d (g x)"
  shows "(\<Sum>y \<in> A. g' y) = add_mset d (\<Sum>y \<in> A. g y)"
proof -
  have "sum g' (A - {x}) = sum g (A - {x})" using assms(3) by (intro sum.cong) auto
  then show ?thesis using assms(1,2,4) by (simp add: sum.remove)
qed

lemma listening_simps:
  "listening cl (cl_home cl) a \<longleftrightarrow> a = cl_pod cl" "n \<in> sats cl \<Longrightarrow> listening cl n a \<longleftrightarrow> a = cl_listen cl n"
  by (auto simp: listening_def sats_def)

lemma sats_nodes: "n \<in> sats cl \<Longrightarrow> n \<in> cl_nodes cl \<and> n \<noteq> cl_home cl"
  by (simp add: sats_def)

lemma ready_sats_finite: "cluster_ready cl modules \<Longrightarrow> finite (sats cl)"
  using readyD(9) by (simp add: sats_def)

lemma send_result:
  assumes ready: "cluster_ready cl modules" and ok: "net_ok cl modules s" and n: "n \<in> sats cl"
    and fresh: "u \<notin> (\<lambda>x. msg_UUID (snd x)) ` set (nt_made s)"
    and m: "result_message (cl_result cl) u now p r = Some m" and send: "net_send n (cl_answer cl n) m s = Some s'"
  shows "net_ok cl modules s'" "jobs_on_way cl s' = jobs_on_way cl s"
    "results_on_way cl s' = add_mset (p, r) (results_on_way cl s)" "nt_made s' = nt_made s @ [(Sent n (cl_answer cl n), m)]"
    "msg_UUID m = u"
proof -
  note rd = readyD(10)[OF ready n] and nn = sats_nodes[OF n]
  from send obtain q where q: "peer_send (cl_answer cl n) m (nt_peer s n) = Some q"
    "s' = s\<lparr>nt_peer := (nt_peer s)(n := q), nt_made := nt_made s @ [(Sent n (cl_answer cl n), m)]\<rparr>"
    by (auto simp: net_send_def)
  show made: "nt_made s' = nt_made s @ [(Sent n (cl_answer cl n), m)]" by (simp add: q(2))
  from m obtain j where j: "cl_result cl r = Some j" and m': "msg_UUID m = u" "msg_Type m = MsgTypeSuborbitalResult"
    "msg_ParentID m = p" "msg_Data m = j" by (auto simp: result_message_def message_defs)
  then show "msg_UUID m = u" by simp
  have dec: "cl_unresult cl (msg_Data m) = Some r" using encoding_decodes[OF readyD(3)[OF ready] j] m' by simp
  have step: "net_step (cl_wire cl) (cl_unwire cl) (cl_nodes cl) (cl_ends cl) s s'" using ns_send[OF _ _ send] nn rd by simp
  note inv = net_inv_step[OF readyD(2)[OF ready] step net_okD(1)[OF ok]]
    and l = step_links[OF readyD(2)[OF ready] step net_okD(1)[OF ok]]
  have "routes cl modules s'" using same_links_routes[OF l, of modules] net_okD(5)[OF ok] by (simp add: q(2))
  moreover have "made_ok cl modules (Sent n (cl_answer cl n), m)" using n m' dec by (simp add: made_ok_def)
  ultimately show "net_ok cl modules s'"
    using inv l net_okD[OF ok] fresh m' unfolding net_ok_def made_distinct_def made by (auto simp: same_links_def)
  have calls: "calls a (nt_peer s' k) = calls a (nt_peer s k)" for a k using peer_send_calls[OF q(1)] by (simp add: q(2))
  note un = unheard_made[OF ready ok l made calls]
  have link: "linked s' n (cl_home cl)" using rd nn l net_okD(4)[OF ok] by (simp add: linked_def same_links_def)
  have "cl_pod cl \<noteq> 1" using ready by (simp add: cluster_ready_def)
  then have "unheard cl s' (cl_home cl) (cl_pod cl) = add_mset m (unheard cl s (cl_home cl) (cl_pod cl))"
    using un[of "cl_home cl" "cl_pod cl"] link nn m' by (simp add: listening_simps reaches_def listens_to_def)
  then show "results_on_way cl s' = add_mset (p, r) (results_on_way cl s)" using dec m' by (simp add: results_on_way_def)
  have "unheard cl s' k (cl_listen cl k) = unheard cl s k (cl_listen cl k)" if k: "k \<in> sats cl" for k
    using un[of k "cl_listen cl k"] readyD(10)[OF ready k] m' sats_nodes[OF k] k by (auto simp: listening_simps listens_to_def)
  then show "jobs_on_way cl s' = jobs_on_way cl s" by (simp add: jobs_on_way_def)
qed

lemma tunnel_sends:
  assumes ready: "cluster_ready cl modules" and ok: "net_ok cl modules s" and n: "n \<in> cl_nodes cl"
    and fresh: "u \<notin> (\<lambda>x. msg_UUID (snd x)) ` set (nt_made s)"
    and job: "job_ok cl modules (fqmn, req)" and other: "n = cl_home cl \<or> fqmn \<noteq> cl_job cl n"
  obtains s' where "tunnel_job cl n u now (fqmn, req) s = Inr (True, s')" "net_ok cl modules s'"
    "jobs_on_way cl s' = add_mset (fqmn, req) (jobs_on_way cl s)" "results_on_way cl s' = results_on_way cl s"
    "\<exists>c m. nt_made s' = nt_made s @ [(Tunnelled c, m)] \<and> msg_UUID m = u"
proof -
  let ?h = "nt_hub s n"
  from job have "finite_request req" by (simp add: job_ok_def)
  with readyD(4)[OF ready] obtain j where j: "cl_request cl req = Some j" "cl_unrequest cl j = Some req"
    by (auto simp: request_encoding_def)
  let ?m = "NewMsgWithParentID u now fqmn (rq_ID req) j"
  have m: "job_message (cl_request cl) u now (fqmn, req) = Some ?m" by (simp add: job_message_def j)
  have m': "msg_UUID ?m = u" "msg_Type ?m = fqmn" "msg_Data ?m = j" by (simp_all add: message_defs)
  from net_okD(5)[OF ok] n job_ok_module[OF job] other obtain b where b: "hub_balancers ?h fqmn = Some b" "balancer_inv b"
    "bal_uuids b \<noteq> []" "\<forall>x \<in> set (bal_uuids b). linked s n x \<and> x \<in> sats cl \<and> cl_job cl x = fqmn"
    unfolding routes_def by blast
  from bal.next_law[OF b(2,3)] bal.pos_law[OF b(2,3)] obtain x b' where nx: "Balancer_Next b = Inr (x, b')"
    "x \<in> set (bal_uuids b)" "balancer_inv b'" "bal_uuids b' = bal_uuids b" by (metis nth_mem)
  with b(4) have x: "linked s n x" "x \<in> sats cl" "cl_job cl x = fqmn" by blast+
  note wd = accountD(1)[OF net_okD(2)[OF ok]]
  from x(1) obtain ch where ch: "hub_meshConnections ?h x = Some ch" by (auto simp: linked_def)
  from wiredD(3,4)[OF wd n ch] obtain c where c: "\<not> PeerWithdrawn (ch_Signaler ch)" "ch_Conn ch = Some c" "cl_ends cl c = (n, x)" by blast
  have "x \<noteq> ''''" using x(2) readyD(8)[OF ready] by (auto simp: sats_def)
  let ?h' = "?h\<lparr>hub_balancers := (hub_balancers ?h)(fqmn \<mapsto> b'), hub_sent := hub_sent ?h @ [(c, ?m)]\<rparr>"
  have retry: "tunnelRetryCount = Suc 31" by (simp add: tunnelRetryCount_def)
  have loop: "tunnel_loop (\<lambda>_. True) fqmn ?m (Suc k) ?h = Inr (None, ?h')" for k
    using b(1) nx(1) ch c \<open>x \<noteq> ''''\<close> by (simp add: handler_Send_def log_sent_def Let_def)
  have t: "sendTunneledMessage (\<lambda>_. True) fqmn ?m ?h = Inr (None, ?h')"
    unfolding sendTunneledMessage_def retry by (simp only: b(1) option.case loop)
  let ?s = "s\<lparr>nt_hub := (nt_hub s)(n := ?h'), nt_made := nt_made s @ [(Tunnelled c, ?m)]\<rparr>"
  have nt: "net_tunnel n fqmn ?m s = Inr ?s" by (simp add: net_tunnel_def t)
  have tj: "tunnel_job cl n u now (fqmn, req) s = Inr (True, ?s)" by (simp add: tunnel_job_def m t nt)
  have step: "net_step (cl_wire cl) (cl_unwire cl) (cl_nodes cl) (cl_ends cl) s ?s" using ns_tunnel[OF n nt] .
  note inv = net_inv_step[OF readyD(2)[OF ready] step net_okD(1)[OF ok]]
    and l = step_links[OF readyD(2)[OF ready] step net_okD(1)[OF ok]]
  have made: "nt_made ?s = nt_made s @ [(Tunnelled c, ?m)]" by simp
  have linked: "linked ?s = linked s" by (auto simp: linked_def fun_eq_iff)
  have "routes cl modules ?s"
    unfolding routes_def linked
  proof (intro ballI impI)
    fix k g assume "k \<in> cl_nodes cl" "g \<in> modules" "k = cl_home cl \<or> g \<noteq> cl_job cl k"
    with net_okD(5)[OF ok] obtain b0 where b0: "hub_balancers (nt_hub s k) g = Some b0" "balancer_inv b0" "bal_uuids b0 \<noteq> []"
      "\<forall>u \<in> set (bal_uuids b0). linked s k u \<and> u \<in> sats cl \<and> cl_job cl u = g" unfolding routes_def by blast
    show "\<exists>b. hub_balancers (nt_hub ?s k) g = Some b \<and> balancer_inv b \<and> bal_uuids b \<noteq> []
        \<and> (\<forall>u \<in> set (bal_uuids b). linked s k u \<and> u \<in> sats cl \<and> cl_job cl u = g)"
    proof (cases "k = n \<and> g = fqmn")
      case True
      with nx(3,4) b b0 show ?thesis by (intro exI[of _ b']) simp
    next
      case False
      with b0 show ?thesis by (intro exI[of _ b0]) auto
    qed
  qed
  moreover have "made_ok cl modules (Tunnelled c, ?m)" using x c(3) m' j(2) job by (auto simp: made_ok_def)
  ultimately have net: "net_ok cl modules ?s"
    using inv l net_okD[OF ok] fresh m'(1) unfolding net_ok_def made_distinct_def made by (auto simp: same_links_def)
  have "calls a (nt_peer ?s k) = calls a (nt_peer s k)" for a k by simp
  note un = unheard_made[OF ready ok l made this]
  have home: "unheard cl ?s (cl_home cl) (cl_pod cl) = unheard cl s (cl_home cl) (cl_pod cl)"
    using un[of "cl_home cl" "cl_pod cl"] sats_nodes[OF x(2)] c(3) by (simp add: listening_simps reaches_def)
  have at: "unheard cl ?s k (cl_listen cl k) = unheard cl s k (cl_listen cl k) + (if k = x then {#?m#} else {#})"
    if k: "k \<in> sats cl" for k
  proof -
    have "listening cl k (cl_listen cl k)" using k by (simp add: listening_simps)
    moreover from ready this have "cl_listen cl k \<noteq> 1" by (rule listening_pod)
    ultimately show ?thesis using un[of k "cl_listen cl k"] c(3) x(3) m'(2) sats_nodes[OF k] by (auto simp: reaches_def listens_to_def)
  qed
  have "jobs_on_way cl ?s = add_mset (fqmn, req) (jobs_on_way cl s)"
    unfolding jobs_on_way_def
    by (rule sum_add_mset[OF ready_sats_finite[OF ready] x(2)]) (use at x(2) m' j(2) in auto)
  with tj net home m'(1) show thesis by (intro that[of ?s]) (simp_all add: results_on_way_def)
qed

section \<open>The steps of the service are steps of the mesh\<close>

text \<open>The state of \<open>Mesh\<close> a state stands for: the messages under way are those in the network.\<close>

definition flow_mesh :: "cluster \<Rightarrow> flow \<Rightarrow> mesh" where
  "flow_mesh cl f = (fl_mesh f)\<lparr>me_jobs := image_mset snd (fl_running f) + jobs_on_way cl (fl_net f),
                                me_results := results_on_way cl (fl_net f)\<rparr>"

abbreviation cl_mesh_step :: "cluster \<Rightarrow> mesh \<Rightarrow> mesh \<Rightarrow> bool" where
  "cl_mesh_step cl \<equiv> mesh_step (cl_unsteps cl) (cl_steps cl) (cl_runs cl) False"

abbreviation flow_weight :: "cluster \<Rightarrow> flow \<Rightarrow> nat" where
  "flow_weight cl f \<equiv> net_weight (cl_nodes cl) (cl_ends cl) (cl_cfg cl) (fl_net f)"

definition request_ok :: "cluster \<Rightarrow> string set \<Rightarrow> sequence \<Rightarrow> bool" where
  "request_ok cl modules seq \<longleftrightarrow> single_request (cl_steps cl) seq \<and> finite_request (sq_req seq)
     \<and> st_FQMN ` set (sq_steps seq) \<subseteq> modules"

definition flow_inv :: "cluster \<Rightarrow> string set \<Rightarrow> flow \<Rightarrow> bool" where
  "flow_inv cl modules f \<longleftrightarrow> net_ok cl modules (fl_net f) \<and> me_jobs (fl_mesh f) = {#} \<and> me_results (fl_mesh f) = {#}
     \<and> (\<forall>x \<in># fl_running f. fst x \<in> sats cl \<and> fst (snd x) = cl_job cl (fst x) \<and> job_ok cl modules (snd x))
     \<and> (\<forall>seq \<in># me_pending (fl_mesh f). request_ok cl modules seq)"

lemma flow_invD:
  assumes "flow_inv cl modules f"
  shows "net_ok cl modules (fl_net f)" "me_jobs (fl_mesh f) = {#}" "me_results (fl_mesh f) = {#}"
    "x \<in># fl_running f \<Longrightarrow> fst x \<in> sats cl \<and> fst (snd x) = cl_job cl (fst x) \<and> job_ok cl modules (snd x)"
    "seq \<in># me_pending (fl_mesh f) \<Longrightarrow> request_ok cl modules seq"
  using assms by (simp_all add: flow_inv_def)

lemma begin_possible:
  assumes ready: "cluster_ready cl modules" and inv: "flow_inv cl modules f" and seq: "seq \<in># me_pending (fl_mesh f)"
    and "fresh_uuid u f" "me_handlers (fl_mesh f) = {#}"
  shows "\<exists>f'. flow_begin cl u now seq f = Some f' \<and> flow_inv cl modules f' \<and> mesh_start True seq (flow_mesh cl f) = Some (flow_mesh cl f')"
proof -
  obtain ex job where b: "begin_execution True seq = (ex, job)" by force
  from flow_invD(5)[OF inv seq] have "request_ok cl modules seq" .
  then obtain j where j: "snd (begin_execution True seq) = Some j" "job_ok cl modules j"
    using first_job_ok[OF readyD(5)[OF ready], of seq modules] by (auto simp: request_ok_def)
  obtain fqmn req where "j = (fqmn, req)" by force
  with j b have job: "job = Some (fqmn, req)" "job_ok cl modules (fqmn, req)" by simp_all
  from tunnel_sends[OF ready flow_invD(1)[OF inv] readyD(6)[OF ready] _ job(2), of u now] assms(4) obtain s' where
    s': "tunnel_job cl (cl_home cl) u now (fqmn, req) (fl_net f) = Inr (True, s')" "net_ok cl modules s'"
    "jobs_on_way cl s' = add_mset (fqmn, req) (jobs_on_way cl (fl_net f))" "results_on_way cl s' = results_on_way cl (fl_net f)"
    by (auto simp: fresh_uuid_def)
  show ?thesis
    using inv assms(5) s' by (auto simp: flow_begin_def b job(1) mesh_start_def flow_mesh_def mset_option_def flow_inv_def dest: in_diffD)
qed

lemma begin_sim:
  assumes "cluster_ready cl modules" "flow_inv cl modules f" "seq \<in># me_pending (fl_mesh f)" "fresh_uuid u f"
    and "flow_begin cl u now seq f = Some f'"
  shows "flow_inv cl modules f' \<and> cl_mesh_step cl (flow_mesh cl f) (flow_mesh cl f')"
proof -
  have "me_handlers (fl_mesh f) = {#}"
    using assms(5) by (auto simp: flow_begin_def mesh_start_def split: option.split_asm sum.split_asm prod.split_asm if_split_asm)
  from begin_possible[OF assms(1-4) this, of now] assms(5) have "flow_inv cl modules f'"
    "mesh_start True seq (flow_mesh cl f) = Some (flow_mesh cl f')" by auto
  moreover have "seq \<in># me_pending (flow_mesh cl f)" using assms(3) by (simp add: flow_mesh_def)
  ultimately show ?thesis using ms_start[where tunnel_ok = True] by blast
qed

lemma calls_others:
  assumes "encoding enc dec'" "net_work enc dec' nodes ends s s'" "calls a (nt_peer s' n) = add_mset m (calls a (nt_peer s n))"
    and "(k, b) \<noteq> (n, a)"
  shows "calls b (nt_peer s' k) = calls b (nt_peer s k)"
  using net_work_one_call[OF assms(1,2)]
proof (elim disjE exE conjE)
  fix n' a' m'
  assume all: "\<forall>k b. (k, b) \<noteq> (n', a') \<longrightarrow> calls b (nt_peer s' k) = calls b (nt_peer s k)"
  then have "(n, a) \<noteq> (n', a') \<Longrightarrow> calls a (nt_peer s' n) = calls a (nt_peer s n)" by blast
  with assms(3) have "(n, a) = (n', a')" by fastforce
  with all assms(4) show ?thesis by simp
qed simp

lemma hear_sim:
  assumes ready: "cluster_ready cl modules" and inv: "flow_inv cl modules f" and work: "cl_work cl (fl_net f) s"
    and m: "calls (cl_pod cl) (nt_peer s (cl_home cl)) = add_mset m (calls (cl_pod cl) (nt_peer (fl_net f) (cl_home cl)))"
  shows "flow_inv cl modules ((flow_hear cl m f)\<lparr>fl_net := s\<rparr>)
    \<and> cl_mesh_step cl (flow_mesh cl f) (flow_mesh cl ((flow_hear cl m f)\<lparr>fl_net := s\<rparr>))"
proof -
  note ok = flow_invD(1)[OF inv] and ok' = net_ok_work(1)[OF ready flow_invD(1)[OF inv] work]
  have l: "listening cl (cl_home cl) (cl_pod cl)" by (simp add: listening_simps)
  have un: "unheard cl (fl_net f) (cl_home cl) (cl_pod cl) = add_mset m (unheard cl s (cl_home cl) (cl_pod cl))"
    using unheard_work(2)[OF ready ok work l m] .
  then obtain r where r: "cl_unresult cl (msg_Data m) = Some r" using unheard_decodes(1)[OF ready ok _ l] by fastforce
  have same: "calls (cl_listen cl n) (nt_peer s n) = calls (cl_listen cl n) (nt_peer (fl_net f) n)" if "n \<in> sats cl" for n
    using calls_others[OF readyD(2)[OF ready] work m] sats_nodes[OF that] by simp
  have "unheard cl s n (cl_listen cl n) = unheard cl (fl_net f) n (cl_listen cl n)" if "n \<in> sats cl" for n
    using unheard_work(1)[OF ready ok work _ same[OF that]] that by (simp add: listening_simps)
  then have jobs: "jobs_on_way cl s = jobs_on_way cl (fl_net f)" by (simp add: jobs_on_way_def)
  have res: "results_on_way cl (fl_net f) = add_mset (msg_ParentID m, r) (results_on_way cl s)"
    by (simp add: results_on_way_def un r)
  have "flow_mesh cl ((flow_hear cl m f)\<lparr>fl_net := s\<rparr>) = mesh_receive (msg_ParentID m, r) (flow_mesh cl f)"
    using flow_invD(3)[OF inv] by (simp add: flow_mesh_def flow_hear_def r jobs res mesh_receive_def)
  moreover have "(msg_ParentID m, r) \<in># me_results (flow_mesh cl f)" by (simp add: flow_mesh_def res)
  moreover have "flow_inv cl modules ((flow_hear cl m f)\<lparr>fl_net := s\<rparr>)"
    using inv ok' by (simp add: flow_inv_def flow_hear_def r mesh_receive_def)
  ultimately show ?thesis using ms_receive by metis
qed

lemma take_sim:
  assumes ready: "cluster_ready cl modules" and inv: "flow_inv cl modules f" and work: "cl_work cl (fl_net f) s" and n: "n \<in> sats cl"
    and m: "calls (cl_listen cl n) (nt_peer s n) = add_mset m (calls (cl_listen cl n) (nt_peer (fl_net f) n))"
  shows "flow_inv cl modules ((flow_take cl n m f)\<lparr>fl_net := s\<rparr>)
    \<and> flow_mesh cl ((flow_take cl n m f)\<lparr>fl_net := s\<rparr>) = flow_mesh cl f"
proof -
  note ok = flow_invD(1)[OF inv] and ok' = net_ok_work(1)[OF ready flow_invD(1)[OF inv] work]
  have l: "listening cl n (cl_listen cl n)" using n by (simp add: listening_simps)
  have un: "unheard cl (fl_net f) n (cl_listen cl n) = add_mset m (unheard cl s n (cl_listen cl n))"
    using unheard_work(2)[OF ready ok work l m] .
  then obtain req where req: "cl_unrequest cl (msg_Data m) = Some req" "job_ok cl modules (msg_Type m, req)"
    using unheard_decodes(2)[OF ready ok _ n refl] by fastforce
  have "m \<in># arrivals (cl_ends cl) (fl_net f) n (cl_listen cl n) (the (pod_at (cl_buses cl n) (cl_listen cl n)))"
    using un unfolding unheard_def by (metis in_diffD union_single_eq_member)
  then have "wants (the (pod_at (cl_buses cl n) (cl_listen cl n))) m" by (auto simp: arrivals_def)
  with ready l have ty: "msg_Type m = cl_job cl n" using sats_nodes[OF n] by (auto simp: listens_to_def elim!: listening_pod)
  have same: "calls a (nt_peer s k) = calls a (nt_peer (fl_net f) k)" if "k \<noteq> n" for k a
    using calls_others[OF readyD(2)[OF ready] work m] that by simp
  have "unheard cl s k a = unheard cl (fl_net f) k a" if "listening cl k a" "k \<noteq> n" for k a
    using unheard_work(1)[OF ready ok work that(1) same[OF that(2)]] .
  moreover have "cl_home cl \<noteq> n" using sats_nodes[OF n] by blast
  ultimately have res: "results_on_way cl s = results_on_way cl (fl_net f)"
    and others: "k \<in> sats cl \<Longrightarrow> k \<noteq> n \<Longrightarrow> unheard cl s k (cl_listen cl k) = unheard cl (fl_net f) k (cl_listen cl k)" for k
    by (simp_all add: results_on_way_def listening_simps)
  have "jobs_on_way cl (fl_net f) = add_mset (msg_Type m, req) (jobs_on_way cl s)"
    unfolding jobs_on_way_def
    by (rule sum_add_mset[OF ready_sats_finite[OF ready] n]) (use others un req(1) in simp_all)
  then show ?thesis using inv ok' n req ty by (simp add: flow_inv_def flow_take_def flow_mesh_def res)
qed

lemma run_sim:
  assumes ready: "cluster_ready cl modules" and inv: "flow_inv cl modules f" and job: "(n, fqmn, req) \<in># fl_running f"
    and fresh: "fresh_uuid u f" "fresh_uuid u' f" "u \<noteq> u'" and run: "flow_run cl u u' now (n, fqmn, req) f = Some f'"
  shows "flow_inv cl modules f' \<and> cl_mesh_step cl (flow_mesh cl f) (flow_mesh cl f')"
proof -
  let ?h = "handleFnResult (cl_unsteps cl) (cl_steps cl) True fqmn (Some req) (cl_runs cl fqmn req)"
  let ?f1 = "f\<lparr>fl_running := fl_running f - {#(n, fqmn, req)#}\<rparr>"
  let ?node = "mesh_node (cl_unsteps cl) (cl_steps cl) (cl_runs cl) True True (fqmn, req) (flow_mesh cl f)"
  obtain R where R: "fl_running f = add_mset (n, fqmn, req) R" using job by (metis multi_member_split)
  from flow_invD(4)[OF inv job] have n: "n \<in> sats cl" "fqmn = cl_job cl n" "job_ok cl modules (fqmn, req)" by auto
  have keep: "flow_inv cl modules (?f1\<lparr>fl_net := s\<rparr>)" if "net_ok cl modules s" for s
    using inv that by (auto simp: flow_inv_def dest: in_diffD)
  have unchanged: "?f1\<lparr>fl_net := fl_net f\<rparr> = ?f1" by simp
  have jobs: "me_jobs (flow_mesh cl f) - {#(fqmn, req)#} = image_mset snd R + jobs_on_way cl (fl_net f)"
    by (simp add: flow_mesh_def R)
  have "flow_inv cl modules f' \<and> flow_mesh cl f' = ?node"
  proof (cases ?h)
    case (Inl p)
    with run have "f' = ?f1\<lparr>fl_net := fl_net f\<rparr>" unfolding unchanged by (simp add: flow_run_def Let_def)
    with keep[OF flow_invD(1)[OF inv]] show ?thesis by (simp add: flow_mesh_def mesh_node_def Inl R)
  next
    case (Inr out)
    show ?thesis
    proof (cases "ss_result out")
      case None
      then have nx: "ss_next out = None" using next_job_ok[OF readyD(5)[OF ready] n(3) Inr] by (cases "ss_next out") auto
      with run Inr None have "f' = ?f1\<lparr>fl_net := fl_net f\<rparr>" unfolding unchanged by (simp add: flow_run_def Let_def)
      with keep[OF flow_invD(1)[OF inv]] show ?thesis by (simp add: flow_mesh_def mesh_node_def Inr R None nx mset_option_def)
    next
      case (Some r)
      from readyD(3)[OF ready] obtain j where "cl_result cl r = Some j" "cl_unresult cl j = Some r" by (rule encodingE)
      then obtain m where m: "result_message (cl_result cl) u now (rq_ID req) r = Some m" by (simp add: result_message_def)
      with run Inr Some obtain s where s: "net_send n (cl_answer cl n) m (fl_net f) = Some s"
        by (auto simp: flow_run_def Let_def sendFnResult_def split: option.split_asm)
      note snt = send_result[OF ready flow_invD(1)[OF inv] n(1) fresh(1)[unfolded fresh_uuid_def] m s]
      show ?thesis
      proof (cases "ss_next out")
        case None
        with run Inr Some m s have "f' = ?f1\<lparr>fl_net := s\<rparr>" by (simp add: flow_run_def Let_def sendFnResult_def)
        with keep[OF snt(1)] show ?thesis by (simp add: flow_mesh_def mesh_node_def Inr Some R None mset_option_def snt)
      next
        case next_job: (Some nj)
        obtain fqmn' req' where nj: "nj = (fqmn', req')" by force
        note nok = next_job_ok[OF readyD(5)[OF ready] n(3) Inr next_job]
        have f2: "u' \<notin> (\<lambda>x. msg_UUID (snd x)) ` set (nt_made s)" using fresh(2,3) snt(4,5) by (auto simp: fresh_uuid_def)
        from nok have nok': "job_ok cl modules (fqmn', req')" "fqmn' \<noteq> cl_job cl n" by (simp_all add: nj n(2))
        from tunnel_sends[OF ready snt(1) _ f2 nok'(1), of n now] sats_nodes[OF n(1)] nok'(2) obtain s' where
          s': "tunnel_job cl n u' now (fqmn', req') s = Inr (True, s')" "net_ok cl modules s'"
          "jobs_on_way cl s' = add_mset (fqmn', req') (jobs_on_way cl s)" "results_on_way cl s' = results_on_way cl s" by auto
        with run Inr Some m s next_job have "f' = ?f1\<lparr>fl_net := s'\<rparr>" by (simp add: flow_run_def Let_def sendFnResult_def nj)
        with keep[OF s'(2)] show ?thesis
          by (simp add: flow_mesh_def mesh_node_def Inr Some R next_job nj mset_option_def snt s')
      qed
    qed
  qed
  moreover have "(fqmn, req) \<in># me_jobs (flow_mesh cl f)" by (simp add: flow_mesh_def R)
  ultimately show ?thesis using ms_node[where send_ok = True and tunnel_ok = True] by metis
qed

lemma flow_sim:
  assumes ready: "cluster_ready cl modules" and step: "flow_step cl f f'" and inv: "flow_inv cl modules f"
  shows "flow_inv cl modules f' \<and> (cl_mesh_step cl (flow_mesh cl f) (flow_mesh cl f')
    \<or> flow_mesh cl f' = flow_mesh cl f \<and> flow_weight cl f' < flow_weight cl f)"
  using step
proof cases
  case (fs_begin seq u now)
  then show ?thesis using begin_sim[OF ready inv] by blast
next
  case (fs_net s)
  note ok = flow_invD(1)[OF inv] and w = net_ok_work[OF ready flow_invD(1)[OF inv] fs_net(2)]
  have "unheard cl s n a = unheard cl (fl_net f) n a" if "listening cl n a" for n a
    using unheard_work(1)[OF ready ok fs_net(2) that] fs_net(3) that by blast
  then have "results_on_way cl s = results_on_way cl (fl_net f)" "jobs_on_way cl s = jobs_on_way cl (fl_net f)"
    by (simp_all add: results_on_way_def jobs_on_way_def listening_simps)
  then show ?thesis using inv w by (simp add: fs_net(1) flow_inv_def flow_mesh_def)
next
  case (fs_hear s m)
  then show ?thesis using hear_sim[OF ready inv] by blast
next
  case (fs_take s n m)
  have "fl_net (flow_take cl n m f\<lparr>fl_net := s\<rparr>) = s" by simp
  then show ?thesis using take_sim[OF ready inv fs_take(2-4)] net_ok_work(4)[OF ready flow_invD(1)[OF inv] fs_take(2)] fs_take(1) by simp
next
  case (fs_run job u u' now)
  then show ?thesis using run_sim[OF ready inv] by (cases job) blast
next
  case (fs_hand res m)
  then have "mesh_hand res (flow_mesh cl f) = Some (flow_mesh cl f')"
    by (auto simp: mesh_hand_def flow_mesh_def split: option.split_asm if_split_asm)
  moreover have "res \<in># me_handlers (flow_mesh cl f)" using fs_hand by (simp add: flow_mesh_def)
  moreover have "flow_inv cl modules f'" using inv fs_hand
    by (auto simp: flow_inv_def mesh_hand_def split: option.split_asm if_split_asm)
  ultimately show ?thesis using ms_hand by blast
next
  case (fs_return p m)
  then have "mesh_return p (flow_mesh cl f) = Some (flow_mesh cl f')"
    by (auto simp: mesh_return_def flow_mesh_def split: option.split_asm phase.split_asm if_split_asm)
  moreover have "flow_inv cl modules f'" using inv fs_return
    by (auto simp: flow_inv_def mesh_return_def split: option.split_asm phase.split_asm if_split_asm)
  ultimately show ?thesis using ms_return by blast
qed

section \<open>The service answers\<close>

lemma fresh_exists: "\<exists>u. fresh_uuid u f \<and> u \<noteq> v"
proof -
  have "finite (insert v ((\<lambda>x. msg_UUID (snd x)) ` set (nt_made (fl_net f))))" by simp
  then obtain u where "u \<notin> insert v ((\<lambda>x. msg_UUID (snd x)) ` set (nt_made (fl_net f)))"
    using ex_new_if_finite[OF infinite_UNIV_listI] by metis
  then show ?thesis by (auto simp: fresh_uuid_def)
qed

text \<open>At rest a pod can always send.\<close>

lemma rest_send:
  assumes acc: "net_account nodes ends cfg s" and rest: "net_rest nodes ends s" and n: "n \<in> nodes" "cfg n a \<noteq> None"
  shows "\<exists>s'. net_send n a m s = Some s'"
proof -
  have "cores (nt_peer s n) a \<noteq> None" using peer_dom_cfg[OF accountD(2)[OF acc n(1)]] n(2) by (metis domIff)
  then obtain q where "pod_at (pr_bus (nt_peer s n)) a = Some q" using pod_core_at by fast
  moreover have "bus_busChan (pr_bus (nt_peer s n)) = []" using rest n(1) by (auto simp: net_rest_def at_rest_def)
  ultimately show ?thesis by (auto simp: net_send_def peer_send_def Pod_Send_def chan_send_def defaultBusChanSize_def)
qed

text \<open>Every step of the network is one of the service.\<close>

lemma work_flow:
  assumes ready: "cluster_ready cl modules" and work: "cl_work cl (fl_net f) s"
  shows "\<exists>f'. flow_step cl f f'"
  using net_work_one_call[OF readyD(2)[OF ready] work]
proof (elim disjE exE conjE)
  fix n a m assume c: "calls a (nt_peer s n) = add_mset m (calls a (nt_peer (fl_net f) n))"
    "\<forall>k b. (k, b) \<noteq> (n, a) \<longrightarrow> calls b (nt_peer s k) = calls b (nt_peer (fl_net f) k)"
  consider "n = cl_home cl" "a = cl_pod cl" | "n \<in> sats cl" "a = cl_listen cl n" | "\<not> listening cl n a"
    by (auto simp: listening_def)
  then show ?thesis
  proof cases
    case 1
    then show ?thesis using fs_hear[OF work] c(1) by blast
  next
    case 2
    then show ?thesis using fs_take[OF work] c(1) by blast
  next
    case 3
    have "\<forall>k b. listening cl k b \<longrightarrow> calls b (nt_peer s k) = calls b (nt_peer (fl_net f) k)"
    proof (intro allI impI)
      fix k b assume "listening cl k b"
      with 3 have "(k, b) \<noteq> (n, a)" by auto
      then show "calls b (nt_peer s k) = calls b (nt_peer (fl_net f) k)" by (rule c(2)[rule_format])
    qed
    from fs_net[OF work this] show ?thesis ..
  qed
qed (use fs_net[OF work] in blast)

definition flow_order :: "cluster \<Rightarrow> sequence list \<Rightarrow> flow rel" where
  "flow_order cl seqs = inv_image (less_than <*lex*> less_than) (\<lambda>f. (mesh_weight (cl_unsteps cl) seqs (flow_mesh cl f), flow_weight cl f))"

definition flow_good :: "cluster \<Rightarrow> string set \<Rightarrow> sequence list \<Rightarrow> flow \<Rightarrow> bool" where
  "flow_good cl modules seqs f \<longleftrightarrow> cluster_ready cl modules \<and> flow_inv cl modules f
     \<and> mesh_inv (cl_unsteps cl) (cl_steps cl) (cl_runs cl) False seqs (flow_mesh cl f)"

interpretation flows: descending_system "flow_step cl" "flow_good cl modules seqs" "flow_order cl seqs" for cl modules seqs
proof unfold_locales
  show "wf (flow_order cl seqs)" unfolding flow_order_def by (intro wf_inv_image wf_lex_prod wf_less_than)
  fix f f' assume step: "flow_step cl f f'" and good: "flow_good cl modules seqs f"
  then have ready: "cluster_ready cl modules" and inv: "flow_inv cl modules f"
    and mesh: "mesh_inv (cl_unsteps cl) (cl_steps cl) (cl_runs cl) False seqs (flow_mesh cl f)" by (simp_all add: flow_good_def)
  note sim = flow_sim[OF ready step inv]
  then show "flow_good cl modules seqs f'" using ready mesh meshes.inv_step unfolding flow_good_def by metis
  show "(f', f) \<in> flow_order cl seqs" using sim meshes.weight_step[OF _ mesh] by (auto simp: flow_order_def)
qed

lemma flow_start_good:
  assumes ready: "cluster_ready cl modules" and "distinct (map ParentID seqs)" "\<forall>seq \<in> set seqs. request_ok cl modules seq"
  shows "flow_good cl modules seqs (flow_start cl seqs)" "flow_mesh cl (flow_start cl seqs) = mesh_init seqs"
proof -
  note start = net_start_inv[OF readyD(1)[OF ready]]
  have none: "unheard cl (cl_start cl) n a = {#}" for n a by (simp add: unheard_def arrivals_def net_start_def)
  then show m: "flow_mesh cl (flow_start cl seqs) = mesh_init seqs"
    by (simp add: flow_mesh_def flow_start_def results_on_way_def jobs_on_way_def mesh_init_def)
  have "net_ok cl modules (cl_start cl)"
    using start readyD(7)[OF ready] unfolding net_ok_def by (simp add: made_distinct_def same_links_def net_start_def)
  then have "flow_inv cl modules (flow_start cl seqs)" using assms(3) by (simp add: flow_inv_def flow_start_def mesh_init_def)
  then show "flow_good cl modules seqs (flow_start cl seqs)"
    unfolding flow_good_def m using ready mesh_inv_init[OF readyD(5)[OF ready] assms(2)] by simp
qed

lemma flow_refines:
  assumes "(flow_step cl)\<^sup>*\<^sup>* f f'" "flow_good cl modules seqs f"
  shows "(cl_mesh_step cl)\<^sup>*\<^sup>* (flow_mesh cl f) (flow_mesh cl f')"
  using assms(1)
proof (induction rule: rtranclp_induct)
  case (step g h)
  have "flow_good cl modules seqs g" using flows.inv_reach[OF step(1) assms(2)] .
  then have "cl_mesh_step cl (flow_mesh cl g) (flow_mesh cl h) \<or> flow_mesh cl h = flow_mesh cl g"
    using flow_sim[OF _ step(2)] by (auto simp: flow_good_def)
  with step(3) show ?case by auto
qed simp

text \<open>A state in which nothing can be done has nothing on its way and nothing running.\<close>

lemma run_possible:
  assumes ready: "cluster_ready cl modules" and inv: "flow_inv cl modules f" and job: "(n, fqmn, req) \<in># fl_running f"
    and rest: "net_rest (cl_nodes cl) (cl_ends cl) (fl_net f)"
  shows "\<exists>f'. flow_step cl f f'"
proof -
  let ?h = "handleFnResult (cl_unsteps cl) (cl_steps cl) True fqmn (Some req) (cl_runs cl fqmn req)"
  obtain u where u: "fresh_uuid u f" using fresh_exists by blast
  obtain u' where u': "fresh_uuid u' f" "u \<noteq> u'" using fresh_exists[of f u] by blast
  from flow_invD(4)[OF inv job] have n: "n \<in> sats cl" "fqmn = cl_job cl n" "job_ok cl modules (fqmn, req)" by auto
  have "\<exists>f'. flow_run cl u u' 0 (n, fqmn, req) f = Some f'"
  proof (cases ?h)
    case (Inr out)
    show ?thesis
    proof (cases "ss_result out")
      case None
      then have "ss_next out = None" using next_job_ok[OF readyD(5)[OF ready] n(3) Inr] by (cases "ss_next out") auto
      with Inr None show ?thesis by (simp add: flow_run_def Let_def)
    next
      case (Some r)
      from readyD(3)[OF ready] obtain j where "cl_result cl r = Some j" "cl_unresult cl j = Some r" by (rule encodingE)
      then obtain m where m: "result_message (cl_result cl) u 0 (rq_ID req) r = Some m" by (simp add: result_message_def)
      obtain s where s: "net_send n (cl_answer cl n) m (fl_net f) = Some s"
        using rest_send[OF net_okD(2)[OF flow_invD(1)[OF inv]] rest] sats_nodes[OF n(1)] readyD(10)[OF ready n(1)] by blast
      note snt = send_result[OF ready flow_invD(1)[OF inv] n(1) u[unfolded fresh_uuid_def] m s]
      show ?thesis
      proof (cases "ss_next out")
        case None
        with Inr Some m s show ?thesis by (simp add: flow_run_def Let_def sendFnResult_def)
      next
        case next_job: (Some nj)
        obtain fqmn' req' where nj: "nj = (fqmn', req')" by force
        from next_job_ok[OF readyD(5)[OF ready] n(3) Inr next_job] have nok: "job_ok cl modules (fqmn', req')" "fqmn' \<noteq> cl_job cl n"
          by (simp_all add: nj n(2))
        have "u' \<notin> (\<lambda>x. msg_UUID (snd x)) ` set (nt_made s)" using u' snt(4,5) by (auto simp: fresh_uuid_def)
        from tunnel_sends[OF ready snt(1) _ this nok(1), of n 0] sats_nodes[OF n(1)] nok(2)
        obtain s' where "tunnel_job cl n u' 0 (fqmn', req') s = Inr (True, s')" by auto
        with Inr Some m s next_job show ?thesis by (simp add: flow_run_def Let_def sendFnResult_def nj)
      qed
    qed
  qed (simp add: flow_run_def Let_def)
  then show ?thesis using fs_run[OF job u u'(1,2)] by blast
qed

lemma stuck_ended:
  assumes good: "flow_good cl modules seqs f" and stuck: "\<forall>f'. \<not> flow_step cl f f'"
  shows "mesh_ended (flow_mesh cl f)"
proof (rule ccontr)
  assume "\<not> mesh_ended (flow_mesh cl f)"
  then obtain m where m: "cl_mesh_step cl (flow_mesh cl f) m" using not_ended_steps by blast
  from good have ready: "cluster_ready cl modules" and inv: "flow_inv cl modules f" by (simp_all add: flow_good_def)
  note ok = flow_invD(1)[OF inv]
  have rest: "net_rest (cl_nodes cl) (cl_ends cl) (fl_net f)"
    using net_busy[OF readyD(2)[OF ready] net_okD(1)[OF ok]] work_flow[OF ready] stuck by blast
  have "unheard cl (fl_net f) n a = {#}" if l: "listening cl n a" for n a
  proof -
    from ready l obtain q where q: "n \<in> cl_nodes cl" "pod_at (cl_buses cl n) a = Some q" by (rule listening_pod)
    show ?thesis unfolding unheard_def
      using rest_arrivals[OF net_okD(1,3)[OF ok] rest q(1) ready_hubs[OF ready] q(2)] by (simp add: q(2))
  qed
  then have quiet: "results_on_way cl (fl_net f) = {#}" "jobs_on_way cl (fl_net f) = {#}"
    by (simp_all add: results_on_way_def jobs_on_way_def listening_simps)
  have "fl_running f = {#}" using run_possible[OF ready inv _ rest] stuck by (metis multiset_nonemptyE prod_cases3)
  with quiet have none: "me_jobs (flow_mesh cl f) = {#}" "me_results (flow_mesh cl f) = {#}" by (simp_all add: flow_mesh_def)
  show False
    using m
  proof cases
    case (ms_start seq tunnel_ok)
    then have h: "seq \<in># me_pending (fl_mesh f)" "me_handlers (fl_mesh f) = {#}"
      by (auto simp: flow_mesh_def mesh_start_def split: if_split_asm)
    obtain u where "fresh_uuid u f" using fresh_exists by blast
    with begin_possible[OF ready inv h(1) _ h(2), of u 0] fs_begin[OF h(1)] stuck show False by blast
  next
    case (ms_hand res)
    then have "res \<in># me_handlers (fl_mesh f)" "mesh_hand res (fl_mesh f) \<noteq> None"
      by (auto simp: flow_mesh_def mesh_hand_def split: option.split_asm if_split_asm)
    then show False using fs_hand stuck by blast
  next
    case (ms_return p)
    then have "mesh_return p (fl_mesh f) \<noteq> None"
      by (auto simp: flow_mesh_def mesh_return_def split: option.split_asm phase.split_asm if_split_asm)
    then show False using fs_return stuck by blast
  qed (use none in simp_all)
qed

section \<open>Properties\<close>

text \<open>
  C1: Any number of requests at once over any number of meshed nodes, in any order in which executions,
  nodes, buses, pods, broadcasts and connections take their turns: what happens is a run of the mesh in
  which messages are delivered in any order and none is lost; it cannot go on for ever; and when nothing
  can be done any more every request has been answered without an error, with exactly the outputs in its
  state that its own modules give when they run one after the other.
\<close>

theorem requests_answered_over_network:
  assumes "cluster_ready cl modules" "distinct (map ParentID seqs)" "\<forall>seq \<in> set seqs. request_ok cl modules seq"
    and "\<And>fqmn req. \<exists>resp. cl_runs cl fqmn req = FnResponse resp" "(flow_step cl)\<^sup>*\<^sup>* (flow_start cl seqs) f"
  shows "(cl_mesh_step cl)\<^sup>*\<^sup>* (mesh_init seqs) (flow_mesh cl f)
    \<and> \<not> (\<exists>g. g 0 = f \<and> (\<forall>i. flow_step cl (g i) (g (Suc i))))
    \<and> ((\<forall>f'. \<not> flow_step cl f f') \<longrightarrow> (\<forall>seq \<in> set seqs. \<exists>rs seq'.
      mesh_run (cl_unsteps cl) (cl_steps cl) (cl_runs cl) (length (sq_steps seq)) (st_FQMN (hd (sq_steps seq))) (sq_req seq) = Inr rs
      \<and> me_done (fl_mesh f) (ParentID seq) = Some (Inr None, seq')
      \<and> rq_State (sq_req seq') = Some (result_state rs (the (rq_State (sq_req seq))))))"
proof (intro conjI impI ballI notI)
  note start = flow_start_good[OF assms(1-3)] and enc = readyD(5)[OF assms(1)]
  have good: "flow_good cl modules seqs f" using flows.inv_reach[OF assms(5) start(1)] .
  show "(cl_mesh_step cl)\<^sup>*\<^sup>* (mesh_init seqs) (flow_mesh cl f)" using flow_refines[OF assms(5) start(1)] by (simp add: start(2))
  show False if "\<exists>g. g 0 = f \<and> (\<forall>i. flow_step cl (g i) (g (Suc i)))" using that flows.no_infinite_run good by blast
  fix seq assume "\<forall>f'. \<not> flow_step cl f f'" and seq: "seq \<in> set seqs"
  then have "mesh_ended (flow_mesh cl f)" using stuck_ended[OF good] by blast
  moreover have "mesh_inv (cl_unsteps cl) (cl_steps cl) (cl_runs cl) False seqs (flow_mesh cl f)" using good by (simp add: flow_good_def)
  moreover have "single_request (cl_steps cl) s" if "s \<in> set seqs" for s using assms(3) that by (simp add: request_ok_def)
  moreover have "me_done (flow_mesh cl f) = me_done (fl_mesh f)" by (simp add: flow_mesh_def)
  ultimately show "\<exists>rs seq'.
      mesh_run (cl_unsteps cl) (cl_steps cl) (cl_runs cl) (length (sq_steps seq)) (st_FQMN (hd (sq_steps seq))) (sq_req seq) = Inr rs
      \<and> me_done (fl_mesh f) (ParentID seq) = Some (Inr None, seq')
      \<and> rq_State (sq_req seq') = Some (result_state rs (the (rq_State (sq_req seq))))"
    using ended_completes[where runs = "cl_runs cl", OF enc assms(4) _ _ _ seq] by metis
qed

section \<open>An example\<close>

text \<open>Encodings of results and requests; a map is written as its entries, in the order of their keys.\<close>

fun enc_pairs :: "(string \<times> string) list \<Rightarrow> string list" where
  "enc_pairs [] = []"
| "enc_pairs ((k, v) # kvs) = k # v # enc_pairs kvs"

fun dec_pairs :: "string list \<Rightarrow> (string \<times> string) list" where
  "dec_pairs (k # v # kvs) = (k, v) # dec_pairs kvs"
| "dec_pairs kvs = []"

lemma dec_enc_pairs [simp]: "dec_pairs (enc_pairs kvs) = kvs"
  by (induction kvs rule: enc_pairs.induct) simp_all

definition enc_result :: "execResult \<Rightarrow> bytes" where
  "enc_result r = enc_int (er_Code r) @ enc_strs (er_FQMN r # er_Message r # er_ExecErr r #
     (case er_Response r of
        None \<Rightarrow> []
      | Some rp \<Rightarrow> rp_Output rp # (case rp_RespHeaders rp of None \<Rightarrow> [] | Some hs \<Rightarrow> '''' # enc_pairs hs)))"

definition dec_result :: "bytes \<Rightarrow> execResult option" where
  "dec_result s =
     (case dec_int s of
        None \<Rightarrow> None
      | Some (code, r) \<Rightarrow>
          (case dec_strs (length r) r of
             Some (fqmn # message # err # rest, _) \<Rightarrow>
               Some \<lparr>er_FQMN = fqmn,
                     er_Response = (case rest of
                         [] \<Rightarrow> None
                       | [out] \<Rightarrow> Some \<lparr>rp_Output = out, rp_RespHeaders = None\<rparr>
                       | out # _ # hs \<Rightarrow> Some \<lparr>rp_Output = out, rp_RespHeaders = Some (dec_pairs hs)\<rparr>),
                     er_Code = code, er_Message = message, er_ExecErr = err\<rparr>
           | _ \<Rightarrow> None))"

lemma result_encoding: "encoding (\<lambda>r. Some (enc_result r)) dec_result"
proof -
  have "dec_result (enc_result r) = Some r" for r
    unfolding enc_result_def dec_result_def dec_enc_int option.case prod.case dec_strs_whole
    by (cases r; cases "er_Response r") (auto split: option.split list.split)
  then show ?thesis by (simp add: encoding_def)
qed

definition enc_map :: "(string \<rightharpoonup> string) option \<Rightarrow> string" where
  "enc_map x =
     (case x of
        None \<Rightarrow> ''''
      | Some m \<Rightarrow> enc_strs (enc_pairs (map (\<lambda>k. (k, the (m k))) (sorted_list_of_set (dom m)))))"

definition dec_map :: "string \<Rightarrow> (string \<rightharpoonup> string) option" where
  "dec_map s = map_option (\<lambda>(kvs, _). map_of (dec_pairs kvs)) (dec_strs (length s) s)"

lemma dec_enc_map: "\<forall>m. x = Some m \<longrightarrow> finite (dom m) \<Longrightarrow> dec_map (enc_map x) = x"
  by (cases x) (simp_all add: enc_map_def dec_map_def map_of_map_keys)

definition enc_request :: "coord_request \<Rightarrow> bytes" where
  "enc_request req = enc_strs [rq_ID req, rq_SequenceJSON req, enc_map (rq_State req), enc_map (rq_RespHeaders req)]"

definition dec_request :: "bytes \<Rightarrow> coord_request option" where
  "dec_request s =
     (case dec_strs (length s) s of
        Some ([u, j, st, hs], _) \<Rightarrow>
          Some \<lparr>rq_ID = u, rq_State = dec_map st, rq_RespHeaders = dec_map hs, rq_SequenceJSON = j\<rparr>
      | _ \<Rightarrow> None)"

lemma example_request_encoding: "request_encoding (\<lambda>req. Some (enc_request req)) dec_request"
proof -
  have "dec_request (enc_request req) = Some req" if "finite_request req" for req
    using that unfolding enc_request_def dec_request_def dec_strs_whole finite_request_def
    by (cases req) (simp add: dec_enc_map)
  then show ?thesis by (simp add: request_encoding_def)
qed

text \<open>
  E2 Core's node and two others, for the modules \<open>a\<close> and \<open>b\<close>, each connected to both others. A node's
  pods are the hub's, one to send results from and one to listen; E2 Core's dispatcher has the third.
\<close>

definition example_add :: "nat \<Rightarrow> string \<Rightarrow> string list \<Rightarrow> hub \<Rightarrow> hub" where
  "example_add c u ints h = the (hub_addConnection c u '''' ints h)"

definition example_hubs :: "string \<Rightarrow> hub" where
  "example_hubs n =
     (if n = ''home'' then example_add 1 ''y'' [''b''] (example_add 0 ''x'' [''a''] (initHub n '''' [] True False))
      else if n = ''x'' then example_add 3 ''y'' [''b''] (example_add 2 ''home'' [] (initHub n '''' [] True False))
      else example_add 5 ''x'' [''a''] (example_add 4 ''home'' [] (initHub n '''' [] True False)))"

definition example_cluster :: "(string \<Rightarrow> messageBus) \<Rightarrow> cluster" where
  "example_cluster buses =
     \<lparr>cl_nodes = {''home'', ''x'', ''y''},
      cl_ends = (\<lambda>c. [(''home'', ''x''), (''home'', ''y''), (''x'', ''home''), (''x'', ''y''), (''y'', ''home''), (''y'', ''x'')] ! c),
      cl_buses = buses, cl_hubs = example_hubs, cl_home = ''home'', cl_pod = 3,
      cl_job = (\<lambda>n. if n = ''x'' then ''a'' else ''b''), cl_listen = (\<lambda>_. 3), cl_answer = (\<lambda>_. 2),
      cl_wire = (\<lambda>m. Some (enc_message m)), cl_unwire = dec_message,
      cl_result = (\<lambda>r. Some (enc_result r)), cl_unresult = dec_result,
      cl_request = (\<lambda>req. Some (enc_request req)), cl_unrequest = dec_request,
      cl_steps = (\<lambda>ss. Some (enc_steps ss)), cl_unsteps = (\<lambda>s. dec_steps (length s) s), cl_runs = example_modules\<rparr>"

lemma bus_with_pods:
  "\<exists>b q1 q2 q. unused_bus 3 b \<and> pod_at b 1 = Some q1 \<and> (\<forall>m. wants q1 m) \<and> pod_at b 2 = Some q2
     \<and> pod_at b 3 = Some q \<and> (\<forall>m. wants q m = (msg_Type m = t))"
proof -
  from unused_bus_connect[OF unused_bus_new] obtain b1 where b1: "unused_bus 1 b1" "pod_at b1 1 = Some (newPod False)" by auto
  from unused_bus_connect[OF b1(1)] obtain b2 where b2: "unused_bus 2 b2" "pod_at b2 = (pod_at b1)(2 \<mapsto> newPod False)"
    by (auto simp: numeral_2_eq_2)
  from unused_bus_connect[OF b2(1)] obtain b3 where b3: "unused_bus 3 b3" "pod_at b3 = (pod_at b2)(3 \<mapsto> newPod False)"
    by (auto simp: numeral_3_eq_3 numeral_2_eq_2)
  have "pod_at b3 1 = Some (newPod False)" using b1(2) b2(2) b3(2) by simp
  from own_On(1)[OF b3(1) this] obtain b4 q1 where b4: "unused_bus 3 b4" "pod_at b4 = (pod_at b3)(1 \<mapsto> q1)" "\<forall>m. wants q1 m"
    by blast
  have "pod_at b4 3 = Some (newPod False)" using b3(2) b4(2) by simp
  from own_On(2)[OF b4(1) this, of t] obtain b q where b: "unused_bus 3 b" "pod_at b = (pod_at b4)(3 \<mapsto> q)"
    "\<forall>m. wants q m = (msg_Type m = t)" by blast
  have "pod_at b 1 = Some q1" "pod_at b 2 = Some (newPod False)" "pod_at b 3 = Some q" using b2(2) b3(2) b4(2) b(2) by simp_all
  with b(1,3) b4(3) show ?thesis by blast
qed

lemmas example_defs = example_cluster_def example_hubs_def example_add_def hub_addConnection_def initHub_def add_interest_def
  NewBalancer_def Balancer_Add_def NewSignaler_def PeerWithdrawn_def

lemma example_wired:
  "wired {''home'', ''x'', ''y''} (cl_ends (example_cluster buses)) (net_start buses example_hubs)"
  unfolding wired_def by (simp add: net_start_def example_defs)

lemma example_routes: "routes (example_cluster buses) {''a'', ''b''} (net_start buses example_hubs)"
  unfolding routes_def by (simp add: net_start_def linked_def sats_def balancer_inv_def example_defs)

lemma example_ready: "\<exists>buses. cluster_ready (example_cluster buses) {''a'', ''b''}"
proof -
  from bus_with_pods have "\<forall>t. \<exists>b. unused_bus 3 b \<and> (\<exists>q. pod_at b 1 = Some q \<and> (\<forall>m. wants q m)) \<and> (\<exists>q. pod_at b 2 = Some q)
    \<and> (\<exists>q. pod_at b 3 = Some q \<and> (\<forall>m. wants q m = (msg_Type m = t)))" by meson
  then obtain bus where bus: "\<And>t. unused_bus 3 (bus t)" "\<And>t. \<exists>q. pod_at (bus t) 1 = Some q \<and> (\<forall>m. wants q m)"
    "\<And>t. \<exists>q. pod_at (bus t) 2 = Some q" "\<And>t. \<exists>q. pod_at (bus t) 3 = Some q \<and> (\<forall>m. wants q m = (msg_Type m = t))" by metis
  let ?buses = "\<lambda>n. bus (if n = ''home'' then MsgTypeSuborbitalResult else if n = ''x'' then ''a'' else ''b'')"
  let ?cl = "example_cluster ?buses"
  have nodes: "cl_nodes ?cl = {''home'', ''x'', ''y''}" "cl_home ?cl = ''home''" "sats ?cl = {''x'', ''y''}"
    by (auto simp: example_cluster_def sats_def)
  have other: "cl_buses ?cl = ?buses" "cl_hubs ?cl = example_hubs" "cl_pod ?cl = 3" "cl_listen ?cl n = 3" "cl_answer ?cl n = 2"
    "cl_job ?cl n = (if n = ''x'' then ''a'' else ''b'')" for n by (simp_all add: example_cluster_def)
  have "hub_sent (example_hubs n) = []" for n by (simp add: example_defs)
  then have "mesh_ready (cl_nodes ?cl) (cl_ends ?cl) (cl_buses ?cl) (cl_hubs ?cl)"
    unfolding mesh_ready_def nodes other using bus(1,2) example_wired by blast
  moreover have "linked (cl_start ?cl) ''x'' ''home''" "linked (cl_start ?cl) ''y'' ''home''"
    by (simp_all add: linked_def net_start_def example_defs)
  moreover have "encoding (cl_wire ?cl) (cl_unwire ?cl)" "encoding (cl_result ?cl) (cl_unresult ?cl)"
    "request_encoding (cl_request ?cl) (cl_unrequest ?cl)" "encoding (cl_steps ?cl) (cl_unsteps ?cl)"
    using message_encoding result_encoding example_request_encoding example_encoding by (simp_all add: example_cluster_def)
  moreover have "routes ?cl {''a'', ''b''} (cl_start ?cl)" unfolding other by (rule example_routes)
  moreover have "''a'' \<noteq> MsgTypeSuborbitalResult" "''b'' \<noteq> MsgTypeSuborbitalResult" by (simp_all add: MsgTypeSuborbitalResult_def)
  ultimately have "cluster_ready ?cl {''a'', ''b''}"
    unfolding cluster_ready_def nodes other using bus(3,4) by (auto simp: other)
  then show ?thesis by blast
qed

lemma requests_answered_over_network_witness:
  "\<exists>buses f. (flow_step (example_cluster buses))\<^sup>*\<^sup>* (flow_start (example_cluster buses) [example_seq ''p'', example_seq ''q'']) f
    \<and> (\<forall>p \<in> {''p'', ''q''}. \<exists>seq'. me_done (fl_mesh f) p = Some (Inr None, seq'))"
proof -
  let ?seqs = "[example_seq ''p'', example_seq ''q'']"
  from example_ready obtain buses where ready: "cluster_ready (example_cluster buses) {''a'', ''b''}" by blast
  let ?cl = "example_cluster buses"
  have cl: "cl_steps ?cl = (\<lambda>ss. Some (enc_steps ss))" "cl_runs ?cl = example_modules" by (simp_all add: example_cluster_def)
  have d: "distinct (map ParentID ?seqs)" by (simp add: example_seq_single)
  have ok: "\<forall>seq \<in> set ?seqs. request_ok ?cl {''a'', ''b''} seq"
    using example_seq_single(1) by (auto simp: request_ok_def cl finite_request_def example_seq_def example_req_def example_steps_def)
  have answers: "\<exists>resp. cl_runs ?cl fqmn r = FnResponse resp" for fqmn r by (simp add: cl example_modules_def)
  from flows.descends_to_end[OF flow_start_good(1)[OF ready d ok]] obtain f where
    f: "(flow_step ?cl)\<^sup>*\<^sup>* (flow_start ?cl ?seqs) f" "\<forall>f'. \<not> flow_step ?cl f f'" by blast
  from requests_answered_over_network[OF ready d ok answers f(1)] f(2)
  have "\<forall>seq \<in> set ?seqs. \<exists>seq'. me_done (fl_mesh f) (ParentID seq) = Some (Inr None, seq')" by blast
  with f(1) show ?thesis by (auto simp: example_seq_single)
qed

end
