(* ===== verification/SourceServer.thy ===== *)
theory SourceServer
  imports Paths
begin

text \<open>
  The server of a bundle's contents to E2 Core's own nodes, \<open>e2core/sourceserver\<close>: its routes and what
  each answers. The source is the systemspec library's, given by its answers; values it hands out are
  of an unspecified type, as the handlers only pass them on.
\<close>

section \<open>The source\<close>

datatype source_error = ErrModuleNotFound | ErrAuthenticationFailed | OtherSourceError string

record 'v system_source =
  sy_State :: "source_error + 'v"
  sy_Overview :: "source_error + 'v"
  sy_TenantOverview :: "string \<Rightarrow> source_error + 'v"
  sy_GetModule :: "string \<Rightarrow> source_error + 'v"
  sy_Workflows :: "string \<Rightarrow> string \<Rightarrow> int \<Rightarrow> source_error + 'v"
  sy_Connections :: "string \<Rightarrow> string \<Rightarrow> int \<Rightarrow> source_error + 'v"
  sy_Authentication :: "string \<Rightarrow> string \<Rightarrow> int \<Rightarrow> source_error + 'v"
  sy_Capabilities :: "string \<Rightarrow> string \<Rightarrow> int \<Rightarrow> source_error + 'v"

section \<open>Handlers\<close>

text \<open>An answer is a status with a value, or an error's status.\<close>

datatype 'v answer = Json 'v | HTTPError int

definition or_500 :: "source_error + 'v \<Rightarrow> 'v answer" where
  "or_500 r = (case r of Inl _ \<Rightarrow> HTTPError 500 | Inr v \<Rightarrow> Json v)"

definition StateHandler :: "'v system_source \<Rightarrow> 'v answer" where
  "StateHandler src = or_500 (sy_State src)"

definition OverviewHandler :: "'v system_source \<Rightarrow> 'v answer" where
  "OverviewHandler src = or_500 (sy_Overview src)"

definition TenantOverviewHandler :: "'v system_source \<Rightarrow> string \<Rightarrow> 'v answer" where
  "TenantOverviewHandler src ident = or_500 (sy_TenantOverview src ident)"

definition GetModuleHandler :: "(string \<Rightarrow> string \<Rightarrow> string \<Rightarrow> string \<Rightarrow> string option) \<Rightarrow> 'v system_source \<Rightarrow>
    string \<Rightarrow> string \<Rightarrow> string \<Rightarrow> string \<Rightarrow> 'v answer" where
  "GetModuleHandler fromParts src ident ref namespace mod' =
     (case fromParts ident namespace mod' ref of
        None \<Rightarrow> HTTPError 500
      | Some fqmn \<Rightarrow>
          (case sy_GetModule src fqmn of
             Inl ErrModuleNotFound \<Rightarrow> HTTPError 404
           | Inl ErrAuthenticationFailed \<Rightarrow> HTTPError 401
           | Inl (OtherSourceError _) \<Rightarrow> HTTPError 500
           | Inr m \<Rightarrow> Json m))"

text \<open>The handlers that take a version: a version that is no number is the client's error.\<close>

definition versioned :: "(string \<Rightarrow> string \<Rightarrow> int \<Rightarrow> source_error + 'v) \<Rightarrow> string \<Rightarrow> string \<Rightarrow> string \<Rightarrow> 'v answer" where
  "versioned get ident namespace version =
     (case Atoi version of
        (v, ok) \<Rightarrow> if \<not> ok then HTTPError 400 else or_500 (get ident namespace v))"

definition WorkflowsHandler :: "'v system_source \<Rightarrow> string \<Rightarrow> string \<Rightarrow> string \<Rightarrow> 'v answer" where
  "WorkflowsHandler src = versioned (sy_Workflows src)"

definition ConnectionsHandler :: "'v system_source \<Rightarrow> string \<Rightarrow> string \<Rightarrow> string \<Rightarrow> 'v answer" where
  "ConnectionsHandler src = versioned (sy_Connections src)"

definition AuthenticationHandler :: "'v system_source \<Rightarrow> string \<Rightarrow> string \<Rightarrow> string \<Rightarrow> 'v answer" where
  "AuthenticationHandler src = versioned (sy_Authentication src)"

definition CapabilitiesHandler :: "'v system_source \<Rightarrow> string \<Rightarrow> string \<Rightarrow> string \<Rightarrow> 'v answer" where
  "CapabilitiesHandler src = versioned (sy_Capabilities src)"

section \<open>Routes\<close>

datatype route_handler =
    StateRoute | OverviewRoute | TenantRoute | ModuleRoute | WorkflowsRoute | ConnectionsRoute
  | AuthenticationRoute | CapabilitiesRoute

definition route_table :: "(string \<times> route_handler) list" where
  "route_table =
     [(''/state'', StateRoute), (''/overview'', OverviewRoute), (''/tenant/:ident'', TenantRoute),
      (''/module/:ident/:ref/:namespace/:mod'', ModuleRoute),
      (''/workflows/:ident/:namespace/:version'', WorkflowsRoute),
      (''/connections/:ident/:namespace/:version'', ConnectionsRoute),
      (''/authentication/:ident/:namespace/:version'', AuthenticationRoute),
      (''/capabilities/:ident/:namespace/:version'', CapabilitiesRoute)]"

text \<open>A group puts its prefix before the paths of its routes as they are.\<close>

definition group_routes :: "string \<Rightarrow> (string \<times> route_handler) list" where
  "group_routes pre = map (\<lambda>(path, h). (pre @ path, h)) route_table"

definition Routes :: "(string \<times> route_handler) list" where
  "Routes = group_routes ''/''"

definition Attach :: "string \<Rightarrow> string + (string \<times> route_handler) list" where
  "Attach pre =
     (let p = (if pre = '''' then ''/'' else pre)
      in if take 1 p \<noteq> ''/'' then Inl ''prefix must start with a / character'' else Inr (group_routes p))"

text \<open>A pattern's segments against a path's: a segment that begins with a colon takes any value.\<close>

fun match_segments :: "string list \<Rightarrow> string list \<Rightarrow> (string \<times> string) list option" where
  "match_segments [] [] = Some []"
| "match_segments (p # ps) (s # ss) =
     (if take 1 p = '':'' then map_option (\<lambda>m. (drop 1 p, s) # m) (match_segments ps ss)
      else if p = s then match_segments ps ss else None)"
| "match_segments _ _ = None"

fun find_route :: "(string \<times> route_handler) list \<Rightarrow> string \<Rightarrow> (route_handler \<times> (string \<times> string) list) option" where
  "find_route [] path = None"
| "find_route ((p, h) # rs) path =
     (case match_segments (split_on CHR ''/'' p) (split_on CHR ''/'' path) of
        Some params \<Rightarrow> Some (h, params)
      | None \<Rightarrow> find_route rs path)"

definition param :: "(string \<times> string) list \<Rightarrow> string \<Rightarrow> string" where
  "param ps name = (case map_of ps name of None \<Rightarrow> '''' | Some v \<Rightarrow> v)"

definition run_route :: "(string \<Rightarrow> string \<Rightarrow> string \<Rightarrow> string \<Rightarrow> string option) \<Rightarrow> 'v system_source \<Rightarrow>
    route_handler \<Rightarrow> (string \<times> string) list \<Rightarrow> 'v answer" where
  "run_route fromParts src h ps =
     (let ident = param ps ''ident''; namespace = param ps ''namespace''; version = param ps ''version''
      in case h of
           StateRoute \<Rightarrow> StateHandler src
         | OverviewRoute \<Rightarrow> OverviewHandler src
         | TenantRoute \<Rightarrow> TenantOverviewHandler src ident
         | ModuleRoute \<Rightarrow> GetModuleHandler fromParts src ident (param ps ''ref'') namespace (param ps ''mod'')
         | WorkflowsRoute \<Rightarrow> WorkflowsHandler src ident namespace version
         | ConnectionsRoute \<Rightarrow> ConnectionsHandler src ident namespace version
         | AuthenticationRoute \<Rightarrow> AuthenticationHandler src ident namespace version
         | CapabilitiesRoute \<Rightarrow> CapabilitiesHandler src ident namespace version)"

definition source_get :: "(string \<Rightarrow> string \<Rightarrow> string \<Rightarrow> string \<Rightarrow> string option) \<Rightarrow> 'v system_source \<Rightarrow>
    (string \<times> route_handler) list \<Rightarrow> string \<Rightarrow> 'v answer" where
  "source_get fromParts src routes path =
     (case find_route routes path of None \<Rightarrow> HTTPError 404 | Some (h, ps) \<Rightarrow> run_route fromParts src h ps)"

text \<open>The start of the server from a bundle, which may fail to open, under the prefix the nodes use.\<close>

definition FromBundle :: "string option \<Rightarrow> string + (string \<times> route_handler) list" where
  "FromBundle start_error =
     (case start_error of
        Some e \<Rightarrow> Inl (''failed to Start bundle source: '' @ e)
      | None \<Rightarrow> (case Attach ''/system/v1'' of
                   Inl e \<Rightarrow> Inl (''es.Attach with /system/v1 prefix: '' @ e) | Inr rs \<Rightarrow> Inr rs))"

section \<open>Properties\<close>

lemma split_on_segment: "CHR ''/'' \<notin> set w \<Longrightarrow> split_on CHR ''/'' (w @ CHR ''/'' # r) = w # split_on CHR ''/'' r"
  by (induction w) auto

lemma split_on_single: "c \<notin> set w \<Longrightarrow> split_on c w = [w]"
  by (induction w) auto

lemma table_system: "FromBundle None = Inr (group_routes ''/system/v1'')"
  by (simp add: FromBundle_def Attach_def)

text \<open>
  A node asks the source server for a module by the four parts of its name, none of which contains a
  slash: the source is asked for the module of exactly these parts, and the answer is the module, 404 when
  there is none, 401 when the source refuses, and 500 for any other error and for parts that make no name.
\<close>

theorem module_request_answered:
  assumes "CHR ''/'' \<notin> set ident" "CHR ''/'' \<notin> set ref" "CHR ''/'' \<notin> set namespace" "CHR ''/'' \<notin> set mod'"
    and "FromBundle None = Inr routes"
  shows "source_get fromParts src routes
      (''/system/v1/module/'' @ ident @ ''/'' @ ref @ ''/'' @ namespace @ ''/'' @ mod') =
    (case fromParts ident namespace mod' ref of
       None \<Rightarrow> HTTPError 500
     | Some fqmn \<Rightarrow>
         (case sy_GetModule src fqmn of
            Inr m \<Rightarrow> Json m
          | Inl e \<Rightarrow> HTTPError (if e = ErrModuleNotFound then 404 else if e = ErrAuthenticationFailed then 401 else 500)))"
proof -
  have s: "split_on CHR ''/'' (''/system/v1/module/'' @ ident @ ''/'' @ ref @ ''/'' @ namespace @ ''/'' @ mod')
      = [[], ''system'', ''v1'', ''module'', ident, ref, namespace, mod']"
    using assms(1-4) by (simp add: split_on_segment split_on_single)
  have r: "routes = group_routes ''/system/v1''" using assms(5) table_system by simp
  have "find_route routes (''/system/v1/module/'' @ ident @ ''/'' @ ref @ ''/'' @ namespace @ ''/'' @ mod')
      = Some (ModuleRoute, [(''ident'', ident), (''ref'', ref), (''namespace'', namespace), (''mod'', mod')])"
    unfolding r group_routes_def route_table_def by (simp only: list.map prod.case find_route.simps s) simp
  then show ?thesis
    by (simp add: source_get_def run_route_def param_def GetModuleHandler_def split: option.split sum.split source_error.split)
qed

definition example_source :: "string system_source" where
  "example_source = \<lparr>sy_State = Inr ''1'', sy_Overview = Inr ''o'', sy_TenantOverview = (\<lambda>_. Inr ''t''),
     sy_GetModule = (\<lambda>f. if f = ''a/c/d/b'' then Inr ''wasm'' else Inl ErrModuleNotFound),
     sy_Workflows = (\<lambda>_ _ _. Inr ''w''), sy_Connections = (\<lambda>_ _ _. Inr ''c''),
     sy_Authentication = (\<lambda>_ _ _. Inr ''a''), sy_Capabilities = (\<lambda>_ _ _. Inr ''p'')\<rparr>"

definition example_parts :: "string \<Rightarrow> string \<Rightarrow> string \<Rightarrow> string \<Rightarrow> string option" where
  "example_parts t n m r = Some (t @ ''/'' @ n @ ''/'' @ m @ ''/'' @ r)"

lemma module_request_answered_witness:
  "source_get example_parts example_source (group_routes ''/system/v1'') ''/system/v1/module/a/b/c/d'' = Json ''wasm''"
  using module_request_answered[of "''a''" "''b''" "''c''" "''d''" "group_routes ''/system/v1''" example_parts example_source]
  by (simp add: table_system example_parts_def example_source_def)

text \<open>A version that is no number is answered as the client's error, whatever the source has.\<close>

lemma bad_version: "snd (Atoi version) = False \<Longrightarrow> WorkflowsHandler src ident namespace version = HTTPError 400"
  by (cases "Atoi version") (simp add: WorkflowsHandler_def versioned_def)

text \<open>Under an empty prefix the routes have two slashes, and the documented paths are not found.\<close>

lemma empty_prefix_unreachable:
  "Attach '''' = Inr rs \<Longrightarrow> source_get fromParts src rs ''/state'' = HTTPError 404"
  by (auto simp: Attach_def group_routes_def route_table_def source_get_def)

end
