(* ===== verification/Signaler.thy ===== *)
theory Signaler
  imports Prelude
begin

text \<open>
  Background tasks under one signal, \<open>foundation/signaler/signaler.go\<close>: the tasks, the goroutine that
  waits for a signal, the one that waits for the group of tasks, and a call of \<open>Wait\<close>, interleaved. A
  task that failed has left the group before it hands its error to an unbuffered channel.
\<close>

section \<open>State and steps\<close>

datatype sg_task = TaskRunning | TaskFailing string | TaskOver

datatype sg_signal = NoSignal | SignalSeen | ShutdownSent

datatype sg_wait = NotWaiting | WaitSelect | WaitGrace | WaitOver "string option"

record signaler_sys =
  gs_tasks :: "sg_task list"
  gs_errors :: "string list"
  gs_cancelled :: bool
  gs_signal :: sg_signal
  gs_done :: bool
  gs_wait :: sg_wait

definition Setup :: signaler_sys where
  "Setup = \<lparr>gs_tasks = [], gs_errors = [], gs_cancelled = False, gs_signal = NoSignal, gs_done = False,
     gs_wait = NotWaiting\<rparr>"

definition Start_task :: "signaler_sys \<Rightarrow> signaler_sys" where
  "Start_task s = s\<lparr>gs_tasks := gs_tasks s @ [TaskRunning]\<rparr>"

definition Wait_call :: "signaler_sys \<Rightarrow> signaler_sys" where
  "Wait_call s = s\<lparr>gs_wait := WaitSelect\<rparr>"

inductive signaler_step :: "signaler_sys \<Rightarrow> signaler_sys \<Rightarrow> bool" where
  start: "gs_wait s = NotWaiting \<Longrightarrow> signaler_step s (Start_task s)"
| wait_call: "gs_wait s = NotWaiting \<Longrightarrow> signaler_step s (Wait_call s)"
| task_ends: "gs_tasks s = as @ TaskRunning # bs \<Longrightarrow> signaler_step s (s\<lparr>gs_tasks := as @ TaskOver # bs\<rparr>)"
| task_fails: "gs_tasks s = as @ TaskRunning # bs \<Longrightarrow>
    signaler_step s (s\<lparr>gs_tasks := as @ TaskFailing e # bs, gs_errors := e # gs_errors s\<rparr>)"
| signal: "gs_signal s = NoSignal \<Longrightarrow> signaler_step s (s\<lparr>gs_signal := SignalSeen, gs_cancelled := True\<rparr>)"
| group_done: "gs_wait s \<noteq> NotWaiting \<Longrightarrow> TaskRunning \<notin> set (gs_tasks s) \<Longrightarrow> signaler_step s (s\<lparr>gs_done := True\<rparr>)"
| take_done: "gs_wait s = WaitSelect \<or> gs_wait s = WaitGrace \<Longrightarrow> gs_done s \<Longrightarrow>
    signaler_step s (s\<lparr>gs_wait := WaitOver None\<rparr>)"
| take_shutdown: "gs_wait s = WaitSelect \<Longrightarrow> gs_signal s = SignalSeen \<Longrightarrow>
    signaler_step s (s\<lparr>gs_wait := WaitGrace, gs_signal := ShutdownSent\<rparr>)"
| grace_over: "gs_wait s = WaitGrace \<Longrightarrow> signaler_step s (s\<lparr>gs_wait := WaitOver None\<rparr>)"
| take_error: "gs_wait s = WaitSelect \<Longrightarrow> gs_tasks s = as @ TaskFailing e # bs \<Longrightarrow>
    signaler_step s (s\<lparr>gs_tasks := as @ TaskOver # bs, gs_wait := WaitOver (Some e)\<rparr>)"

text \<open>\<open>ManualShutdown\<close> puts a signal into the channel of the first goroutine and waits.\<close>

definition ManualShutdown :: "signaler_sys \<Rightarrow> signaler_sys" where
  "ManualShutdown s =
     Wait_call (if gs_signal s = NoSignal then s\<lparr>gs_signal := SignalSeen, gs_cancelled := True\<rparr> else s)"

section \<open>What a wait answers\<close>

definition signaler_inv :: "signaler_sys \<Rightarrow> bool" where
  "signaler_inv s \<longleftrightarrow>
     (\<forall>e. TaskFailing e \<in> set (gs_tasks s) \<longrightarrow> e \<in> set (gs_errors s))
     \<and> (gs_done s \<longrightarrow> TaskRunning \<notin> set (gs_tasks s) \<and> gs_wait s \<noteq> NotWaiting)
     \<and> (gs_signal s \<noteq> NoSignal \<longleftrightarrow> gs_cancelled s)
     \<and> (gs_wait s = WaitGrace \<longrightarrow> gs_cancelled s)
     \<and> (case gs_wait s of
          WaitOver None \<Rightarrow> TaskRunning \<notin> set (gs_tasks s) \<or> gs_cancelled s
        | WaitOver (Some e) \<Rightarrow> e \<in> set (gs_errors s)
        | _ \<Rightarrow> True)"

lemma signaler_inv_step: "signaler_step s t \<Longrightarrow> signaler_inv s \<Longrightarrow> signaler_inv t"
  by (induction rule: signaler_step.induct)
    (auto simp: signaler_inv_def Start_task_def Wait_call_def split: sg_wait.splits option.splits)

interpretation sigs: step_system signaler_step signaler_inv
  by unfold_locales (rule signaler_inv_step)

lemma signaler_inv_reach: "signaler_step\<^sup>*\<^sup>* Setup s \<Longrightarrow> signaler_inv s"
  by (erule sigs.inv_reach) (simp add: signaler_inv_def Setup_def)

text \<open>
  What \<open>Wait\<close> answers, however tasks, signal and wait interleave: an error is one that a task ended
  with; no error means that every task has ended or that a signal has cancelled their context.
\<close>

theorem signaler_wait_answer:
  assumes "signaler_step\<^sup>*\<^sup>* Setup s" "gs_wait s = WaitOver r"
  shows "case r of None \<Rightarrow> TaskRunning \<notin> set (gs_tasks s) \<or> gs_cancelled s | Some e \<Rightarrow> e \<in> set (gs_errors s)"
  using signaler_inv_reach[OF assms(1)] assms(2) by (simp add: signaler_inv_def split: option.splits)

text \<open>A run in which the only task fails and the wait answers no error: the error is lost.\<close>

lemma error_lost_run:
  "signaler_step\<^sup>*\<^sup>* Setup \<lparr>gs_tasks = [TaskFailing e], gs_errors = [e], gs_cancelled = False, gs_signal = NoSignal,
     gs_done = True, gs_wait = WaitOver None\<rparr>"
proof -
  let ?s1 = "Start_task Setup"
  let ?s2 = "Wait_call ?s1"
  let ?s3 = "?s2\<lparr>gs_tasks := [] @ TaskFailing e # [], gs_errors := e # gs_errors ?s2\<rparr>"
  let ?s4 = "?s3\<lparr>gs_done := True\<rparr>"
  let ?s5 = "?s4\<lparr>gs_wait := WaitOver None\<rparr>"
  have "signaler_step Setup ?s1" by (rule start) (simp add: Setup_def)
  moreover have "signaler_step ?s1 ?s2" by (rule wait_call) (simp add: Setup_def Start_task_def)
  moreover have "signaler_step ?s2 ?s3"
    by (rule task_fails) (simp add: Setup_def Start_task_def Wait_call_def)
  moreover have "signaler_step ?s3 ?s4" by (rule group_done) (simp_all add: Wait_call_def Start_task_def Setup_def)
  moreover have "signaler_step ?s4 ?s5" by (rule take_done) (simp_all add: Wait_call_def)
  ultimately have "signaler_step\<^sup>*\<^sup>* Setup ?s5" by (meson converse_rtranclp_into_rtranclp rtranclp.rtrancl_refl)
  then show ?thesis by (simp add: Setup_def Start_task_def Wait_call_def)
qed

lemma signaler_wait_answer_witness:
  "case None :: string option of None \<Rightarrow> TaskRunning \<notin> set [TaskFailing ''e''] \<or> False | Some e \<Rightarrow> e \<in> set [''e'']"
  using signaler_wait_answer[OF error_lost_run[of "''e''"], of None] by simp

end
