(* ===== verification/JobRun.thy ===== *)
theory JobRun
  imports Core
begin

text \<open>
  One turn of a work thread with a job (\<open>foundation/scheduler/workthread.go\<close>), with the time-out of its
  worker, and jobs started by messages (\<open>ListenAndRun\<close> of \<open>scheduler.go\<close>).
\<close>

section \<open>A turn of a thread\<close>

definition ErrJobTimeout :: string where
  "ErrJobTimeout = ''job timeout''"

text \<open>
  A run of a job returns in time, or the timer fires first and the run returns later or never; when both
  are there the \<open>select\<close> takes either.
\<close>

datatype run_end = Returns "any_data \<times> string option" | Overruns "(any_data \<times> string option) option"

text \<open>
  The outcome the thread reports, and the goroutines left behind for good: after a time-out nobody takes
  what the run sends on its unbuffered channels, so its goroutine stays when it returns, and while it
  does not.
\<close>

definition runWithTimeout :: "run_end \<Rightarrow> (any_data \<times> string option) \<times> nat" where
  "runWithTimeout ev =
     (case ev of
        Returns (d, None) \<Rightarrow> ((d, None), 0)
      | Returns (d, Some e) \<Rightarrow> ((DNil, Some e), 0)
      | Overruns _ \<Rightarrow> ((DNil, Some ErrJobTimeout), 1))"

text \<open>Without a time-out the thread itself runs the job, and waits as long as that takes.\<close>

definition run_job :: "int \<Rightarrow> run_end \<Rightarrow> ((any_data \<times> string option) \<times> nat) option" where
  "run_job timeoutSeconds ev =
     (if timeoutSeconds = 0 then
        (case ev of
           Returns out \<Rightarrow> Some (out, 0)
         | Overruns (Some out) \<Rightarrow> Some (out, 0)
         | Overruns None \<Rightarrow> None)
      else Some (runWithTimeout ev))"

definition thread_turn :: "int \<Rightarrow> nat \<times> run_end \<Rightarrow> results \<times> nat \<Rightarrow> (results \<times> nat) option" where
  "thread_turn timeoutSeconds job_run s =
     (case run_job timeoutSeconds (snd job_run) of
        None \<Rightarrow> None
      | Some (out, leaked) \<Rightarrow> map_option (\<lambda>rs. (rs, snd s + leaked)) (thread_report (fst job_run) out (fst s)))"

fun thread_turns :: "int \<Rightarrow> (nat \<times> run_end) list \<Rightarrow> results \<times> nat \<Rightarrow> (results \<times> nat) option" where
  "thread_turns timeoutSeconds [] s = Some s"
| "thread_turns timeoutSeconds (j # js) s = Option.bind (thread_turn timeoutSeconds j s) (thread_turns timeoutSeconds js)"

section \<open>Jobs of messages\<close>

text \<open>A message's data becomes a job of the message's type; the callback waits for its result.\<close>

definition ListenAndRun_job :: "string \<Rightarrow> string \<Rightarrow> message \<Rightarrow> core \<Rightarrow> (nat \<times> core) option" where
  "ListenAndRun_job uuid msgType msg c = Scheduler_Do (NewJob uuid msgType (DBytes (msg_Data msg))) c"

definition ListenAndRun_answer :: "(message \<Rightarrow> any_data \<Rightarrow> string option \<Rightarrow> 'a) \<Rightarrow> bool \<Rightarrow> message \<Rightarrow> nat \<Rightarrow> results \<Rightarrow> ('a \<times> results) option" where
  "ListenAndRun_answer run pick msg p rs =
     map_option (\<lambda>((d, e), rs'). (run msg d e, rs')) (Result_Then pick p rs)"

definition ListenAndRun :: "string \<Rightarrow> pod \<Rightarrow> pod prog" where
  "ListenAndRun msgType p = Pod_OnType msgType (Some (\<lambda>_. None)) p"

section \<open>Lemmas\<close>

fun overran :: "run_end \<Rightarrow> bool" where
  "overran (Returns out) = False"
| "overran (Overruns r) = True"

text \<open>What a job's result has to say: how its run ended, or that it overran.\<close>

fun turn_outcome :: "run_end \<Rightarrow> any_data \<times> string option" where
  "turn_outcome (Returns out) = out"
| "turn_outcome (Overruns r) = (DNil, Some ErrJobTimeout)"

fun ends_plain :: "run_end \<Rightarrow> bool" where
  "ends_plain (Returns (d, e)) = plain_data d"
| "ends_plain (Overruns r) = True"

lemma thread_turn_timeout:
  assumes "timeoutSeconds \<noteq> 0" "pending p (fst s)" "ends_plain ev"
  shows "thread_turn timeoutSeconds (p, ev) s =
    Some (set_result p (reported (turn_outcome ev) (rs_heap (fst s) ! p)) (fst s), snd s + (if overran ev then 1 else 0))"
proof -
  have "plain_data (fst (turn_outcome ev))"
    using assms(3) by (cases ev rule: ends_plain.cases) auto
  then have "thread_report p (turn_outcome ev) (fst s)
      = Some (set_result p (reported (turn_outcome ev) (rs_heap (fst s) ! p)) (fst s))"
    using report_plain[OF assms(2)] by (cases "turn_outcome ev") simp
  moreover have "thread_report p (fst (runWithTimeout ev)) (fst s) = thread_report p (turn_outcome ev) (fst s)"
    by (cases ev rule: ends_plain.cases) (auto simp: runWithTimeout_def thread_report_def split: option.split)
  moreover have "snd (runWithTimeout ev) = (if overran ev then 1 else 0)"
    by (cases ev rule: overran.cases) (auto simp: runWithTimeout_def split: prod.split option.split)
  ultimately show ?thesis
    using assms(1) by (cases "runWithTimeout ev") (simp add: thread_turn_def run_job_def)
qed

lemma pending_other: "pending q rs \<Longrightarrow> q \<noteq> p \<Longrightarrow> pending q (set_result p r rs)"
  by (simp add: pending_def)


definition example_results :: results where
  "example_results = \<lparr>rs_heap = [newResult ''a'', newResult ''b'', newResult ''c''], rs_groups = [], rs_forwards = []\<rparr>"


text \<open>A job that never returns stops a thread without a time-out.\<close>

lemma endless_job_stops_thread: "thread_turns 0 ((p, Overruns None) # jobs) s = None"
  by (simp add: thread_turn_def run_job_def)

text \<open>A message for which no worker is registered is still run through, with the error.\<close>

lemma unregistered_message_answered:
  assumes "\<not> IsRegistered msgType c"
  shows "\<exists>p c' rs'. ListenAndRun_job uuid msgType msg c = Some (p, c')
    \<and> ListenAndRun_answer run True msg p (co_results c')
        = Some (run msg DNil (Some (''failed to getWorker for jobType '' @ msgType)), rs')"
proof -
  from Core_do_unregistered[of "NewJob uuid msgType (DBytes (msg_Data msg))" c] assms obtain p c' where
    "Core_do (NewJob uuid msgType (DBytes (msg_Data msg))) c = Some (p, c')"
    "map_option fst (Result_Then True p (co_results c')) = Some (DNil, Some (''failed to getWorker for jobType '' @ msgType))"
    by (auto simp: NewJob_def)
  then show ?thesis
    by (auto simp: ListenAndRun_job_def Scheduler_Do_def ListenAndRun_answer_def)
qed

end
