(* ===== verification/Common.thy ===== *)
theory Common
  imports Prelude
begin

text \<open>
  The small shared types of \<open>foundation/common\<close>: errors with their kinds (\<open>error.go\<close>), references that are
  read and written atomically (\<open>atomic.go\<close>) and clocks (\<open>clock.go\<close>).
\<close>

section \<open>Errors\<close>

text \<open>The kinds, an error of another origin, and an error wrapped with a detail.\<close>

datatype go_error =
    ErrAccess | ErrExists | ErrNotExists | ErrCanceled | ErrInvalid | ErrLimit
  | OtherError string
  | Wrapped go_error string

definition Error :: "go_error option \<Rightarrow> string \<Rightarrow> go_error option" where
  "Error err detail = (case err of None \<Rightarrow> None | Some e \<Rightarrow> Some (Wrapped e detail))"

definition AuthorizationError :: "string \<Rightarrow> go_error option" where
  "AuthorizationError detail = Error (Some ErrAccess) detail"

definition DuplicateEntryError :: "string \<Rightarrow> go_error option" where
  "DuplicateEntryError detail = Error (Some ErrExists) detail"

definition DoesNotExistError :: "string \<Rightarrow> go_error option" where
  "DoesNotExistError detail = Error (Some ErrNotExists) detail"

definition InvalidArgument :: "string \<Rightarrow> go_error option" where
  "InvalidArgument detail = Error (Some ErrInvalid) detail"

definition TooManyRequests :: "string \<Rightarrow> go_error option" where
  "TooManyRequests detail = Error (Some ErrLimit) detail"

text \<open>\<open>errors.Is\<close> for a target that wraps nothing: the error or one it wraps is the target.\<close>

fun errors_Is :: "go_error \<Rightarrow> go_error \<Rightarrow> bool" where
  "errors_Is (Wrapped e detail) target = errors_Is e target"
| "errors_Is e target = (e = target)"

definition IsError :: "go_error option \<Rightarrow> go_error option \<Rightarrow> bool" where
  "IsError err target =
     (if err = None \<and> target \<noteq> None then False
      else case (err, target) of
             (Some e, Some t) \<Rightarrow> errors_Is e t
           | (e, t) \<Rightarrow> e = None \<and> t = None)"

text \<open>A value, or the panic with the error wrapped.\<close>

definition Must :: "go_error option \<Rightarrow> go_error + unit" where
  "Must err = (case err of None \<Rightarrow> Inr () | Some e \<Rightarrow> Inl (Wrapped e ''Error must not be raised''))"

definition MustReturn :: "'a \<Rightarrow> go_error option \<Rightarrow> go_error + 'a" where
  "MustReturn value err = (case err of None \<Rightarrow> Inr value | Some e \<Rightarrow> Inl (Wrapped e ''Error must not be raised''))"

lemmas error_constructors = AuthorizationError_def DuplicateEntryError_def DoesNotExistError_def
  InvalidArgument_def TooManyRequests_def

text \<open>However often an error is wrapped, it keeps its kind and gets no other.\<close>

lemma Error_fold: "fold (\<lambda>d err. Error err d) ds (Some e) = Some (fold (\<lambda>d e. Wrapped e d) ds e)"
  by (induction ds arbitrary: e) (simp_all add: Error_def)

lemma errors_Is_fold [simp]: "errors_Is (fold (\<lambda>d e. Wrapped e d) ds e) t = errors_Is e t"
  by (induction ds arbitrary: e) simp_all

lemma IsError_wrapped: "IsError (fold (\<lambda>d err. Error err d) ds (Some e)) (Some t) = IsError (Some e) (Some t)"
  by (simp add: Error_fold IsError_def)

lemma kinds_told_apart:
  "IsError (fold (\<lambda>d err. Error err d) ds (AuthorizationError d0)) (Some t) \<longleftrightarrow> t = ErrAccess"
  by (cases t) (simp_all add: error_constructors Error_def[of _ d0] Error_fold IsError_def)

section \<open>References and clocks\<close>

text \<open>A reference that was not made by its constructor holds nothing, and reading it panics.\<close>

record 'a atomic_reference =
  ar_value :: "'a option"

definition NewAtomicReference :: "'a \<Rightarrow> 'a atomic_reference" where
  "NewAtomicReference init = \<lparr>ar_value = Some init\<rparr>"

definition ar_Load :: "'a atomic_reference \<Rightarrow> 'a go" where
  "ar_Load ref = (case ar_value ref of None \<Rightarrow> Inl TypeAssertion | Some v \<Rightarrow> Inr v)"

definition ar_Store :: "'a \<Rightarrow> 'a atomic_reference \<Rightarrow> 'a atomic_reference" where
  "ar_Store v ref = ref\<lparr>ar_value := Some v\<rparr>"

definition ar_Swap :: "'a \<Rightarrow> 'a atomic_reference \<Rightarrow> ('a \<times> 'a atomic_reference) go" where
  "ar_Swap v ref = (case ar_value ref of None \<Rightarrow> Inl TypeAssertion | Some old \<Rightarrow> Inr (old, ref\<lparr>ar_value := Some v\<rparr>))"

text \<open>Times and durations are nanoseconds.\<close>

definition system_Now :: "int \<Rightarrow> int" where
  "system_Now now = now"

definition system_In :: "int \<Rightarrow> int \<Rightarrow> int" where
  "system_In duration now = now + duration"

record stable_clock =
  sk_epoch :: "int atomic_reference"

definition StableTime :: "int \<Rightarrow> stable_clock" where
  "StableTime epoch = \<lparr>sk_epoch = NewAtomicReference epoch\<rparr>"

definition sk_Now :: "stable_clock \<Rightarrow> int go" where
  "sk_Now c = ar_Load (sk_epoch c)"

definition sk_In :: "int \<Rightarrow> stable_clock \<Rightarrow> int go" where
  "sk_In duration c = go_bind (ar_Load (sk_epoch c)) (\<lambda>t. Inr (t + duration))"

text \<open>\<open>Tick\<close> reads the time and then swaps the new one in: two steps, between which another may tick.\<close>

definition tick_load :: "stable_clock \<Rightarrow> int go" where
  "tick_load c = ar_Load (sk_epoch c)"

definition tick_swap :: "int \<Rightarrow> int \<Rightarrow> stable_clock \<Rightarrow> stable_clock go" where
  "tick_swap duration t c = go_bind (ar_Swap (t + duration) (sk_epoch c)) (\<lambda>(old, r). Inr (c\<lparr>sk_epoch := r\<rparr>))"

definition sk_Tick :: "int \<Rightarrow> stable_clock \<Rightarrow> stable_clock go" where
  "sk_Tick duration c = go_bind (tick_load c) (\<lambda>t. tick_swap duration t c)"

lemmas clock_defs = StableTime_def NewAtomicReference_def sk_Now_def sk_In_def sk_Tick_def tick_load_def tick_swap_def
  ar_Load_def ar_Swap_def

lemma ticks_add_up:
  "\<exists>c'. fold (\<lambda>d c. go_bind c (sk_Tick d)) ds (Inr (StableTime t)) = Inr c' \<and> sk_Now c' = Inr (t + sum_list ds)"
proof -
  have "fold (\<lambda>d c. go_bind c (sk_Tick d)) ds (Inr (StableTime t)) = Inr (StableTime (t + sum_list ds))"
    by (induction ds arbitrary: t) (simp_all add: clock_defs algebra_simps)
  then show ?thesis by (simp add: clock_defs)
qed

text \<open>Two ticks that read before either writes count as one.\<close>

lemma concurrent_ticks_lose_one:
  "\<exists>c1 c2. tick_load (StableTime t) = Inr t \<and> tick_swap d t (StableTime t) = Inr c1 \<and> tick_swap d t c1 = Inr c2
     \<and> sk_Now c2 = Inr (t + d)"
  by (simp add: clock_defs)

end
