(* ===== verification/Recovery.thy ===== *)
theory Recovery
  imports Websocket
begin

text \<open>
  Failed connections and their recovery: the scan of \<open>foundation/bus/bus/hub.go\<close> takes failed and
  withdrawn peers out of a hub, and discovery brings a peer that answers again back in.
\<close>

section \<open>What the scan takes out\<close>

definition failed_peer :: "hub \<Rightarrow> string \<Rightarrow> bool" where
  "failed_peer h u \<longleftrightarrow>
     (case hub_meshConnections h u of
        None \<Rightarrow> False | Some ch \<Rightarrow> ch_ErrChan ch \<noteq> [] \<or> PeerWithdrawn (ch_Signaler ch))"

text \<open>No broadcast is waiting to report an error, so nobody holds the hub's lock.\<close>

definition quiet :: "hub \<Rightarrow> bool" where
  "quiet h \<longleftrightarrow> hub_readers h = 0
     \<and> (\<forall>u ch m us. hub_meshConnections h u = Some ch \<longrightarrow> FromMessage m us \<notin> set (ch_ErrChan ch))"

text \<open>The same peers and node, their reports and signals apart.\<close>

definition same_peers :: "hub \<Rightarrow> hub \<Rightarrow> bool" where
  "same_peers h h' \<longleftrightarrow> hub_nodeUUID h' = hub_nodeUUID h \<and> hub_belongsTo h' = hub_belongsTo h
     \<and> hub_interests h' = hub_interests h \<and> hub_hasMesh h' = hub_hasMesh h \<and> hub_readers h' = hub_readers h
     \<and> hub_sent h' = hub_sent h
     \<and> (\<forall>v. rel_option (\<lambda>c c'. ch_UUID c' = ch_UUID c \<and> ch_Conn c' = ch_Conn c \<and> ch_Interests c' = ch_Interests c)
              (hub_meshConnections h v) (hub_meshConnections h' v))"

lemma same_peers_refl [simp]: "same_peers h h"
  by (simp add: same_peers_def option.rel_refl)

lemma same_peers_trans: "same_peers h h' \<Longrightarrow> same_peers h' h'' \<Longrightarrow> same_peers h h''"
proof -
  assume a: "same_peers h h'" and b: "same_peers h' h''"
  let ?R = "\<lambda>c c'. ch_UUID c' = ch_UUID c \<and> ch_Conn c' = ch_Conn c \<and> ch_Interests c' = ch_Interests c"
  have "rel_option ?R (hub_meshConnections h v) (hub_meshConnections h'' v)" for v
  proof -
    have "rel_option ?R (hub_meshConnections h v) (hub_meshConnections h' v)"
      "rel_option ?R (hub_meshConnections h' v) (hub_meshConnections h'' v)"
      using a b by (simp_all add: same_peers_def)
    then show ?thesis
      by (cases "hub_meshConnections h v"; cases "hub_meshConnections h' v"; cases "hub_meshConnections h'' v") auto
  qed
  with a b show "same_peers h h''" by (simp add: same_peers_def)
qed

lemma same_peers_close [simp]: "same_peers h (close_handler ch h') = same_peers h h'"
  by (simp add: same_peers_def close_handler_def hub_close_def split: option.split)

lemma close_handler_mesh [simp]:
  "hub_meshConnections (close_handler ch h) = hub_meshConnections h" "hub_readers (close_handler ch h) = hub_readers h"
  by (simp_all add: close_handler_def hub_close_def split: option.split)

lemma scan_take_quiet:
  assumes "ch_ErrChan ch = w # q" "\<And>m us. w \<noteq> FromMessage m us"
  shows "\<exists>sg. scan_take ok u ch h = set_handler u (ch\<lparr>ch_ErrChan := q, ch_Signaler := sg\<rparr>) h"
proof -
  have id: "ch\<lparr>ch_ErrChan := q, ch_Signaler := ch_Signaler ch\<rparr> = ch\<lparr>ch_ErrChan := q\<rparr>" by simp
  show ?thesis
  proof (cases "Signaler_Done (ch_Signaler ch)")
    case None
    with assms id show ?thesis
      by (intro exI[of _ "ch_Signaler ch"]) (auto simp: scan_take_def Let_def split: err_sender.split)
  next
    case (Some sg)
    with assms id show ?thesis
      by (intro exI[of _ "if w = FromWithdraw then sg else ch_Signaler ch"])
        (auto simp: scan_take_def Let_def split: err_sender.split)
  qed
qed

lemma same_peers_set_handler:
  "hub_meshConnections h u = Some ch \<Longrightarrow> same_peers h (set_handler u (ch\<lparr>ch_ErrChan := q, ch_Signaler := sg\<rparr>) h)"
  by (simp add: same_peers_def set_handler_def option.rel_refl)

lemma scan_collect_quiet:
  assumes "distinct us" "hub_inv h" "quiet h"
  shows "\<exists>h'. scan_collect ok us h = (filter (failed_peer h) us, h') \<and> same_peers h h'"
  using assms
proof (induction us arbitrary: h)
  case (Cons u us)
  show ?case
  proof (cases "hub_meshConnections h u")
    case None
    with Cons show ?thesis by (simp add: failed_peer_def)
  next
    case (Some ch)
    have uuid: "ch_UUID ch = u" using Cons.prems(2) Some by (simp add: hub_inv_def)
    have d: "distinct us" "u \<notin> set us" using Cons.prems(1) by auto
    consider (err) w q where "ch_ErrChan ch = w # q" | (gone) "ch_ErrChan ch = []" "PeerWithdrawn (ch_Signaler ch)"
      | (fine) "ch_ErrChan ch = []" "\<not> PeerWithdrawn (ch_Signaler ch)" by (cases "ch_ErrChan ch") auto
    then show ?thesis
    proof cases
      case err
      have w: "\<And>m vs. w \<noteq> FromMessage m vs" "\<And>m vs. FromMessage m vs \<notin> set q"
        using Cons.prems(3) Some err by (fastforce simp: quiet_def)+
      from scan_take_quiet[OF err w(1)] obtain sg where
        t: "scan_take ok u ch h = set_handler u (ch\<lparr>ch_ErrChan := q, ch_Signaler := sg\<rparr>) h" by blast
      let ?h = "close_handler ch (set_handler u (ch\<lparr>ch_ErrChan := q, ch_Signaler := sg\<rparr>) h)"
      have i: "hub_inv ?h" using hub_inv_set_handler[OF Cons.prems(2) Some] by simp
      have s: "same_peers h ?h" using same_peers_set_handler[OF Some] by simp
      have k: "quiet ?h" using Cons.prems(3) w(2) by (auto simp: quiet_def set_handler_def)
      have "filter (failed_peer ?h) us = filter (failed_peer h) us"
        using d(2) by (intro filter_cong) (auto simp: failed_peer_def set_handler_def)
      with Cons.IH[OF d(1) i k] obtain h' where
        "scan_collect ok us ?h = (filter (failed_peer h) us, h')" "same_peers ?h h'" by auto
      moreover from this(2) s have "same_peers h h'" using same_peers_trans by blast
      moreover have "failed_peer h u" using Some err by (simp add: failed_peer_def)
      ultimately show ?thesis using Some err uuid t by simp
    next
      case gone
      let ?h = "close_handler ch h"
      have "hub_inv ?h" "quiet ?h" using Cons.prems by (simp_all add: quiet_def)
      moreover have "failed_peer ?h = failed_peer h" by (simp add: failed_peer_def fun_eq_iff)
      then have "filter (failed_peer ?h) us = filter (failed_peer h) us" by simp
      moreover have "same_peers h ?h" by simp
      ultimately obtain h' where "scan_collect ok us ?h = (filter (failed_peer h) us, h')" "same_peers ?h h'"
        using Cons.IH[OF d(1), of ?h] by auto
      moreover from this(2) \<open>same_peers h ?h\<close> have "same_peers h h'" using same_peers_trans by blast
      moreover have "failed_peer h u" using Some gone by (simp add: failed_peer_def)
      ultimately show ?thesis using Some gone uuid by simp
    next
      case fine
      then have "\<not> failed_peer h u" using Some by (simp add: failed_peer_def)
      with fine show ?thesis using Cons.IH[OF d(1) Cons.prems(2,3)] Some by simp
    qed
  qed
qed simp

lemma scan_remove_free:
  "hub_readers h = 0 \<Longrightarrow> \<exists>h'. scan_remove us h = Some h'
     \<and> hub_meshConnections h' = (\<lambda>v. if v \<in> set us then None else hub_meshConnections h v)
     \<and> hub_nodeUUID h' = hub_nodeUUID h \<and> hub_belongsTo h' = hub_belongsTo h \<and> hub_interests h' = hub_interests h
     \<and> hub_hasMesh h' = hub_hasMesh h \<and> hub_readers h' = 0 \<and> hub_sent h' = hub_sent h"
proof (induction us arbitrary: h)
  case (Cons u us)
  let ?h = "h\<lparr>hub_balancers := (\<lambda>cap. map_option (\<lambda>b. Balancer_Remove b u) (hub_balancers h cap)),
      hub_meshConnections := (hub_meshConnections h)(u := None)\<rparr>"
  have "removeMeshConnection u h = Some ?h" using Cons.prems by (simp add: removeMeshConnection_def)
  with Cons.IH[of ?h] Cons.prems show ?case by (auto simp: fun_eq_iff)
qed simp

text \<open>One scan of a quiet hub takes out exactly the failed peers, from the connections and the balancers.\<close>

lemma scan_quiet:
  assumes "hub_inv h" "quiet h" "distinct order" "set order = dom (hub_meshConnections h)"
  shows "\<exists>h1. scanFailedMeshConnections ok order h = Some h1 \<and> hub_inv h1 \<and> hub_readers h1 = 0
    \<and> hub_nodeUUID h1 = hub_nodeUUID h \<and> hub_hasMesh h1 = hub_hasMesh h
    \<and> (\<forall>v. connectionExists v h1 \<longleftrightarrow> connectionExists v h \<and> \<not> failed_peer h v)
    \<and> (\<forall>cap. hub_peers h1 cap = {v \<in> hub_peers h cap. \<not> failed_peer h v})"
proof -
  obtain h' where c: "scan_collect ok order h = (filter (failed_peer h) order, h')" "same_peers h h'"
    using scan_collect_quiet[OF assms(3,1,2)] by blast
  have i: "hub_inv h'" using hub_inv_scan_collect[OF assms(1) c(1)] .
  have r: "hub_readers h' = 0" using c(2) assms(2) by (simp add: same_peers_def quiet_def)
  from scan_remove_free[OF r, of "filter (failed_peer h) order"] obtain h1 where h1:
    "scan_remove (filter (failed_peer h) order) h' = Some h1"
    "hub_meshConnections h1 = (\<lambda>v. if v \<in> set (filter (failed_peer h) order) then None else hub_meshConnections h' v)"
    "hub_nodeUUID h1 = hub_nodeUUID h'" "hub_hasMesh h1 = hub_hasMesh h'" "hub_readers h1 = 0" by blast
  have in_order: "failed_peer h v \<Longrightarrow> v \<in> set order" for v
    using assms(4) by (auto simp: failed_peer_def split: option.split_asm)
  then have mesh: "hub_meshConnections h1 v = (if failed_peer h v then None else hub_meshConnections h' v)" for v
    using h1(2) by auto
  have same: "rel_option (\<lambda>c c'. ch_UUID c' = ch_UUID c \<and> ch_Conn c' = ch_Conn c \<and> ch_Interests c' = ch_Interests c)
      (hub_meshConnections h v) (hub_meshConnections h' v)" for v
    using c(2) by (simp add: same_peers_def)
  have "connectionExists v h1 \<longleftrightarrow> connectionExists v h \<and> \<not> failed_peer h v" for v
    using same[of v] mesh[of v]
    by (cases "hub_meshConnections h v"; cases "hub_meshConnections h' v") (auto simp: connectionExists_def)
  moreover have "v \<in> hub_peers h1 cap \<longleftrightarrow> v \<in> hub_peers h cap \<and> \<not> failed_peer h v" for v cap
    using same[of v] mesh[of v]
    by (cases "hub_meshConnections h v"; cases "hub_meshConnections h' v") (auto simp: hub_peers_def)
  ultimately show ?thesis
    using c h1 hub_inv_scan_remove[OF i h1(1)] by (auto simp: scanFailedMeshConnections_def same_peers_def)
qed

section \<open>Recovery\<close>

text \<open>
  C22: A failed peer comes back: in any reachable hub with no broadcast waiting, one scan takes exactly the
  failed and withdrawn peers out of the connections and of every capability's balancer and keeps the
  others; when discovery then reports one of them again and it answers the handshake, it is connected
  and listed for the interests it announces, and can be tunnelled to.
\<close>

theorem failed_peer_recovers:
  assumes "hub_step\<^sup>*\<^sup>* (initHub node bt ints mesh bridge) h" "quiet h"
    and "distinct order" "set order = dom (hub_meshConnections h)"
    and "failed_peer h u" "hub_nodeUUID h \<noteq> u" "hub_hasMesh h"
    and "connect endpoint = Inr conn" "\<And>hs. out conn hs = Inr ack" "ack_Accept ack" "ack_UUID ack = u"
  shows "\<exists>h1 h2. scanFailedMeshConnections ok order h = Some h1
    \<and> (\<forall>v. connectionExists v h1 \<longleftrightarrow> connectionExists v h \<and> \<not> failed_peer h v)
    \<and> (\<forall>cap. hub_peers h1 cap = {v \<in> hub_peers h cap. \<not> failed_peer h v})
    \<and> discoveryHandler connect out endpoint u h1 = Some h2
    \<and> connectionExists u h2 \<and> (send_ok u \<longrightarrow> peer_live send_ok h2 u)
    \<and> (\<forall>cap. hub_peers h2 cap = hub_peers h1 cap \<union> (if cap \<in> set (ack_Interests ack) then {u} else {}))"
proof -
  have inv: "hub_inv h" using hub_inv_reach[OF assms(1)] .
  from scan_quiet[OF inv assms(2-4)] obtain h1 where h1:
    "scanFailedMeshConnections ok order h = Some h1" "hub_inv h1" "hub_readers h1 = 0"
    "hub_nodeUUID h1 = hub_nodeUUID h" "hub_hasMesh h1 = hub_hasMesh h"
    "\<forall>v. connectionExists v h1 \<longleftrightarrow> connectionExists v h \<and> \<not> failed_peer h v"
    "\<forall>cap. hub_peers h1 cap = {v \<in> hub_peers h cap. \<not> failed_peer h v}" by blast
  have u: "\<not> connectionExists u h1" "u \<noteq> ''''"
    using h1(6) assms(5) inv by (auto simp: failed_peer_def hub_inv_def split: option.split_asm)
  from setupNew_peers[OF h1(2,3) u, of conn "ack_BelongsTo ack" "ack_Interests ack"] obtain h2 where h2:
    "setupNewConnection conn u (ack_BelongsTo ack) (ack_Interests ack) h1 = Some h2" "connectionExists u h2"
    "\<forall>cap. hub_peers h2 cap = hub_peers h1 cap \<union> (if cap \<in> set (ack_Interests ack) then {u} else {})"
    "hub_meshConnections h2 u = Some \<lparr>ch_UUID = u, ch_Conn = Some conn, ch_Signaler = NewSignaler,
         ch_ErrChan = [], ch_BelongsTo = ack_BelongsTo ack, ch_Interests = ack_Interests ack\<rparr>" by blast
  have "discoveryHandler connect out endpoint u h1 = Some h2"
    using u h1(4,5) h2(1) assms(6-11)
    by (simp add: discoveryHandler_def connectEndpoint_def setupOutgoingConnection_def)
  moreover have "send_ok u \<longrightarrow> peer_live send_ok h2 u"
    using h2(4) by (simp add: peer_live_def PeerWithdrawn_def NewSignaler_def)
  ultimately show ?thesis using h1(1,6,7) h2(2,3) by blast
qed

text \<open>The hub with one peer, whose reader has failed.\<close>

definition hub_one_failed :: hub where
  "hub_one_failed = set_handler ''peer''
     (snd (snd (handler_read ReadError (the (hub_meshConnections hub_one ''peer''))))) hub_one"

lemma failed_peer_recovers_witness:
  "\<exists>h1 h2. scanFailedMeshConnections (\<lambda>_. True) [''peer''] hub_one_failed = Some h1 \<and> \<not> connectionExists ''peer'' h1
    \<and> discoveryHandler (\<lambda>_. Inr 2) (\<lambda>_ _. Inr \<lparr>ack_Accept = True, ack_UUID = ''peer'', ack_BelongsTo = '''',
          ack_Interests = [''cap'']\<rparr>) ''host:1'' ''peer'' h1 = Some h2
    \<and> connectionExists ''peer'' h2 \<and> ''peer'' \<in> hub_peers h2 ''cap''"
proof -
  have f: "hub_meshConnections hub_one_failed = [''peer'' \<mapsto>
     \<lparr>ch_UUID = ''peer'', ch_Conn = Some 1, ch_Signaler = NewSignaler, ch_ErrChan = [FromReader],
      ch_BelongsTo = ''*'', ch_Interests = [''cap'']\<rparr>]"
    by (simp add: hub_one_failed_def hub_one_simps set_handler_def handler_read_def SelfWithdrawn_def
        PeerWithdrawn_def NewSignaler_def)
  have h: "hub_readers hub_one_failed = 0" "hub_nodeUUID hub_one_failed = ''node''" "hub_hasMesh hub_one_failed"
    by (simp_all add: hub_one_failed_def set_handler_def hub_one_def handleIncomingConnection_def handshake_callback_def
        initHub_def setupNewConnection_def connectionExists_def hub_addConnection_def)
  have "hub_step hub_one hub_one_failed"
    unfolding hub_one_failed_def
    by (rule hub_read[of _ _ "the (hub_meshConnections hub_one ''peer'')" ReadError]) (auto simp: hub_one_simps prod_eq_iff)
  with hub_one_reach have reach: "hub_step\<^sup>*\<^sup>* (initHub ''node'' ''t'' [] True False) hub_one_failed"
    by (rule rtranclp.rtrancl_into_rtrancl)
  have "quiet hub_one_failed" "failed_peer hub_one_failed ''peer''"
    "set [''peer''] = dom (hub_meshConnections hub_one_failed)" "hub_nodeUUID hub_one_failed \<noteq> ''peer''"
    by (auto simp: quiet_def failed_peer_def f h)
  note hyps = this
  let ?ack = "\<lparr>ack_Accept = True, ack_UUID = ''peer'', ack_BelongsTo = '''', ack_Interests = [''cap'']\<rparr>"
  from failed_peer_recovers[where send_ok = "\<lambda>_. True" and ok = "\<lambda>_. True", OF reach hyps(1) _ hyps(3,2,4) h(3),
      of "\<lambda>_. Inr 2" "''host:1''" 2 "\<lambda>_ _. Inr ?ack" ?ack]
  obtain h1 h2 where "scanFailedMeshConnections (\<lambda>_. True) [''peer''] hub_one_failed = Some h1"
    "\<forall>v. connectionExists v h1 \<longleftrightarrow> connectionExists v hub_one_failed \<and> \<not> failed_peer hub_one_failed v"
    "discoveryHandler (\<lambda>_. Inr 2) (\<lambda>_ _. Inr ?ack) ''host:1'' ''peer'' h1 = Some h2" "connectionExists ''peer'' h2"
    "\<forall>cap. hub_peers h2 cap = hub_peers h1 cap \<union> (if cap \<in> set (ack_Interests ?ack) then {''peer''} else {})"
    by auto
  then show ?thesis using hyps(2) by auto
qed

end
