(* ===== verification/AsyncCounter.thy ===== *)
theory AsyncCounter
  imports Prelude
begin

text \<open>
  The counter that the tests of the bus count callbacks with (\<open>foundation/bus/testutil/asynccoutner.go\<close>):
  \<open>Count\<close> puts a token into a channel from a goroutine of its own, \<open>Wait\<close> polls the channel and the clock.
\<close>

text \<open>The tokens in the channel, its size, and the goroutines that have one to put.\<close>

record async_counter =
  ac_size :: nat
  ac_chan :: "unit list"
  ac_senders :: nat

definition NewAsyncCounter :: "nat \<Rightarrow> async_counter" where
  "NewAsyncCounter n = \<lparr>ac_size = n, ac_chan = [], ac_senders = 0\<rparr>"

definition Counter_Count :: "async_counter \<Rightarrow> async_counter" where
  "Counter_Count a = a\<lparr>ac_senders := Suc (ac_senders a)\<rparr>"

text \<open>A goroutine puts its token, when there is room.\<close>

definition counter_put :: "async_counter \<Rightarrow> async_counter option" where
  "counter_put a =
     (if ac_senders a = 0 then None
      else map_option (\<lambda>ch. a\<lparr>ac_chan := ch, ac_senders := ac_senders a - 1\<rparr>) (chan_send (ac_size a) () (ac_chan a)))"

text \<open>
  A turn of the waiting loop: the goroutines that put their token before it, and the milliseconds that
  have passed when it looks at the clock. \<open>None\<close>: the loop is still running after the given turns.
\<close>

fun counter_puts :: "nat \<Rightarrow> async_counter \<Rightarrow> async_counter" where
  "counter_puts 0 a = a"
| "counter_puts (Suc n) a = (case counter_put a of None \<Rightarrow> a | Some a' \<Rightarrow> counter_puts n a')"

fun wait_loop :: "int \<Rightarrow> (nat \<times> int) list \<Rightarrow> int \<Rightarrow> async_counter \<Rightarrow> (int \<times> async_counter) option" where
  "wait_loop timeoutMs [] count a = None"
| "wait_loop timeoutMs ((puts, elapsed) # turns) count a =
     (let a1 = counter_puts puts a;
          (count', a2) = (case ac_chan a1 of [] \<Rightarrow> (count, a1) | _ # ch \<Rightarrow> (count + 1, a1\<lparr>ac_chan := ch\<rparr>))
      in if elapsed > timeoutMs then Some (count', a2) else wait_loop timeoutMs turns count' a2)"

definition Counter_Wait :: "int \<Rightarrow> int \<Rightarrow> (nat \<times> int) list \<Rightarrow> async_counter \<Rightarrow> (string option \<times> async_counter) option" where
  "Counter_Wait expected timeoutSeconds turns a =
     map_option (\<lambda>(count, a'). (if count \<noteq> expected then Some ''AsyncCoutnter got the incorrect count'' else None, a'))
       (wait_loop (timeoutSeconds * 1000) turns 0 a)"

text \<open>Tokens are neither made nor lost.\<close>

definition tokens :: "async_counter \<Rightarrow> nat" where
  "tokens a = length (ac_chan a) + ac_senders a"

lemma counter_put_tokens: "counter_put a = Some a' \<Longrightarrow> tokens a' = tokens a"
  by (auto simp: counter_put_def tokens_def chan_send_def split: if_split_asm)

lemma counter_puts_tokens: "tokens (counter_puts n a) = tokens a"
  by (induction n arbitrary: a) (auto simp: counter_put_tokens split: option.split)

lemma wait_loop_tokens:
  "wait_loop timeoutMs turns count a = Some (count', a') \<Longrightarrow> count' + int (tokens a') = count + int (tokens a)"
proof (induction turns arbitrary: count a)
  case (Cons t turns)
  obtain puts elapsed where t: "t = (puts, elapsed)" by force
  let ?a = "counter_puts puts a"
  have k: "tokens ?a = tokens a" by (rule counter_puts_tokens)
  show ?case
  proof (cases "ac_chan ?a")
    case Nil
    with Cons.prems Cons.IH[of count ?a] k show ?thesis by (auto simp: t Let_def split: if_split_asm)
  next
    case (Cons u ch)
    then have "tokens ?a = Suc (tokens (?a\<lparr>ac_chan := ch\<rparr>))" by (simp add: tokens_def)
    with Cons Cons.prems Cons.IH[of "count + 1" "?a\<lparr>ac_chan := ch\<rparr>"] k show ?thesis
      by (auto simp: t Let_def split: if_split_asm)
  qed
qed simp

text \<open>
  \<open>Wait\<close> never answers before its time is over, however early the total is reached; and it answers no
  error only when exactly the expected number was counted, tokens over and above included.
\<close>

lemma wait_only_times_out:
  "\<forall>(puts, elapsed) \<in> set turns. elapsed \<le> timeoutSeconds * 1000 \<Longrightarrow> Counter_Wait expected timeoutSeconds turns a = None"
proof -
  have "\<forall>(puts, elapsed) \<in> set turns. elapsed \<le> t \<Longrightarrow> wait_loop t turns count a = None" for t count
    by (induction turns arbitrary: count a) (auto simp: Let_def split: list.split)
  then show "\<forall>(puts, elapsed) \<in> set turns. elapsed \<le> timeoutSeconds * 1000 \<Longrightarrow> ?thesis" by (simp add: Counter_Wait_def)
qed

lemma wait_counts:
  assumes "Counter_Wait expected timeoutSeconds turns a = Some (None, a')"
  shows "expected + int (tokens a') = int (tokens a)"
  using assms wait_loop_tokens[of "timeoutSeconds * 1000" turns 0 a expected a']
  by (auto simp: Counter_Wait_def split: if_split_asm)

end
