(* ===== verification/Spec2Isabelle.thy ===== *)
theory Spec2Isabelle
  imports MessageBus Hub AuthCache WorkerPool Schedules Syncer SatBackend WasmRunner Linker SatNode PodWait Websocket Bridge Bus
    Peer Courier Mesh Service SourceServer Signaler Process JobRun Common Recovery AsyncCounter
begin

text \<open>
  Suborbital E2 Core runs third-party plugins, compiled to WebAssembly, behind an HTTP server. This
  development models the program's own logic, Go sources under \<open>src/\<close>, and proves what makes each part
  correct, or, where the code is wrong, exactly how it is wrong.

  The parts and how they meet. An HTTP request names a plugin. The authorization middleware
  (\<open>e2core/auth\<close>) checks its token, keeping decisions in a loading cache (\<open>foundation/common\<close>). The
  syncer (\<open>e2core/syncer\<close>), a job run each second by the scheduler, keeps a copy of the tenants and their
  modules from the control plane, in which the handler (\<open>e2core/server\<close>) finds the plugin. It makes a
  sequence of steps (\<open>e2core/sequence\<close>) and the dispatcher executes it: the first step is tunnelled over
  the bus to a node that can run it, and the results come back as bus messages. The bus
  (\<open>foundation/bus\<close>) delivers messages within a process from pod to pod, and its hub exchanges them with
  other nodes. The process backend (\<open>e2core/backend/satbackend\<close>) starts and stops the nodes. A node (Sat)
  turns a message into a job of the scheduler (\<open>foundation/scheduler\<close>), whose worker runs it in an
  instance of the plugin's module (\<open>sat/engine2\<close>); the module calls back into the host for its request,
  the network, and to hand over its result.

  Conventions. Pointers that are shared are addresses into a store, records are the Go structs with the
  fields the code uses, maps are partial functions, byte strings are character strings. A panic is the
  left side of a sum (type \<open>go\<close> of \<open>Prelude\<close>); an operation that can block or loop for ever answers an
  option of that (type \<open>prog\<close>), \<open>None\<close> being no return, so "it returns" is always part of what is proved.
  Go errors are ordinary values. Random numbers, clock readings, the order in which Go visits a map and
  the choice of \<open>select\<close> between ready channels are arguments. A lock makes an operation one step; where
  code holds a lock across something that can wait, the lock is in the model.

  The theories.

  \<^item> \<open>Prelude\<close>: panics and the two result types with their elimination rules, slices, \<open>copy\<close>, channels
    with a bound, lists read as rings, the collections \<open>go_simps\<close> and \<open>inv_intros\<close>, and the contracts of step relations,
    \<open>step_system\<close> (an invariant), \<open>ending_system\<close> (every run ends, with a bound) and \<open>descending_system\<close> (no
    run is infinite), which the components interpret.
    \<open>Paths\<close>: the path and
    string functions of Go's standard library the code uses. \<open>Encodings\<close>: what is assumed of a JSON encoding
    and its decoder (\<open>encoding\<close>), with a concrete encoding for the witnesses.

  \<^item> \<open>Balancer\<close>, \<open>Message\<close>, \<open>MsgBuffer\<close>, \<open>MessageFilter\<close> (\<open>foundation/bus/bus/tunnel/balancer.go\<close>,
    \<open>message.go\<close>, \<open>msgbuffer.go\<close>, \<open>filter.go\<close>). The contract of a round-robin list is the locale
    \<open>round_robin\<close>, interpreted for the balancer and for the reading of the buffer. The lemmas relate the ring
    buffer to the list of the last messages and the balancer to a rotated list.

  \<^item> \<open>Pod\<close>, \<open>PodRing\<close>, \<open>MessageBus\<close> (\<open>pod.go\<close>, \<open>podconnection.go\<close>, \<open>pool.go\<close>, \<open>messagebus.go\<close>): pods with
    their filter, the circular list of connections on a store of addresses, the health check of a
    connection and the bus loop. The lemmas relate the linked ring to a list of addresses: insertion,
    removal and the walk of a message around it, whose loops are partial functions shown to end.

  \<^item> \<open>PodWait\<close> (\<open>pod.go\<close>, \<open>receipt.go\<close>, \<open>timeout.go\<close>): one wait on a pod, with the goroutines that handle
    its messages, as a step relation over the read-write lock and the unbuffered channel they share. A
    measure shows that every run ends; an invariant says with what.

  \<^item> \<open>Peer\<close> (\<open>pod.go\<close>, \<open>podconnection.go\<close>, \<open>messagebus.go\<close>): one process at work, with its bus loop, the
    goroutines that hand messages to pods and those that run callbacks, and owners that send, as one step
    relation. Its invariant accounts for every message at every pod, its measure shows that the process
    comes to rest; callbacks answer no error here, and no pod disconnects or asks for a replay.

  \<^item> \<open>Connection\<close>, \<open>Hub\<close> (\<open>connectionhandler.go\<close>, \<open>withdraw/signaler.go\<close>, \<open>hub.go\<close>, \<open>transport.go\<close>):
    handshakes, the tables of connections and of capability balancers, broadcasting, tunnels, failed
    connections and withdrawal. An invariant over all reachable hubs ties the balancers to the
    connections. The retry count of a tunnel, 32, is the code's.

  \<^item> \<open>Websocket\<close>, \<open>Bridge\<close> (\<open>foundation/bus/transport\<close>): the websocket connection frame by frame, with the
    handshakes two hubs make over it; the Kafka and NATS bridges between a topic and a pod. \<open>Bus\<close>
    (\<open>bus.go\<close>, \<open>options.go\<close>, \<open>discovery/local\<close>): the facade over bus, pods and hub, and discovery.
    \<open>Recovery\<close>: what a scan takes out of a hub, and how discovery brings it back. \<open>Courier\<close>: any number of
    processes with the connections of their hubs, broadcasts and readers interleaved, as one step relation
    over those of \<open>Peer\<close>; connections neither fail nor change there, and messages have distinct identifiers.

  \<^item> \<open>LoadingCache\<close>, \<open>AuthCache\<close> (\<open>foundation/common/cache.go\<close>, \<open>e2core/auth\<close>): entries and their states,
    loaders as goroutines, callers parked on the condition variable, and the invariant that no wake-up is
    lost; on top of it the cache of decisions, the client and the middleware. The store is the locale
    \<open>cache_store\<close>, interpreted for the map store.

  \<^item> \<open>Results\<close>, \<open>WorkerPool\<close>, \<open>Schedules\<close>, \<open>Core\<close>, \<open>JobRun\<close> (\<open>foundation/scheduler\<close>, \<open>sat/engine2/engine.go\<close>): jobs,
    results and groups in a heap, contexts, replies to messages; workers with their threads,
    reconciliation and scaling; schedules and the watcher that runs them; the scheduler over all of these,
    the autoscaler's turns and the metrics, a thread's turns with time-outs. Threads are
    a step relation; retries are bounded by the code's count. \<open>Signaler\<close> (\<open>foundation/signaler\<close>): tasks,
    signals and the wait for them as a step relation. \<open>Common\<close> (\<open>foundation/common\<close>): errors, references
    and clocks. \<open>AsyncCounter\<close> (\<open>foundation/bus/testutil\<close>): the counter the tests of the bus wait on.

  \<^item> \<open>Dispatch\<close> (\<open>e2core/sequence\<close>, \<open>e2core/server/dispatcher.go\<close>, \<open>handlers.go\<close>) and \<open>Syncer\<close>: sequences, one
    execution against the results that arrive, the callback table with its lock as a step relation, the
    plugin handler; the copy of the control plane's state.

  \<^item> \<open>SatBackend\<close> (\<open>e2core/backend/satbackend\<close>): the watcher of a module's processes and its wait group, the
    reconciliation turn, launches, process ends and shutdown, with an invariant over all their orders.

  \<^item> \<open>WasmInstance\<close>, \<open>WasmApi\<close>, \<open>WasmRunner\<close> (\<open>sat/engine2\<close>): instances, the identifiers that name them
    across the boundary, the pool; every host function, with integers from the guest as 32-bit words read as
    signed; one job in a module. Lemma collections state what each host function changes (\<open>frames\<close>), how
    it can panic (\<open>panics\<close>) and that it leaves results alone (\<open>keeping\<close>). The guest's code is not under the
    repository: a run of it is the list of what it does, memory it leaves and host functions it calls.

    \<open>Linker\<close> (\<open>runtime/pool.go\<close>, \<open>api.go\<close>): the host's functions as the linker gets them, with the types the
    module sees, and the pool's own instances.

  \<^item> \<open>SatNode\<close> (\<open>sat/sat/handler.go\<close>, \<open>meshed.go\<close>): what a node makes of a job's outcome, and the passing of
    a sequence from node to node, \<open>mesh_run\<close>, whose fuel is the number of nodes visited and never needs to
    exceed the number of steps. \<open>Mesh\<close>: any number of requests at once, the messages under way between
    dispatcher and nodes as a multiset, delivered, lost or overtaken in any order, as one step relation.
    \<open>Service\<close>: the same requests with the processes of \<open>Courier\<close> under them. A job is a message that is
    tunnelled, a result one that is broadcast; every step is shown to be a step of \<open>Mesh\<close>, whose multisets of
    messages are what pods have still to hear, or to bring the network nearer to its rest.

  \<^item> \<open>Settings\<close>, \<open>SatConfig\<close> (\<open>e2core/options\<close>, \<open>e2core/command/start.go\<close>, \<open>server/init.go\<close>,
    \<open>sat/sat/config.go\<close>, \<open>from_url.go\<close>, \<open>sat/sat/options\<close>, \<open>satbackend/exec\<close>): how E2 Core and its nodes are
    configured, and what a launched node finds in its environment. \<open>SourceServer\<close> (\<open>e2core/sourceserver\<close>):
    the routes a node asks for its module. \<open>Lifecycle\<close>, \<open>Process\<close> (\<open>sat/sat/sat.go\<close>, \<open>sat/monitor.go\<close>,
    \<open>process/info.go\<close>, \<open>sat/main.go\<close>, \<open>e2core/server/server.go\<close>, \<open>e2core/command\<close>): construction, start and
    end of a node and of E2 Core.

  The properties are numbered C1, C2, ... in their theories, in order of importance over all theories.
  Each that has hypotheses has a theorem, named after it with \<open>_witness\<close>, that applies it at a concrete
  input where they hold. Theorems without a number are part of the library.

  Parameters. Code outside the repository is an argument: the client libraries below the transports, the
  HTTP client and server, the JSON encoding, the runnable of a worker, the control plane as a source of
  answers, the environment, files, operating-system processes and signals, the capabilities of the Wasm
  host, the observability library.

  Not modelled: command-line parsing, logging and HTTP wiring; what is measured and traced; what the client
  libraries of Kafka, NATS and multicast do; compiling and running a module, which is wasmtime's; programs for
  testing by hand, examples and guest modules. \<open>Courier\<close> and \<open>Service\<close> leave failures out: what a failed
  connection, a time-out, an error of a callback or a disconnected pod does is in the theories of the parts.
\<close>

section \<open>A request from end to end\<close>

lemma New_parts:
  "New encode steps req = Inr seq \<Longrightarrow> encode (sq_steps seq) = Some (rq_SequenceJSON (sq_req seq))
     \<and> sq_steps seq = map (\<lambda>s. s\<lparr>st_Completed := False\<rparr>) steps
     \<and> rq_State (sq_req seq) = rq_State req \<and> rq_RespHeaders (sq_req seq) = rq_RespHeaders req"
  by (auto simp: New_def newWithSteps_def createUncompletedSteps_def split: option.split_asm)

text \<open>
  C7: A sequence of single steps, each tunnelled from node to node and each module answering: the nodes
  run the modules of the steps in their order, every module sees the outputs of those before it in the
  request's state, and the dispatcher, given the results the nodes send, completes without an error with
  every output in the state.
\<close>

theorem request_end_to_end:
  assumes "encoding encode decode" "\<And>fqmn r. \<exists>resp. runs fqmn r = FnResponse resp"
    and "steps \<noteq> []" "\<forall>s \<in> set steps. st_IsSingle s" "New encode steps req = Inr seq"
    and "rq_State req = Some st" "rq_RespHeaders req = Some hs"
  shows "\<exists>rs seq'. mesh_run decode encode runs (length steps) (st_FQMN (hd steps)) (sq_req seq) = Inr rs
    \<and> map er_FQMN rs = map st_FQMN steps
    \<and> (\<forall>k < length steps. \<exists>req_k. runs (st_FQMN (steps ! k)) req_k = FnResponse (the (er_Response (rs ! k)))
          \<and> rq_State req_k = Some (result_state (take k rs) st))
    \<and> Execute True (map Some rs) seq = Some (Inr (None, seq'))
    \<and> rq_State (sq_req seq') = Some (result_state rs st)"
proof -
  note p = New_parts[OF assms(5)]
  let ?steps = "map (\<lambda>s. s\<lparr>st_Completed := False\<rparr>) steps"
  have "encode ([] @ ?steps) = Some (rq_SequenceJSON (sq_req seq))" "?steps \<noteq> []"
    "\<forall>x \<in> set ?steps. \<not> st_Completed x" "rq_State (sq_req seq) = Some st" "rq_RespHeaders (sq_req seq) = Some hs"
    using p assms(3,6,7) by auto
  from mesh_run_good[of encode decode runs, OF assms(1,2) this(1) _ this(3,2) _ this(4,5), of "length steps"] obtain rs where rs:
    "mesh_run decode encode runs (length steps) (st_FQMN (hd ?steps)) (sq_req seq) = Inr rs"
    "map er_FQMN rs = map st_FQMN ?steps" "\<forall>r \<in> set rs. good_result r"
    "\<forall>k < length ?steps. \<exists>req_k. runs (st_FQMN (?steps ! k)) req_k = FnResponse (the (er_Response (rs ! k)))
          \<and> rq_State req_k = Some (result_state (take k rs) st)"
    by auto
  have m: "map st_FQMN ?steps = map st_FQMN steps" "st_FQMN (hd ?steps) = st_FQMN (hd steps)"
    using assms(3) by (auto simp: hd_map)
  then have "length rs = length steps" using rs(2) by (metis length_map)
  from execute_all_good[OF assms(3,4) this assms(5) rs(3) assms(6,7)] obtain seq' where
    "Execute True (map Some rs) seq = Some (Inr (None, seq'))" "rq_State (sq_req seq') = Some (result_state rs st)"
    by blast
  with rs m show ?thesis by (intro exI[of _ rs] exI[of _ seq']) auto
qed

lemma request_end_to_end_witness:
  "\<exists>rs seq'. mesh_run (\<lambda>s. dec_steps (length s) s) (\<lambda>ss. Some (enc_steps ss)) example_modules
        (length example_steps) (st_FQMN (hd example_steps))
        (example_req\<lparr>rq_SequenceJSON := enc_steps example_steps\<rparr>) = Inr rs
    \<and> map er_FQMN rs = [''a'', ''b'']
    \<and> Execute True (map Some rs) \<lparr>sq_steps = example_steps,
         sq_req = example_req\<lparr>rq_SequenceJSON := enc_steps example_steps\<rparr>\<rparr> = Some (Inr (None, seq'))"
proof -
  have new: "New (\<lambda>ss. Some (enc_steps ss)) example_steps example_req
      = Inr \<lparr>sq_steps = example_steps, sq_req = example_req\<lparr>rq_SequenceJSON := enc_steps example_steps\<rparr>\<rparr>"
    by (simp add: New_def newWithSteps_def createUncompletedSteps_def example_steps_def)
  have s: "example_steps \<noteq> []" "\<forall>s \<in> set example_steps. st_IsSingle s" "map st_FQMN example_steps = [''a'', ''b'']"
    by (simp_all add: example_steps_def)
  have r: "rq_State example_req = Some Map.empty" "rq_RespHeaders example_req = Some Map.empty"
    by (simp_all add: example_req_def)
  have "\<exists>resp. example_modules fqmn r = FnResponse resp" for fqmn r by (simp add: example_modules_def)
  from request_end_to_end[of _ _ example_modules, OF example_encoding this s(1,2) new r] show ?thesis
    unfolding s(3) by auto
qed


text \<open>
  C15: A step that fails stops the request: when a module in the middle of a sequence ends with an error
  that says something, the nodes of the steps after it never run; the dispatcher gets the results of the
  steps before it and the error, in this order, and ends with exactly that error, the outputs of the
  steps before it in the state.
\<close>

theorem failed_step_stops_mesh:
  assumes "encoding encode decode" "steps = before @ b # rest" "\<forall>s \<in> set steps. st_IsSingle s"
    and "\<forall>s \<in> set before. \<forall>r. \<exists>resp. runs (st_FQMN s) r = FnResponse resp"
    and "\<forall>r. runs (st_FQMN b) r = FnFailed e" "step_error e = Some f" "New encode steps req = Inr seq"
    and "rq_State req = Some st" "rq_RespHeaders req = Some hs"
  shows "\<exists>rs seq'. mesh_run decode encode runs (length steps) (st_FQMN (hd steps)) (sq_req seq)
        = Inr (rs @ [error_result (st_FQMN b) e])
    \<and> map er_FQMN rs = map st_FQMN before
    \<and> Execute True (map Some (rs @ [error_result (st_FQMN b) e])) seq = Some (Inr (Some (StepFailed f), seq'))
    \<and> rq_State (sq_req seq') = Some (result_state rs st)"
proof -
  note p = New_parts[OF assms(7)]
  let ?u = "\<lambda>s. s\<lparr>st_Completed := False\<rparr>"
  have steps: "sq_steps seq = [] @ map ?u before @ ?u b # map ?u rest"
    and maps: "rq_State (sq_req seq) = Some st" "rq_RespHeaders (sq_req seq) = Some hs"
    using p assms(2,8,9) by auto
  have enc: "encode ([] @ map ?u before @ ?u b # map ?u rest) = Some (rq_SequenceJSON (sq_req seq))"
    using conjunct1[OF p] unfolding steps .
  have fresh: "\<forall>x \<in> set (map ?u before @ ?u b # map ?u rest). \<not> st_Completed x" by auto
  have "\<exists>rs. mesh_run decode encode runs (length steps) (st_FQMN (hd (map ?u before @ [?u b]))) (sq_req seq)
      = Inr (rs @ [error_result (st_FQMN (?u b)) e]) \<and> map er_FQMN rs = map st_FQMN (map ?u before) \<and> (\<forall>r \<in> set rs. good_result r)"
    using assms(2,4,5) by (intro mesh_run_fails[OF assms(1) _ assms(6) _ enc _ fresh _ maps]) auto
  then obtain rs where rs: "mesh_run decode encode runs (length steps) (st_FQMN (hd steps)) (sq_req seq)
      = Inr (rs @ [error_result (st_FQMN b) e])" "map er_FQMN rs = map st_FQMN before" "\<forall>r \<in> set rs. good_result r"
    using assms(2) by (cases before) (auto simp: comp_def)
  have "length rs = length (map ?u before)" using rs(2) by (metis length_map)
  moreover have single: "\<forall>x \<in> set (map ?u before @ [?u b]). \<not> st_Completed x \<and> st_IsSingle x"
    using assms(2,3) by auto
  ultimately obtain seq' where "execute_loop (map Some rs @ [Some (error_result (st_FQMN b) e)]) seq
      = Some (Inr (Some (StepFailed f), seq'))" "rq_State (sq_req seq') = Some (result_state rs st)"
    using execute_loop_fails[OF steps _ single _ rs(3) assms(6) maps, of "st_FQMN b" "[]"] by fastforce
  moreover have "NextStep seq = Some 0" "st_IsSingle (sq_steps seq ! 0)"
    using steps assms(2,3) by (cases before; simp add: NextStep_def)+
  ultimately show ?thesis using rs by (auto simp: Execute_single)
qed

lemma failed_step_stops_mesh_witness:
  "\<exists>rs seq'. mesh_run (\<lambda>s. dec_steps (length s) s) (\<lambda>ss. Some (enc_steps ss)) failing_modules
        (length (example_steps @ example_steps)) (st_FQMN (hd (example_steps @ example_steps)))
        (example_req\<lparr>rq_SequenceJSON := enc_steps (example_steps @ example_steps)\<rparr>)
      = Inr (rs @ [error_result ''b'' (FnRunErr 500 ''boom'')]) \<and> map er_FQMN rs = [''a'']
    \<and> Execute True (map Some (rs @ [error_result ''b'' (FnRunErr 500 ''boom'')]))
        \<lparr>sq_steps = example_steps @ example_steps,
         sq_req = example_req\<lparr>rq_SequenceJSON := enc_steps (example_steps @ example_steps)\<rparr>\<rparr>
      = Some (Inr (Some (StepFailed (SeqRunErr 500 ''boom'')), seq'))"
proof -
  have new: "New (\<lambda>ss. Some (enc_steps ss)) (example_steps @ example_steps) example_req
      = Inr \<lparr>sq_steps = example_steps @ example_steps,
             sq_req = example_req\<lparr>rq_SequenceJSON := enc_steps (example_steps @ example_steps)\<rparr>\<rparr>"
    by (simp add: New_def newWithSteps_def createUncompletedSteps_def example_steps_def)
  have split: "example_steps @ example_steps = [example_steps ! 0] @ example_steps ! 1 # example_steps"
    by (simp add: example_steps_def)
  have s: "\<forall>s \<in> set (example_steps @ example_steps). st_IsSingle s"
    "\<forall>s \<in> set [example_steps ! 0]. \<forall>r. \<exists>resp. failing_modules (st_FQMN s) r = FnResponse resp"
    "\<forall>r. failing_modules (st_FQMN (example_steps ! 1)) r = FnFailed (FnRunErr 500 ''boom'')"
    "step_error (FnRunErr 500 ''boom'') = Some (SeqRunErr 500 ''boom'')"
    by (simp_all add: example_steps_def failing_modules_def example_modules_def step_error_def)
  have names: "st_FQMN (example_steps ! 1) = ''b''" "map st_FQMN [example_steps ! 0] = [''a'']"
    by (simp_all add: example_steps_def)
  have r: "rq_State example_req = Some Map.empty" "rq_RespHeaders example_req = Some Map.empty"
    by (simp_all add: example_req_def)
  from failed_step_stops_mesh[of _ _ _ _ _ _ failing_modules, OF example_encoding split s new r] show ?thesis
    unfolding names by auto
qed

end
